(* ===== verification/Prelude.thy ===== *)
theory Prelude
  imports Main "HOL-Library.Word" "HOL-Library.Multiset"
begin

unbundle bit_operations_syntax

text \<open>
  Shared vocabulary of the development: names for the machine integers of the C sources,
  the byte order helpers, the result type of code that may run forever, and the generic
  lemmas on words and lists that the component theories use. The named collections
  \<open>cmodel\<close> (definitions of straight-line code, unfolded together) and \<open>wordeval\<close>
  (rewrite rules for closed word terms) are filled by the component theories.
\<close>

section \<open>Machine integers\<close>

type_synonym u8 = "8 word"
type_synonym u16 = "16 word"
type_synonym u32 = "32 word"
type_synonym u64 = "64 word"

named_theorems cmodel "definitions of straight-line C code"
named_theorems wordeval "rules that evaluate closed word terms"

declare mask_numeral [wordeval]

text \<open>A C character constant as the byte it stands for.\<close>

definition chr8 :: "char \<Rightarrow> u8" where
  "chr8 c = of_char c"

text \<open>The bytes of a string literal, without its terminating zero.\<close>

definition cstr :: "string \<Rightarrow> u8 list" where
  "cstr s = map of_char s"

lemma cstr_Nil [simp]: "cstr [] = []"
  by (simp add: cstr_def)

lemma cstr_append: "cstr (s @ t) = cstr s @ cstr t"
  by (simp add: cstr_def)

lemma length_cstr [simp]: "length (cstr s) = length s"
  by (simp add: cstr_def)

section \<open>Little-endian byte order\<close>

definition le32 :: "u8 \<Rightarrow> u8 \<Rightarrow> u8 \<Rightarrow> u8 \<Rightarrow> u32" where
  "le32 b0 b1 b2 b3 =
     ucast b0 OR push_bit 8 (ucast b1) OR push_bit 16 (ucast b2) OR push_bit 24 (ucast b3)"

definition le32_bytes :: "u32 \<Rightarrow> u8 list" where
  "le32_bytes w = [ucast w, ucast (drop_bit 8 w), ucast (drop_bit 16 w), ucast (drop_bit 24 w)]"

lemma length_le32_bytes [simp]: "length (le32_bytes w) = 4"
  by (simp add: le32_bytes_def)

lemma le32_of_bytes [simp]:
  "le32 (ucast w) (ucast (drop_bit 8 w)) (ucast (drop_bit 16 w)) (ucast (drop_bit 24 w)) = w"
proof (rule bit_word_eqI)
  fix n assume "n < LENGTH(32)"
  then consider "n < 8" | "8 \<le> n" "n < 16" | "16 \<le> n" "n < 24" | "24 \<le> n" "n < 32"
    by fastforce
  then show "bit (le32 (ucast w) (ucast (drop_bit 8 w)) (ucast (drop_bit 16 w))
      (ucast (drop_bit 24 w))) n = bit w n"
    by cases (auto simp: le32_def bit_simps)
qed

text \<open>Eight bytes, the least significant one first.\<close>

definition le64 :: "(nat \<Rightarrow> u8) \<Rightarrow> u64" where
  "le64 f = ucast (le32 (f 0) (f 1) (f 2) (f 3)) OR push_bit 32 (ucast (le32 (f 4) (f 5) (f 6) (f 7)))"

section \<open>Generic lemmas\<close>

lemma nat_less16_cases:
  "(d::nat) < 16 \<Longrightarrow> d \<in> {15, 14, 13, 12, 11, 10, 9, 8, 7, 6, 5, 4, 3, 2, 1, 0}"
  unfolding insert_iff empty_iff by arith

lemma ucast_u8_u32 [simp]: "ucast (ucast (x :: u8) :: u32) = x"
  by (rule bit_word_eqI) (auto simp: bit_simps)

lemma upt_0_4: "[0..<4] = [0, 1, 2, 3]"
  by code_simp

lemma unat_u32_less: "unat (v :: u32) < 4294967296"
  using unsigned_less [of v, where 'a = nat] by simp

lemma unat_of_nat_u32: "n < 4294967296 \<Longrightarrow> unat (of_nat n :: u32) = n"
  by (simp add: unat_of_nat)

lemma uint_of_nat_u32: "n < 4294967296 \<Longrightarrow> uint (of_nat n :: u32) = int n"
  by (metis of_nat_unat unat_of_nat_u32)

lemma unat_minus1_u32: "unat (- 1 :: u32) = 4294967295"
  by (simp add: unsigned_minus_1_eq_mask mask_eq_exp_minus_1)

lemma unat_plus1_u32:
  assumes "x < (y :: u32)"
  shows "unat (x + 1) = Suc (unat x)" "unat x < unat y"
proof -
  show l: "unat x < unat y" using assms by (simp add: word_less_nat_alt)
  with unat_u32_less [of y] have "Suc (unat x) < 4294967296" by simp
  then show "unat (x + 1) = Suc (unat x)" by (simp add: unat_word_ariths)
qed

lemma and_u32_ff: "(x :: u32) AND 0xff = take_bit 8 x"
  by (simp add: take_bit_eq_mask mask_numeral)

lemma unat_and_u32_fff: "unat ((x :: u32) AND 0xfff) = unat x mod 4096"
proof -
  have "x AND 0xfff = take_bit 12 x" by (simp add: take_bit_eq_mask mask_numeral)
  then have "unat (x AND 0xfff) = take_bit 12 (unat x)" by (simp only: unsigned_take_bit_eq)
  then show ?thesis by (simp add: take_bit_eq_mod)
qed

lemma list_update_take_drop:
  "i < length xs \<Longrightarrow> xs[i := x] = take i xs @ x # drop (Suc i) xs"
  by (rule upd_conv_take_nth_drop)

lemma mset_swap_nth:
  assumes "i < length xs" "j < length xs"
  shows "mset (xs[i := xs ! j, j := xs ! i]) = mset xs"
  using assms by (cases "i = j") (auto simp: mset_swap)

end
