(* ===== verification/Rv_Insn.thy ===== *)
theory Rv_Insn
  imports Prelude
begin

text \<open>
  The three RV32 instructions that the RIPE shellcode is made of, as the instruction-set
  simulator shipped with the repository executes them: instruction fields and immediates of
  \<open>tb/riscv-isa-sim/riscv/decode.h\<close> and the bodies of \<open>insns/lui.h\<close>,
  \<open>insns/addi.h\<close> and \<open>insns/jalr.h\<close>, at XLEN 32. An instruction word is held sign
  extended in 64 bits by the simulator; at XLEN 32 the fields and immediates only depend on
  its low 32 bits.
\<close>

unbundle bit_operations_syntax

record hart =
  xpr :: "u32 \<Rightarrow> u32"
  hpc :: u32

text \<open>The field extractor \<open>x(lo, len)\<close> and the register fields built from it.\<close>

definition insn_x :: "u32 \<Rightarrow> nat \<Rightarrow> nat \<Rightarrow> u32" where
  "insn_x b lo len = drop_bit lo b AND (push_bit len 1 - 1)"

definition insn_rd :: "u32 \<Rightarrow> u32" where
  "insn_rd b = insn_x b 7 5"

definition insn_rs1 :: "u32 \<Rightarrow> u32" where
  "insn_rs1 b = insn_x b 15 5"

definition insn_i_imm :: "u32 \<Rightarrow> u32" where
  "insn_i_imm b = signed_drop_bit 20 b"

definition insn_u_imm :: "u32 \<Rightarrow> u32" where
  "insn_u_imm b = push_bit 12 (signed_drop_bit 12 b)"

text \<open>Register file writes leave register 0 alone.\<close>

definition regfile_write :: "(u32 \<Rightarrow> u32) \<Rightarrow> u32 \<Rightarrow> u32 \<Rightarrow> (u32 \<Rightarrow> u32)" where
  "regfile_write r i v = (if i \<noteq> 0 then r(i := v) else r)"

definition exec_lui :: "u32 \<Rightarrow> hart \<Rightarrow> hart" where
  "exec_lui b h = h\<lparr>xpr := regfile_write (xpr h) (insn_rd b) (insn_u_imm b), hpc := hpc h + 4\<rparr>"

definition exec_addi :: "u32 \<Rightarrow> hart \<Rightarrow> hart" where
  "exec_addi b h =
     h\<lparr>xpr := regfile_write (xpr h) (insn_rd b) (xpr h (insn_rs1 b) + insn_i_imm b),
       hpc := hpc h + 4\<rparr>"

definition exec_jalr :: "u32 \<Rightarrow> hart \<Rightarrow> hart" where
  "exec_jalr b h =
     h\<lparr>xpr := regfile_write (xpr h) (insn_rd b) (hpc h + 4),
       hpc := (xpr h (insn_rs1 b) + insn_i_imm b) AND NOT 1\<rparr>"

text \<open>
  Decoding by the match and mask pairs of \<open>encoding.h\<close>. An instruction word that is none
  of the three is not modelled: \<open>None\<close>.
\<close>

definition exec_insn :: "u32 \<Rightarrow> hart \<Rightarrow> hart option" where
  "exec_insn b h =
     (if b AND 0x7f = 0x37 then Some (exec_lui b h)
      else if b AND 0x707f = 0x13 then Some (exec_addi b h)
      else if b AND 0x707f = 0x67 then Some (exec_jalr b h)
      else None)"

text \<open>Straight-line execution of a code region held as bytes, one 4-byte fetch at a time.\<close>

fun exec_bytes :: "u8 list \<Rightarrow> hart \<Rightarrow> hart option" where
  "exec_bytes (b0 # b1 # b2 # b3 # rest) h =
     Option.bind (exec_insn (le32 b0 b1 b2 b3) h) (exec_bytes rest)"
| "exec_bytes [] h = Some h"
| "exec_bytes _ h = None"

end
