(* ===== verification/Ripe_Params.thy ===== *)
theory Ripe_Params
  imports Prelude
begin

text \<open>
  Attack forms of the RIPE suite: the enumerations and name tables of
  \<open>ripe_attack_parameters.h\<close>, the attack record, the ten forms that \<open>main\<close> can be
  compiled with (\<open>ATTACK_NR\<close>), the test report line of
  \<open>print_current_test_parameters\<close>, and the feasibility check
  \<open>is_attack_possible\<close>. The enumerations are datatypes, so the \<open>default\<close> branches
  for values outside an enumeration do not arise.
\<close>

section \<open>Enumerations and tables\<close>

datatype technique = DIRECT | INDIRECT

datatype inject_param =
  INJECTED_CODE_NO_NOP | RETURN_INTO_LIBC | RETURN_ORIENTED_PROGRAMMING | DATA_ONLY

datatype code_ptr =
  RET_ADDR | FUNC_PTR_STACK_VAR | FUNC_PTR_STACK_PARAM | FUNC_PTR_HEAP | FUNC_PTR_BSS
| FUNC_PTR_DATA | LONGJMP_BUF_STACK_VAR | LONGJMP_BUF_STACK_PARAM | LONGJMP_BUF_HEAP
| LONGJMP_BUF_BSS | LONGJMP_BUF_DATA | STRUCT_FUNC_PTR_STACK | STRUCT_FUNC_PTR_HEAP
| STRUCT_FUNC_PTR_DATA | STRUCT_FUNC_PTR_BSS | VAR_BOF | VAR_IOF | VAR_LEAK

datatype location = STACK | HEAP | BSS | DATA

datatype ripe_function =
  MEMCPY | STRCPY | STRNCPY | SPRINTF | SNPRINTF | STRCAT | STRNCAT | SSCANF | HOMEBREW

record attack_form =
  technique :: technique
  inject_param :: inject_param
  code_ptr :: code_ptr
  location :: location
  function_f :: ripe_function

text \<open>The integer values C gives the enumeration constants.\<close>

primrec technique_val :: "technique \<Rightarrow> nat" where
  "technique_val DIRECT = 100"
| "technique_val INDIRECT = 101"

primrec inject_param_val :: "inject_param \<Rightarrow> nat" where
  "inject_param_val INJECTED_CODE_NO_NOP = 200"
| "inject_param_val RETURN_INTO_LIBC = 201"
| "inject_param_val RETURN_ORIENTED_PROGRAMMING = 202"
| "inject_param_val DATA_ONLY = 203"

primrec code_ptr_val :: "code_ptr \<Rightarrow> nat" where
  "code_ptr_val RET_ADDR = 300"
| "code_ptr_val FUNC_PTR_STACK_VAR = 301"
| "code_ptr_val FUNC_PTR_STACK_PARAM = 302"
| "code_ptr_val FUNC_PTR_HEAP = 303"
| "code_ptr_val FUNC_PTR_BSS = 304"
| "code_ptr_val FUNC_PTR_DATA = 305"
| "code_ptr_val LONGJMP_BUF_STACK_VAR = 306"
| "code_ptr_val LONGJMP_BUF_STACK_PARAM = 307"
| "code_ptr_val LONGJMP_BUF_HEAP = 308"
| "code_ptr_val LONGJMP_BUF_BSS = 309"
| "code_ptr_val LONGJMP_BUF_DATA = 310"
| "code_ptr_val STRUCT_FUNC_PTR_STACK = 311"
| "code_ptr_val STRUCT_FUNC_PTR_HEAP = 312"
| "code_ptr_val STRUCT_FUNC_PTR_DATA = 313"
| "code_ptr_val STRUCT_FUNC_PTR_BSS = 314"
| "code_ptr_val VAR_BOF = 315"
| "code_ptr_val VAR_IOF = 316"
| "code_ptr_val VAR_LEAK = 317"

primrec location_val :: "location \<Rightarrow> nat" where
  "location_val STACK = 400"
| "location_val HEAP = 401"
| "location_val BSS = 402"
| "location_val DATA = 403"

primrec function_val :: "ripe_function \<Rightarrow> nat" where
  "function_val MEMCPY = 500"
| "function_val STRCPY = 501"
| "function_val STRNCPY = 502"
| "function_val SPRINTF = 503"
| "function_val SNPRINTF = 504"
| "function_val STRCAT = 505"
| "function_val STRNCAT = 506"
| "function_val SSCANF = 507"
| "function_val HOMEBREW = 508"

definition nr_of_techniques :: nat where "nr_of_techniques = 2"
definition nr_of_inject_params :: nat where "nr_of_inject_params = 4"
definition nr_of_code_ptrs :: nat where "nr_of_code_ptrs = 18"
definition nr_of_locations :: nat where "nr_of_locations = 4"
definition nr_of_funcs :: nat where "nr_of_funcs = 10"

definition opt_techniques :: "string list" where
  "opt_techniques = [''direct'', ''indirect'']"

definition opt_inject_params :: "string list" where
  "opt_inject_params = [''shellcode'', ''returnintolibc'', ''rop'', ''dataonly'']"

definition opt_code_ptrs :: "string list" where
  "opt_code_ptrs = [''ret'', ''funcptrstackvar'', ''funcptrstackparam'', ''funcptrheap'',
     ''funcptrbss'', ''funcptrdata'', ''longjmpstackvar'', ''longjmpstackparam'',
     ''longjmpheap'', ''longjmpbss'', ''longjmpdata'', ''structfuncptrstack'',
     ''structfuncptrheap'', ''structfuncptrdata'', ''structfuncptrbss'', ''bof'', ''iof'', ''leak'']"

definition opt_locations :: "string list" where
  "opt_locations = [''stack'', ''heap'', ''bss'', ''data'']"

definition opt_funcs :: "string list" where
  "opt_funcs = [''memcpy'', ''strcpy'', ''strncpy'', ''sprintf'', ''snprintf'', ''strcat'',
     ''strncat'', ''sscanf'', ''homebrew'']"

text \<open>
  Reading the name tables; an index past the end of a table is \<open>None\<close> (undefined
  behaviour in C). The report is given as its five \<open>%s\<close> arguments in order.
\<close>

definition table_get :: "string list \<Rightarrow> nat \<Rightarrow> string option" where
  "table_get t i = (if i < length t then Some (t ! i) else None)"

definition print_current_test_parameters :: "attack_form \<Rightarrow> string option list" where
  "print_current_test_parameters a =
     [table_get opt_techniques (technique_val (technique a) - 100),
      table_get opt_inject_params (inject_param_val (inject_param a) - 200),
      table_get opt_code_ptrs (code_ptr_val (code_ptr a) - 300),
      table_get opt_locations (location_val (location a) - 400),
      table_get opt_funcs (function_val (function_f a) - 500)]"

section \<open>The attack forms of main\<close>

definition mk_attack ::
  "technique \<Rightarrow> inject_param \<Rightarrow> code_ptr \<Rightarrow> location \<Rightarrow> ripe_function \<Rightarrow> attack_form" where
  "mk_attack t i c l f =
     \<lparr>technique = t, inject_param = i, code_ptr = c, location = l, function_f = f\<rparr>"

definition main_attack :: "nat \<Rightarrow> attack_form option" where
  "main_attack n =
     (if n = 1 then Some (mk_attack DIRECT INJECTED_CODE_NO_NOP RET_ADDR STACK MEMCPY)
      else if n = 2 then Some (mk_attack DIRECT INJECTED_CODE_NO_NOP FUNC_PTR_STACK_VAR STACK MEMCPY)
      else if n = 3 then Some (mk_attack INDIRECT INJECTED_CODE_NO_NOP FUNC_PTR_STACK_VAR STACK MEMCPY)
      else if n = 4 then Some (mk_attack DIRECT DATA_ONLY VAR_LEAK HEAP SPRINTF)
      else if n = 5 then Some (mk_attack DIRECT RETURN_INTO_LIBC RET_ADDR STACK MEMCPY)
      else if n = 6 then Some (mk_attack INDIRECT RETURN_INTO_LIBC FUNC_PTR_HEAP HEAP MEMCPY)
      else if n = 7 then Some (mk_attack INDIRECT RETURN_INTO_LIBC STRUCT_FUNC_PTR_HEAP HEAP HOMEBREW)
      else if n = 8 then Some (mk_attack INDIRECT RETURN_INTO_LIBC LONGJMP_BUF_HEAP HEAP MEMCPY)
      else if n = 9 then Some (mk_attack DIRECT RETURN_ORIENTED_PROGRAMMING RET_ADDR STACK MEMCPY)
      else if n = 10 then Some (mk_attack DIRECT RETURN_ORIENTED_PROGRAMMING STRUCT_FUNC_PTR_HEAP HEAP SPRINTF)
      else None)"

section \<open>Feasibility\<close>

definition is_attack_possible :: "attack_form \<Rightarrow> bool" where
  "is_attack_possible a =
     (if inject_param a = INJECTED_CODE_NO_NOP \<and>
         (\<not> function_f a = MEMCPY \<and> \<not> function_f a = HOMEBREW) then False
      else if inject_param a = RETURN_ORIENTED_PROGRAMMING \<and> technique a \<noteq> DIRECT then False
      else if inject_param a = DATA_ONLY \<and>
         (code_ptr a \<noteq> VAR_BOF \<and> code_ptr a \<noteq> VAR_IOF \<and> code_ptr a \<noteq> VAR_LEAK) then False
      else if inject_param a = DATA_ONLY \<and>
         ((code_ptr a = VAR_LEAK \<or> code_ptr a = VAR_IOF) \<and> technique a = INDIRECT) then False
      else if inject_param a = DATA_ONLY \<and> (location a = HEAP \<and> technique a = INDIRECT) then False
      else if inject_param a \<noteq> DATA_ONLY \<and>
         (code_ptr a = VAR_BOF \<or> code_ptr a = VAR_IOF \<or> code_ptr a = VAR_LEAK) then False
      else
        (case location a of
           STACK \<Rightarrow>
             if technique a = DIRECT then
               if code_ptr a = FUNC_PTR_HEAP \<or> code_ptr a = FUNC_PTR_BSS \<or>
                  code_ptr a = FUNC_PTR_DATA \<or> code_ptr a = LONGJMP_BUF_HEAP \<or>
                  code_ptr a = LONGJMP_BUF_DATA \<or> code_ptr a = LONGJMP_BUF_BSS \<or>
                  code_ptr a = STRUCT_FUNC_PTR_HEAP \<or> code_ptr a = STRUCT_FUNC_PTR_DATA \<or>
                  code_ptr a = STRUCT_FUNC_PTR_BSS then False
               else if code_ptr a = FUNC_PTR_STACK_PARAM \<and>
                  (function_f a = STRCAT \<or> function_f a = SNPRINTF \<or>
                   function_f a = SSCANF \<or> function_f a = HOMEBREW) then False
               else True
             else True
         | HEAP \<Rightarrow>
             if technique a = DIRECT \<and>
                (code_ptr a = RET_ADDR \<or> code_ptr a = FUNC_PTR_STACK_VAR \<or>
                 code_ptr a = FUNC_PTR_STACK_PARAM \<or> code_ptr a = FUNC_PTR_BSS \<or>
                 code_ptr a = FUNC_PTR_DATA \<or> code_ptr a = LONGJMP_BUF_STACK_VAR \<or>
                 code_ptr a = LONGJMP_BUF_STACK_PARAM \<or> code_ptr a = LONGJMP_BUF_BSS \<or>
                 code_ptr a = LONGJMP_BUF_DATA \<or> code_ptr a = STRUCT_FUNC_PTR_STACK \<or>
                 code_ptr a = STRUCT_FUNC_PTR_DATA \<or> code_ptr a = STRUCT_FUNC_PTR_BSS)
             then False else True
         | DATA \<Rightarrow>
             if technique a = DIRECT \<and>
                (code_ptr a = RET_ADDR \<or> code_ptr a = FUNC_PTR_STACK_VAR \<or>
                 code_ptr a = FUNC_PTR_STACK_PARAM \<or> code_ptr a = FUNC_PTR_BSS \<or>
                 code_ptr a = FUNC_PTR_HEAP \<or> code_ptr a = LONGJMP_BUF_STACK_VAR \<or>
                 code_ptr a = LONGJMP_BUF_STACK_PARAM \<or> code_ptr a = LONGJMP_BUF_HEAP \<or>
                 code_ptr a = LONGJMP_BUF_BSS \<or> code_ptr a = STRUCT_FUNC_PTR_STACK \<or>
                 code_ptr a = STRUCT_FUNC_PTR_HEAP \<or> code_ptr a = STRUCT_FUNC_PTR_BSS)
             then False else True
         | BSS \<Rightarrow>
             if technique a = DIRECT \<and>
                (code_ptr a = RET_ADDR \<or> code_ptr a = FUNC_PTR_STACK_VAR \<or>
                 code_ptr a = FUNC_PTR_STACK_PARAM \<or> code_ptr a = FUNC_PTR_DATA \<or>
                 code_ptr a = FUNC_PTR_HEAP \<or> code_ptr a = LONGJMP_BUF_STACK_VAR \<or>
                 code_ptr a = LONGJMP_BUF_STACK_PARAM \<or> code_ptr a = LONGJMP_BUF_HEAP \<or>
                 code_ptr a = LONGJMP_BUF_DATA \<or> code_ptr a = STRUCT_FUNC_PTR_STACK \<or>
                 code_ptr a = STRUCT_FUNC_PTR_HEAP \<or> code_ptr a = STRUCT_FUNC_PTR_DATA)
             then False
             else if technique a = INDIRECT \<and> code_ptr a = LONGJMP_BUF_HEAP \<and>
                (\<not> function_f a = MEMCPY \<and> \<not> function_f a = STRNCPY \<and> \<not> function_f a = HOMEBREW)
             then False else True))"

section \<open>What the check means\<close>

text \<open>
  The rules behind the case list. Each code pointer lives in one memory segment; the
  non-control variables exist in all four.
\<close>

fun segment :: "code_ptr \<Rightarrow> location option" where
  "segment RET_ADDR = Some STACK"
| "segment FUNC_PTR_STACK_VAR = Some STACK"
| "segment FUNC_PTR_STACK_PARAM = Some STACK"
| "segment FUNC_PTR_HEAP = Some HEAP"
| "segment FUNC_PTR_BSS = Some BSS"
| "segment FUNC_PTR_DATA = Some DATA"
| "segment LONGJMP_BUF_STACK_VAR = Some STACK"
| "segment LONGJMP_BUF_STACK_PARAM = Some STACK"
| "segment LONGJMP_BUF_HEAP = Some HEAP"
| "segment LONGJMP_BUF_BSS = Some BSS"
| "segment LONGJMP_BUF_DATA = Some DATA"
| "segment STRUCT_FUNC_PTR_STACK = Some STACK"
| "segment STRUCT_FUNC_PTR_HEAP = Some HEAP"
| "segment STRUCT_FUNC_PTR_DATA = Some DATA"
| "segment STRUCT_FUNC_PTR_BSS = Some BSS"
| "segment _ = None"

definition data_var :: "code_ptr \<Rightarrow> bool" where
  "data_var c \<longleftrightarrow> segment c = None"

definition in_reach :: "attack_form \<Rightarrow> bool" where
  "in_reach a \<longleftrightarrow> technique a = INDIRECT \<or> data_var (code_ptr a) \<or>
     segment (code_ptr a) = Some (location a)"

definition payload_fits :: "attack_form \<Rightarrow> bool" where
  "payload_fits a \<longleftrightarrow>
     (inject_param a = INJECTED_CODE_NO_NOP \<longrightarrow> function_f a \<in> {MEMCPY, HOMEBREW}) \<and>
     (inject_param a = RETURN_ORIENTED_PROGRAMMING \<longrightarrow> technique a = DIRECT) \<and>
     (inject_param a = DATA_ONLY \<longleftrightarrow> data_var (code_ptr a)) \<and>
     (inject_param a = DATA_ONLY \<and> technique a = INDIRECT \<longrightarrow>
        code_ptr a = VAR_BOF \<and> location a \<noteq> HEAP)"

definition function_fits :: "attack_form \<Rightarrow> bool" where
  "function_fits a \<longleftrightarrow>
     (location a = STACK \<and> technique a = DIRECT \<and> code_ptr a = FUNC_PTR_STACK_PARAM \<longrightarrow>
        function_f a \<notin> {STRCAT, SNPRINTF, SSCANF, HOMEBREW}) \<and>
     (location a = BSS \<and> technique a = INDIRECT \<and> code_ptr a = LONGJMP_BUF_HEAP \<longrightarrow>
        function_f a \<in> {MEMCPY, STRNCPY, HOMEBREW})"

lemma is_attack_possible_iff:
  "is_attack_possible a \<longleftrightarrow> payload_fits a \<and> in_reach a \<and> function_fits a"
  by (cases "technique a"; cases "inject_param a"; cases "location a"; cases "code_ptr a")
    (simp_all add: is_attack_possible_def payload_fits_def in_reach_def function_fits_def
      data_var_def)

section \<open>Properties\<close>

text \<open>
  C33. The cascade of early returns in \<open>is_attack_possible\<close> accepts exactly the
  combinations that satisfy three rules: the payload suits the code pointer and the copy
  function, the overflow reaches the code pointer (it is in the overflowed segment, or the
  attack is indirect, or the target is a data variable), and the copy function is usable there.
\<close>

theorem is_attack_possible_rules:
  "is_attack_possible a \<longleftrightarrow>
     payload_fits a \<and> in_reach a \<and> function_fits a"
  by (rule is_attack_possible_iff)

text \<open>
  Each of the ten configurations that \<open>main\<close> can run is possible, and the five
  lookups that \<open>print_current_test_parameters\<close> makes for it stay inside the name tables.
\<close>

theorem main_attacks_possible:
  "if 1 \<le> n \<and> n \<le> 10
   then \<exists>a. main_attack n = Some a \<and> is_attack_possible a \<and>
     None \<notin> set (print_current_test_parameters a)
   else main_attack n = None"
proof (cases "1 \<le> n \<and> n \<le> 10")
  case True
  then have "n \<in> {10, 9, 8, 7, 6, 5, 4, 3, 2, 1}" unfolding insert_iff empty_iff by arith
  then show ?thesis
    by (elim insertE emptyE) (simp_all add: main_attack_def mk_attack_def is_attack_possible_def
        print_current_test_parameters_def table_get_def opt_techniques_def opt_inject_params_def
        opt_code_ptrs_def opt_locations_def opt_funcs_def)
qed (auto simp: main_attack_def)

end
