(* ===== verification/Ripe_Shellcode.thy ===== *)
theory Ripe_Shellcode
  imports Rv_Insn
begin

text \<open>
  The shellcode generator of the RIPE attack suite
  (\<open>zephyr-docker/workspace/ripe/src/ripe_attack_generator.c\<close> and its header):
  \<open>hex_to_string\<close>, \<open>hex_to_bin\<close>, \<open>format_instruction\<close> and
  \<open>build_shellcode\<close>. The generator assembles three RISC-V instructions through text: the
  target address is printed in hexadecimal, its digits are translated to binary digits, the
  instruction words are parsed back with \<open>strtoul\<close> and written out byte by byte.

  C strings in zero-initialised buffers are HOL strings without the terminating zero. The
  debug output of \<open>build_shellcode\<close> is not modelled. The main result is that for every
  32-bit address the twelve bytes, executed as RISC-V code, jump to that address.
\<close>

unbundle bit_operations_syntax

section \<open>Library functions used by the generator\<close>

text \<open>\<open>%x\<close> of \<open>snprintf\<close>: lower-case hexadecimal digits, no leading zeros.\<close>

definition hexd :: "nat \<Rightarrow> char" where
  "hexd d = (if d < 10 then char_of (48 + d) else char_of (87 + d))"

fun to_hex :: "nat \<Rightarrow> string" where
  "to_hex n = (if n < 16 then [hexd n] else to_hex (n div 16) @ [hexd (n mod 16)])"

declare to_hex.simps [simp del]

text \<open>\<open>snprintf(str, 9, "%8x", val)\<close>: padded with blanks to width 8, cut at 8 characters.\<close>

definition snprintf_8x :: "u32 \<Rightarrow> string" where
  "snprintf_8x v = (let h = to_hex (unat v) in take 8 (replicate (8 - length h) CHR '' '' @ h))"

text \<open>\<open>strncat\<close> and \<open>strncpy\<close> on zero-filled buffers.\<close>

definition strncat :: "string \<Rightarrow> string \<Rightarrow> nat \<Rightarrow> string" where
  "strncat d s n = d @ take n s"

definition strncpy_z :: "string \<Rightarrow> nat \<Rightarrow> string" where
  "strncpy_z s n = take n s"

text \<open>
  \<open>strtoul(s, 0, base)\<close> on strings without sign, blanks or prefix: the longest prefix of
  digits of the base is read, and a value beyond \<open>ULONG_MAX\<close> saturates.
\<close>

definition digit_val :: "char \<Rightarrow> nat option" where
  "digit_val c = (let n = of_char c :: nat in
     if 48 \<le> n \<and> n \<le> 57 then Some (n - 48)
     else if 97 \<le> n \<and> n \<le> 122 then Some (n - 87)
     else if 65 \<le> n \<and> n \<le> 90 then Some (n - 55) else None)"

fun strtoul_acc :: "nat \<Rightarrow> nat \<Rightarrow> string \<Rightarrow> nat" where
  "strtoul_acc base acc [] = acc"
| "strtoul_acc base acc (c # cs) =
     (case digit_val c of
        Some d \<Rightarrow> if d < base then strtoul_acc base (acc * base + d) cs else acc
      | None \<Rightarrow> acc)"

definition strtoul :: "string \<Rightarrow> nat \<Rightarrow> u32" where
  "strtoul s base = (let v = strtoul_acc base 0 s in if v < 2 ^ 32 then of_nat v else - 1)"

section \<open>The generator\<close>

definition hex_to_string :: "u32 \<Rightarrow> string" where
  "hex_to_string val = map (\<lambda>c. if c = CHR '' '' then CHR ''0'' else c) (snprintf_8x val)"

definition bin4b :: "string list" where
  "bin4b = [''0000'', ''0001'', ''0010'', ''0011'', ''0100'', ''0101'', ''0110'', ''0111'',
            ''1000'', ''1001'', ''1010'', ''1011'', ''1100'', ''1101'', ''1110'', ''1111'']"

text \<open>\<open>None\<close> is the null pointer the function returns for any other character.\<close>

definition hex_to_bin :: "char \<Rightarrow> string option" where
  "hex_to_bin c = (let n = of_char c :: nat in
     if 48 \<le> n \<and> n \<le> 57 then Some (bin4b ! (n - 48))
     else if 97 \<le> n \<and> n \<le> 102 then Some (bin4b ! (10 + n - 97))
     else None)"

definition format_instruction :: "u32 \<Rightarrow> u8 list" where
  "format_instruction insn =
     (let insn_bytes = [ucast (drop_bit 24 insn AND 0xff), ucast (drop_bit 16 insn AND 0xff),
                        ucast (drop_bit 8 insn AND 0xff), ucast (insn AND 0xff)]
      in map (\<lambda>i. insn_bytes ! (3 - i)) [0..<4])"

text \<open>
  The loops that append the binary digits of each hexadecimal digit; a null pointer given to
  \<open>strncat\<close> is \<open>None\<close>.
\<close>

fun append_bins :: "string \<Rightarrow> string \<Rightarrow> string option" where
  "append_bins acc [] = Some acc"
| "append_bins acc (c # cs) =
     (case hex_to_bin c of None \<Rightarrow> None | Some b \<Rightarrow> append_bins (strncat acc b 4) cs)"

text \<open>\<open>target\<close> is the address of \<open>shellcode_target\<close>.\<close>

definition build_shellcode :: "u32 \<Rightarrow> u8 list option" where
  "build_shellcode target =
     (let attack_addr = (if target AND 0x00000fff \<ge> 0x800 then hex_to_string (target + 0x1000)
                         else hex_to_string target);
          low_bits = strncpy_z (drop 5 attack_addr) 3;
          high_bits = strncpy_z attack_addr 5;
          jalr_val = strtoul ''000300e7'' 16
      in Option.bind (append_bins [] high_bits) (\<lambda>lui_bin0.
           let lui_bin = strncat lui_bin0 ''001100110111'' 12;
               lui_val = strtoul lui_bin 2
           in Option.bind (append_bins [] low_bits) (\<lambda>addi_bin0.
                let addi_bin = strncat addi_bin0 ''00110000001100010011'' 20;
                    addi_val = strtoul addi_bin 2
                in Some (format_instruction lui_val @ format_instruction addi_val
                         @ format_instruction jalr_val))))"

section \<open>Hexadecimal text\<close>

text \<open>The reference: exactly \<open>k\<close> hexadecimal digits of \<open>n\<close>, most significant first.\<close>

fun hexk :: "nat \<Rightarrow> nat \<Rightarrow> nat list" where
  "hexk 0 n = []"
| "hexk (Suc k) n = hexk k (n div 16) @ [n mod 16]"

lemma length_hexk [simp]: "length (hexk k n) = k"
  by (induction k arbitrary: n) auto

lemma hexk_digits: "d \<in> set (hexk k n) \<Longrightarrow> d < 16"
  by (induction k arbitrary: n) auto

lemma hexk_append: "hexk (j + k) n = hexk j (n div 16 ^ k) @ hexk k n"
  by (induction k arbitrary: n) (auto simp: div_mult2_eq)

lemma hexd_digit: "d < 16 \<Longrightarrow> digit_val (hexd d) = Some d"
  by (drule nat_less16_cases, elim insertE emptyE) (simp_all add: digit_val_def hexd_def Let_def)

lemma hexd_bin: "d < 16 \<Longrightarrow> hex_to_bin (hexd d) = Some (bin4b ! d)"
  by (drule nat_less16_cases, elim insertE emptyE) (simp_all add: hexd_def hex_to_bin_def Let_def)

lemma hexd_not_blank: "d < 16 \<Longrightarrow> hexd d \<noteq> CHR '' ''"
proof
  assume "d < 16" "hexd d = CHR '' ''"
  then have "digit_val (CHR '' '') = Some d" by (metis hexd_digit)
  then show False by (simp add: digit_val_def)
qed

lemma length_to_hex: "0 < k \<Longrightarrow> n < 16 ^ k \<Longrightarrow> length (to_hex n) \<le> k"
proof (induction k arbitrary: n)
  case (Suc k)
  show ?case
  proof (cases "n < 16")
    case True
    then show ?thesis by (subst to_hex.simps) simp
  next
    case False
    with Suc.prems have "0 < k" "n div 16 < 16 ^ k"
      by (auto intro: gr0I simp: less_mult_imp_div_less mult.commute)
    with Suc.IH False show ?thesis by (subst to_hex.simps) simp
  qed
qed simp

lemma to_hex_no_blank: "c \<in> set (to_hex n) \<Longrightarrow> c \<noteq> CHR '' ''"
proof (induction n rule: to_hex.induct)
  case (1 n)
  then show ?case
    using hexd_not_blank [of "n mod 16"] hexd_not_blank [of n]
    by (subst (asm) (2) to_hex.simps) (auto split: if_splits)
qed

lemma to_hex_padded:
  "0 < k \<Longrightarrow> n < 16 ^ k \<Longrightarrow>
   replicate (k - length (to_hex n)) CHR ''0'' @ to_hex n = map hexd (hexk k n)"
proof (induction k arbitrary: n)
  case (Suc k)
  have zero: "hexd 0 = CHR ''0''" by code_simp
  have zeros: "map hexd (hexk j 0) = replicate j CHR ''0''" for j
    by (induction j) (auto simp: zero replicate_append_same)
  show ?case
  proof (cases "n < 16")
    case True
    then have "to_hex n = [hexd n]" by (subst to_hex.simps) simp
    with True zeros show ?thesis by simp
  next
    case False
    with Suc.prems have k: "0 < k" "n div 16 < 16 ^ k"
      by (auto intro: gr0I simp: less_mult_imp_div_less mult.commute)
    have th: "to_hex n = to_hex (n div 16) @ [hexd (n mod 16)]"
      using False by (subst to_hex.simps) simp
    with Suc.IH [OF k] show ?thesis by simp
  qed
qed simp

lemma hex_to_string_eq: "hex_to_string v = map hexd (hexk 8 (unat v))"
proof -
  have v: "unat v < 16 ^ 8" using unsigned_less [of v] by simp
  have len: "length (to_hex (unat v)) \<le> 8" using length_to_hex [OF _ v] by simp
  have id: "map (\<lambda>c. if c = CHR '' '' then CHR ''0'' else c) (to_hex (unat v)) = to_hex (unat v)"
    by (rule map_idI) (auto dest: to_hex_no_blank)
  show ?thesis
    using to_hex_padded [OF _ v] len
    by (simp add: hex_to_string_def snprintf_8x_def Let_def id)
qed

section \<open>Binary text\<close>

lemma append_bins_eq:
  "\<forall>d \<in> set ds. d < 16 \<Longrightarrow>
   append_bins acc (map hexd ds) = Some (acc @ concat (map (\<lambda>d. bin4b ! d) ds))"
proof (induction ds arbitrary: acc)
  case (Cons d ds)
  have "length (bin4b ! d) = 4"
  proof -
    have "list_all (\<lambda>d. length (bin4b ! d) = 4) [0..<16]" by code_simp
    with Cons.prems show ?thesis by (auto simp: list_all_iff)
  qed
  with Cons show ?case by (simp add: hexd_bin strncat_def)
qed simp

definition bitv :: "char \<Rightarrow> nat" where
  "bitv c = (if c = CHR ''1'' then 1 else 0)"

lemma strtoul_acc_bit:
  "b = CHR ''0'' \<or> b = CHR ''1'' \<Longrightarrow>
   strtoul_acc 2 acc (b # cs) = strtoul_acc 2 (2 * acc + bitv b) cs"
  by (auto simp: digit_val_def bitv_def mult.commute)

lemma strtoul_acc_nibble:
  assumes "\<forall>b \<in> set [b3, b2, b1, b0]. b = CHR ''0'' \<or> b = CHR ''1''"
  shows "strtoul_acc 2 acc (b3 # b2 # b1 # b0 # cs) =
    strtoul_acc 2 (16 * acc + (8 * bitv b3 + 4 * bitv b2 + 2 * bitv b1 + bitv b0)) cs"
proof -
  have "strtoul_acc 2 acc (b3 # b2 # b1 # b0 # cs) =
      strtoul_acc 2 (2 * (2 * (2 * (2 * acc + bitv b3) + bitv b2) + bitv b1) + bitv b0) cs"
    using assms by (simp add: strtoul_acc_bit del: strtoul_acc.simps)
  then show ?thesis by (simp add: algebra_simps)
qed

lemma strtoul_acc_bin4b:
  "d < 16 \<Longrightarrow> strtoul_acc 2 acc (bin4b ! d @ cs) = strtoul_acc 2 (16 * acc + d) cs"
  by (drule nat_less16_cases, elim insertE emptyE)
    (simp_all add: bin4b_def strtoul_acc_nibble bitv_def numeral_3_eq_3 del: strtoul_acc.simps)

lemma strtoul_acc_hex:
  "\<forall>d \<in> set ds. d < 16 \<Longrightarrow>
   strtoul_acc 2 acc (concat (map (\<lambda>d. bin4b ! d) ds) @ cs) =
   strtoul_acc 2 (foldl (\<lambda>a d. 16 * a + d) acc ds) cs"
  by (induction ds arbitrary: acc) (auto simp: strtoul_acc_bin4b)

lemma foldl_hexk: "foldl (\<lambda>a d. 16 * a + d) 0 (hexk k n) = n mod 16 ^ k"
  by (induction k arbitrary: n) (auto simp: mod_mult2_eq)

lemma strtoul_acc_hexd:
  "\<forall>d \<in> set ds. d < 16 \<Longrightarrow>
   strtoul_acc 16 acc (map hexd ds) = foldl (\<lambda>a d. 16 * a + d) acc ds"
  by (induction ds arbitrary: acc) (auto simp: hexd_digit mult.commute)

lemma append_bins_hexk:
  "append_bins [] (map hexd (hexk k n)) = Some (concat (map (\<lambda>d. bin4b ! d) (hexk k n)))"
  using append_bins_eq [of "hexk k n" "[]"] hexk_digits by auto

lemma strtoul_hexk:
  assumes "c < 2 ^ m" "strtoul_acc 2 (n mod 16 ^ k) cs = n mod 16 ^ k * 2 ^ m + c" "4 * k + m = 32"
  shows "strtoul (concat (map (\<lambda>d. bin4b ! d) (hexk k n)) @ cs) 2 =
    of_nat (n mod 16 ^ k * 2 ^ m + c)"
proof -
  have "n mod 16 ^ k * 2 ^ m + c < (n mod 16 ^ k + 1) * 2 ^ m" using assms(1) by simp
  also have "\<dots> \<le> 16 ^ k * 2 ^ m" by (intro mult_right_mono) (simp_all add: Suc_leI)
  also have "16 ^ k * 2 ^ m = (2 :: nat) ^ (4 * k + m)" by (simp add: power_mult power_add)
  finally have "n mod 16 ^ k * 2 ^ m + c < 2 ^ 32" by (simp add: assms(3))
  moreover have "strtoul_acc 2 0 (concat (map (\<lambda>d. bin4b ! d) (hexk k n)) @ cs) =
      n mod 16 ^ k * 2 ^ m + c"
    using assms(2) hexk_digits by (simp add: strtoul_acc_hex foldl_hexk)
  ultimately show ?thesis by (simp add: strtoul_def Let_def)
qed

section \<open>The instruction words\<close>

text \<open>The address whose upper and lower parts the two instructions load.\<close>

definition shell_addr :: "u32 \<Rightarrow> u32" where
  "shell_addr t = (if t AND 0x00000fff \<ge> 0x800 then t + 0x1000 else t)"

definition lui_word :: "nat \<Rightarrow> u32" where
  "lui_word n = of_nat (n div 4096 * 4096 + 0x337)"

definition addi_word :: "nat \<Rightarrow> u32" where
  "addi_word n = of_nat (n mod 4096 * 0x100000 + 0x30313)"

lemma strtoul_lui: "strtoul (concat (map (\<lambda>d. bin4b ! d) (hexk 5 (unat v div 4096))) @ ''001100110111'') 2 =
    lui_word (unat v)" for v :: u32
proof -
  have "unat v div 4096 < 16 ^ 5" using unat_u32_less [of v] by (simp add: less_mult_imp_div_less)
  then have m: "unat v div 4096 mod 1048576 = unat v div 4096" by simp
  show ?thesis
    by (subst strtoul_hexk [where m = 12 and c = "0x337"])
      (simp_all add: m strtoul_acc_nibble bitv_def lui_word_def del: strtoul_acc.simps
        add: strtoul_acc.simps(1))
qed

lemma strtoul_addi: "strtoul (concat (map (\<lambda>d. bin4b ! d) (hexk 3 n)) @ ''00110000001100010011'') 2 =
    addi_word n"
  by (subst strtoul_hexk [where m = 20 and c = "0x30313"])
    (simp_all add: strtoul_acc_nibble bitv_def addi_word_def del: strtoul_acc.simps
        add: strtoul_acc.simps(1))

lemma strtoul_jalr: "strtoul ''000300e7'' 16 = 0x300e7"
  by (simp add: strtoul_def digit_val_def)

lemma format_instruction_eq: "format_instruction w = le32_bytes w"
proof -
  have "ucast (x AND 0xff :: u32) = (ucast x :: u8)" for x
    by (rule bit_word_eqI) (simp add: and_u32_ff bit_simps)
  then show ?thesis by (simp add: format_instruction_def le32_bytes_def upt_0_4)
qed

lemma build_shellcode_eq:
  "build_shellcode t =
     Some (le32_bytes (lui_word (unat (shell_addr t))) @ le32_bytes (addi_word (unat (shell_addr t)))
           @ le32_bytes 0x300e7)"
proof -
  let ?n = "unat (shell_addr t)"
  have h8: "hexk 8 n = hexk 5 (n div 4096) @ hexk 3 n" for n
    using hexk_append [of 5 3 n] by simp
  have addr: "(if t AND 0x00000fff \<ge> 0x800 then hex_to_string (t + 0x1000) else hex_to_string t)
      = map hexd (hexk 5 (?n div 4096)) @ map hexd (hexk 3 ?n)"
    by (simp add: hex_to_string_eq shell_addr_def h8)
  show ?thesis
    by (simp add: build_shellcode_def addr strncpy_z_def append_bins_hexk strncat_def Let_def
        strtoul_lui strtoul_addi strtoul_jalr format_instruction_eq)
qed

section \<open>Executing the shellcode\<close>

lemma insn_x_eq: "insn_x b lo len = take_bit len (drop_bit lo b)"
  by (simp add: insn_x_def take_bit_eq_mask mask_eq_exp_minus_1 push_bit_eq_mult)

lemma insn_x_take_bit: "lo + len \<le> m \<Longrightarrow> insn_x (take_bit m b) lo len = insn_x b lo len"
  by (rule bit_word_eqI) (auto simp: insn_x_eq bit_simps)

lemma and_take_bit: "take_bit m c = c \<Longrightarrow> (b :: u32) AND c = take_bit m b AND c"
  by (metis and.assoc and.commute take_bit_eq_mask)

lemma take_bit_lui_word: "take_bit 12 (lui_word n) = 0x337"
proof -
  have "take_bit 12 (n div 4096 * 4096 + 0x337) = 0x337" by (simp add: take_bit_eq_mod)
  then show ?thesis
    by (simp only: lui_word_def take_bit_of_nat of_nat_numeral)
qed

lemma take_bit_addi_word: "take_bit 20 (addi_word n) = 0x30313"
proof -
  have "take_bit 20 (n mod 4096 * 0x100000 + 0x30313) = 0x30313" by (simp add: take_bit_eq_mod)
  then show ?thesis
    by (simp only: addi_word_def take_bit_of_nat of_nat_numeral)
qed

lemma lui_fields: "lui_word n AND 0x7f = 0x37" "insn_rd (lui_word n) = 6"
proof -
  show "lui_word n AND 0x7f = 0x37"
    using and_take_bit [of 12 "0x7f" "lui_word n"] by (simp add: take_bit_lui_word)
  show "insn_rd (lui_word n) = 6"
    using insn_x_take_bit [of 7 5 12 "lui_word n"]
    by (simp add: insn_rd_def take_bit_lui_word insn_x_eq)
qed

lemma addi_fields:
  "addi_word n AND 0x7f = 0x13" "addi_word n AND 0x707f = 0x13"
  "insn_rd (addi_word n) = 6" "insn_rs1 (addi_word n) = 6"
proof -
  show "addi_word n AND 0x7f = 0x13"
    using and_take_bit [of 20 "0x7f" "addi_word n"] by (simp add: take_bit_addi_word)
  show "addi_word n AND 0x707f = 0x13"
    using and_take_bit [of 20 "0x707f" "addi_word n"] by (simp add: take_bit_addi_word)
  show "insn_rd (addi_word n) = 6"
    using insn_x_take_bit [of 7 5 20 "addi_word n"]
    by (simp add: insn_rd_def take_bit_addi_word insn_x_eq)
  show "insn_rs1 (addi_word n) = 6"
    using insn_x_take_bit [of 15 5 20 "addi_word n"]
    by (simp add: insn_rs1_def take_bit_addi_word insn_x_eq)
qed

lemma jalr_fields:
  "(0x300e7 :: u32) AND 0x7f = 0x67" "(0x300e7 :: u32) AND 0x707f = 0x67"
  "insn_rd 0x300e7 = 1" "insn_rs1 0x300e7 = 6" "insn_i_imm 0x300e7 = 0"
  by (simp_all add: insn_rd_def insn_rs1_def insn_x_eq insn_i_imm_def)

lemma lui_imm: "insn_u_imm (lui_word n) = of_nat (n div 4096 * 4096)"
proof -
  have "push_bit 12 (signed_drop_bit 12 b) = b - take_bit 12 b" for b :: u32
  proof -
    have "push_bit 12 (signed_drop_bit 12 b) = push_bit 12 (drop_bit 12 b)"
      by (rule bit_word_eqI) (auto simp: bit_simps)
    then show ?thesis using bits_ident [of 12 b] by (simp add: algebra_simps)
  qed
  then show ?thesis
    by (simp add: insn_u_imm_def take_bit_lui_word) (simp add: lui_word_def)
qed

lemma addi_imm:
  "insn_i_imm (addi_word n) = of_nat (n mod 4096) - (if n mod 4096 < 2048 then 0 else 4096)"
proof -
  let ?l = "n mod 4096"
  have l: "?l < 4096" by simp
  have u: "uint (addi_word n) = int (?l * 0x100000 + 0x30313)"
    unfolding addi_word_def by (rule uint_of_nat_u32) (use l in linarith)
  have top: "(int ?l * 1048576 + 197395) div 2147483648 = (if ?l < 2048 then 0 else 1)"
  proof (cases "?l < 2048")
    case False
    then have "2048 \<le> int ?l" "int ?l < 4096" using l by linarith+
    then show ?thesis using False
      by (simp add: int_div_pos_eq [where q = 1 and r = "int ?l * 1048576 + 197395 - 2147483648"])
  qed simp
  have s: "sint (addi_word n) = int (?l * 0x100000 + 0x30313) - (if ?l < 2048 then 0 else 2 ^ 32)"
    using l by (simp add: sint_uint u signed_take_bit_eq_take_bit_minus take_bit_int_eq_self bit_iff_odd top)
  have d: "drop_bit 20 (sint (addi_word n)) = int ?l - (if ?l < 2048 then 0 else 4096)"
  proof -
    have "(int ?l * 1048576 - 4294769901) div 1048576 = int ?l - 4096"
      by (rule int_div_pos_eq [where r = 197395]) simp_all
    then show ?thesis unfolding s by (simp add: drop_bit_eq_div)
  qed
  have "insn_i_imm (addi_word n) = of_int (sint (insn_i_imm (addi_word n)))" by simp
  also have "\<dots> = of_int (int ?l - (if ?l < 2048 then 0 else 4096))"
    by (simp only: insn_i_imm_def sint_signed_drop_bit_eq d)
  finally show ?thesis by simp
qed

lemma shell_addr_low: "unat (shell_addr t) mod 4096 = unat t mod 4096"
  by (simp add: shell_addr_def unat_word_ariths mod_mod_cancel)

lemma imm_sum:
  "insn_u_imm (lui_word (unat (shell_addr t))) + insn_i_imm (addi_word (unat (shell_addr t))) = t"
proof -
  let ?a = "shell_addr t"
  have low: "(t AND 0xfff \<ge> 0x800) \<longleftrightarrow> \<not> unat ?a mod 4096 < 2048"
  proof -
    have "unat (t AND 0xfff) = unat t mod 4096"
      by (rule unat_and_u32_fff)
    then show ?thesis by (simp add: word_le_nat_alt shell_addr_low not_less)
  qed
  have "of_nat (unat ?a div 4096 * 4096) + of_nat (unat ?a mod 4096) = ?a"
    by (simp only: div_mult_mod_eq flip: of_nat_add) simp
  then have "insn_u_imm (lui_word (unat ?a)) + insn_i_imm (addi_word (unat ?a)) =
      ?a - (if unat ?a mod 4096 < 2048 then 0 else 4096)"
    by (simp add: lui_imm addi_imm)
  also have "\<dots> = t" using low by (auto simp: shell_addr_def)
  finally show ?thesis .
qed

text \<open>Running the twelve bytes leaves the target address in register 6 and the program counter.\<close>

lemma exec_shellcode:
  assumes "build_shellcode t = Some code"
  shows "exec_bytes code h =
    Some (h\<lparr>xpr := ((xpr h)(6 := t))(1 := hpc h + 12), hpc := t AND NOT 1\<rparr>)"
proof -
  let ?n = "unat (shell_addr t)"
  have code: "code = le32_bytes (lui_word ?n) @ le32_bytes (addi_word ?n) @ le32_bytes 0x300e7"
    using assms by (simp add: build_shellcode_eq)
  define h1 where "h1 = h\<lparr>xpr := (xpr h)(6 := insn_u_imm (lui_word ?n)), hpc := hpc h + 4\<rparr>"
  define h2 where "h2 = h\<lparr>xpr := (xpr h)(6 := t), hpc := hpc h + 8\<rparr>"
  have "exec_insn (lui_word ?n) h = Some h1"
    by (simp add: exec_insn_def lui_fields exec_lui_def regfile_write_def h1_def)
  moreover have "exec_insn (addi_word ?n) h1 = Some h2"
    using imm_sum [of t]
    by (simp add: exec_insn_def addi_fields exec_addi_def regfile_write_def h1_def h2_def)
  moreover have "exec_insn 0x300e7 h2 =
      Some (h\<lparr>xpr := ((xpr h)(6 := t))(1 := hpc h + 12), hpc := t AND NOT 1\<rparr>)"
    using jalr_fields
    by (simp add: exec_insn_def exec_jalr_def regfile_write_def h2_def)
      (simp add: add.commute)
  ultimately show ?thesis
    by (simp add: code le32_bytes_def del: drop_bit_word_numeral) (simp add: le32_def)
qed

section \<open>Properties\<close>

text \<open>
  C22. The shellcode generator is correct: for every target address the text-based
  instruction encoder succeeds, its twelve bytes decode as \<open>lui\<close>, \<open>addi\<close> and
  \<open>jalr\<close>, and executing them puts the address into \<open>x6\<close> and jumps to it with the
  lowest bit cleared, linking in \<open>x1\<close> and changing no other register. The adjustment for
  a negative \<open>addi\<close> immediate and the wrap-around at the top of the address space are
  included.
\<close>

theorem shellcode_jumps_to_target:
  "\<exists>code. build_shellcode t = Some code \<and> length code = 12 \<and>
     exec_bytes code h =
       Some (h\<lparr>xpr := (xpr h)(6 := t, 1 := hpc h + 12), hpc := t AND NOT 1\<rparr>)"
proof -
  obtain code where c: "build_shellcode t = Some code"
    using build_shellcode_eq by blast
  then have "length code = 12" by (auto simp: build_shellcode_eq)
  with c exec_shellcode [OF c, of h] show ?thesis by simp
qed

text \<open>
  C35. \<open>hex_to_string\<close> prints exactly eight hexadecimal digits, most significant first,
  and reading them back with \<open>strtoul\<close> gives the number: no value is truncated by the
  nine-byte buffers of the \<open>strncat\<close> calls.
\<close>

theorem hex_to_string_roundtrip:
  "length (hex_to_string v) = 8 \<and> strtoul (hex_to_string v) 16 = v"
proof -
  have "strtoul_acc 16 0 (hex_to_string v) = unat v mod 16 ^ 8"
    using hexk_digits by (simp add: hex_to_string_eq strtoul_acc_hexd foldl_hexk)
  moreover have "unat v < 4294967296" by (rule unat_u32_less)
  ultimately show ?thesis by (simp add: strtoul_def hex_to_string_eq)
qed

end
