(* ===== verification/Flat_Memory.thy ===== *)
theory Flat_Memory
  imports Prelude
begin

text \<open>
  Byte-addressed 32-bit memory for code whose behaviour depends on the flat address space:
  the buffer overflows of RIPE run past one object into another. A region is given by its
  start and its length; membership is an unsigned offset, so regions may wrap around. The
  locale \<open>byte_memory\<close> states what clients need of loads and block stores, and the
  interpretation \<open>flat\<close> shows that memory as a function from addresses to bytes, written
  one byte after the other, provides it.
\<close>

unbundle bit_operations_syntax

type_synonym memory = "u32 \<Rightarrow> u8"

definition in_region :: "u32 \<Rightarrow> u32 \<Rightarrow> nat \<Rightarrow> bool" where
  "in_region x a n \<longleftrightarrow> unat (x - a) < n"

definition disjoint_regions :: "u32 \<Rightarrow> nat \<Rightarrow> u32 \<Rightarrow> nat \<Rightarrow> bool" where
  "disjoint_regions a n b m \<longleftrightarrow>
     unat (b - a) \<ge> n \<and> unat (a - b) \<ge> m \<or> n = 0 \<or> m = 0"

section \<open>Operations\<close>

fun wr_bytes :: "memory \<Rightarrow> u32 \<Rightarrow> u8 list \<Rightarrow> memory" where
  "wr_bytes m a [] = m"
| "wr_bytes m a (b # bs) = wr_bytes (m(a := b)) (a + 1) bs"

definition rd_bytes :: "memory \<Rightarrow> u32 \<Rightarrow> nat \<Rightarrow> u8 list" where
  "rd_bytes m a n = map (\<lambda>i. m (a + of_nat i)) [0..<n]"

definition wr32 :: "memory \<Rightarrow> u32 \<Rightarrow> u32 \<Rightarrow> memory" where
  "wr32 m a v = wr_bytes m a (le32_bytes v)"

definition rd32 :: "memory \<Rightarrow> u32 \<Rightarrow> u32" where
  "rd32 m a = le32 (m a) (m (a + 1)) (m (a + 2)) (m (a + 3))"

text \<open>\<open>memcpy\<close> (the regions do not overlap) and \<open>memset\<close> of the C library.\<close>

definition memcpy :: "memory \<Rightarrow> u32 \<Rightarrow> u32 \<Rightarrow> u32 \<Rightarrow> memory" where
  "memcpy m d s n = wr_bytes m d (rd_bytes m s (unat n))"

definition memset :: "memory \<Rightarrow> u32 \<Rightarrow> u8 \<Rightarrow> u32 \<Rightarrow> memory" where
  "memset m d v n = wr_bytes m d (replicate (unat n) v)"

text \<open>
  The C string at an address: the bytes before the first zero. The bound is the size of the
  address space, so every string that ends is read to its end.
\<close>

fun c_str :: "nat \<Rightarrow> memory \<Rightarrow> u32 \<Rightarrow> u8 list" where
  "c_str 0 m a = []"
| "c_str (Suc n) m a = (if m a = 0 then [] else m a # c_str n m (a + 1))"

definition addr_space :: nat where
  "addr_space = 4294967296"

definition strcpy :: "memory \<Rightarrow> u32 \<Rightarrow> u32 \<Rightarrow> memory" where
  "strcpy m d s = wr_bytes m d (c_str addr_space m s @ [0])"

definition strncpy :: "memory \<Rightarrow> u32 \<Rightarrow> u32 \<Rightarrow> u32 \<Rightarrow> memory" where
  "strncpy m d s n =
     (let cs = take (unat n) (c_str addr_space m s)
      in wr_bytes m d (cs @ replicate (unat n - length cs) 0))"

definition strcat :: "memory \<Rightarrow> u32 \<Rightarrow> u32 \<Rightarrow> memory" where
  "strcat m d s =
     wr_bytes m (d + of_nat (length (c_str addr_space m d))) (c_str addr_space m s @ [0])"

definition strncat_m :: "memory \<Rightarrow> u32 \<Rightarrow> u32 \<Rightarrow> u32 \<Rightarrow> memory" where
  "strncat_m m d s n =
     wr_bytes m (d + of_nat (length (c_str addr_space m d)))
       (take (unat n) (c_str addr_space m s) @ [0])"

text \<open>\<open>sprintf(d, "%s", s)\<close> and \<open>snprintf(d, n, "%s", s)\<close>.\<close>

definition sprintf_s :: "memory \<Rightarrow> u32 \<Rightarrow> u32 \<Rightarrow> memory" where
  "sprintf_s m d s = wr_bytes m d (c_str addr_space m s @ [0])"

definition snprintf_s :: "memory \<Rightarrow> u32 \<Rightarrow> u32 \<Rightarrow> u32 \<Rightarrow> memory" where
  "snprintf_s m d n s =
     (if n = 0 then m else wr_bytes m d (take (unat n - 1) (c_str addr_space m s) @ [0]))"

section \<open>Laws\<close>

lemma in_region_0 [simp]: "\<not> in_region x a 0"
  by (simp add: in_region_def)

lemma off_Suc:
  fixes x a :: u32
  assumes "x \<noteq> a"
  shows "unat (x - a) = Suc (unat (x - (a + 1)))"
proof -
  have e: "1 + (x - (a + 1)) = x - a" by simp
  with assms have "1 + (x - (a + 1)) \<noteq> 0" by simp
  from unatSuc [OF this] show ?thesis by (simp only: e)
qed

lemma off_sum:
  fixes a b :: u32
  assumes "a \<noteq> b"
  shows "unat (b - a) + unat (a - b) = 4294967296"
proof -
  have "(unat (b - a) + unat (a - b)) mod 4294967296 = unat ((b - a) + (a - b))"
    by (simp only: unat_word_ariths) simp
  then have z: "(unat (b - a) + unat (a - b)) mod 4294967296 = 0" by simp
  have "0 < unat (b - a)" using assms by (simp add: unat_gt_0)
  moreover have "unat (b - a) + unat (a - b) < 2 * 4294967296"
    using unat_u32_less [of "b - a"] unat_u32_less [of "a - b"] by linarith
  ultimately show ?thesis using z by (auto elim!: dvdE dest!: mod_0_imp_dvd)
qed

lemma wr_bytes_apply:
  "length bs \<le> addr_space \<Longrightarrow>
   wr_bytes m a bs x = (if in_region x a (length bs) then bs ! unat (x - a) else m x)"
proof (induction bs arbitrary: m a)
  case (Cons b bs)
  then have IH: "wr_bytes (m(a := b)) (a + 1) bs x =
      (if in_region x (a + 1) (length bs) then bs ! unat (x - (a + 1)) else (m(a := b)) x)"
    by simp
  show ?case
  proof (cases "x = a")
    case True
    have "unat (x - (a + 1)) = 4294967295" using True by (simp add: unat_minus1_u32)
    with Cons.prems have "\<not> in_region x (a + 1) (length bs)"
      by (simp add: in_region_def addr_space_def)
    with IH True show ?thesis by (simp add: in_region_def)
  next
    case False
    then show ?thesis by (simp add: IH in_region_def off_Suc)
  qed
qed simp

lemma unat_of_nat_off: "i < addr_space \<Longrightarrow> unat (of_nat i :: u32) = i"
  by (simp add: addr_space_def unat_of_nat_u32)

lemma length_rd_bytes [simp]: "length (rd_bytes m a n) = n"
  by (simp add: rd_bytes_def)

lemma nth_rd_bytes [simp]: "i < n \<Longrightarrow> rd_bytes m a n ! i = m (a + of_nat i)"
  by (simp add: rd_bytes_def)

lemma rd_bytes_cong: "(\<And>i. i < n \<Longrightarrow> m (a + of_nat i) = m' (a + of_nat i)) \<Longrightarrow>
   rd_bytes m a n = rd_bytes m' a n"
  by (simp add: rd_bytes_def)

lemma disjoint_regionsD:
  assumes d: "disjoint_regions a n b m" and x: "in_region x a n"
  shows "\<not> in_region x b m"
proof
  assume "in_region x b m"
  with x have x: "unat (x - a) < n" "unat (x - b) < m" by (auto simp: in_region_def)
  with d have ge: "unat (b - a) \<ge> n" "unat (a - b) \<ge> m"
    by (auto simp: disjoint_regions_def)
  have "unat (x - a) < unat (b - a)" using x ge by linarith
  moreover have "unat (x - b) = (unat (x - a) + unat (a - b)) mod 4294967296"
  proof -
    have "x - b = (x - a) + (a - b)" by simp
    then show ?thesis by (simp only: unat_word_ariths) simp
  qed
  moreover have "unat (b - a) + unat (a - b) = 4294967296"
    by (rule off_sum) (use x ge in auto)
  ultimately have "unat (x - b) \<ge> unat (a - b)" by simp
  with x ge show False by linarith
qed

lemma disjoint_regions_sym: "disjoint_regions a n b m \<longleftrightarrow> disjoint_regions b m a n"
  by (auto simp: disjoint_regions_def)

lemma wr_bytes_append:
  "wr_bytes m a (xs @ ys) = wr_bytes (wr_bytes m a xs) (a + of_nat (length xs)) ys"
  by (induction xs arbitrary: m a) (auto simp: algebra_simps)

lemma wr_bytes_nth:
  "i < length bs \<Longrightarrow> length bs \<le> addr_space \<Longrightarrow> wr_bytes m a bs (a + of_nat i) = bs ! i"
  by (simp add: wr_bytes_apply in_region_def unat_of_nat_off)

lemma rd_wr_part:
  assumes "length bs \<le> addr_space" "i + n \<le> length bs"
  shows "rd_bytes (wr_bytes m a bs) (a + of_nat i) n = take n (drop i bs)"
proof (rule nth_equalityI)
  fix j assume "j < length (rd_bytes (wr_bytes m a bs) (a + of_nat i) n)"
  then have j: "j < n" by simp
  have e: "a + of_nat i + of_nat j = a + of_nat (i + j)" by simp
  show "rd_bytes (wr_bytes m a bs) (a + of_nat i) n ! j = take n (drop i bs) ! j"
    using assms j by (simp only: nth_rd_bytes e) (simp add: wr_bytes_nth del: of_nat_add)
qed (use assms in simp)

lemma rd_wr_disjoint:
  assumes "disjoint_regions b n a (length bs)" "length bs \<le> addr_space" "n \<le> addr_space"
  shows "rd_bytes (wr_bytes m a bs) b n = rd_bytes m b n"
proof (rule rd_bytes_cong)
  fix i assume "i < n"
  with assms(3) have "in_region (b + of_nat i) b n"
    by (simp add: in_region_def unat_of_nat_off)
  with assms show "wr_bytes m a bs (b + of_nat i) = m (b + of_nat i)"
    by (auto simp: wr_bytes_apply dest: disjoint_regionsD)
qed

lemma rd32_bytes: "rd32 m a = (case rd_bytes m a 4 of [b0, b1, b2, b3] \<Rightarrow> le32 b0 b1 b2 b3)"
  by (simp add: rd32_def rd_bytes_def upt_0_4)

section \<open>The memory interface\<close>

locale byte_memory =
  fixes load :: "'m \<Rightarrow> u32 \<Rightarrow> nat \<Rightarrow> u8 list"
    and store :: "'m \<Rightarrow> u32 \<Rightarrow> u8 list \<Rightarrow> 'm"
  assumes load_length: "length (load m a n) = n"
    and load_store_in: "\<lbrakk>length bs \<le> addr_space; i + n \<le> length bs\<rbrakk> \<Longrightarrow>
      load (store m a bs) (a + of_nat i) n = take n (drop i bs)"
    and load_store_out: "\<lbrakk>disjoint_regions b n a (length bs); length bs \<le> addr_space;
      n \<le> addr_space\<rbrakk> \<Longrightarrow> load (store m a bs) b n = load m b n"
begin

lemma load_store_same: "length bs \<le> addr_space \<Longrightarrow> load (store m a bs) a (length bs) = bs"
  using load_store_in [of bs 0 "length bs" m a] by simp

text \<open>A block copy makes the destination equal to what the source held.\<close>

lemma load_copy:
  "n \<le> addr_space \<Longrightarrow> load (store m d (load m s n)) d n = load m s n"
  using load_store_same [of "load m s n" m d] by (simp add: load_length)

text \<open>
  The overflow law: storing \<open>pad @ w @ rest\<close> from the start of a buffer puts \<open>w\<close> at
  the address \<open>length pad\<close> bytes behind that start, whatever object lives there.
\<close>

lemma load_overflow:
  assumes "length (pad @ w @ rest) \<le> addr_space" "t = b + of_nat (length pad)"
  shows "load (store m b (pad @ w @ rest)) t (length w) = w"
  unfolding assms(2)
  by (subst load_store_in) (use assms(1) in auto)

end

interpretation flat: byte_memory rd_bytes wr_bytes
  by unfold_locales (auto simp: rd_wr_part rd_wr_disjoint)

lemma rd32_wr_bytes:
  assumes "length (pad @ le32_bytes v @ rest) \<le> addr_space" "t = b + of_nat (length pad)"
  shows "rd32 (wr_bytes m b (pad @ le32_bytes v @ rest)) t = v"
proof -
  have "rd_bytes (wr_bytes m b (pad @ le32_bytes v @ rest)) t 4 = le32_bytes v"
    using flat.load_overflow [OF assms] by simp
  then show ?thesis by (simp add: rd32_bytes) (simp add: le32_bytes_def)
qed

lemma rd32_wr32 [simp]: "rd32 (wr32 m a v) a = v"
  using rd32_wr_bytes [of "[]" v "[]" a a m] by (simp add: wr32_def addr_space_def)

lemma rd32_wr_disjoint:
  assumes "disjoint_regions b 4 a (length bs)" "length bs \<le> addr_space"
  shows "rd32 (wr_bytes m a bs) b = rd32 m b"
  using flat.load_store_out [OF assms] by (simp add: rd32_bytes addr_space_def)

end
