(* ===== verification/Ripe_Payload.thy ===== *)
theory Ripe_Payload
  imports Ripe_Params Ripe_Shellcode Flat_Memory
begin

text \<open>
  The payload builder of RIPE (\<open>build_payload\<close>) and the byte-wise copy routine
  \<open>homebrew_memcpy\<close>, over flat memory. \<open>malloc\<close> belongs to the C library of the
  target and is a parameter: a function of the number of calls so far and the requested size,
  zero being the null pointer. Addresses and sizes are 32 bits wide, as on the CV32A6 target;
  \<open>sizeof(long)\<close> is 4.
\<close>

unbundle bit_operations_syntax

section \<open>State\<close>

record ripe =
  rmem :: memory
  nmalloc :: nat

type_synonym allocator = "nat \<Rightarrow> u32 \<Rightarrow> u32"

definition malloc :: "allocator \<Rightarrow> u32 \<Rightarrow> ripe \<Rightarrow> u32 \<times> ripe" where
  "malloc al n s = (al (nmalloc s) n, s\<lparr>nmalloc := Suc (nmalloc s)\<rparr>)"

record char_payload =
  p_inject_param :: inject_param
  p_size :: u32
  overflow_ptr :: u32
  p_buffer :: u32
  jmp_buffer :: u32
  stack_jmp_buffer_param :: u32
  offset_to_copied_base_ptr :: u32
  offset_to_fake_return_addr :: u32
  fake_return_addr :: u32
  ptr_to_correct_return_addr :: u32

definition size_shellcode_nonop :: u32 where
  "size_shellcode_nonop = 12"

definition sizeof_long :: u32 where
  "sizeof_long = 4"

section \<open>homebrew_memcpy\<close>

fun homebrew_memcpy_loop :: "nat \<Rightarrow> u32 \<Rightarrow> u32 \<Rightarrow> memory \<Rightarrow> memory" where
  "homebrew_memcpy_loop 0 d s m = m"
| "homebrew_memcpy_loop (Suc n) d s m = homebrew_memcpy_loop n (d + 1) (s + 1) (m(d := m s))"

definition homebrew_memcpy :: "memory \<Rightarrow> u32 \<Rightarrow> u32 \<Rightarrow> u32 \<Rightarrow> memory" where
  "homebrew_memcpy m dst src len = homebrew_memcpy_loop (unat len) dst src m"

section \<open>build_payload\<close>

text \<open>
  The part behind the \<open>switch\<close>: allocate, copy the shellcode, pad, append the pointer,
  terminate. \<open>shellcode\<close> is the address the code is copied from.
\<close>

definition fill_payload ::
  "allocator \<Rightarrow> attack_form \<Rightarrow> u32 \<Rightarrow> u32 \<Rightarrow> char_payload \<Rightarrow> ripe \<Rightarrow> bool \<times> char_payload \<times> ripe" where
  "fill_payload al a shellcode size_shellcode p s =
     (let (buf, s1) = malloc al (p_size p) s;
          p1 = p\<lparr>p_buffer := buf\<rparr>
      in if buf = 0 then (False, p1, s1)
         else
           let m1 = memcpy (rmem s1) buf shellcode size_shellcode;
               bytes_to_pad = p_size p1 - size_shellcode - sizeof_long - 1;
               m2 = memset m1 (buf + size_shellcode) (chr8 CHR ''A'') bytes_to_pad;
               m3 = (if code_ptr a \<noteq> VAR_IOF
                     then wr_bytes m2 (buf + (size_shellcode + bytes_to_pad))
                            (le32_bytes (overflow_ptr p1))
                     else m2);
               m4 = memset m3 (buf + p_size p1 - 1) 0 1
           in (True, p1, s1\<lparr>rmem := m4\<rparr>))"

text \<open>
  \<open>shellcode_nonop\<close> and \<open>dummy\<close> are the addresses of the shellcode buffer and of
  the string constant. The result is the boolean the function returns, with the updated
  payload record and state.
\<close>

definition build_payload ::
  "allocator \<Rightarrow> u32 \<Rightarrow> u32 \<Rightarrow> attack_form \<Rightarrow> char_payload \<Rightarrow> ripe \<Rightarrow> bool \<times> char_payload \<times> ripe" where
  "build_payload al shellcode_nonop dummy a p s =
     (case inject_param a of
        INJECTED_CODE_NO_NOP \<Rightarrow>
          if p_size p < size_shellcode_nonop + sizeof_long then (False, p, s)
          else fill_payload al a shellcode_nonop size_shellcode_nonop p s
      | DATA_ONLY \<Rightarrow>
          (let p1 = (if code_ptr a = VAR_IOF then p\<lparr>p_size := 256 + sizeof_long + 1\<rparr> else p)
           in if code_ptr a = VAR_LEAK
              then
                let size = p_size p1 + (32 - sizeof_long);
                    m = (rmem s)(p_buffer p1 := ucast (size AND 0xFF));
                    m = m(p_buffer p1 + 1 := ucast (size div 0x100));
                    m = m(p_buffer p1 + 2 := chr8 CHR ''A'');
                    m = m(p_buffer p1 + 3 := 0)
                in (True, p1\<lparr>p_size := 4\<rparr>, s\<lparr>rmem := m\<rparr>)
              else if p_size p1 < sizeof_long then (False, p1, s)
              else fill_payload al a dummy 0 p1 s)
      | RETURN_ORIENTED_PROGRAMMING \<Rightarrow>
          if p_size p < sizeof_long then (False, p, s) else fill_payload al a dummy 0 p s
      | RETURN_INTO_LIBC \<Rightarrow>
          if p_size p < sizeof_long then (False, p, s) else fill_payload al a dummy 0 p s)"

section \<open>What the builder produces\<close>

text \<open>The documented layout: shellcode, padding, pointer, terminating zero.\<close>

definition payload_bytes :: "u8 list \<Rightarrow> u32 \<Rightarrow> u32 \<Rightarrow> u8 list" where
  "payload_bytes code sz ptr =
     code @ replicate (unat sz - length code - 5) (chr8 CHR ''A'') @ le32_bytes ptr @ [0]"

lemma length_payload_bytes:
  "length code + 5 \<le> unat sz \<Longrightarrow> length (payload_bytes code sz ptr) = unat sz"
  by (simp add: payload_bytes_def)

lemma rmem_malloc [simp]: "rmem (snd (malloc al n s)) = rmem s" "fst (malloc al n s) = al (nmalloc s) n"
  by (simp_all add: malloc_def)

lemma homebrew_memcpy_loop_eq:
  "disjoint_regions d n s n \<Longrightarrow> n \<le> addr_space \<Longrightarrow>
   homebrew_memcpy_loop n d s m = wr_bytes m d (rd_bytes m s n)"
proof (induction n arbitrary: d s m)
  case (Suc n)
  show ?case
  proof (cases "n = 0")
    case True
    then show ?thesis by (simp add: rd_bytes_def)
  next
    case False
    have ge: "unat (s - d) \<ge> Suc n" "unat (d - s) \<ge> Suc n"
      using Suc.prems by (auto simp: disjoint_regions_def)
    have dis: "disjoint_regions (d + 1) n (s + 1) n"
      using ge by (simp add: disjoint_regions_def)
    have "rd_bytes (m(d := m s)) (s + 1) n = rd_bytes m (s + 1) n"
    proof (rule rd_bytes_cong)
      fix i assume i: "i < n"
      have "s + 1 + of_nat i \<noteq> d"
      proof
        assume "s + 1 + of_nat i = d"
        then have "d - s = of_nat (Suc i)" by (simp add: algebra_simps)
        then have "unat (d - s) = Suc i"
          using i Suc.prems(2) unat_of_nat_off [of "Suc i"] by simp
        with ge i show False by simp
      qed
      then show "(m(d := m s)) (s + 1 + of_nat i) = m (s + 1 + of_nat i)" by simp
    qed
    moreover have "rd_bytes m s (Suc n) = m s # rd_bytes m (s + 1) n"
      by (rule nth_equalityI) (auto simp: nth_Cons' algebra_simps split: nat.splits)
    ultimately show ?thesis using Suc.IH [OF dis] Suc.prems(2) by simp
  qed
qed (simp add: rd_bytes_def)

lemma homebrew_memcpy_eq:
  "disjoint_regions d (unat n) s (unat n) \<Longrightarrow> homebrew_memcpy m d s n = memcpy m d s n"
  using unat_u32_less [of n]
  by (simp add: homebrew_memcpy_def memcpy_def homebrew_memcpy_loop_eq addr_space_def)

text \<open>The four writes of \<open>fill_payload\<close> are one write of the documented layout.\<close>

lemma fill_payload_eq:
  assumes size: "unat sc + 5 \<le> unat (p_size p)"
    and code: "rd_bytes (rmem s) shellcode (unat sc) = code"
    and buf: "al (nmalloc s) (p_size p) = buf" "buf \<noteq> 0"
    and ptr: "code_ptr a \<noteq> VAR_IOF"
  shows "fill_payload al a shellcode sc p s =
    (True, p\<lparr>p_buffer := buf\<rparr>,
     s\<lparr>nmalloc := Suc (nmalloc s),
       rmem := wr_bytes (rmem s) buf (payload_bytes code (p_size p) (overflow_ptr p))\<rparr>)"
proof -
  let ?pad = "p_size p - sc - sizeof_long - 1"
  have len: "length code = unat sc" using code by auto
  have le: "sc + 5 \<le> p_size p"
    using size unat_u32_less [of "p_size p"]
    by (simp add: word_le_nat_alt unat_word_ariths)
  have pad: "unat ?pad = unat (p_size p) - unat sc - 5"
  proof -
    have e: "?pad = p_size p - (sc + 5)" by (simp add: sizeof_long_def)
    have "unat (sc + 5) = unat sc + 5"
      using size unat_u32_less [of "p_size p"] by (simp add: unat_word_ariths)
    then show ?thesis unfolding e using unat_sub [OF le] by simp
  qed
  have w: "of_nat (unat (p_size p) - unat sc - 5) = ?pad" unfolding pad [symmetric] by simp
  have e1: "buf + (sc + ?pad) = buf + of_nat (length code + (unat (p_size p) - unat sc - 5))"
    by (simp only: of_nat_add w len) simp
  have e2: "buf + p_size p - 1 =
      buf + of_nat (length code + (unat (p_size p) - unat sc - 5) + 4)"
    by (simp only: of_nat_add w len) (simp add: sizeof_long_def)
  have e0: "buf + sc = buf + of_nat (length code)" by (simp add: len)
  have "wr_bytes (rmem s) buf (payload_bytes code (p_size p) (overflow_ptr p)) =
    memset (wr_bytes (memset (memcpy (rmem s) buf shellcode sc) (buf + sc) (chr8 CHR ''A'') ?pad)
      (buf + (sc + ?pad)) (le32_bytes (overflow_ptr p))) (buf + p_size p - 1) 0 1"
    unfolding e0 e1 e2
    by (simp add: payload_bytes_def memcpy_def memset_def code pad wr_bytes_append len)
      (simp add: algebra_simps)
  with buf ptr show ?thesis
    by (simp add: fill_payload_def malloc_def Let_def)
qed

section \<open>Properties\<close>

text \<open>
  \<open>homebrew_memcpy\<close>, which copies byte by byte through two moving pointers, has
  the same effect as the library's \<open>memcpy\<close> on regions that do not overlap, also when a
  region wraps around the end of the address space.
\<close>

theorem homebrew_memcpy_correct:
  "disjoint_regions d (unat n) s (unat n) \<Longrightarrow>
   homebrew_memcpy m d s n = memcpy m d s n"
  by (rule homebrew_memcpy_eq)

theorem homebrew_memcpy_correct_witness:
  "homebrew_memcpy (\<lambda>a. ucast a) 0x1000 0x2004 3 0x1002 = 6"
proof -
  have "homebrew_memcpy (\<lambda>a. ucast a) 0x1000 0x2004 3 = memcpy (\<lambda>a. ucast a) 0x1000 0x2004 3"
    by (rule homebrew_memcpy_correct) (simp add: disjoint_regions_def)
  then show ?thesis by (simp add: memcpy_def rd_bytes_def upt_conv_Cons)
qed

text \<open>
  C36. \<open>build_payload\<close> writes the documented layout. For a payload that leaves room for
  the code, the pointer and the terminator it succeeds, allocates one buffer of the payload's
  size and fills all of it: the shellcode (for injected code), the padding, the overflow
  pointer in little-endian order and a final zero byte; no other memory changes.
\<close>

theorem build_payload_layout:
  assumes "a_code = (if inject_param a = INJECTED_CODE_NO_NOP
      then rd_bytes (rmem s) sc 12 else [])"
    and "inject_param a \<noteq> DATA_ONLY" "code_ptr a \<noteq> VAR_IOF"
    and "length a_code + 5 \<le> unat (p_size p)"
    and "al (nmalloc s) (p_size p) = buf" "buf \<noteq> 0"
  shows "build_payload al sc dummy a p s =
    (True, p\<lparr>p_buffer := buf\<rparr>,
     s\<lparr>nmalloc := Suc (nmalloc s),
       rmem := wr_bytes (rmem s) buf (payload_bytes a_code (p_size p) (overflow_ptr p))\<rparr>)"
proof (cases "inject_param a = INJECTED_CODE_NO_NOP")
  case True
  with assms fill_payload_eq [of size_shellcode_nonop p s sc a_code al buf a]
  show ?thesis
    by (simp add: build_payload_def size_shellcode_nonop_def sizeof_long_def word_less_nat_alt)
next
  case False
  with assms have "inject_param a = RETURN_INTO_LIBC \<or> inject_param a = RETURN_ORIENTED_PROGRAMMING"
    by (cases "inject_param a") auto
  with assms False fill_payload_eq [of 0 p s dummy "[]" al buf a] show ?thesis
    by (auto simp: build_payload_def sizeof_long_def word_less_nat_alt rd_bytes_def)
qed

definition demo_payload :: char_payload where
  "demo_payload = \<lparr>p_inject_param = INJECTED_CODE_NO_NOP, p_size = 20, overflow_ptr = 0x11223344,
     p_buffer = 0, jmp_buffer = 0, stack_jmp_buffer_param = 0, offset_to_copied_base_ptr = 0,
     offset_to_fake_return_addr = 0, fake_return_addr = 0, ptr_to_correct_return_addr = 0\<rparr>"

theorem build_payload_layout_witness:
  "build_payload (\<lambda>_ _. 0x8000) 0x100 0x200
     (mk_attack DIRECT INJECTED_CODE_NO_NOP RET_ADDR STACK MEMCPY) demo_payload
     \<lparr>rmem = (\<lambda>_. 7), nmalloc = 0\<rparr> =
   (True, demo_payload\<lparr>p_buffer := 0x8000\<rparr>,
    \<lparr>rmem = wr_bytes (\<lambda>_. 7) 0x8000
        (replicate 12 7 @ replicate 3 (chr8 CHR ''A'') @ le32_bytes 0x11223344 @ [0]), nmalloc = 1\<rparr>)"
  using build_payload_layout [OF refl, where a = "mk_attack DIRECT INJECTED_CODE_NO_NOP RET_ADDR STACK MEMCPY"
      and s = "\<lparr>rmem = (\<lambda>_. 7), nmalloc = 0\<rparr>" and sc = "0x100" and p = demo_payload
      and al = "\<lambda>_ _. 0x8000" and buf = "0x8000" and dummy = "0x200"]
  by (simp add: mk_attack_def demo_payload_def payload_bytes_def rd_bytes_def map_replicate_const)

text \<open>
  C40. The size guard of \<open>build_payload\<close> forgets the terminator. A payload of exactly 16
  bytes of injected code passes the guard, but the number of padding bytes, \<open>size - 12 - 4 - 1\<close>
  in unsigned arithmetic, wraps to \<open>2\<^sup>3\<^sup>2 - 1\<close>: the padding overwrites the whole address
  space but for five bytes with the letter A.
\<close>

theorem build_payload_guard_wraps:
  assumes "inject_param a = INJECTED_CODE_NO_NOP" "code_ptr a \<noteq> VAR_IOF"
    and "p_size p = 16" "al (nmalloc s) 16 = buf" "buf \<noteq> 0"
    and "build_payload al sc dummy a p s = (ok, p', s')"
  shows "ok \<and> (\<not> in_region x (buf + 11) 5 \<longrightarrow> rmem s' x = chr8 CHR ''A'')"
proof -
  define pad :: u32 where "pad = 16 - 12 - 4 - 1"
  have pad: "pad = - 1" "unat pad = 4294967295" by (simp_all add: pad_def unat_minus1_u32)
  let ?m1 = "memcpy (rmem s) buf sc 12"
  let ?m2 = "memset ?m1 (buf + 12) (chr8 CHR ''A'') pad"
  let ?m3 = "wr_bytes ?m2 (buf + (12 + pad)) (le32_bytes (overflow_ptr p))"
  have r: "ok" "rmem s' = memset ?m3 (buf + 16 - 1) 0 1"
    using assms by (auto simp: build_payload_def fill_payload_def malloc_def Let_def pad_def
        size_shellcode_nonop_def sizeof_long_def)
  have "rmem s' x = chr8 CHR ''A''" if x: "\<not> in_region x (buf + 11) 5"
  proof -
    have ne: "x \<noteq> buf + 15" and out: "\<not> in_region x (buf + 11) 4"
      using x by (auto simp: in_region_def)
    have "in_region x (buf + 12) 4294967295"
    proof (rule ccontr)
      assume "\<not> ?thesis"
      then have "unat (x - (buf + 12)) = unat (- 1 :: u32)"
        using unat_u32_less [of "x - (buf + 12)"] by (simp add: in_region_def unat_minus1_u32)
      then have "x - (buf + 12) = - 1" by (simp only: word_unat_eq_iff)
      then have "x = buf + 11" by (simp add: algebra_simps)
      with x show False by (simp add: in_region_def)
    qed
    then have "?m2 x = chr8 CHR ''A''"
      by (simp add: memset_def wr_bytes_apply pad(2) in_region_def addr_space_def)
    moreover have "?m3 x = ?m2 x"
      using out by (simp add: wr_bytes_apply addr_space_def pad(1))
    ultimately show ?thesis using ne by (simp add: r memset_def add.commute)
  qed
  with r show ?thesis by simp
qed

theorem build_payload_guard_wraps_witness:
  "rmem (snd (snd (build_payload (\<lambda>_ _. 0x8000) 0x100 0x200
     (mk_attack DIRECT INJECTED_CODE_NO_NOP RET_ADDR STACK MEMCPY) (demo_payload\<lparr>p_size := 16\<rparr>)
     \<lparr>rmem = (\<lambda>_. 7), nmalloc = 0\<rparr>))) 0 = 0x41"
proof -
  let ?s = "\<lparr>rmem = (\<lambda>_. 7 :: u8), nmalloc = 0\<rparr>"
  let ?a = "mk_attack DIRECT INJECTED_CODE_NO_NOP RET_ADDR STACK MEMCPY"
  obtain ok p' s' where r: "build_payload (\<lambda>_ _. 0x8000) 0x100 0x200 ?a (demo_payload\<lparr>p_size := 16\<rparr>) ?s
      = (ok, p', s')" by (cases "build_payload (\<lambda>_ _. 0x8000) 0x100 0x200 ?a (demo_payload\<lparr>p_size := 16\<rparr>) ?s")
  from build_payload_guard_wraps [OF _ _ _ _ _ r, of "0x8000" 0] show ?thesis
    unfolding r by (simp add: mk_attack_def in_region_def chr8_def)
qed

end
