(* ===== verification/Ripe_Attack.thy ===== *)
theory Ripe_Attack
  imports Ripe_Payload
begin

text \<open>
  The attack itself: \<open>perform_attack\<close> and \<open>try_attack\<close> of
  \<open>ripe_attack_generator.c\<close>, cut at its consecutive \<open>switch\<close> statements. The
  attacked objects (function pointers, jump buffers, flags, secrets, buffers, structs and the
  saved return address) live in flat memory; where the compiler and linker put them is the
  parameter \<open>layout\<close>. The bookkeeping variables of \<open>perform_attack\<close>
  (\<open>buffer\<close>, \<open>target_addr\<close>, the heap pointers, the payload record) are held
  outside that memory, in a record whose initial value stands for the indeterminate contents
  of uninitialised C variables. \<open>setjmp\<close> and \<open>longjmp\<close> of the target's C library
  are parameters too: the words \<open>setjmp\<close> saves and the offset of the saved program
  counter in a jump buffer. Debug output is not modelled.
\<close>

unbundle bit_operations_syntax

section \<open>Parameters and state\<close>

record layout =
  stack_func_ptr :: u32
  stack_func_ptr_param :: u32
  stack_mem_ptr :: u32
  stack_mem_ptr_aux :: u32
  stack_flag :: u32
  stack_secret :: u32
  stack_buffer :: u32
  stack_struct :: u32
  stack_jmp_buffer :: u32
  stack_jmp_buffer_param_a :: u32
  low_buf :: u32
  ret_addr_ptr :: u32
  bss_func_ptr :: u32
  bss_flag :: u32
  bss_mem_ptr_aux :: u32
  bss_mem_ptr :: u32
  bss_secret :: u32
  bss_buffer :: u32
  bss_jmp_buffer :: u32
  bss_struct :: u32
  data_struct :: u32
  data_buffer1 :: u32
  data_buffer2 :: u32
  data_secret :: u32
  data_flag :: u32
  data_mem_ptr_aux :: u32
  data_mem_ptr :: u32
  data_func_ptr :: u32
  data_jmp_buffer :: u32
  dop_dest :: u32
  shellcode_nonop :: u32
  dummy_string :: u32
  dummy_function :: u32
  shellcode_target :: u32
  ret2libc_target :: u32
  rop_target :: u32

record clib =
  allocator :: allocator
  setjmp_words :: "u32 list"
  sizeof_jmp_buf :: u32
  jmp_pc_offset :: u32

record locals =
  buffer :: u32
  heap_struct :: u32
  heap_buffer1 :: u32
  heap_buffer2 :: u32
  heap_buffer3 :: u32
  heap_flag :: u32
  heap_mem_ptr_aux :: u32
  heap_mem_ptr :: u32
  heap_secret :: u32
  heap_func_ptr :: u32
  heap_jmp_buffer :: u32
  target_addr :: u32
  target_addr_aux :: u32
  payload :: char_payload

text \<open>
  How the attack run ends: \<open>exit\<close> with a status; the function returns through the saved
  return address; a function pointer is called; \<open>longjmp\<close> jumps; the data-only check
  \<open>dop_target\<close> succeeds or fails; \<open>data_leak\<close> prints bytes.
\<close>

datatype outcome =
  Exit int
| ReturnTo u32
| CallTo u32
| LongjmpTo u32
| DopSuccess
| DopFailed
| Leaked "u8 list"

type_synonym astate = "locals \<times> ripe"
type_synonym 'a run = "outcome + 'a"

definition upd_mem :: "(memory \<Rightarrow> memory) \<Rightarrow> ripe \<Rightarrow> ripe" where
  "upd_mem f s = s\<lparr>rmem := f (rmem s)\<rparr>"

definition lmalloc :: "clib \<Rightarrow> u32 \<Rightarrow> (u32 \<Rightarrow> locals \<Rightarrow> locals) \<Rightarrow> astate \<Rightarrow> astate" where
  "lmalloc c n f = (\<lambda>(l, s). let (p, s') = malloc (allocator c) n s in (f p l, s'))"

section \<open>Preparing the targets\<close>

text \<open>
  The declarations with initialisers, the check of the allocations, the two \<open>bss\<close> writes
  and the shellcode. \<open>sizeof(struct attackme)\<close> is 260.
\<close>

definition prepare_targets :: "layout \<Rightarrow> clib \<Rightarrow> astate \<Rightarrow> astate run" where
  "prepare_targets y c st =
     (let st = (\<lambda>(l, s). (l, upd_mem (\<lambda>m. strcpy m (stack_secret y) (data_secret y)) s)) st;
          st = (\<lambda>(l, s). (l, upd_mem (\<lambda>m. wr32 m (stack_struct y + 256) (dummy_function y)) s)) st;
          st = lmalloc c 260 (\<lambda>p l. l\<lparr>heap_struct := p\<rparr>) st;
          st = (\<lambda>(l, s). (l, upd_mem (\<lambda>m. wr32 m (heap_struct l + 256) (dummy_function y)) s)) st;
          st = lmalloc c (256 + 4) (\<lambda>p l. l\<lparr>heap_buffer1 := p\<rparr>) st;
          st = lmalloc c (256 + 4) (\<lambda>p l. l\<lparr>heap_buffer2 := p\<rparr>) st;
          st = lmalloc c (256 + 4) (\<lambda>p l. l\<lparr>heap_buffer3 := p\<rparr>) st;
          st = lmalloc c 4 (\<lambda>p l. l\<lparr>heap_flag := p\<rparr>) st;
          st = (\<lambda>(l, s). (l\<lparr>heap_func_ptr := 0\<rparr>, s)) st
      in if heap_buffer1 (fst st) = 0 \<or> heap_buffer2 (fst st) = 0 then Inl (Exit 1)
         else
           let (l, s) = st;
               s = upd_mem (\<lambda>m. m(bss_buffer y := chr8 CHR ''a'')) s;
               s = upd_mem (\<lambda>m. strcpy m (bss_secret y) (data_secret y)) s
           in (case build_shellcode (shellcode_target y) of
                 None \<Rightarrow> Inl (Exit 1)
               | Some code \<Rightarrow> Inr (l, upd_mem (\<lambda>m. wr_bytes m (shellcode_nonop y) code) s)))"

text \<open>The \<open>switch (attack.location)\<close> that picks the buffer to overflow.\<close>

definition choose_buffer :: "layout \<Rightarrow> clib \<Rightarrow> attack_form \<Rightarrow> astate \<Rightarrow> astate run" where
  "choose_buffer y c a = (\<lambda>(l, s).
     (case location a of
        STACK \<Rightarrow>
          (let l = (if code_ptr a = STRUCT_FUNC_PTR_STACK \<and> technique a = DIRECT
                    then l\<lparr>buffer := stack_struct y\<rparr>
                    else if code_ptr a = FUNC_PTR_STACK_PARAM \<and> technique a = DIRECT
                    then l\<lparr>buffer := low_buf y\<rparr>
                    else l\<lparr>buffer := stack_buffer y\<rparr>);
               s = (if inject_param a = DATA_ONLY
                    then upd_mem (\<lambda>m. wr32 m (stack_mem_ptr y) (stack_flag y)) s else s)
           in Inr (l\<lparr>heap_func_ptr := heap_buffer1 l, heap_jmp_buffer := heap_buffer1 l\<rparr>, s))
      | HEAP \<Rightarrow>
          if code_ptr a = STRUCT_FUNC_PTR_HEAP \<and> technique a = DIRECT
          then Inr (l\<lparr>buffer := heap_struct l\<rparr>, s)
          else if heap_buffer1 l < heap_buffer2 l \<and> heap_buffer2 l < heap_buffer3 l
          then
            let l = l\<lparr>buffer := heap_buffer1 l, heap_mem_ptr_aux := heap_buffer2 l,
                       heap_mem_ptr := heap_buffer3 l\<rparr>;
                (l, s) = (if code_ptr a = VAR_LEAK
                          then (l\<lparr>heap_secret := heap_buffer2 l\<rparr>,
                                upd_mem (\<lambda>m. strcpy m (heap_buffer2 l) (data_secret y)) s)
                          else (l, s));
                (l, s) = lmalloc c 4 (\<lambda>p l. l\<lparr>heap_func_ptr := p\<rparr>) (l, s);
                (l, s) = lmalloc c (sizeof_jmp_buf c) (\<lambda>p l. l\<lparr>heap_jmp_buffer := p\<rparr>) (l, s);
                l = (if inject_param a = DATA_ONLY then l\<lparr>heap_mem_ptr := heap_flag l\<rparr> else l)
            in Inr (l, s)
          else Inl (Exit 1)
      | DATA \<Rightarrow>
          if code_ptr a = STRUCT_FUNC_PTR_DATA then Inr (l\<lparr>buffer := data_struct y\<rparr>, s)
          else
            let l = (if (code_ptr a = FUNC_PTR_DATA \<or> code_ptr a = VAR_BOF) \<and> technique a = DIRECT
                     then l\<lparr>buffer := data_buffer2 y\<rparr> else l\<lparr>buffer := data_buffer1 y\<rparr>);
                s = (if inject_param a = DATA_ONLY
                     then upd_mem (\<lambda>m. wr32 (wr32 m (data_flag y) 0) (data_mem_ptr y) (data_flag y)) s
                     else s)
            in Inr (l\<lparr>heap_func_ptr := heap_buffer1 l, heap_jmp_buffer := heap_buffer1 l\<rparr>, s)
      | BSS \<Rightarrow>
          if code_ptr a = STRUCT_FUNC_PTR_BSS then Inr (l\<lparr>buffer := bss_struct y\<rparr>, s)
          else
            let l = l\<lparr>buffer := bss_buffer y\<rparr>;
                s = upd_mem (\<lambda>m. wr32 m (bss_flag y) 0) s;
                s = upd_mem (\<lambda>m. wr32 m (bss_mem_ptr_aux y) (dummy_function y)) s;
                s = upd_mem (\<lambda>m. wr32 m (bss_mem_ptr y) (dummy_function y)) s;
                s = (if inject_param a = DATA_ONLY
                     then upd_mem (\<lambda>m. wr32 m (bss_mem_ptr y) (bss_flag y)) s else s)
            in Inr (l\<lparr>heap_func_ptr := heap_buffer1 l\<rparr>, s)))"

definition init_heap_func_ptr :: "layout \<Rightarrow> astate \<Rightarrow> astate" where
  "init_heap_func_ptr y = (\<lambda>(l, s).
     (l, if heap_func_ptr l \<noteq> 0
         then upd_mem (\<lambda>m. wr32 m (heap_func_ptr l) (dummy_function y)) s else s))"

section \<open>Where to aim\<close>

text \<open>The address of the code pointer named by \<open>attack.code_ptr\<close>.\<close>

primrec code_ptr_addr :: "layout \<Rightarrow> locals \<Rightarrow> location \<Rightarrow> code_ptr \<Rightarrow> u32" where
  "code_ptr_addr y l loc RET_ADDR = ret_addr_ptr y"
| "code_ptr_addr y l loc FUNC_PTR_STACK_VAR = stack_func_ptr y"
| "code_ptr_addr y l loc FUNC_PTR_STACK_PARAM = stack_func_ptr_param y"
| "code_ptr_addr y l loc FUNC_PTR_HEAP = heap_func_ptr l"
| "code_ptr_addr y l loc FUNC_PTR_BSS = bss_func_ptr y"
| "code_ptr_addr y l loc FUNC_PTR_DATA = data_func_ptr y"
| "code_ptr_addr y l loc LONGJMP_BUF_STACK_VAR = stack_jmp_buffer y"
| "code_ptr_addr y l loc LONGJMP_BUF_STACK_PARAM = stack_jmp_buffer_param_a y"
| "code_ptr_addr y l loc LONGJMP_BUF_HEAP = heap_jmp_buffer l"
| "code_ptr_addr y l loc LONGJMP_BUF_DATA = data_jmp_buffer y"
| "code_ptr_addr y l loc LONGJMP_BUF_BSS = bss_jmp_buffer y"
| "code_ptr_addr y l loc STRUCT_FUNC_PTR_STACK = stack_struct y + 256"
| "code_ptr_addr y l loc STRUCT_FUNC_PTR_HEAP = heap_struct l + 256"
| "code_ptr_addr y l loc STRUCT_FUNC_PTR_DATA = data_struct y + 256"
| "code_ptr_addr y l loc STRUCT_FUNC_PTR_BSS = bss_struct y + 256"
| "code_ptr_addr y l loc VAR_BOF =
     (case loc of STACK \<Rightarrow> stack_flag y | HEAP \<Rightarrow> heap_flag l | DATA \<Rightarrow> data_flag y | BSS \<Rightarrow> bss_flag y)"
| "code_ptr_addr y l loc VAR_IOF =
     (case loc of STACK \<Rightarrow> stack_flag y | HEAP \<Rightarrow> heap_flag l | DATA \<Rightarrow> data_flag y | BSS \<Rightarrow> bss_flag y)"
| "code_ptr_addr y l loc VAR_LEAK =
     (case loc of STACK \<Rightarrow> stack_secret y | HEAP \<Rightarrow> heap_secret l | DATA \<Rightarrow> data_secret y
        | BSS \<Rightarrow> bss_secret y)"

definition set_target_addr :: "layout \<Rightarrow> attack_form \<Rightarrow> astate \<Rightarrow> astate" where
  "set_target_addr y a = (\<lambda>(l, s).
     ((case technique a of
         DIRECT \<Rightarrow> l\<lparr>target_addr := code_ptr_addr y l (location a) (code_ptr a)\<rparr>
       | INDIRECT \<Rightarrow>
           (case location a of
              STACK \<Rightarrow> l\<lparr>target_addr := stack_mem_ptr y, target_addr_aux := stack_mem_ptr_aux y\<rparr>
            | HEAP \<Rightarrow> l\<lparr>target_addr := heap_mem_ptr l, target_addr_aux := heap_mem_ptr_aux l\<rparr>
            | DATA \<Rightarrow> l\<lparr>target_addr := data_mem_ptr y, target_addr_aux := data_mem_ptr_aux y\<rparr>
            | BSS \<Rightarrow> l\<lparr>target_addr := bss_mem_ptr y, target_addr_aux := bss_mem_ptr_aux y\<rparr>)), s))"

text \<open>
  The \<open>setjmp\<close> calls. Each returns 0 here; a second return, through \<open>longjmp\<close> on an
  intact buffer, is the outcome \<open>LongjmpTo\<close> of the saved program counter.
\<close>

definition setjmp :: "clib \<Rightarrow> u32 \<Rightarrow> ripe \<Rightarrow> ripe" where
  "setjmp c b = upd_mem (\<lambda>m. wr_bytes m b (concat (map le32_bytes (setjmp_words c))))"

definition set_longjmp_buffers :: "layout \<Rightarrow> clib \<Rightarrow> attack_form \<Rightarrow> astate \<Rightarrow> astate" where
  "set_longjmp_buffers y c a = (\<lambda>(l, s).
     (let set_jb = (\<lambda>b l. l\<lparr>payload := (payload l)\<lparr>jmp_buffer := b\<rparr>\<rparr>);
          set_null = (\<lambda>l. l\<lparr>payload := (payload l)\<lparr>stack_jmp_buffer_param := 0\<rparr>\<rparr>)
      in case code_ptr a of
        LONGJMP_BUF_STACK_VAR \<Rightarrow> (set_jb (stack_jmp_buffer y) l, setjmp c (stack_jmp_buffer y) s)
      | LONGJMP_BUF_STACK_PARAM \<Rightarrow>
          (set_jb (stack_jmp_buffer_param_a y) l, setjmp c (stack_jmp_buffer_param_a y) s)
      | LONGJMP_BUF_HEAP \<Rightarrow>
          (set_null (set_jb (heap_jmp_buffer l) l), setjmp c (heap_jmp_buffer l) s)
      | LONGJMP_BUF_DATA \<Rightarrow>
          (set_null (set_jb (data_jmp_buffer y) l), setjmp c (data_jmp_buffer y) s)
      | LONGJMP_BUF_BSS \<Rightarrow>
          (set_null (set_jb (bss_jmp_buffer y) l), setjmp c (bss_jmp_buffer y) s)
      | _ \<Rightarrow> (l, s)))"

text \<open>The word the overflow writes: the attack code (direct) or the code pointer (indirect).\<close>

definition set_overflow_ptr :: "layout \<Rightarrow> attack_form \<Rightarrow> astate \<Rightarrow> astate" where
  "set_overflow_ptr y a = (\<lambda>(l, s).
     (let p = (payload l)\<lparr>ptr_to_correct_return_addr := ret_addr_ptr y,
                           p_inject_param := inject_param a\<rparr>;
          w = (case technique a of
                 DIRECT \<Rightarrow>
                   (case inject_param a of
                      RETURN_INTO_LIBC \<Rightarrow> ret2libc_target y
                    | RETURN_ORIENTED_PROGRAMMING \<Rightarrow> rop_target y
                    | INJECTED_CODE_NO_NOP \<Rightarrow> buffer l
                    | DATA_ONLY \<Rightarrow> 0xdeadbeef)
               | INDIRECT \<Rightarrow>
                   (if data_var (code_ptr a) then dop_dest y
                    else code_ptr_addr y l (location a) (code_ptr a)))
      in (l\<lparr>payload := p\<lparr>overflow_ptr := w\<rparr>\<rparr>, s)))"

definition set_payload_size :: "astate \<Rightarrow> astate run" where
  "set_payload_size = (\<lambda>(l, s).
     if target_addr l > buffer l
     then Inr (l\<lparr>payload := (payload l)\<lparr>p_size := target_addr l + 4 - buffer l + 1\<rparr>\<rparr>,
               upd_mem (\<lambda>m. m(buffer l := 0)) s)
     else Inl (Exit 1))"

section \<open>The overflow\<close>

definition do_build_payload :: "layout \<Rightarrow> clib \<Rightarrow> attack_form \<Rightarrow> astate \<Rightarrow> bool \<times> astate" where
  "do_build_payload y c a = (\<lambda>(l, s).
     (let (ok, p, s') = build_payload (allocator c) (shellcode_nonop y) (dummy_string y) a (payload l) s
      in (ok, l\<lparr>payload := p\<rparr>, s')))"

definition overflow_buffer :: "attack_form \<Rightarrow> astate \<Rightarrow> astate" where
  "overflow_buffer a = (\<lambda>(l, s).
     (let b = buffer l; p = p_buffer (payload l); n = p_size (payload l) in
      (l, upd_mem (\<lambda>m.
         case function_f a of
           MEMCPY \<Rightarrow> memcpy m b p (n - 1)
         | STRCPY \<Rightarrow> strcpy m b p
         | STRNCPY \<Rightarrow> strncpy m b p n
         | SPRINTF \<Rightarrow> sprintf_s m b p
         | SNPRINTF \<Rightarrow> snprintf_s m b n p
         | STRCAT \<Rightarrow> strcat m b p
         | STRNCAT \<Rightarrow> strncat_m m b p n
         | SSCANF \<Rightarrow> m
         | HOMEBREW \<Rightarrow> homebrew_memcpy m b p (n - 1)) s)))"

text \<open>The second half of an indirect attack: a write through the overwritten general pointer.\<close>

definition redirect_pointer :: "layout \<Rightarrow> clib \<Rightarrow> attack_form \<Rightarrow> astate \<Rightarrow> astate" where
  "redirect_pointer y c a = (\<lambda>(l, s).
     (case technique a of
        DIRECT \<Rightarrow> (l, s)
      | INDIRECT \<Rightarrow>
          (let s = (if function_f a = SSCANF
                    then upd_mem (\<lambda>m.
                           let m = wr32 m (target_addr l) (push_bit 8 (rd32 m (target_addr l)))
                           in wr32 m (target_addr l) (drop_bit 8 (rd32 m (target_addr l)))) s
                    else s)
           in if inject_param a = RETURN_INTO_LIBC
              then
                let l = l\<lparr>payload := (payload l)\<lparr>overflow_ptr := ret2libc_target y,
                             p_size := target_addr_aux l - buffer l + 4 + 1\<rparr>\<rparr>;
                    (_, l, s) = do_build_payload y c a (l, s);
                    s = upd_mem (\<lambda>m. memcpy m (buffer l) (p_buffer (payload l))
                                       (p_size (payload l) - 1)) s
                in (l, upd_mem (\<lambda>m. wr32 m (rd32 m (target_addr l))
                     (case location a of
                        STACK \<Rightarrow> rd32 m (stack_mem_ptr_aux y)
                      | HEAP \<Rightarrow> rd32 m (heap_mem_ptr_aux l)
                      | DATA \<Rightarrow> rd32 m (data_mem_ptr_aux y)
                      | BSS \<Rightarrow> rd32 m (bss_mem_ptr_aux y))) s)
              else if inject_param a = INJECTED_CODE_NO_NOP
              then (l, upd_mem (\<lambda>m. wr32 m (rd32 m (target_addr l)) (buffer l)) s)
              else (l, s))))"

section \<open>Executing the attack\<close>

text \<open>
  \<open>iof\<close>: the vulnerable hash operation; \<open>iv\<close> is the address of the local
  \<open>auth_loc\<close> in \<open>dop_target\<close>, whose value it can corrupt.
\<close>

definition iof :: "clib \<Rightarrow> u32 \<Rightarrow> u32 \<Rightarrow> ripe \<Rightarrow> ripe" where
  "iof c buf iv s =
     (let len = (of_nat (length (c_str addr_space (rmem s) buf)) :: u8);
          (map_p, s) = malloc (allocator c) (ucast len) s;
          key = iv - map_p;
          key = key AND (ucast (ucast len :: u16) - 1)
      in upd_mem (\<lambda>m. m(map_p + key := 0xa1)) s)"

text \<open>\<open>auth_loc\<close> is the address the compiler gives that local.\<close>

definition dop_target :: "clib \<Rightarrow> u32 \<Rightarrow> attack_form \<Rightarrow> u32 \<Rightarrow> u32 \<Rightarrow> ripe \<Rightarrow> outcome" where
  "dop_target c auth_loc a buf auth s =
     (let s = upd_mem (\<lambda>m. wr32 m auth_loc auth) s;
          s = (if code_ptr a = VAR_IOF then iof c buf auth_loc s else s)
      in if rd32 (rmem s) auth_loc = 0 then DopFailed else DopSuccess)"

definition data_leak :: "clib \<Rightarrow> u32 \<Rightarrow> ripe \<Rightarrow> outcome" where
  "data_leak c buf s =
     (let m = rmem s;
          sz = (ucast (m buf) + ucast (m (buf + 1)) * 0x100 :: u16);
          (msg, s) = malloc (allocator c) (ucast sz) s;
          m = memcpy (rmem s) msg (buf + 2) (ucast sz)
      in Leaked (filter (\<lambda>b. b \<ge> 0x20) (rd_bytes m msg (unat sz))))"

definition lj_func :: "clib \<Rightarrow> u32 \<Rightarrow> ripe \<Rightarrow> outcome" where
  "lj_func c jb s = LongjmpTo (rd32 (rmem s) (jb + jmp_pc_offset c))"

definition execute_attack :: "layout \<Rightarrow> clib \<Rightarrow> u32 \<Rightarrow> attack_form \<Rightarrow> astate \<Rightarrow> outcome" where
  "execute_attack y c auth_loc a = (\<lambda>(l, s).
     (let m = rmem s in
      case code_ptr a of
        RET_ADDR \<Rightarrow> ReturnTo (rd32 m (ret_addr_ptr y))
      | FUNC_PTR_STACK_VAR \<Rightarrow> CallTo (rd32 m (stack_func_ptr y))
      | FUNC_PTR_STACK_PARAM \<Rightarrow> CallTo (rd32 m (stack_func_ptr_param y))
      | FUNC_PTR_HEAP \<Rightarrow> CallTo (rd32 m (heap_func_ptr l))
      | FUNC_PTR_BSS \<Rightarrow> CallTo (rd32 m (bss_func_ptr y))
      | FUNC_PTR_DATA \<Rightarrow> CallTo (rd32 m (data_func_ptr y))
      | LONGJMP_BUF_STACK_VAR \<Rightarrow> lj_func c (stack_jmp_buffer y) s
      | LONGJMP_BUF_STACK_PARAM \<Rightarrow> lj_func c (stack_jmp_buffer_param_a y) s
      | LONGJMP_BUF_HEAP \<Rightarrow> lj_func c (heap_jmp_buffer l) s
      | LONGJMP_BUF_DATA \<Rightarrow> lj_func c (data_jmp_buffer y) s
      | LONGJMP_BUF_BSS \<Rightarrow> lj_func c (bss_jmp_buffer y) s
      | STRUCT_FUNC_PTR_STACK \<Rightarrow> CallTo (rd32 m (stack_struct y + 256))
      | STRUCT_FUNC_PTR_HEAP \<Rightarrow> CallTo (rd32 m (heap_struct l + 256))
      | STRUCT_FUNC_PTR_DATA \<Rightarrow> CallTo (rd32 m (data_struct y + 256))
      | STRUCT_FUNC_PTR_BSS \<Rightarrow> CallTo (rd32 m (bss_struct y + 256))
      | VAR_LEAK \<Rightarrow> data_leak c (buffer l) s
      | _ \<Rightarrow>
          (case location a of
             STACK \<Rightarrow> dop_target c auth_loc a (buffer l) (rd32 m (rd32 m (stack_mem_ptr y))) s
           | HEAP \<Rightarrow> dop_target c auth_loc a (buffer l) (rd32 m (heap_mem_ptr l)) s
           | DATA \<Rightarrow> dop_target c auth_loc a (buffer l) (rd32 m (rd32 m (data_mem_ptr y))) s
           | BSS \<Rightarrow> dop_target c auth_loc a (buffer l) (rd32 m (rd32 m (bss_mem_ptr y))) s)))"

text \<open>The whole of \<open>perform_attack\<close>, then \<open>try_attack\<close>.\<close>

definition perform_attack ::
  "layout \<Rightarrow> clib \<Rightarrow> u32 \<Rightarrow> attack_form \<Rightarrow> locals \<Rightarrow> ripe \<Rightarrow> outcome \<times> memory" where
  "perform_attack y c auth_loc a l0 s0 =
     (case prepare_targets y c (l0, s0) of Inl e \<Rightarrow> (e, rmem s0) | Inr st1 \<Rightarrow>
      (case choose_buffer y c a st1 of Inl e \<Rightarrow> (e, rmem (snd st1)) | Inr st2 \<Rightarrow>
       (let st3 = set_overflow_ptr y a
                    (set_longjmp_buffers y c a (set_target_addr y a (init_heap_func_ptr y st2)))
        in case set_payload_size st3 of Inl e \<Rightarrow> (e, rmem (snd st3)) | Inr st4 \<Rightarrow>
          (let (ok, st5) = do_build_payload y c a st4
           in if \<not> ok then (Exit 1, rmem (snd st5))
              else
                let st6 = redirect_pointer y c a (overflow_buffer a st5)
                in (execute_attack y c auth_loc a st6, rmem (snd st6))))))"

definition ATTACK_IMPOSSIBLE :: int where
  "ATTACK_IMPOSSIBLE = -900"

definition try_attack ::
  "layout \<Rightarrow> clib \<Rightarrow> u32 \<Rightarrow> attack_form \<Rightarrow> locals \<Rightarrow> ripe \<Rightarrow> outcome \<times> memory" where
  "try_attack y c auth_loc a l0 s0 =
     (if is_attack_possible a
      then perform_attack y c auth_loc a l0
             (upd_mem (\<lambda>m. wr32 m (stack_func_ptr_param y) (dummy_function y)) s0)
      else (Exit ATTACK_IMPOSSIBLE, rmem s0))"

section \<open>The overflow reaches its target\<close>

lemma rmem_upd_mem [simp]: "rmem (upd_mem f s) = f (rmem s)" "nmalloc (upd_mem f s) = nmalloc s"
  by (simp_all add: upd_mem_def)

text \<open>The code that precedes the pointer in the payload of a direct attack.\<close>

definition injected_code :: "layout \<Rightarrow> attack_form \<Rightarrow> u8 list" where
  "injected_code y a =
     (if inject_param a = INJECTED_CODE_NO_NOP then the (build_shellcode (shellcode_target y)) else [])"

lemma length_shellcode: "length (the (build_shellcode t)) = 12"
  by (simp add: build_shellcode_eq)

lemma length_injected_code: "length (injected_code y a) =
    (if inject_param a = INJECTED_CODE_NO_NOP then 12 else 0)"
  by (simp add: injected_code_def length_shellcode)

text \<open>Building and copying a payload, for the two copy routines that take a length.\<close>

lemma build_and_copy:
  assumes inj: "inject_param a \<noteq> DATA_ONLY" and ptr: "code_ptr a \<noteq> VAR_IOF"
    and fn: "function_f a = MEMCPY"
    and size: "length (injected_code y a) + 5 \<le> unat (p_size (payload l))"
    and code: "rd_bytes (rmem s) (shellcode_nonop y) 12 = the (build_shellcode (shellcode_target y))"
    and buf: "allocator c (nmalloc s) (p_size (payload l)) = pb" "pb \<noteq> 0"
  shows "do_build_payload y c a (l, s) =
      (True, l\<lparr>payload := (payload l)\<lparr>p_buffer := pb\<rparr>\<rparr>,
       s\<lparr>nmalloc := Suc (nmalloc s),
         rmem := wr_bytes (rmem s) pb
           (payload_bytes (injected_code y a) (p_size (payload l)) (overflow_ptr (payload l)))\<rparr>)"
proof -
  let ?n = "p_size (payload l)"
  have ge: "\<not> ?n < sizeof_long"
    using size by (simp add: word_less_nat_alt sizeof_long_def)
  have ge': "inject_param a = INJECTED_CODE_NO_NOP \<Longrightarrow> \<not> ?n < size_shellcode_nonop + sizeof_long"
    using size by (simp add: word_less_nat_alt sizeof_long_def size_shellcode_nonop_def
        length_injected_code)
  show ?thesis
  proof (cases "inject_param a = INJECTED_CODE_NO_NOP")
    case True
    with fill_payload_eq [of size_shellcode_nonop "payload l" s "shellcode_nonop y"
        "injected_code y a" "allocator c" pb a] size code buf ptr ge'
    show ?thesis
      by (simp add: do_build_payload_def build_payload_def size_shellcode_nonop_def
          length_injected_code injected_code_def length_shellcode)
  next
    case False
    with inj have "inject_param a = RETURN_INTO_LIBC \<or> inject_param a = RETURN_ORIENTED_PROGRAMMING"
      by (cases "inject_param a") auto
    with fill_payload_eq [of 0 "payload l" s "dummy_string y" "[]" "allocator c" pb a] size buf ptr ge
    show ?thesis
      by (auto simp: do_build_payload_def build_payload_def injected_code_def rd_bytes_def)
  qed
qed

lemma copied_payload:
  assumes size: "length code + 5 \<le> unat n"
    and t: "n = t - b + 5"
    and dis: "disjoint_regions pb (unat n) b (unat n - 1)"
  shows "rd32 (memcpy (wr_bytes m pb (payload_bytes code n ptr)) b pb (n - 1)) t = ptr"
    and "rd_bytes (memcpy (wr_bytes m pb (payload_bytes code n ptr)) b pb (n - 1)) b (length code) = code"
proof -
  let ?bs = "payload_bytes code n ptr"
  let ?pad = "code @ replicate (unat n - length code - 5) (chr8 CHR ''A'')"
  have len: "length ?bs = unat n" using length_payload_bytes [OF size] .
  have as: "unat n \<le> addr_space" using unat_u32_less [of n] by (simp add: addr_space_def)
  have n1: "unat (n - 1) = unat n - 1"
    using size by (metis One_nat_def add_eq_0_iff_both_eq_0 le_zero_eq unat_eq_zero unat_minus_one
        zero_neq_numeral)
  have "rd_bytes (wr_bytes m pb ?bs) pb (unat n - 1) = take (unat n - 1) ?bs"
    using flat.load_store_in [of ?bs 0 "unat n - 1" m pb] len as by simp
  also have "\<dots> = ?pad @ le32_bytes ptr"
    using size by (simp add: payload_bytes_def)
  finally have src: "rd_bytes (wr_bytes m pb ?bs) pb (unat n - 1) = ?pad @ le32_bytes ptr" .
  have padlen: "length ?pad = unat n - 5" using size by simp
  have off: "t = b + of_nat (length ?pad)"
  proof -
    have "of_nat (unat n - 5) = n - 5"
      using size by (simp add: of_nat_diff)
    then show ?thesis using t padlen by simp
  qed
  have cp: "memcpy (wr_bytes m pb ?bs) b pb (n - 1) =
      wr_bytes (wr_bytes m pb ?bs) b (?pad @ le32_bytes ptr @ [])"
    by (simp only: memcpy_def n1 src append_Nil2 append_assoc)
  have fit: "length (?pad @ le32_bytes ptr @ []) \<le> addr_space"
    using padlen as size by simp
  show "rd32 (memcpy (wr_bytes m pb ?bs) b pb (n - 1)) t = ptr"
    unfolding cp by (rule rd32_wr_bytes [OF fit off])
  show "rd_bytes (memcpy (wr_bytes m pb ?bs) b pb (n - 1)) b (length code) = code"
    unfolding cp using flat.load_store_in [OF fit, of 0 "length code" _ b] by simp
qed

definition direct_word :: "layout \<Rightarrow> attack_form \<Rightarrow> u32 \<Rightarrow> u32" where
  "direct_word y a b =
     (case inject_param a of
        RETURN_INTO_LIBC \<Rightarrow> ret2libc_target y
      | RETURN_ORIENTED_PROGRAMMING \<Rightarrow> rop_target y
      | INJECTED_CODE_NO_NOP \<Rightarrow> b
      | DATA_ONLY \<Rightarrow> 0xdeadbeef)"

text \<open>What the addresses must satisfy for a direct overflow from \<open>b\<close> up to the pointer at \<open>t\<close>.\<close>

definition overflow_ok :: "layout \<Rightarrow> attack_form \<Rightarrow> u32 \<Rightarrow> u32 \<Rightarrow> u32 \<Rightarrow> bool" where
  "overflow_ok y a b t pb \<longleftrightarrow>
     b < t \<and> unat (t - b) + 5 < addr_space \<and> length (injected_code y a) \<le> unat (t - b) \<and>
     pb \<noteq> 0 \<and> disjoint_regions pb (unat (t - b) + 5) b (unat (t - b) + 4) \<and>
     disjoint_regions (shellcode_nonop y) 12 b 1"

lemma payload_size:
  assumes "b < t" "unat (t - b) + 5 < addr_space"
  shows "unat (t + 4 - b + 1 :: u32) = unat (t - b) + 5" "t + 4 - b + 1 = t - b + (5::u32)"
proof -
  show e: "t + 4 - b + 1 = t - b + (5::u32)" by simp
  show "unat (t + 4 - b + 1 :: u32) = unat (t - b) + 5"
    unfolding e using assms(2) by (simp add: unat_word_ariths(1) addr_space_def)
qed

lemma direct_overflow:
  assumes inj: "inject_param a \<noteq> DATA_ONLY" and ptr: "code_ptr a \<noteq> VAR_IOF"
    and tech: "technique a = DIRECT" and fn: "function_f a = MEMCPY"
    and b: "b = buffer l" and t: "t = target_addr l"
    and ok: "overflow_ok y a b t (allocator c (nmalloc s) (t - b + 5))"
    and code: "rd_bytes (rmem s) (shellcode_nonop y) 12 = the (build_shellcode (shellcode_target y))"
  obtains st4 st5 p s' where
    "set_payload_size (set_overflow_ptr y a (l, s)) = Inr st4"
    "do_build_payload y c a st4 = (True, st5)"
    "redirect_pointer y c a (overflow_buffer a st5) = (l\<lparr>payload := p\<rparr>, s')"
    "rd32 (rmem s') t = direct_word y a b"
    "rd_bytes (rmem s') b (length (injected_code y a)) = injected_code y a"
proof -
  let ?n = "t - b + 5"
  define w where "w = direct_word y a b"
  define p4 where "p4 = (payload l)\<lparr>ptr_to_correct_return_addr := ret_addr_ptr y,
     p_inject_param := inject_param a, overflow_ptr := w, p_size := ?n\<rparr>"
  define s4 where "s4 = upd_mem (\<lambda>m. m(b := 0)) s"
  define pb where "pb = allocator c (nmalloc s) ?n"
  from ok have bt: "b < t" and lt: "unat (t - b) + 5 < addr_space" by (auto simp: overflow_ok_def)
  have n: "unat ?n = unat (t - b) + 5" and n': "t + 4 - b + 1 = ?n"
    using payload_size [OF bt lt] by simp_all
  have 4: "set_payload_size (set_overflow_ptr y a (l, s)) = Inr (l\<lparr>payload := p4\<rparr>, s4)"
    using bt n' by (simp add: set_payload_size_def set_overflow_ptr_def b t tech p4_def w_def
        direct_word_def s4_def Let_def)
  have code4: "rd_bytes (rmem s4) (shellcode_nonop y) 12 = the (build_shellcode (shellcode_target y))"
    using flat.load_store_out [of "shellcode_nonop y" 12 b "[0]" "rmem s"] ok code
    by (simp add: s4_def overflow_ok_def addr_space_def fun_upd_def)
  have size: "length (injected_code y a) + 5 \<le> unat ?n" using ok n by (simp add: overflow_ok_def)
  have 5: "do_build_payload y c a (l\<lparr>payload := p4\<rparr>, s4) =
      (True, l\<lparr>payload := p4\<lparr>p_buffer := pb\<rparr>\<rparr>, s4\<lparr>nmalloc := Suc (nmalloc s4),
         rmem := wr_bytes (rmem s4) pb (payload_bytes (injected_code y a) ?n w)\<rparr>)"
    using build_and_copy [OF inj ptr fn, of y "l\<lparr>payload := p4\<rparr>" s4 c pb] size code4 ok
    by (simp add: p4_def pb_def s4_def overflow_ok_def)
  have dis: "disjoint_regions pb (unat ?n) b (unat ?n - 1)"
    using ok n by (simp add: overflow_ok_def pb_def add.commute [of 4])
  note res = copied_payload [OF size refl dis, of "rmem s4" w]
  show ?thesis
    by (rule that [OF 4 5, of "p4\<lparr>p_buffer := pb\<rparr>"
          "upd_mem (\<lambda>m. memcpy m b pb (?n - 1)) (s4\<lparr>nmalloc := Suc (nmalloc s4),
             rmem := wr_bytes (rmem s4) pb (payload_bytes (injected_code y a) ?n w)\<rparr>)"])
      (use res in \<open>simp_all add: overflow_buffer_def redirect_pointer_def tech fn b [symmetric]
         p4_def w_def Let_def\<close>)
qed

text \<open>The state behind \<open>prepare_targets\<close>: five allocations and the shellcode in place.\<close>

lemma prepare_targets_ok:
  assumes "allocator c (nmalloc s0 + 1) 260 = h1" "h1 \<noteq> 0"
    and "allocator c (nmalloc s0 + 2) 260 \<noteq> 0"
  obtains l s where "prepare_targets y c (l0, s0) = Inr (l, s)"
    "heap_buffer1 l = h1" "nmalloc s = nmalloc s0 + 5"
    "rd_bytes (rmem s) (shellcode_nonop y) 12 = the (build_shellcode (shellcode_target y))"
proof (rule that)
  let ?r = "prepare_targets y c (l0, s0)"
  have "isl ?r = False"
    using assms by (simp add: prepare_targets_def lmalloc_def malloc_def Let_def build_shellcode_eq)
  then show "?r = Inr (fst (projr ?r), snd (projr ?r))" by (cases ?r) auto
  show "heap_buffer1 (fst (projr ?r)) = h1" "nmalloc (snd (projr ?r)) = nmalloc s0 + 5"
    using assms by (simp_all add: prepare_targets_def lmalloc_def malloc_def Let_def build_shellcode_eq)
  show "rd_bytes (rmem (snd (projr ?r))) (shellcode_nonop y) 12 =
      the (build_shellcode (shellcode_target y))"
    using assms flat.load_store_same [of "the (build_shellcode (shellcode_target y))"]
    by (simp add: prepare_targets_def lmalloc_def malloc_def Let_def build_shellcode_eq
        addr_space_def)
qed

text \<open>The buffer and the pointer of a direct attack on the stack, and what the run ends with.\<close>

definition stack_target :: "layout \<Rightarrow> code_ptr \<Rightarrow> (u32 \<times> u32 \<times> (u32 \<Rightarrow> outcome)) option" where
  "stack_target y cp =
     (case cp of
        RET_ADDR \<Rightarrow> Some (stack_buffer y, ret_addr_ptr y, ReturnTo)
      | FUNC_PTR_STACK_VAR \<Rightarrow> Some (stack_buffer y, stack_func_ptr y, CallTo)
      | FUNC_PTR_STACK_PARAM \<Rightarrow> Some (low_buf y, stack_func_ptr_param y, CallTo)
      | STRUCT_FUNC_PTR_STACK \<Rightarrow> Some (stack_struct y, stack_struct y + 256, CallTo)
      | _ \<Rightarrow> None)"

lemma stack_attack:
  assumes a: "location a = STACK" "technique a = DIRECT" "function_f a = MEMCPY"
      "inject_param a \<noteq> DATA_ONLY"
    and tgt: "stack_target y (code_ptr a) = Some (b, t, fin)"
    and heap: "h1 = allocator c (nmalloc s0 + 1) 260" "h1 \<noteq> 0"
      "allocator c (nmalloc s0 + 2) 260 \<noteq> 0"
      "disjoint_regions (shellcode_nonop y) 12 h1 4"
    and ok: "overflow_ok y a b t (allocator c (nmalloc s0 + 5) (t - b + 5))"
    and run: "(out, m) = perform_attack y c auth_loc a l0 s0"
  shows "out = fin (direct_word y a b)"
    and "rd_bytes m b (length (injected_code y a)) = injected_code y a"
proof -
  obtain l1 s1 where 1: "prepare_targets y c (l0, s0) = Inr (l1, s1)"
    "heap_buffer1 l1 = h1" "nmalloc s1 = nmalloc s0 + 5"
    "rd_bytes (rmem s1) (shellcode_nonop y) 12 = the (build_shellcode (shellcode_target y))"
    using prepare_targets_ok heap by metis
  have cp: "code_ptr a \<in> {RET_ADDR, FUNC_PTR_STACK_VAR, FUNC_PTR_STACK_PARAM, STRUCT_FUNC_PTR_STACK}"
    using tgt by (auto simp: stack_target_def split: code_ptr.splits)
  define l2 where "l2 = l1\<lparr>buffer := b, heap_func_ptr := h1, heap_jmp_buffer := h1\<rparr>"
  define s2 where "s2 = upd_mem (\<lambda>m. wr32 m h1 (dummy_function y)) s1"
  have 2: "choose_buffer y c a (l1, s1) = Inr (l2, s1)"
    using cp tgt a by (auto simp: choose_buffer_def l2_def 1 stack_target_def)
  have 3: "set_longjmp_buffers y c a (set_target_addr y a (init_heap_func_ptr y (l2, s1))) =
      (l2\<lparr>target_addr := t\<rparr>, s2)"
    using cp tgt a heap by (auto simp: init_heap_func_ptr_def set_target_addr_def
        set_longjmp_buffers_def l2_def s2_def stack_target_def)
  have code: "rd_bytes (rmem s2) (shellcode_nonop y) 12 = the (build_shellcode (shellcode_target y))"
    using flat.load_store_out [of "shellcode_nonop y" 12 h1 "le32_bytes (dummy_function y)"] heap 1
    by (simp add: s2_def wr32_def addr_space_def)
  have al: "allocator c (nmalloc s2) (t - b + 5) = allocator c (nmalloc s0 + 5) (t - b + 5)"
    by (simp add: s2_def 1)
  obtain st4 st5 p s' where res: 
    "set_payload_size (set_overflow_ptr y a (l2\<lparr>target_addr := t\<rparr>, s2)) = Inr st4"
    "do_build_payload y c a st4 = (True, st5)"
    "redirect_pointer y c a (overflow_buffer a st5) = (l2\<lparr>target_addr := t, payload := p\<rparr>, s')"
    "rd32 (rmem s') t = direct_word y a b"
    "rd_bytes (rmem s') b (length (injected_code y a)) = injected_code y a"
    by (rule direct_overflow [of a b "l2\<lparr>target_addr := t\<rparr>" t y c s2])
      (use cp a ok code al in \<open>auto simp: l2_def\<close>)
  have pa: "perform_attack y c auth_loc a l0 s0 =
      (execute_attack y c auth_loc a (l2\<lparr>target_addr := t, payload := p\<rparr>, s'), rmem s')"
    by (simp add: perform_attack_def 1(1) 2 3 res(1-3) Let_def)
  show "out = fin (direct_word y a b)"
    using run cp tgt res(4) unfolding pa by (auto simp: execute_attack_def stack_target_def)
  show "rd_bytes m b (length (injected_code y a)) = injected_code y a"
    using run res(5) unfolding pa by simp
qed


section \<open>Properties\<close>

text \<open>
  C9. A direct overflow of a stack buffer takes control. For every possible attack with
  technique \<open>direct\<close>, copy function \<open>memcpy\<close> and a code pointer on the stack, on every
  layout in which the pointer lies above the buffer and the payload buffer does not overlap
  them, the run ends by jumping through the overwritten pointer to the chosen code. When the
  payload injects code, the bytes at the start of the buffer are a program whose execution
  continues at \<open>shellcode_target\<close>.
\<close>

theorem stack_attack_takes_control:
  assumes pos: "is_attack_possible a"
    and a: "location a = STACK" "technique a = DIRECT" "function_f a = MEMCPY"
    and tgt: "stack_target y (code_ptr a) = Some (b, t, fin)"
    and heap: "allocator c (nmalloc s0 + 1) 260 \<noteq> 0" "allocator c (nmalloc s0 + 2) 260 \<noteq> 0"
      "disjoint_regions (shellcode_nonop y) 12 (allocator c (nmalloc s0 + 1) 260) 4"
    and ok: "overflow_ok y a b t (allocator c (nmalloc s0 + 5) (t - b + 5))"
  shows "\<exists>m. try_attack y c auth_loc a l0 s0 = (fin (direct_word y a b), m) \<and>
    (inject_param a = INJECTED_CODE_NO_NOP \<longrightarrow> direct_word y a b = b \<and>
       (\<exists>h'. exec_bytes (rd_bytes m b 12) h = Some h' \<and> hpc h' = shellcode_target y AND NOT 1))"
proof -
  define s1 where "s1 = upd_mem (\<lambda>m. wr32 m (stack_func_ptr_param y) (dummy_function y)) s0"
  obtain out m where r: "perform_attack y c auth_loc a l0 s1 = (out, m)" by fastforce
  have nd: "inject_param a \<noteq> DATA_ONLY"
    using pos tgt by (auto simp: is_attack_possible_iff payload_fits_def data_var_def
        stack_target_def split: code_ptr.splits)
  have n1: "nmalloc s1 = nmalloc s0" by (simp add: s1_def)
  have 1: "out = fin (direct_word y a b)"
    "rd_bytes m b (length (injected_code y a)) = injected_code y a"
    using stack_attack [OF a nd tgt refl, where c = c and ?s0.0 = s1 and out = out and m = m and
        auth_loc = auth_loc and ?l0.0 = l0] heap ok r n1 by simp_all
  have "try_attack y c auth_loc a l0 s0 = (out, m)"
    using pos r by (simp add: try_attack_def s1_def)
  moreover have "\<exists>h'. exec_bytes (rd_bytes m b 12) h = Some h' \<and>
      hpc h' = shellcode_target y AND NOT 1" if inj: "inject_param a = INJECTED_CODE_NO_NOP"
  proof -
    have "build_shellcode (shellcode_target y) = Some (rd_bytes m b 12)"
      using 1(2) inj by (simp add: injected_code_def length_shellcode build_shellcode_eq)
    from exec_shellcode [OF this, of h] show ?thesis by simp
  qed
  ultimately show ?thesis using 1(1) by (simp add: direct_word_def)
qed

text \<open>A concrete memory map: a 256-byte stack buffer 288 bytes below the return address.\<close>

definition demo_layout :: layout where
  "demo_layout = \<lparr>stack_func_ptr = 0x80001104, stack_func_ptr_param = 0x80001200,
     stack_mem_ptr = 0x80001108, stack_mem_ptr_aux = 0x8000110c, stack_flag = 0x80001110,
     stack_secret = 0x80001300, stack_buffer = 0x80001000, stack_struct = 0x80001400,
     stack_jmp_buffer = 0x80001600, stack_jmp_buffer_param_a = 0x80001700,
     low_buf = 0x80000f00, ret_addr_ptr = 0x80001120, bss_func_ptr = 0x80003000,
     bss_flag = 0x80003004, bss_mem_ptr_aux = 0x80003008, bss_mem_ptr = 0x8000300c,
     bss_secret = 0x80003010, bss_buffer = 0x80003100, bss_jmp_buffer = 0x80003200,
     bss_struct = 0x80003300, data_struct = 0x80004000, data_buffer1 = 0x80004200,
     data_buffer2 = 0x80004300, data_secret = 0x80004400, data_flag = 0x80004500,
     data_mem_ptr_aux = 0x80004504, data_mem_ptr = 0x80004508, data_func_ptr = 0x8000450c,
     data_jmp_buffer = 0x80004600, dop_dest = 0x80004700, shellcode_nonop = 0x80005000,
     dummy_string = 0x80005100, dummy_function = 0x80000100, shellcode_target = 0x80000edc,
     ret2libc_target = 0x80000300, rop_target = 0x80000404\<rparr>"

definition demo_clib :: clib where
  "demo_clib = \<lparr>allocator = (\<lambda>n sz. 0x80020000 + of_nat n * 0x1000),
     setjmp_words = replicate 14 0, sizeof_jmp_buf = 56, jmp_pc_offset = 0\<rparr>"

definition demo_locals :: locals where
  "demo_locals = \<lparr>buffer = 0, heap_struct = 0, heap_buffer1 = 0, heap_buffer2 = 0,
     heap_buffer3 = 0, heap_flag = 0, heap_mem_ptr_aux = 0, heap_mem_ptr = 0, heap_secret = 0,
     heap_func_ptr = 0, heap_jmp_buffer = 0, target_addr = 0, target_addr_aux = 0,
     payload = \<lparr>p_inject_param = DATA_ONLY, p_size = 0, overflow_ptr = 0, p_buffer = 0,
       jmp_buffer = 0, stack_jmp_buffer_param = 0, offset_to_copied_base_ptr = 0,
       offset_to_fake_return_addr = 0, fake_return_addr = 0, ptr_to_correct_return_addr = 0\<rparr>\<rparr>"

theorem stack_attack_takes_control_witness:
  "\<exists>m. try_attack demo_layout demo_clib 0 (the (main_attack 1)) demo_locals
        \<lparr>rmem = (\<lambda>_. 0), nmalloc = 0\<rparr> = (ReturnTo 0x80001000, m) \<and>
     (\<exists>h'. exec_bytes (rd_bytes m 0x80001000 12) \<lparr>xpr = (\<lambda>_. 0), hpc = 0x80001000\<rparr> = Some h' \<and>
        hpc h' = 0x80000edc AND NOT 1)"
  using stack_attack_takes_control [of "the (main_attack 1)" demo_layout "0x80001000" "0x80001120"
      ReturnTo demo_clib "\<lparr>rmem = (\<lambda>_. 0), nmalloc = 0\<rparr>" 0 demo_locals
      "\<lparr>xpr = (\<lambda>_. 0), hpc = 0x80001000\<rparr>"]
  by (simp add: main_attack_def mk_attack_def is_attack_possible_def stack_target_def
      demo_layout_def demo_clib_def overflow_ok_def injected_code_def length_shellcode
      disjoint_regions_def addr_space_def direct_word_def)

end
