(* ===== verification/Boot_Uart.thy ===== *)
theory Boot_Uart
  imports Prelude "HOL-Library.Monad_Syntax"
begin

text \<open>
  The serial console of the boot ROMs: \<open>fpga/src/bootrom/src/uart.c\<close> and the OpenPiton
  variant \<open>openpiton/bootrom/linux/src/uart.c\<close>, which share their text except for the
  register addresses, the FIFO set-up and the returned character counts.

  Everything outside the processor is reached by loads and stores, so the world is a
  parameter: a \<open>bus\<close>, which gives for every access the value read and the next state of
  the world. Loops that poll a device may run forever; they are partial functions whose
  \<open>None\<close> means that the code never returns. The locale \<open>uart_port\<close> states what the
  16550-compatible UART promises, as an abstraction \<open>V\<close> to the registers and the bytes sent.
\<close>

unbundle bit_operations_syntax

section \<open>The bus\<close>

record 's bus =
  rd8 :: "u64 \<Rightarrow> 's \<Rightarrow> u8 \<times> 's"
  wr8 :: "u64 \<Rightarrow> u8 \<Rightarrow> 's \<Rightarrow> 's"
  rd32 :: "u64 \<Rightarrow> 's \<Rightarrow> u32 \<times> 's"
  wr32 :: "u64 \<Rightarrow> u32 \<Rightarrow> 's \<Rightarrow> 's"
  rd64 :: "u64 \<Rightarrow> 's \<Rightarrow> u64 \<times> 's"
  wr64 :: "u64 \<Rightarrow> u64 \<Rightarrow> 's \<Rightarrow> 's"

record uart_regs =
  UART_THR :: u64
  UART_INTERRUPT_ENABLE :: u64
  UART_FIFO_CONTROL :: u64
  UART_LINE_CONTROL :: u64
  UART_MODEM_CONTROL :: u64
  UART_LINE_STATUS :: u64
  UART_DLAB_LSB :: u64
  UART_DLAB_MSB :: u64

definition fpga_uart :: uart_regs where
  "fpga_uart = (let UART_BASE = 0x10000000 in
     \<lparr>UART_THR = UART_BASE + 0, UART_INTERRUPT_ENABLE = UART_BASE + 4,
      UART_FIFO_CONTROL = UART_BASE + 8, UART_LINE_CONTROL = UART_BASE + 12,
      UART_MODEM_CONTROL = UART_BASE + 16, UART_LINE_STATUS = UART_BASE + 20,
      UART_DLAB_LSB = UART_BASE + 0, UART_DLAB_MSB = UART_BASE + 4\<rparr>)"

definition piton_uart :: uart_regs where
  "piton_uart = (let UART_BASE = 0xFFF0C2C000 in
     \<lparr>UART_THR = UART_BASE + 0, UART_INTERRUPT_ENABLE = UART_BASE + 1,
      UART_FIFO_CONTROL = UART_BASE + 2, UART_LINE_CONTROL = UART_BASE + 3,
      UART_MODEM_CONTROL = UART_BASE + 4, UART_LINE_STATUS = UART_BASE + 5,
      UART_DLAB_LSB = UART_BASE + 0, UART_DLAB_MSB = UART_BASE + 1\<rparr>)"

text \<open>The two control characters of the messages.\<close>

definition crlf :: string where
  "crlf = [CHR 0x0D, CHR 0x0A]"

section \<open>The driver\<close>

definition write_reg_u8 :: "'s bus \<Rightarrow> u64 \<Rightarrow> u8 \<Rightarrow> 's \<Rightarrow> 's" where
  "write_reg_u8 b addr value s = wr8 b addr value s"

definition read_reg_u8 :: "'s bus \<Rightarrow> u64 \<Rightarrow> 's \<Rightarrow> u8 \<times> 's" where
  "read_reg_u8 b addr s = rd8 b addr s"

definition is_transmit_empty :: "'s bus \<Rightarrow> uart_regs \<Rightarrow> 's \<Rightarrow> u8 \<times> 's" where
  "is_transmit_empty b rg s =
     (let (v, s1) = read_reg_u8 b (UART_LINE_STATUS rg) s in (v AND 0x20, s1))"

partial_function (option) wait_transmit_empty :: "'s bus \<Rightarrow> uart_regs \<Rightarrow> 's \<Rightarrow> 's option" where
  "wait_transmit_empty b rg s =
     (if fst (is_transmit_empty b rg s) = 0
      then wait_transmit_empty b rg (snd (is_transmit_empty b rg s))
      else Some (snd (is_transmit_empty b rg s)))"

definition write_serial :: "'s bus \<Rightarrow> uart_regs \<Rightarrow> u8 \<Rightarrow> 's \<Rightarrow> 's option" where
  "write_serial b rg a s =
     do { s \<leftarrow> wait_transmit_empty b rg s;
          Some (write_reg_u8 b (UART_THR rg) a s) }"

text \<open>
  The divisor and the seven register writes (the OpenPiton variant leaves the FIFO control
  register alone). \<open>None\<close> is the division by zero.
\<close>

definition init_uart :: "'s bus \<Rightarrow> uart_regs \<Rightarrow> u32 \<Rightarrow> u32 \<Rightarrow> 's \<Rightarrow> 's option" where
  "init_uart b rg freq baud s =
     (let d = push_bit 4 baud in
      if d = 0 then None
      else
        let divisor = freq div d;
            s = write_reg_u8 b (UART_INTERRUPT_ENABLE rg) 0x00 s;
            s = write_reg_u8 b (UART_LINE_CONTROL rg) 0x80 s;
            s = write_reg_u8 b (UART_DLAB_LSB rg) (ucast divisor) s;
            s = write_reg_u8 b (UART_DLAB_MSB rg) (ucast (drop_bit 8 divisor AND 0xFF)) s;
            s = write_reg_u8 b (UART_LINE_CONTROL rg) 0x03 s;
            s = write_reg_u8 b (UART_FIFO_CONTROL rg) 0xC7 s;
            s = write_reg_u8 b (UART_MODEM_CONTROL rg) 0x20 s
        in Some s)"

definition piton_init_uart :: "'s bus \<Rightarrow> uart_regs \<Rightarrow> u32 \<Rightarrow> u32 \<Rightarrow> 's \<Rightarrow> 's option" where
  "piton_init_uart b rg freq baud s =
     (let d = push_bit 4 baud in
      if d = 0 then None
      else
        let divisor = freq div d;
            s = write_reg_u8 b (UART_INTERRUPT_ENABLE rg) 0x00 s;
            s = write_reg_u8 b (UART_LINE_CONTROL rg) 0x80 s;
            s = write_reg_u8 b (UART_DLAB_LSB rg) (ucast divisor) s;
            s = write_reg_u8 b (UART_DLAB_MSB rg) (ucast (drop_bit 8 divisor AND 0xFF)) s;
            s = write_reg_u8 b (UART_LINE_CONTROL rg) 0x03 s;
            s = write_reg_u8 b (UART_MODEM_CONTROL rg) 0x20 s
        in Some s)"

text \<open>C strings are given as their bytes before the terminating zero.\<close>

fun print_uart :: "'s bus \<Rightarrow> uart_regs \<Rightarrow> u8 list \<Rightarrow> 's \<Rightarrow> 's option" where
  "print_uart b rg [] s = Some s"
| "print_uart b rg (c # cs) s = do { s \<leftarrow> write_serial b rg c s; print_uart b rg cs s }"

definition bin_to_hex_table :: "u8 list" where
  "bin_to_hex_table = cstr ''0123456789ABCDEF''"

definition bin_to_hex :: "u8 \<Rightarrow> u8 list" where
  "bin_to_hex inp =
     [bin_to_hex_table ! unat (drop_bit 4 inp AND 0xf), bin_to_hex_table ! unat (inp AND 0xf)]"

definition print_uart_byte :: "'s bus \<Rightarrow> uart_regs \<Rightarrow> u8 \<Rightarrow> 's \<Rightarrow> 's option" where
  "print_uart_byte b rg byte s =
     (let hex = bin_to_hex byte in
      do { s \<leftarrow> write_serial b rg (hex ! 0) s; write_serial b rg (hex ! 1) s })"

text \<open>The loops of \<open>print_uart_int\<close> and \<open>print_uart_addr\<close>: byte \<open>i\<close> down to byte 0.\<close>

fun print_bytes_loop :: "'s bus \<Rightarrow> uart_regs \<Rightarrow> 'a::len word \<Rightarrow> nat \<Rightarrow> 's \<Rightarrow> 's option" where
  "print_bytes_loop b rg addr 0 s = Some s"
| "print_bytes_loop b rg addr (Suc i) s =
     (let cur = ucast (drop_bit (i * 8) addr AND 0xff); hex = bin_to_hex cur in
      do { s \<leftarrow> write_serial b rg (hex ! 0) s;
           s \<leftarrow> write_serial b rg (hex ! 1) s;
           print_bytes_loop b rg addr i s })"

definition print_uart_int :: "'s bus \<Rightarrow> uart_regs \<Rightarrow> u32 \<Rightarrow> 's \<Rightarrow> 's option" where
  "print_uart_int b rg addr s = print_bytes_loop b rg addr 4 s"

definition print_uart_addr :: "'s bus \<Rightarrow> uart_regs \<Rightarrow> u64 \<Rightarrow> 's \<Rightarrow> 's option" where
  "print_uart_addr b rg addr s = print_bytes_loop b rg addr 8 s"

section \<open>The counting variants of OpenPiton\<close>

fun piton_print_uart_loop :: "'s bus \<Rightarrow> uart_regs \<Rightarrow> u8 list \<Rightarrow> u32 \<Rightarrow> 's \<Rightarrow> (u32 \<times> 's) option" where
  "piton_print_uart_loop b rg [] num s = Some (num, s)"
| "piton_print_uart_loop b rg (c # cs) num s =
     do { s \<leftarrow> write_serial b rg c s; piton_print_uart_loop b rg cs (num + 1) s }"

definition piton_print_uart :: "'s bus \<Rightarrow> uart_regs \<Rightarrow> u8 list \<Rightarrow> 's \<Rightarrow> (u32 \<times> 's) option" where
  "piton_print_uart b rg str s = piton_print_uart_loop b rg str 0 s"

text \<open>
  \<open>print_uart_dec\<close>: ten digits from the most significant one; digit \<open>i\<close> is printed when
  it is not zero, when a digit was printed before it, or when fewer than \<open>digits\<close> digits
  are left. The argument counts \<open>i + 1\<close>.
\<close>

fun print_dec_loop ::
  "'s bus \<Rightarrow> uart_regs \<Rightarrow> nat \<Rightarrow> u32 \<Rightarrow> u32 \<Rightarrow> u32 \<Rightarrow> u32 \<Rightarrow> 's \<Rightarrow> (u32 \<times> 's) option" where
  "print_dec_loop b rg 0 val k digits num s = Some (num, s)"
| "print_dec_loop b rg (Suc i) val k digits num s =
     (let cur = val div k; val = val - cur * k; k = k div 10 in
      if cur \<noteq> 0 \<or> of_nat i < digits
      then do { s \<leftarrow> write_serial b rg (bin_to_hex_table ! unat (cur AND 0xf)) s;
                print_dec_loop b rg i val k (of_nat i) (num + 1) s }
      else print_dec_loop b rg i val k digits num s)"

definition print_uart_dec ::
  "'s bus \<Rightarrow> uart_regs \<Rightarrow> u32 \<Rightarrow> u32 \<Rightarrow> 's \<Rightarrow> (u32 \<times> 's) option" where
  "print_uart_dec b rg val digits s = print_dec_loop b rg 10 val 1000000000 digits 0 s"

definition piton_print_uart_int :: "'s bus \<Rightarrow> uart_regs \<Rightarrow> u32 \<Rightarrow> 's \<Rightarrow> (u32 \<times> 's) option" where
  "piton_print_uart_int b rg addr s = do { s \<leftarrow> print_bytes_loop b rg addr 4 s; Some (8, s) }"

definition piton_print_uart_addr :: "'s bus \<Rightarrow> uart_regs \<Rightarrow> u64 \<Rightarrow> 's \<Rightarrow> (u32 \<times> 's) option" where
  "piton_print_uart_addr b rg addr s = do { s \<leftarrow> print_bytes_loop b rg addr 8 s; Some (16, s) }"

definition piton_print_uart_byte :: "'s bus \<Rightarrow> uart_regs \<Rightarrow> u8 \<Rightarrow> 's \<Rightarrow> (u32 \<times> 's) option" where
  "piton_print_uart_byte b rg byte s = do { s \<leftarrow> print_uart_byte b rg byte s; Some (2, s) }"

section \<open>What the UART promises\<close>

text \<open>
  The observable part of a 16550: the bytes accepted for transmission, the line control
  register and the divisor latch. A platform extends this view with its other devices; since
  the laws update fields of the extended record, they also say what an access leaves alone.
\<close>

record uart_view =
  u_out :: "u8 list"
  u_lcr :: u8
  u_dll :: u8
  u_dlm :: u8

definition dlab :: "'m uart_view_scheme \<Rightarrow> bool" where
  "dlab v \<longleftrightarrow> u_lcr v AND 0x80 \<noteq> 0"

definition sent :: "u8 list \<Rightarrow> 'm uart_view_scheme \<Rightarrow> 'm uart_view_scheme" where
  "sent cs v = v\<lparr>u_out := u_out v @ cs\<rparr>"

lemma sent_Nil [simp]: "sent [] v = v"
  by (simp add: sent_def)

lemma sent_sent [simp]: "sent ds (sent cs v) = sent (cs @ ds) v"
  by (simp add: sent_def)

lemma dlab_sent [simp]: "dlab (sent cs v) = dlab v"
  by (simp add: dlab_def sent_def)

lemma u_out_sent [simp]: "u_out (sent cs v) = u_out v @ cs"
  by (simp add: sent_def)

text \<open>
  \<open>ready\<close> holds when the transmitter can take a byte; \<open>busy\<close> bounds the number of
  status reads that may still report a full transmitter.
\<close>

locale uart_port =
  fixes b :: "'s bus" and rg :: uart_regs
    and V :: "'s \<Rightarrow> 'm uart_view_scheme"
    and ready :: "'s \<Rightarrow> bool" and busy :: "'s \<Rightarrow> nat"
  assumes lsr_read: "rd8 b (UART_LINE_STATUS rg) s = (x, s') \<Longrightarrow>
      V s' = V s \<and> (if x AND 0x20 = 0 then busy s' < busy s else ready s')"
    and thr_write: "ready s \<Longrightarrow> \<not> dlab (V s) \<Longrightarrow> V (wr8 b (UART_THR rg) a s) = sent [a] (V s)"
    and dll_write: "dlab (V s) \<Longrightarrow> V (wr8 b (UART_DLAB_LSB rg) a s) = (V s)\<lparr>u_dll := a\<rparr>"
    and dlm_write: "dlab (V s) \<Longrightarrow> V (wr8 b (UART_DLAB_MSB rg) a s) = (V s)\<lparr>u_dlm := a\<rparr>"
    and ier_write: "V (wr8 b (UART_INTERRUPT_ENABLE rg) a s) =
      (if dlab (V s) then (V s)\<lparr>u_dlm := a\<rparr> else V s)"
    and lcr_write: "V (wr8 b (UART_LINE_CONTROL rg) a s) = (V s)\<lparr>u_lcr := a\<rparr>"
    and fcr_write: "V (wr8 b (UART_FIFO_CONTROL rg) a s) = V s"
    and mcr_write: "V (wr8 b (UART_MODEM_CONTROL rg) a s) = V s"
begin

lemma wait_transmit_empty_returns:
  "\<exists>s'. wait_transmit_empty b rg s = Some s' \<and> V s' = V s \<and> ready s'"
proof (induction "busy s" arbitrary: s rule: less_induct)
  case less
  obtain x s1 where r: "rd8 b (UART_LINE_STATUS rg) s = (x, s1)" by fastforce
  note law = lsr_read [OF r]
  show ?case
  proof (cases "x AND 0x20 = 0")
    case True
    with law less [of s1] r show ?thesis
      by (subst wait_transmit_empty.simps) (simp add: is_transmit_empty_def read_reg_u8_def)
  next
    case False
    with law r show ?thesis
      by (subst wait_transmit_empty.simps) (simp add: is_transmit_empty_def read_reg_u8_def)
  qed
qed

lemma write_serial_sends:
  assumes "\<not> dlab (V s)"
  obtains s' where "write_serial b rg a s = Some s'" "V s' = sent [a] (V s)"
proof -
  obtain s1 where "wait_transmit_empty b rg s = Some s1" "V s1 = V s" "ready s1"
    using wait_transmit_empty_returns by blast
  with assms thr_write [of s1 a] show ?thesis
    using that by (simp add: write_serial_def write_reg_u8_def)
qed

lemma print_uart_sends:
  "\<not> dlab (V s) \<Longrightarrow> \<exists>s'. print_uart b rg cs s = Some s' \<and> V s' = sent cs (V s)"
proof (induction cs arbitrary: s)
  case (Cons c cs)
  obtain s1 where 1: "write_serial b rg c s = Some s1" "V s1 = sent [c] (V s)"
    by (rule write_serial_sends [OF Cons.prems])
  with Cons.IH [of s1] Cons.prems show ?case by simp
qed simp

lemma print_uart_byte_sends:
  assumes "\<not> dlab (V s)"
  shows "\<exists>s'. print_uart_byte b rg x s = Some s' \<and> V s' = sent (bin_to_hex x) (V s)"
proof -
  obtain s1 where 1: "write_serial b rg (bin_to_hex x ! 0) s = Some s1"
      "V s1 = sent [bin_to_hex x ! 0] (V s)"
    by (rule write_serial_sends [OF assms])
  then have "\<not> dlab (V s1)" using assms by simp
  then obtain s2 where "write_serial b rg (bin_to_hex x ! 1) s1 = Some s2"
      "V s2 = sent [bin_to_hex x ! 1] (V s1)"
    by (rule write_serial_sends)
  with 1 show ?thesis by (simp add: print_uart_byte_def Let_def bin_to_hex_def)
qed

end

text \<open>The text of \<open>print_uart_int\<close> and \<open>print_uart_addr\<close>.\<close>

fun hex_text :: "'a::len word \<Rightarrow> nat \<Rightarrow> u8 list" where
  "hex_text w 0 = []"
| "hex_text w (Suc i) = bin_to_hex (ucast (drop_bit (i * 8) w AND 0xff)) @ hex_text w i"

lemma length_hex_text [simp]: "length (hex_text w n) = 2 * n"
  by (induction n) (auto simp: bin_to_hex_def)

lemma unat_low_byte:
  fixes w :: "'a::len word"
  shows "unat (ucast (drop_bit (i * 8) w AND 0xff) :: u8) = unat w div 256 ^ i mod 256"
proof -
  have m: "(0xff :: 'a word) = mask 8" by (simp add: mask_numeral)
  have "(ucast (drop_bit (i * 8) w AND 0xff) :: u8) = ucast (drop_bit (i * 8) w)"
    unfolding m by (rule bit_word_eqI) (auto simp: bit_simps dest: bit_imp_le_length)
  then have "unat (ucast (drop_bit (i * 8) w AND 0xff) :: u8) = unat (drop_bit (i * 8) w) mod 256"
    by (simp add: unsigned_ucast_eq take_bit_eq_mod)
  moreover have "(2 :: nat) ^ (i * 8) = 256 ^ i"
    by (simp add: power_mult [symmetric] mult.commute [of i] power_mult)
  ultimately show ?thesis by (simp add: unat_drop_bit_eq drop_bit_eq_div [of "i * 8" "unat w"])
qed

lemma nibbles_of_byte:
  fixes x :: u8
  shows "unat (drop_bit 4 x AND 0xf) = unat x div 16" "unat (x AND 0xf) = unat x mod 16"
proof -
  have m: "(0xf :: u8) = mask 4" by (simp add: mask_numeral)
  have "drop_bit 4 x AND 0xf = drop_bit 4 x"
    unfolding m by (rule bit_word_eqI) (auto simp: bit_simps dest: bit_imp_le_length)
  then show "unat (drop_bit 4 x AND 0xf) = unat x div 16"
    by (simp add: unat_drop_bit_eq drop_bit_eq_div [of 4 "unat x"])
  show "unat (x AND 0xf) = unat x mod 16"
    unfolding m by (simp add: take_bit_eq_mask [symmetric] unsigned_take_bit_eq
        take_bit_eq_mod [of 4 "unat x"])
qed

text \<open>The printed text is the number in hexadecimal, most significant digit first.\<close>

fun hex_digits :: "nat \<Rightarrow> nat \<Rightarrow> nat list" where
  "hex_digits v 0 = []"
| "hex_digits v (Suc i) = v div 256 ^ i mod 256 div 16 # v div 256 ^ i mod 256 mod 16 # hex_digits v i"

lemma hex_text_digits: "hex_text w n = map (\<lambda>d. bin_to_hex_table ! d) (hex_digits (unat w) n)"
proof (induction n)
  case (Suc n)
  have "bin_to_hex x = [bin_to_hex_table ! (unat x div 16), bin_to_hex_table ! (unat x mod 16)]" for x
    by (simp only: bin_to_hex_def nibbles_of_byte(1)) (simp only: nibbles_of_byte(2))
  with Suc show ?case by (simp add: unat_low_byte)
qed simp

lemma foldl_hex_digits:
  "foldl (\<lambda>a d. 16 * a + d) a (hex_digits v n) = a * 256 ^ n + v mod 256 ^ n"
proof (induction n arbitrary: a)
  case (Suc n)
  let ?b = "v div 256 ^ n mod 256"
  have "16 * (16 * a + ?b div 16) + ?b mod 16 = 256 * a + ?b" by simp
  moreover have "v mod 256 ^ Suc n = 256 ^ n * ?b + v mod 256 ^ n"
    using mod_mult2_eq [of v "256 ^ n" 256] by (simp add: mult.commute)
  ultimately show ?case by (simp only: hex_digits.simps foldl.simps Suc) (simp add: algebra_simps)
qed simp

context uart_port
begin

lemma print_bytes_loop_sends:
  "\<not> dlab (V s) \<Longrightarrow>
   \<exists>s'. print_bytes_loop b rg w n s = Some s' \<and> V s' = sent (hex_text w n) (V s)"
proof (induction n arbitrary: s)
  case (Suc n)
  let ?x = "ucast (drop_bit (n * 8) w AND 0xff)"
  obtain s1 where 1: "print_uart_byte b rg ?x s = Some s1" "V s1 = sent (bin_to_hex ?x) (V s)"
    using print_uart_byte_sends [OF Suc.prems] by blast
  obtain s2 where "print_bytes_loop b rg w n s1 = Some s2" "V s2 = sent (hex_text w n) (V s1)"
    using Suc.IH [of s1] 1 Suc.prems by auto
  with 1 show ?case
    by (auto simp: print_uart_byte_def Let_def Option.bind_eq_Some_conv)
qed simp

lemma print_uart_int_sends:
  "\<not> dlab (V s) \<Longrightarrow>
   \<exists>s'. print_uart_int b rg w s = Some s' \<and> V s' = sent (hex_text w 4) (V s)"
  by (simp add: print_uart_int_def print_bytes_loop_sends)

lemma print_uart_addr_sends:
  "\<not> dlab (V s) \<Longrightarrow>
   \<exists>s'. print_uart_addr b rg w s = Some s' \<and> V s' = sent (hex_text w 8) (V s)"
  by (simp add: print_uart_addr_def print_bytes_loop_sends)

lemma init_uart_sets_divisor:
  assumes "push_bit 4 baud \<noteq> 0" and d: "d = freq div push_bit 4 baud"
  shows "\<exists>s'. init_uart b rg freq baud s = Some s' \<and>
    V s' = (V s)\<lparr>u_lcr := 0x03, u_dll := ucast d, u_dlm := ucast (drop_bit 8 d)\<rparr>"
proof -
  have "ucast (drop_bit 8 d AND 0xFF) = (ucast (drop_bit 8 d) :: u8)"
    by (rule bit_word_eqI) (auto simp: bit_simps and_u32_ff)
  then show ?thesis
    using assms by (simp add: init_uart_def write_reg_u8_def Let_def lcr_write fcr_write mcr_write
        dll_write dlm_write ier_write dlab_def)
qed

end

section \<open>Decimal output\<close>

text \<open>
  The reference for \<open>print_uart_dec\<close>: the last \<open>n\<close> decimal digits of a number, and the
  digits that are printed when at least \<open>m\<close> of the last \<open>n\<close> are wanted.
\<close>

fun dec_digits :: "nat \<Rightarrow> nat \<Rightarrow> nat list" where
  "dec_digits 0 v = []"
| "dec_digits (Suc i) v = v div 10 ^ i mod 10 # dec_digits i v"

fun dec_text :: "nat \<Rightarrow> nat \<Rightarrow> nat \<Rightarrow> nat list" where
  "dec_text 0 m v = []"
| "dec_text (Suc i) m v =
     (if v div 10 ^ i \<noteq> 0 \<or> i < m then dec_digits (Suc i) v else dec_text i m v)"

definition dec_char :: "nat \<Rightarrow> u8" where
  "dec_char d = bin_to_hex_table ! d"

lemma length_dec_digits [simp]: "length (dec_digits n v) = n"
  by (induction n) auto

lemma dec_digits_bound: "d \<in> set (dec_digits n v) \<Longrightarrow> d < 10"
  by (induction n) auto

lemma dec_digits_mod: "dec_digits n (v mod 10 ^ n) = dec_digits n v"
proof (induction n arbitrary: v)
  case (Suc n)
  have 1: "v mod 10 ^ Suc n mod 10 ^ n = v mod 10 ^ n"
    by (simp add: mod_mod_cancel)
  have 2: "v mod 10 ^ Suc n div 10 ^ n = v div 10 ^ n mod 10"
  proof -
    have "v mod 10 ^ Suc n = 10 ^ n * (v div 10 ^ n mod 10) + v mod 10 ^ n"
      using mod_mult2_eq [of v "10 ^ n" 10] by (simp add: mult.commute)
    then show ?thesis by simp
  qed
  have "dec_digits n (v mod 10 ^ Suc n) = dec_digits n v"
    using Suc.IH [of "v mod 10 ^ Suc n"] Suc.IH [of v] 1 by simp
  with 2 show ?case by (simp del: power_Suc)
qed simp

lemma foldl_dec_digits:
  "foldl (\<lambda>a d. 10 * a + d) a (dec_digits n v) = a * 10 ^ n + v mod 10 ^ n"
proof (induction n arbitrary: a)
  case (Suc n)
  have "v mod 10 ^ Suc n = 10 ^ n * (v div 10 ^ n mod 10) + v mod 10 ^ n"
    using mod_mult2_eq [of v "10 ^ n" 10] by (simp add: mult.commute)
  with Suc show ?case by (simp add: algebra_simps)
qed simp

lemma dec_text_spec:
  assumes "v < 10 ^ n"
  shows "foldl (\<lambda>a d. 10 * a + d) 0 (dec_text n m v) = v"
    "min n m \<le> length (dec_text n m v)" "length (dec_text n m v) \<le> n"
    "m < length (dec_text n m v) \<Longrightarrow> hd (dec_text n m v) \<noteq> 0"
    "\<forall>d \<in> set (dec_text n m v). d < 10"
  using assms
proof (induction n)
  case (Suc n)
  {
    case 1
    then show ?case
      using Suc.IH(1) foldl_dec_digits [of 0 "Suc n" v]
      by (auto simp: div_eq_0_iff simp del: dec_digits.simps)
  next
    case 2
    then show ?case using Suc.IH(2) by (auto simp: div_eq_0_iff simp del: dec_digits.simps)
  next
    case 3
    then show ?case using Suc.IH(3) by (auto simp: div_eq_0_iff simp del: dec_digits.simps)
  next
    case 4
    then have "v div 10 ^ n < 10" by (simp add: less_mult_imp_div_less)
    with 4 show ?case using Suc.IH(4)
      by (auto simp: div_eq_0_iff div_greater_zero_iff not_less split: if_splits)
  next
    case 5
    then show ?case using Suc.IH(5) dec_digits_bound [of _ "Suc n" v]
      by (auto simp: div_eq_0_iff simp del: dec_digits.simps)
  }
qed auto

lemma u32_digit_step:
  fixes val k :: u32
  assumes v: "unat val < 10 ^ Suc i" and k: "unat k = 10 ^ i"
  shows "unat (val div k) = unat val div 10 ^ i"
    "unat (val div k AND 0xf) = unat val div 10 ^ i"
    "unat (val - val div k * k) = unat val mod 10 ^ i"
    "unat (k div 10) = 10 ^ i div 10"
proof -
  show 1: "unat (val div k) = unat val div 10 ^ i" by (simp add: unat_div k)
  have "unat val div 10 ^ i < 10" using v by (simp add: less_mult_imp_div_less)
  moreover have "unat (val div k AND 0xf) = unat (val div k) mod 16"
  proof -
    have "val div k AND 0xf = take_bit 4 (val div k)" by (simp add: take_bit_eq_mask mask_numeral)
    then have "unat (val div k AND 0xf) = take_bit 4 (unat (val div k))"
      by (simp only: unsigned_take_bit_eq)
    then show ?thesis by (simp add: take_bit_eq_mod)
  qed
  ultimately show "unat (val div k AND 0xf) = unat val div 10 ^ i" by (simp add: 1)
  show "unat (val - val div k * k) = unat val mod 10 ^ i"
    by (simp add: minus_div_mult_eq_mod unat_mod k)
  show "unat (k div 10) = 10 ^ i div 10" by (simp add: unat_div k)
qed

context uart_port
begin

text \<open>Once a digit is printed, all the following ones are.\<close>

lemma print_dec_all:
  assumes "n \<le> 10" "unat val < 10 ^ n" "\<forall>i. n = Suc i \<longrightarrow> unat k = 10 ^ i" "\<not> dlab (V s)"
  shows "\<exists>s'. print_dec_loop b rg n val k (of_nat n) num s = Some (num + of_nat n, s') \<and>
      V s' = sent (map dec_char (dec_digits n (unat val))) (V s)"
  using assms
proof (induction n arbitrary: val k num s)
  case (Suc n)
  have k: "unat k = 10 ^ n" using Suc.prems by simp
  note step = u32_digit_step [OF Suc.prems(2) k]
  let ?val = "val - val div k * k"
  have d: "unat val div 10 ^ n mod 10 = unat val div 10 ^ n"
    using Suc.prems(2) by (simp add: less_mult_imp_div_less)
  have lt: "(of_nat n :: u32) < of_nat (Suc n)"
    using Suc.prems(1) by (simp add: word_less_nat_alt unat_of_nat_u32 del: of_nat_Suc)
  obtain s1 where 1: "write_serial b rg (bin_to_hex_table ! unat (val div k AND 0xf)) s = Some s1"
      "V s1 = sent [dec_char (unat val div 10 ^ n)] (V s)"
    using write_serial_sends [OF Suc.prems(4)] step(2) by (metis dec_char_def)
  have k': "\<forall>i. n = Suc i \<longrightarrow> unat (k div 10) = 10 ^ i" using step(4) by auto
  have "\<exists>s'. print_dec_loop b rg n ?val (k div 10) (of_nat n) (num + 1) s1 =
        Some (num + 1 + of_nat n, s') \<and>
      V s' = sent (map dec_char (dec_digits n (unat ?val))) (V s1)"
    by (rule Suc.IH) (use Suc.prems k' 1 step(3) in auto)
  then obtain s2 where 2: "print_dec_loop b rg n ?val (k div 10) (of_nat n) (num + 1) s1 =
        Some (num + 1 + of_nat n, s2)"
      "V s2 = sent (map dec_char (dec_digits n (unat ?val))) (V s1)" by blast
  have "V s2 = sent (map dec_char (dec_digits (Suc n) (unat val))) (V s)"
    by (simp only: 2(2) 1(2) step(3) dec_digits_mod) (simp add: d)
  with 1(1) 2(1) lt show ?case
    by (simp add: Let_def add.assoc del: of_nat_Suc) simp
qed simp

lemma print_dec_loop_sends:
  assumes "n \<le> 10" "unat val < 10 ^ n" "\<forall>i. n = Suc i \<longrightarrow> unat k = 10 ^ i" "\<not> dlab (V s)"
  shows "\<exists>s'. print_dec_loop b rg n val k digits num s =
      Some (num + of_nat (length (dec_text n (unat digits) (unat val))), s') \<and>
      V s' = sent (map dec_char (dec_text n (unat digits) (unat val))) (V s)"
  using assms
proof (induction n arbitrary: val k)
  case (Suc n)
  have k: "unat k = 10 ^ n" using Suc.prems by simp
  note step = u32_digit_step [OF Suc.prems(2) k]
  let ?val = "val - val div k * k"
  have lt: "(of_nat n < digits) = (n < unat digits)"
    using Suc.prems(1) by (simp add: word_less_nat_alt unat_of_nat_u32)
  have cur: "(val div k \<noteq> 0) = (unat val div 10 ^ n \<noteq> 0)"
    by (metis step(1) unat_eq_zero)
  have k': "\<forall>i. n = Suc i \<longrightarrow> unat (k div 10) = 10 ^ i" using step(4) by auto
  show ?case
  proof (cases "unat val div 10 ^ n \<noteq> 0 \<or> n < unat digits")
    case True
    then have "print_dec_loop b rg (Suc n) val k digits num s =
        print_dec_loop b rg (Suc n) val k (of_nat (Suc n)) num s"
      using lt cur Suc.prems(1)
      by (auto simp: Let_def word_less_nat_alt unat_of_nat_u32 simp del: of_nat_Suc)
    with True print_dec_all [OF Suc.prems, of num] show ?thesis by simp
  next
    case False
    then have z: "val div k = 0" "unat val < 10 ^ n"
      using cur by (auto simp: div_eq_0_iff)
    have "\<exists>s'. print_dec_loop b rg n val (k div 10) digits num s =
        Some (num + of_nat (length (dec_text n (unat digits) (unat val))), s') \<and>
        V s' = sent (map dec_char (dec_text n (unat digits) (unat val))) (V s)"
      by (rule Suc.IH) (use Suc.prems k' z in auto)
    with False z lt show ?thesis by (auto simp: Let_def)
  qed
qed simp

lemma print_uart_dec_sends:
  assumes "\<not> dlab (V s)"
  shows "\<exists>s'. print_uart_dec b rg val digits s =
      Some (of_nat (length (dec_text 10 (unat digits) (unat val))), s') \<and>
      V s' = sent (map dec_char (dec_text 10 (unat digits) (unat val))) (V s)"
  using print_dec_loop_sends [of 10 val 1000000000 s digits 0] unat_u32_less [of val] assms
  by (simp add: print_uart_dec_def)

lemma piton_print_uart_sends:
  assumes "\<not> dlab (V s)"
  shows "\<exists>s'. piton_print_uart b rg cs s = Some (of_nat (length cs), s') \<and> V s' = sent cs (V s)"
proof -
  have "\<exists>s'. piton_print_uart_loop b rg cs num s = Some (num + of_nat (length cs), s') \<and>
      V s' = sent cs (V s)" if "\<not> dlab (V s)" for num s
    using that
  proof (induction cs arbitrary: num s)
    case (Cons c cs)
    obtain s1 where 1: "write_serial b rg c s = Some s1" "V s1 = sent [c] (V s)"
      by (rule write_serial_sends [OF Cons.prems])
    with Cons.IH [of s1 "num + 1"] Cons.prems show ?case by (auto simp: add.assoc)
  qed simp
  from this [OF assms, of 0] show ?thesis by (simp add: piton_print_uart_def)
qed

end

end
