(* ===== verification/Boot_Spi.thy ===== *)
theory Boot_Spi
  imports Boot_Uart
begin

text \<open>
  The driver of the AXI Quad SPI core, \<open>spi.c\<close> (the same file in both boot ROMs). The
  delay loops of \<open>nop\<close> instructions have no effect in the model. The locale
  \<open>spi_port\<close> states the contract of the core and of what is wired to it: bytes written to
  the transmit register while the slave is selected are exchanged with the device behind the
  bus, and the answers arrive in order in the receive FIFO. The driver turns that register
  protocol into one exchange per byte.
\<close>

unbundle bit_operations_syntax

definition SPI_RESET_REG :: u64 where "SPI_RESET_REG = 0x20000000 + 0x40"
definition SPI_CONTROL_REG :: u64 where "SPI_CONTROL_REG = 0x20000000 + 0x60"
definition SPI_STATUS_REG :: u64 where "SPI_STATUS_REG = 0x20000000 + 0x64"
definition SPI_TRANSMIT_REG :: u64 where "SPI_TRANSMIT_REG = 0x20000000 + 0x68"
definition SPI_RECEIVE_REG :: u64 where "SPI_RECEIVE_REG = 0x20000000 + 0x6C"
definition SPI_SLAVE_SELECT_REG :: u64 where "SPI_SLAVE_SELECT_REG = 0x20000000 + 0x70"

section \<open>The driver\<close>

definition write_reg :: "'s bus \<Rightarrow> u64 \<Rightarrow> u32 \<Rightarrow> 's \<Rightarrow> 's" where
  "write_reg b addr value s = wr32 b addr value s"

definition read_reg :: "'s bus \<Rightarrow> u64 \<Rightarrow> 's \<Rightarrow> u32 \<times> 's" where
  "read_reg b addr s = rd32 b addr s"

definition spi_print_status :: "'s bus \<Rightarrow> uart_regs \<Rightarrow> 's \<Rightarrow> 's option" where
  "spi_print_status b rg s =
     (let (status, s) = read_reg b SPI_STATUS_REG s in
      do { s \<leftarrow> print_uart b rg (cstr ''status: 0x'') s;
           s \<leftarrow> print_uart_addr b rg (ucast status) s;
           print_uart b rg (cstr crlf) s })"

definition spi_init :: "'s bus \<Rightarrow> uart_regs \<Rightarrow> 's \<Rightarrow> 's option" where
  "spi_init b rg s =
     do { s \<leftarrow> print_uart b rg (cstr (''init SPI'' @ crlf)) s;
          let s = write_reg b SPI_RESET_REG 0x0a s;
          let s = write_reg b SPI_CONTROL_REG 0x104 s;
          s \<leftarrow> spi_print_status b rg s;
          let s = write_reg b SPI_CONTROL_REG 0x166 s;
          s \<leftarrow> spi_print_status b rg s;
          let s = write_reg b SPI_CONTROL_REG 0x06 s;
          print_uart b rg (cstr (''SPI initialized!'' @ crlf)) s }"

text \<open>The polling loop: read the status until the receive FIFO is not empty.\<close>

partial_function (option) spi_wait_rx :: "'s bus \<Rightarrow> 's \<Rightarrow> 's option" where
  "spi_wait_rx b s =
     (if fst (read_reg b SPI_STATUS_REG s) AND 0x1 = 0x1
      then spi_wait_rx b (snd (read_reg b SPI_STATUS_REG s))
      else Some (snd (read_reg b SPI_STATUS_REG s)))"

definition spi_txrx :: "'s bus \<Rightarrow> uart_regs \<Rightarrow> u8 \<Rightarrow> 's \<Rightarrow> (u8 \<times> 's) option" where
  "spi_txrx b rg byte s =
     (let s = write_reg b SPI_SLAVE_SELECT_REG 0xfffffffe s;
          s = write_reg b SPI_TRANSMIT_REG (ucast byte) s;
          s = write_reg b SPI_CONTROL_REG 0x106 s
      in do { s \<leftarrow> spi_wait_rx b s;
              let (result, s) = read_reg b SPI_RECEIVE_REG s;
              let (status, s) = read_reg b SPI_STATUS_REG s;
              s \<leftarrow> (if status AND 0x1 \<noteq> 0x1
                   then do { s \<leftarrow> print_uart b rg (cstr ''rx fifo not empty?? '') s;
                             let (status, s) = read_reg b SPI_STATUS_REG s;
                             s \<leftarrow> print_uart_addr b rg (ucast status) s;
                             print_uart b rg (cstr crlf) s }
                   else Some s);
              let s = write_reg b SPI_SLAVE_SELECT_REG 0xffffffff s;
              let s = write_reg b SPI_CONTROL_REG 0x06 s;
              Some (ucast result, s) })"

text \<open>\<open>ret[i++] = read_reg(...)\<close> whenever the status shows a received byte.\<close>

partial_function (option) spi_rx_loop :: "'s bus \<Rightarrow> u64 \<Rightarrow> nat \<Rightarrow> nat \<Rightarrow> 's \<Rightarrow> 's option" where
  "spi_rx_loop b ret i len s =
     (if i < len
      then
        (if fst (read_reg b SPI_STATUS_REG s) AND 0x1 \<noteq> 0x1
         then spi_rx_loop b ret (Suc i) len
                (wr8 b (ret + of_nat i)
                   (ucast (fst (read_reg b SPI_RECEIVE_REG (snd (read_reg b SPI_STATUS_REG s)))))
                   (snd (read_reg b SPI_RECEIVE_REG (snd (read_reg b SPI_STATUS_REG s)))))
         else spi_rx_loop b ret i len (snd (read_reg b SPI_STATUS_REG s)))
      else Some s)"

definition spi_write_bytes ::
  "'s bus \<Rightarrow> u8 list \<Rightarrow> u32 \<Rightarrow> u64 \<Rightarrow> 's \<Rightarrow> (int \<times> 's) option" where
  "spi_write_bytes b bytes len ret s =
     (if len > 256 then Some (-1, s)
      else
        let s = write_reg b SPI_SLAVE_SELECT_REG 0xfffffffe s;
            s = fold (\<lambda>i. write_reg b SPI_TRANSMIT_REG (ucast (bytes ! i) AND 0xff)) [0..<unat len] s;
            s = write_reg b SPI_CONTROL_REG 0x106 s
        in do { s \<leftarrow> spi_wait_rx b s;
                s \<leftarrow> spi_rx_loop b ret 0 (unat len) s;
                let s = write_reg b SPI_SLAVE_SELECT_REG 0xffffffff s;
                let s = write_reg b SPI_CONTROL_REG 0x06 s;
                Some (0, s) })"

section \<open>What the SPI core promises\<close>

text \<open>
  \<open>v_card\<close> is the state of the device on the SPI bus and \<open>v_pend\<close> the bytes received and
  not yet read, \<open>v_mem\<close> the memory. \<open>xchg\<close> is the full-duplex exchange of one byte.
\<close>

record 'c soc_view = uart_view +
  v_sel :: bool
  v_pend :: "u8 list"
  v_card :: 'c
  v_mem :: "u64 \<Rightarrow> u8"

text \<open>A sequence of exchanges, and bytes stored from an address upwards.\<close>

fun xfers :: "(u8 \<Rightarrow> 'c \<Rightarrow> u8 \<times> 'c) \<Rightarrow> u8 list \<Rightarrow> 'c \<Rightarrow> u8 list \<times> 'c" where
  "xfers xchg [] c = ([], c)"
| "xfers xchg (x # xs) c =
     (let (y, c) = xchg x c; (ys, c) = xfers xchg xs c in (y # ys, c))"

fun put_bytes :: "(u64 \<Rightarrow> u8) \<Rightarrow> u64 \<Rightarrow> u8 list \<Rightarrow> (u64 \<Rightarrow> u8)" where
  "put_bytes m a [] = m"
| "put_bytes m a (y # ys) = put_bytes (m(a := y)) (a + 1) ys"

lemma length_xfers [simp]: "length (fst (xfers xchg xs c)) = length xs"
  by (induction xs arbitrary: c) (simp_all add: Let_def case_prod_beta)

lemma xfers_append: "xfers xchg (xs @ ys) c =
    (let (us, c) = xfers xchg xs c; (vs, c) = xfers xchg ys c in (us @ vs, c))"
  by (induction xs arbitrary: c) (auto simp: Let_def split: prod.splits)

lemma put_bytes_append:
  "put_bytes m a (xs @ ys) = put_bytes (put_bytes m a xs) (a + of_nat (length xs)) ys"
  by (induction xs arbitrary: m a) (auto simp: algebra_simps)

locale spi_port = uart_port b rg V ready busy
  for b :: "'s bus" and rg and V :: "'s \<Rightarrow> ('c, 'z) soc_view_scheme" and ready and busy +
  fixes xchg :: "u8 \<Rightarrow> 'c \<Rightarrow> u8 \<times> 'c"
    and avail :: "'s \<Rightarrow> bool" and lag :: "'s \<Rightarrow> nat" and is_ram :: "u64 \<Rightarrow> bool"
  assumes ss_write: "V (wr32 b SPI_SLAVE_SELECT_REG x s) = (V s)\<lparr>v_sel := x AND 1 = 0\<rparr>"
    and tx_write: "v_sel (V s) \<Longrightarrow> length (v_pend (V s)) < 256 \<Longrightarrow>
      xchg (ucast x) (v_card (V s)) = (y, c) \<Longrightarrow>
      V (wr32 b SPI_TRANSMIT_REG x s) = (V s)\<lparr>v_pend := v_pend (V s) @ [y], v_card := c\<rparr>"
    and cr_write: "V (wr32 b SPI_CONTROL_REG x s) =
      (if x AND 0x60 = 0 then V s else (V s)\<lparr>v_pend := []\<rparr>)"
    and rst_write: "V (wr32 b SPI_RESET_REG 0x0a s) = (V s)\<lparr>v_pend := [], v_sel := False\<rparr>"
    and sr_read: "rd32 b SPI_STATUS_REG s = (x, s') \<Longrightarrow>
      V s' = V s \<and> (if x AND 1 = 1 then v_pend (V s) \<noteq> [] \<longrightarrow> lag s' < lag s
                    else v_pend (V s) \<noteq> [] \<and> avail s')"
    and rx_read: "avail s \<Longrightarrow> v_pend (V s) = y # ys \<Longrightarrow> rd32 b SPI_RECEIVE_REG s = (x, s') \<Longrightarrow>
      V s' = (V s)\<lparr>v_pend := ys\<rparr> \<and> ucast x = y"
    and ram_write: "is_ram a \<Longrightarrow> V (wr8 b a y s) = (V s)\<lparr>v_mem := (v_mem (V s))(a := y)\<rparr>"
    and ram_read: "is_ram a \<Longrightarrow> rd8 b a s = (y, s') \<Longrightarrow> V s' = V s \<and> y = v_mem (V s) a"
    and ram_read32: "is_ram a \<Longrightarrow> is_ram (a + 3) \<Longrightarrow> rd32 b a s = (x, s') \<Longrightarrow>
      V s' = V s \<and> x = le32 (v_mem (V s) a) (v_mem (V s) (a + 1)) (v_mem (V s) (a + 2)) (v_mem (V s) (a + 3))"
    and ram_read64: "is_ram a \<Longrightarrow> is_ram (a + 7) \<Longrightarrow> rd64 b a s = (w, s') \<Longrightarrow>
      V s' = V s \<and> w = le64 (\<lambda>i. v_mem (V s) (a + of_nat i))"
begin

text \<open>The driver's resting state: no pending bytes and no access to the divisor latch.\<close>

definition at_rest :: "'s \<Rightarrow> bool" where
  "at_rest s \<longleftrightarrow> v_pend (V s) = [] \<and> \<not> dlab (V s)"

lemma spi_wait_rx_returns:
  "v_pend (V s) \<noteq> [] \<Longrightarrow> \<exists>s'. spi_wait_rx b s = Some s' \<and> V s' = V s \<and> avail s'"
proof (induction "lag s" arbitrary: s rule: less_induct)
  case less
  obtain x s1 where r: "rd32 b SPI_STATUS_REG s = (x, s1)" by fastforce
  note law = sr_read [OF r]
  show ?case
  proof (cases "x AND 1 = 1")
    case True
    with law less(2) have 1: "V s1 = V s" "lag s1 < lag s" by auto
    then show ?thesis
      using less(1) [of s1] less(2) r True
      by (subst spi_wait_rx.simps) (auto simp: read_reg_def)
  next
    case False
    with law r show ?thesis by (subst spi_wait_rx.simps) (auto simp: read_reg_def)
  qed
qed

lemma view_eqs:
  "dlab (v\<lparr>v_sel := p\<rparr>) = dlab v" "dlab (v\<lparr>v_pend := q\<rparr>) = dlab v"
  "dlab (v\<lparr>v_card := k\<rparr>) = dlab v" "dlab (v\<lparr>v_mem := m\<rparr>) = dlab v"
  for v :: "('c, 'z) soc_view_scheme"
  by (simp_all add: dlab_def)

lemma spi_txrx_exchanges:
  assumes rest: "at_rest s" and x: "xchg byte (v_card (V s)) = (y, c)"
  obtains s' where "spi_txrx b rg byte s = Some (y, s')"
    "V s' = (V s)\<lparr>v_card := c, v_sel := False\<rparr>"
proof -
  define s0 where "s0 = write_reg b SPI_SLAVE_SELECT_REG 0xfffffffe s"
  define s1 where "s1 = write_reg b SPI_CONTROL_REG 0x106 (write_reg b SPI_TRANSMIT_REG (ucast byte) s0)"
  have 0: "V s0 = (V s)\<lparr>v_sel := True\<rparr>" by (simp add: s0_def write_reg_def ss_write)
  have "V (wr32 b SPI_TRANSMIT_REG (ucast byte) s0) = (V s0)\<lparr>v_pend := v_pend (V s0) @ [y], v_card := c\<rparr>"
    by (rule tx_write) (use rest x in \<open>simp_all add: 0 at_rest_def\<close>)
  then have 1: "V s1 = (V s)\<lparr>v_sel := True, v_pend := [y], v_card := c\<rparr>"
    using rest by (simp add: s1_def write_reg_def cr_write 0 at_rest_def)
  obtain s2 where 2: "spi_wait_rx b s1 = Some s2" "V s2 = V s1" "avail s2"
    using spi_wait_rx_returns [of s1] by (auto simp: 1)
  obtain w s3 where 3: "rd32 b SPI_RECEIVE_REG s2 = (w, s3)" by fastforce
  have p2: "v_pend (V s2) = [y]" by (simp add: 2 1)
  have three: "V s3 = (V s1)\<lparr>v_pend := []\<rparr>" "ucast w = y"
    using rx_read [OF 2(3) p2 3] 2(2) by simp_all
  obtain st s4 where 4: "rd32 b SPI_STATUS_REG s3 = (st, s4)" by fastforce
  have four: "V s4 = V s3" "st AND 1 = 1"
    using sr_read [OF 4] by (simp_all add: three split: if_splits)
  have "spi_txrx b rg byte s = Some (y, write_reg b SPI_CONTROL_REG 0x06
      (write_reg b SPI_SLAVE_SELECT_REG 0xffffffff s4))"
    by (simp add: spi_txrx_def s0_def [symmetric] s1_def [symmetric] 2 3 three 4 four read_reg_def Let_def)
  moreover have "V (write_reg b SPI_CONTROL_REG 0x06 (write_reg b SPI_SLAVE_SELECT_REG 0xffffffff s4)) =
      (V s)\<lparr>v_card := c, v_sel := False\<rparr>"
    using rest by (simp add: write_reg_def cr_write ss_write four three 1 at_rest_def)
  ultimately show ?thesis using that by blast
qed

lemma spi_tx_all:
  assumes "v_sel (V s)" "v_pend (V s) = []" "n \<le> length bytes" "n \<le> 256"
    "xfers xchg (take n bytes) (v_card (V s)) = (ys, c)"
  shows "V (fold (\<lambda>i. write_reg b SPI_TRANSMIT_REG (ucast (bytes ! i) AND 0xff)) [0..<n] s) =
    (V s)\<lparr>v_pend := ys, v_card := c\<rparr>"
  using assms(3-)
proof (induction n arbitrary: ys c)
  case 0
  with assms(2) show ?case by simp
next
  case (Suc n)
  obtain ys1 c1 where 1: "xfers xchg (take n bytes) (v_card (V s)) = (ys1, c1)" by fastforce
  obtain y c2 where 2: "xchg (bytes ! n) c1 = (y, c2)" by fastforce
  have res: "ys = ys1 @ [y]" "c = c2"
    using Suc.prems 1 2 by (simp_all add: take_Suc_conv_app_nth xfers_append Let_def)
  define t where "t = fold (\<lambda>i. write_reg b SPI_TRANSMIT_REG (ucast (bytes ! i) AND 0xff)) [0..<n] s"
  have t: "V t = (V s)\<lparr>v_pend := ys1, v_card := c1\<rparr>"
    using Suc.IH [OF _ _ 1] Suc.prems by (simp add: t_def)
  have len: "length ys1 = n" using length_xfers [of xchg "take n bytes" "v_card (V s)"] 1 Suc.prems by simp
  have uc: "ucast (ucast (bytes ! n) AND 0xff :: u32) = bytes ! n"
    unfolding and_u32_ff by (rule bit_word_eqI) (auto simp: bit_simps)
  have "V (wr32 b SPI_TRANSMIT_REG (ucast (bytes ! n) AND 0xff) t) =
      (V t)\<lparr>v_pend := v_pend (V t) @ [y], v_card := c2\<rparr>"
    by (rule tx_write) (use assms(1) Suc.prems len in \<open>simp_all add: t uc 2\<close>)
  then show ?case by (simp add: t_def [symmetric] write_reg_def [of b SPI_TRANSMIT_REG _ t] t res)
qed

lemma spi_rx_loop_reads:
  assumes "v_pend (V s) = ys" "i + length ys = len"
    "\<forall>j < len. is_ram (ret + of_nat j)"
  shows "\<exists>s'. spi_rx_loop b ret i len s = Some s' \<and>
    V s' = (V s)\<lparr>v_pend := [], v_mem := put_bytes (v_mem (V s)) (ret + of_nat i) ys\<rparr>"
  using assms(1,2)
proof (induction ys arbitrary: i s)
  case Nil
  then show ?case by (subst spi_rx_loop.simps) simp
next
  case (Cons y ys)
  show ?case using Cons.prems
  proof (induction "lag s" arbitrary: s rule: less_induct)
    case less
    obtain x s1 where r: "rd32 b SPI_STATUS_REG s = (x, s1)" by fastforce
    note law = sr_read [OF r]
    have lt: "i < len" using less(3) by simp
    show ?case
    proof (cases "x AND 1 = 1")
      case True
      with law less(2) have 1: "V s1 = V s" "lag s1 < lag s" by auto
      obtain s' where "spi_rx_loop b ret i len s1 = Some s'"
        "V s' = (V s1)\<lparr>v_pend := [], v_mem := put_bytes (v_mem (V s1)) (ret + of_nat i) (y # ys)\<rparr>"
        using less(1) [of s1] less(2,3) 1 by auto
      with r True lt 1 show ?thesis by (subst spi_rx_loop.simps) (simp add: read_reg_def)
    next
      case False
      with law have 1: "V s1 = V s" "avail s1" by auto
      obtain w s2 where 2: "rd32 b SPI_RECEIVE_REG s1 = (w, s2)" by fastforce
      have p1: "v_pend (V s1) = y # ys" using 1 less(2) by simp
      note rx = rx_read [OF 1(2) p1 2]
      define s3 where "s3 = wr8 b (ret + of_nat i) (ucast w) s2"
      have ram: "is_ram (ret + of_nat i)" using assms(3) lt by blast
      have 3: "V s3 = (V s)\<lparr>v_pend := ys, v_mem := (v_mem (V s))(ret + of_nat i := y)\<rparr>"
        unfolding s3_def ram_write [OF ram] using rx 1 by simp
      obtain s' where "spi_rx_loop b ret (Suc i) len s3 = Some s'"
        "V s' = (V s3)\<lparr>v_pend := [], v_mem := put_bytes (v_mem (V s3)) (ret + of_nat (Suc i)) ys\<rparr>"
        using Cons.IH [of s3 "Suc i"] less(3) by (auto simp: 3 simp del: fun_upd_apply)
      with r False lt 2 3 show ?thesis
        by (subst spi_rx_loop.simps) (simp add: read_reg_def s3_def [symmetric] ac_simps)
    qed
  qed
qed

lemma spi_write_bytes_exchanges:
  assumes rest: "at_rest s" and n: "0 < unat len" "unat len \<le> 256" "unat len \<le> length bytes"
    and ram: "\<forall>j < unat len. is_ram (ret + of_nat j)"
    and x: "xfers xchg (take (unat len) bytes) (v_card (V s)) = (ys, c)"
  obtains s' where "spi_write_bytes b bytes len ret s = Some (0, s')"
    "V s' = (V s)\<lparr>v_card := c, v_sel := False, v_mem := put_bytes (v_mem (V s)) ret ys\<rparr>"
proof -
  define s0 where "s0 = write_reg b SPI_SLAVE_SELECT_REG 0xfffffffe s"
  define s1 where "s1 = fold (\<lambda>i. write_reg b SPI_TRANSMIT_REG (ucast (bytes ! i) AND 0xff)) [0..<unat len] s0"
  define s2 where "s2 = write_reg b SPI_CONTROL_REG 0x106 s1"
  have 0: "V s0 = (V s)\<lparr>v_sel := True\<rparr>" by (simp add: s0_def write_reg_def ss_write)
  have "V s1 = (V s0)\<lparr>v_pend := ys, v_card := c\<rparr>"
    unfolding s1_def by (rule spi_tx_all) (use rest n x in \<open>simp_all add: 0 at_rest_def\<close>)
  then have 2: "V s2 = (V s)\<lparr>v_sel := True, v_pend := ys, v_card := c\<rparr>"
    by (simp add: s2_def write_reg_def cr_write 0)
  have len: "length ys = unat len" using length_xfers [of xchg "take (unat len) bytes" "v_card (V s)"] x n by simp
  have "ys \<noteq> []" using len n by auto
  then obtain s3 where 3: "spi_wait_rx b s2 = Some s3" "V s3 = V s2"
    using spi_wait_rx_returns [of s2] by (auto simp: 2)
  have p3: "v_pend (V s3) = ys" by (simp add: 3 2)
  obtain s4 where 4: "spi_rx_loop b ret 0 (unat len) s3 = Some s4"
    "V s4 = (V s3)\<lparr>v_pend := [], v_mem := put_bytes (v_mem (V s3)) ret ys\<rparr>"
    using spi_rx_loop_reads [OF p3 _ ram, of 0] len by auto
  define s5 where "s5 = write_reg b SPI_CONTROL_REG 0x06 (write_reg b SPI_SLAVE_SELECT_REG 0xffffffff s4)"
  have le: "\<not> len > 256" using n(2) by (simp add: word_less_nat_alt)
  have "spi_write_bytes b bytes len ret s = Some (0, s5)"
    using le by (simp add: spi_write_bytes_def s0_def [symmetric] s1_def [symmetric] s2_def [symmetric]
        3 4(1) s5_def [symmetric] Let_def)
  moreover have "V s5 = (V s)\<lparr>v_card := c, v_sel := False, v_mem := put_bytes (v_mem (V s)) ret ys\<rparr>"
    using rest by (simp add: s5_def write_reg_def cr_write ss_write 4 3 2 at_rest_def)
  ultimately show ?thesis using that by blast
qed

end

end
