(* ===== verification/Boot_Sd.thy ===== *)
theory Boot_Sd
  imports Boot_Spi
begin

text \<open>
  The SD card driver of the FPGA boot ROM, \<open>fpga/src/bootrom/src/sd.c\<close>: commands over
  SPI, the initialisation sequence, the two checksums and the multi-block read
  \<open>sd_copy\<close>. The destination of a copy is memory on the bus.

  Below the driver the theory repeats the protocol on the card alone (\<open>card_cmd\<close>,
  \<open>card_block\<close>, \<open>card_copy\<close>): the same exchanges with the registers, the polling and
  the memory taken away. The refinement lemmas show that the driver on any bus that satisfies
  \<open>spi_port\<close> performs exactly these exchanges.
\<close>

unbundle bit_operations_syntax

definition SD_CMD_STOP_TRANSMISSION :: u8 where "SD_CMD_STOP_TRANSMISSION = 12"
definition SD_CMD_READ_BLOCK_MULTIPLE :: u8 where "SD_CMD_READ_BLOCK_MULTIPLE = 18"
definition SD_DATA_TOKEN :: u8 where "SD_DATA_TOKEN = 0xfe"
definition SD_COPY_ERROR_CMD18 :: int where "SD_COPY_ERROR_CMD18 = -1"
definition SD_COPY_ERROR_CMD18_CRC :: int where "SD_COPY_ERROR_CMD18_CRC = -2"
definition SD_INIT_ERROR_CMD0 :: int where "SD_INIT_ERROR_CMD0 = -1"
definition SD_INIT_ERROR_CMD8 :: int where "SD_INIT_ERROR_CMD8 = -2"
definition SD_INIT_ERROR_ACMD41 :: int where "SD_INIT_ERROR_ACMD41 = -3"

section \<open>Commands\<close>

definition sd_dummy :: "'s bus \<Rightarrow> uart_regs \<Rightarrow> 's \<Rightarrow> (u8 \<times> 's) option" where
  "sd_dummy b rg s = spi_txrx b rg 0xFF s"

text \<open>The wait for a response: at most \<open>n + 1\<close> reads, until the top bit is clear.\<close>

fun sd_cmd_poll :: "'s bus \<Rightarrow> uart_regs \<Rightarrow> nat \<Rightarrow> 's \<Rightarrow> (u8 \<times> 's) option" where
  "sd_cmd_poll b rg 0 s = sd_dummy b rg s"
| "sd_cmd_poll b rg (Suc n) s =
     do { (r, s) \<leftarrow> sd_dummy b rg s;
          if r AND 0x80 = 0 then Some (r, s) else sd_cmd_poll b rg n s }"

definition sd_cmd :: "'s bus \<Rightarrow> uart_regs \<Rightarrow> u8 \<Rightarrow> u32 \<Rightarrow> u8 \<Rightarrow> 's \<Rightarrow> (u8 \<times> 's) option" where
  "sd_cmd b rg cmd arg crc s =
     do { (_, s) \<leftarrow> sd_dummy b rg s;
          (_, s) \<leftarrow> spi_txrx b rg (0x40 OR cmd) s;
          (_, s) \<leftarrow> spi_txrx b rg (ucast (drop_bit 24 arg)) s;
          (_, s) \<leftarrow> spi_txrx b rg (ucast (drop_bit 16 arg)) s;
          (_, s) \<leftarrow> spi_txrx b rg (ucast (drop_bit 8 arg)) s;
          (_, s) \<leftarrow> spi_txrx b rg (ucast arg) s;
          (_, s) \<leftarrow> spi_txrx b rg crc s;
          sd_cmd_poll b rg 99 s }"

definition print_status :: "'s bus \<Rightarrow> uart_regs \<Rightarrow> string \<Rightarrow> u8 \<Rightarrow> 's \<Rightarrow> 's option" where
  "print_status b rg cmd response s =
     do { s \<leftarrow> print_uart b rg (cstr ''SD command '') s;
          s \<leftarrow> print_uart b rg (cstr cmd) s;
          s \<leftarrow> print_uart b rg (cstr ('' '' @ [CHR 0x09] @ ''response : '')) s;
          s \<leftarrow> print_uart_byte b rg response s;
          print_uart b rg (cstr crlf) s }"

section \<open>Initialisation\<close>

text \<open>
  \<open>sd_cmd0\<close>: the loop with its counter. The counter is tested after the command, so a
  response that arrives when the counter reaches zero is reported as a failure.
\<close>

fun sd_cmd0_loop :: "'s bus \<Rightarrow> uart_regs \<Rightarrow> nat \<Rightarrow> u8 \<Rightarrow> 's \<Rightarrow> (bool \<times> 's) option" where
  "sd_cmd0_loop b rg 0 r s = Some (False, s)"
| "sd_cmd0_loop b rg (Suc counter) r s =
     (if r \<noteq> 0x1
      then do { (r, s) \<leftarrow> sd_cmd b rg 0 0 0x95 s;
                (_, s) \<leftarrow> sd_dummy b rg s;
                if counter = 0 then Some (False, s) else sd_cmd0_loop b rg counter r s }
      else do { s \<leftarrow> print_status b rg ''cmd0'' r s; Some (r = 0x1, s) })"

definition sd_cmd0 :: "'s bus \<Rightarrow> uart_regs \<Rightarrow> 's \<Rightarrow> (bool \<times> 's) option" where
  "sd_cmd0 b rg s = sd_cmd0_loop b rg 10000 0xff s"

definition sd_cmd8 :: "'s bus \<Rightarrow> uart_regs \<Rightarrow> 's \<Rightarrow> (bool \<times> 's) option" where
  "sd_cmd8 b rg s =
     do { (r1, s) \<leftarrow> sd_cmd b rg 8 0x1aa 0x87 s;
          (_, s) \<leftarrow> sd_dummy b rg s;
          (_, s) \<leftarrow> sd_dummy b rg s;
          (r4, s) \<leftarrow> sd_dummy b rg s;
          (r5, s) \<leftarrow> sd_dummy b rg s;
          (_, s) \<leftarrow> sd_dummy b rg s;
          (_, s) \<leftarrow> sd_dummy b rg s;
          Some (r1 = 0x1 \<and> r4 AND 0xf = 0x1 \<and> r5 = 0xaa, s) }"

definition sd_cmd55 :: "'s bus \<Rightarrow> uart_regs \<Rightarrow> 's \<Rightarrow> (bool \<times> 's) option" where
  "sd_cmd55 b rg s =
     do { (r, s) \<leftarrow> sd_cmd b rg 55 0x0 0x65 s;
          (_, s) \<leftarrow> sd_dummy b rg s;
          s \<leftarrow> print_status b rg ''cmd55'' r s;
          Some (r = 0x1, s) }"

definition sd_acmd41_step :: "'s bus \<Rightarrow> uart_regs \<Rightarrow> 's \<Rightarrow> (u8 \<times> 's) option" where
  "sd_acmd41_step b rg s =
     do { (_, s) \<leftarrow> sd_cmd55 b rg s;
          (r, s) \<leftarrow> sd_cmd b rg 41 0x40000000 0x77 s;
          s \<leftarrow> print_status b rg ''cmd41'' r s;
          (_, s) \<leftarrow> sd_dummy b rg s;
          Some (r, s) }"

partial_function (option) sd_acmd41 :: "'s bus \<Rightarrow> uart_regs \<Rightarrow> 's \<Rightarrow> (bool \<times> 's) option" where
  "sd_acmd41 b rg s =
     Option.bind (sd_acmd41_step b rg s) (\<lambda>rs.
       if fst rs = 0x1 then sd_acmd41 b rg (snd rs) else Some (fst rs = 0x00, snd rs))"

fun sd_dummies :: "'s bus \<Rightarrow> uart_regs \<Rightarrow> nat \<Rightarrow> 's \<Rightarrow> 's option" where
  "sd_dummies b rg 0 s = Some s"
| "sd_dummies b rg (Suc n) s = do { (_, s) \<leftarrow> sd_dummy b rg s; sd_dummies b rg n s }"

definition init_sd :: "'s bus \<Rightarrow> uart_regs \<Rightarrow> 's \<Rightarrow> (int \<times> 's) option" where
  "init_sd b rg s =
     do { s \<leftarrow> spi_init b rg s;
          s \<leftarrow> print_uart b rg (cstr (''initializing SD... '' @ crlf)) s;
          s \<leftarrow> sd_dummies b rg 10 s;
          (ok, s) \<leftarrow> sd_cmd0 b rg s;
          if \<not> ok then Some (SD_INIT_ERROR_CMD0, s)
          else do { (ok, s) \<leftarrow> sd_cmd8 b rg s;
                    if \<not> ok then Some (SD_INIT_ERROR_CMD8, s)
                    else do { (ok, s) \<leftarrow> sd_acmd41 b rg s;
                              if \<not> ok then Some (SD_INIT_ERROR_ACMD41, s)
                              else Some (0, s) } } }"

section \<open>Checksums\<close>

definition crc7 :: "u8 \<Rightarrow> u8 \<Rightarrow> u8" where
  "crc7 prev inp =
     (let remainder = prev AND inp;
          remainder = remainder XOR (drop_bit 4 remainder XOR drop_bit 7 remainder);
          remainder = remainder XOR push_bit 4 remainder
      in remainder AND 0x7f)"

definition crc16 :: "u16 \<Rightarrow> u8 \<Rightarrow> u16" where
  "crc16 crc data =
     (let crc = ucast (ucast (drop_bit 8 crc) :: u8) OR push_bit 8 crc;
          crc = crc XOR ucast data;
          crc = crc XOR (ucast (ucast (drop_bit 4 crc) :: u8) AND 0xf);
          crc = crc XOR push_bit 12 crc;
          crc = crc XOR push_bit 5 (crc AND 0xff)
      in crc)"

section \<open>Reading blocks\<close>

text \<open>The checksum over the \<open>n\<close> bytes just stored, read back through the volatile pointer.\<close>

fun crc_loop :: "'s bus \<Rightarrow> u64 \<Rightarrow> nat \<Rightarrow> nat \<Rightarrow> u16 \<Rightarrow> 's \<Rightarrow> u16 \<times> 's" where
  "crc_loop b p i 0 crc s = (crc, s)"
| "crc_loop b p i (Suc n) crc s =
     (let (x, s) = rd8 b (p + of_nat i) s in crc_loop b p (Suc i) n (crc16 crc x) s)"

text \<open>The eight transfers of 64 bytes that make a block of 512; \<open>n\<close> counts the transfers left.\<close>

fun sd_chunks ::
  "'s bus \<Rightarrow> u8 list \<Rightarrow> nat \<Rightarrow> u64 \<Rightarrow> u16 \<Rightarrow> 's \<Rightarrow> ((u64 \<times> u16) \<times> 's) option" where
  "sd_chunks b ff 0 p crc s = Some ((p, crc), s)"
| "sd_chunks b ff (Suc n) p crc s =
     do { (_, s) \<leftarrow> spi_write_bytes b ff 64 p s;
          let (crc, s) = crc_loop b p 0 64 crc s;
          sd_chunks b ff n (p + 64) crc s }"

partial_function (option) sd_wait_token :: "'s bus \<Rightarrow> uart_regs \<Rightarrow> 's \<Rightarrow> 's option" where
  "sd_wait_token b rg s =
     Option.bind (sd_dummy b rg s) (\<lambda>rs.
       if fst rs \<noteq> SD_DATA_TOKEN then sd_wait_token b rg (snd rs) else Some (snd rs))"

text \<open>
  The outer \<open>do ... while (--i > 0)\<close>; \<open>i\<close> starts at \<open>size\<close>, so one block is read even when
  \<open>size\<close> is zero. \<open>i % 1000\<close> of the C code is taken on a non-negative number.
\<close>

fun sd_copy_loop :: "'s bus \<Rightarrow> uart_regs \<Rightarrow> u8 list \<Rightarrow> nat \<Rightarrow> u64 \<Rightarrow> 's \<Rightarrow> (int \<times> 's) option" where
  "sd_copy_loop b rg ff i p s =
     do { s \<leftarrow> sd_wait_token b rg s;
          ((p, crc), s) \<leftarrow> sd_chunks b ff 8 p 0 s;
          (hi, s) \<leftarrow> sd_dummy b rg s;
          (lo, s) \<leftarrow> sd_dummy b rg s;
          let crc_exp = push_bit 8 (ucast hi) OR ucast lo;
          if crc \<noteq> crc_exp then Some (SD_COPY_ERROR_CMD18_CRC, s)
          else do { s \<leftarrow> (if i mod 1000 = 0 then print_uart b rg (cstr ''.'') s else Some s);
                    if i > 1 then sd_copy_loop b rg ff (i - 1) p s else Some (0, s) } }"

declare sd_copy_loop.simps [simp del]

definition cmd18_crc :: "u32 \<Rightarrow> u8" where
  "cmd18_crc src_lba =
     (let crc = 0;
          crc = crc7 crc (0x40 OR SD_CMD_READ_BLOCK_MULTIPLE);
          crc = crc7 crc (ucast (drop_bit 24 src_lba AND 0xff));
          crc = crc7 crc (ucast (drop_bit 16 src_lba AND 0xff));
          crc = crc7 crc (ucast (drop_bit 8 src_lba AND 0xff));
          crc = crc7 crc (ucast (src_lba AND 0xff))
      in push_bit 1 crc OR 1)"

definition sd_copy :: "'s bus \<Rightarrow> uart_regs \<Rightarrow> u64 \<Rightarrow> u32 \<Rightarrow> u32 \<Rightarrow> 's \<Rightarrow> (int \<times> 's) option" where
  "sd_copy b rg dst src_lba size_blocks s =
     do { (r, s) \<leftarrow> sd_cmd b rg 18 src_lba (cmd18_crc src_lba) s;
          if r \<noteq> 0x00
          then do { s \<leftarrow> sd_dummies b rg 8 s;
                    s \<leftarrow> print_uart b rg (cstr (''could not read SD block'' @ crlf)) s;
                    Some (-1, s) }
          else do { (rc, s) \<leftarrow> sd_copy_loop b rg (replicate 128 0xff) (unat size_blocks) dst s;
                    (_, s) \<leftarrow> sd_cmd b rg SD_CMD_STOP_TRANSMISSION 0 0x01 s;
                    (_, s) \<leftarrow> sd_dummy b rg s;
                    Some (rc, s) } }"

section \<open>The checksum is CRC-16/CCITT\<close>

text \<open>
  The reference: shift in one data bit at a time, most significant first, and reduce by the
  polynomial \<open>x\<^sup>1\<^sup>6 + x\<^sup>1\<^sup>2 + x\<^sup>5 + 1\<close>.
\<close>

definition crc16_bit :: "u16 \<Rightarrow> bool \<Rightarrow> u16" where
  "crc16_bit crc x = push_bit 1 crc XOR (if bit crc 15 \<noteq> x then 0x1021 else 0)"

definition crc16_ref :: "u16 \<Rightarrow> u8 \<Rightarrow> u16" where
  "crc16_ref crc data = fold (\<lambda>i crc. crc16_bit crc (bit data i)) [7, 6, 5, 4, 3, 2, 1, 0] crc"

lemma bit_1021: "n < 16 \<Longrightarrow> bit (0x1021 :: u16) n \<longleftrightarrow> n = 0 \<or> n = 5 \<or> n = 12"
  by (drule nat_less16_cases, elim insertE emptyE) (simp_all add: bit_numeral_rec)

lemma bit_crc16_bit:
  "n < 16 \<Longrightarrow> bit (crc16_bit c x) n = ((0 < n \<and> bit c (n - 1)) \<noteq> ((n = 0 \<or> n = 5 \<or> n = 12) \<and> (bit c 15 \<noteq> x)))"
  by (simp only: crc16_bit_def bit_xor_iff bit_push_bit_iff bit_1021 if_distrib [of "\<lambda>w. bit w n"])
    auto

lemma crc16_eq_ref: "crc16 c d = crc16_ref c d"
proof (rule bit_word_eqI)
  fix n :: nat
  assume "n < LENGTH(16)"
  then have n: "n \<in> {15, 14, 13, 12, 11, 10, 9, 8, 7, 6, 5, 4, 3, 2, 1, 0}"
    using nat_less16_cases [of n] by simp
  have m: "(0xf :: u16) = mask 4" "(0xff :: u16) = mask 8" by (simp_all add: mask_numeral)
  have d: "\<not> bit d i" if "8 \<le> i" for i
    using that bit_imp_le_length [of d i] by auto
  show "bit (crc16 c d) n = bit (crc16_ref c d) n"
    using n
    by (elim insertE emptyE; simp add: crc16_ref_def bit_crc16_bit;
        simp add: crc16_def Let_def m bit_simps d; argo?)
qed

section \<open>The protocol seen by the card\<close>

definition card_frame :: "u8 \<Rightarrow> u32 \<Rightarrow> u8 \<Rightarrow> u8 list" where
  "card_frame cmd arg crc =
     [0xFF, 0x40 OR cmd, ucast (drop_bit 24 arg), ucast (drop_bit 16 arg), ucast (drop_bit 8 arg),
      ucast arg, crc]"

fun card_poll :: "(u8 \<Rightarrow> 'c \<Rightarrow> u8 \<times> 'c) \<Rightarrow> nat \<Rightarrow> 'c \<Rightarrow> u8 \<times> 'c" where
  "card_poll xchg 0 c = xchg 0xFF c"
| "card_poll xchg (Suc n) c =
     (let (r, c) = xchg 0xFF c in if r AND 0x80 = 0 then (r, c) else card_poll xchg n c)"

definition card_cmd :: "(u8 \<Rightarrow> 'c \<Rightarrow> u8 \<times> 'c) \<Rightarrow> u8 \<Rightarrow> u32 \<Rightarrow> u8 \<Rightarrow> 'c \<Rightarrow> u8 \<times> 'c" where
  "card_cmd xchg cmd arg crc c = card_poll xchg 99 (snd (xfers xchg (card_frame cmd arg crc) c))"

text \<open>The card sends one block: filler bytes, the token, 512 data bytes and a checksum.\<close>

definition sends_block ::
  "(u8 \<Rightarrow> 'c \<Rightarrow> u8 \<times> 'c) \<Rightarrow> 'c \<Rightarrow> u8 list \<Rightarrow> u8 \<Rightarrow> u8 \<Rightarrow> 'c \<Rightarrow> bool" where
  "sends_block xchg c bs h l c' \<longleftrightarrow>
     length bs = 512 \<and>
     (\<exists>k ys c1. xfers xchg (replicate k 0xFF) c = (ys, c1) \<and> SD_DATA_TOKEN \<notin> set ys \<and>
        xfers xchg (replicate 515 0xFF) c1 = (SD_DATA_TOKEN # bs @ [h, l], c'))"

definition block_crc :: "u8 list \<Rightarrow> u16" where
  "block_crc bs = foldl crc16 0 bs"

context spi_port
begin

text \<open>The driver at rest, with the card and the memory in given states.\<close>

definition holds :: "'s \<Rightarrow> 'c \<Rightarrow> (u64 \<Rightarrow> u8) \<Rightarrow> bool" where
  "holds s c m \<longleftrightarrow> at_rest s \<and> v_card (V s) = c \<and> v_mem (V s) = m"

lemma txrx_holds:
  assumes "holds s c m" "xchg x c = (y, c')"
  obtains s' where "spi_txrx b rg x s = Some (y, s')" "holds s' c' m"
proof -
  have "at_rest s" and x: "xchg x (v_card (V s)) = (y, c')" using assms by (auto simp: holds_def)
  then obtain s' where "spi_txrx b rg x s = Some (y, s')" "V s' = (V s)\<lparr>v_card := c', v_sel := False\<rparr>"
    by (rule spi_txrx_exchanges)
  with assms(1) that show ?thesis by (auto simp: holds_def at_rest_def view_eqs)
qed

lemmas dummy_holds = txrx_holds [where x = "0xFF", folded sd_dummy_def]

lemma print_holds:
  assumes "holds s c m"
  obtains s' where "print_uart b rg cs s = Some s'" "holds s' c m"
proof -
  have "\<not> dlab (V s)" using assms by (simp add: holds_def at_rest_def)
  then obtain s' where "print_uart b rg cs s = Some s'" "V s' = sent cs (V s)"
    using print_uart_sends by blast
  with assms that show ?thesis by (auto simp: holds_def at_rest_def) (simp add: sent_def)
qed

lemma holds_sent: "holds s c m \<Longrightarrow> V s' = sent cs (V s) \<Longrightarrow> holds s' c m"
  by (auto simp: holds_def at_rest_def) (simp_all add: sent_def)

lemma print_byte_holds:
  assumes "holds s c m"
  obtains s' where "print_uart_byte b rg x s = Some s'" "holds s' c m"
  using assms that print_uart_byte_sends [of s x] holds_sent
  by (metis holds_def at_rest_def)

lemma print_int_holds:
  assumes "holds s c m"
  obtains s' where "print_uart_int b rg x s = Some s'" "holds s' c m"
  using assms that print_uart_int_sends [of s x] holds_sent
  by (metis holds_def at_rest_def)

lemma print_addr_holds:
  assumes "holds s c m"
  obtains s' where "print_uart_addr b rg x s = Some s'" "holds s' c m"
  using assms that print_uart_addr_sends [of s x] holds_sent
  by (metis holds_def at_rest_def)

lemma cmd_poll_holds:
  assumes "holds s c m" "card_poll xchg n c = (r, c')"
  shows "\<exists>s'. sd_cmd_poll b rg n s = Some (r, s') \<and> holds s' c' m"
  using assms
proof (induction n arbitrary: s c)
  case 0
  then show ?case using dummy_holds by (metis card_poll.simps(1) sd_cmd_poll.simps(1))
next
  case (Suc n)
  obtain y c1 where x: "xchg 0xFF c = (y, c1)" by fastforce
  obtain s1 where 1: "sd_dummy b rg s = Some (y, s1)" "holds s1 c1 m"
    by (rule dummy_holds [OF Suc.prems(1) x])
  show ?case
    using Suc.prems(2) Suc.IH [OF 1(2)] x 1 by (auto split: if_splits)
qed

text \<open>The refinement of a command: the driver's register traffic is the card's exchange.\<close>

lemma cmd_holds:
  assumes h: "holds s c m" and r: "card_cmd xchg cmd arg crc c = (r, c')"
  obtains s' where "sd_cmd b rg cmd arg crc s = Some (r, s')" "holds s' c' m"
proof -
  obtain y0 c0 where x0: "xchg 0xFF c = (y0, c0)" by fastforce
  obtain y1 c1 where x1: "xchg (0x40 OR cmd) c0 = (y1, c1)" by fastforce
  obtain y2 c2 where x2: "xchg (ucast (drop_bit 24 arg)) c1 = (y2, c2)" by fastforce
  obtain y3 c3 where x3: "xchg (ucast (drop_bit 16 arg)) c2 = (y3, c3)" by fastforce
  obtain y4 c4 where x4: "xchg (ucast (drop_bit 8 arg)) c3 = (y4, c4)" by fastforce
  obtain y5 c5 where x5: "xchg (ucast arg) c4 = (y5, c5)" by fastforce
  obtain y6 c6 where x6: "xchg crc c5 = (y6, c6)" by fastforce
  obtain s0 where s0: "sd_dummy b rg s = Some (y0, s0)" "holds s0 c0 m" by (rule dummy_holds [OF h x0])
  obtain s1 where s1: "spi_txrx b rg (0x40 OR cmd) s0 = Some (y1, s1)" "holds s1 c1 m"
    by (rule txrx_holds [OF s0(2) x1])
  obtain s2 where s2: "spi_txrx b rg (ucast (drop_bit 24 arg)) s1 = Some (y2, s2)" "holds s2 c2 m"
    by (rule txrx_holds [OF s1(2) x2])
  obtain s3 where s3: "spi_txrx b rg (ucast (drop_bit 16 arg)) s2 = Some (y3, s3)" "holds s3 c3 m"
    by (rule txrx_holds [OF s2(2) x3])
  obtain s4 where s4: "spi_txrx b rg (ucast (drop_bit 8 arg)) s3 = Some (y4, s4)" "holds s4 c4 m"
    by (rule txrx_holds [OF s3(2) x4])
  obtain s5 where s5: "spi_txrx b rg (ucast arg) s4 = Some (y5, s5)" "holds s5 c5 m"
    by (rule txrx_holds [OF s4(2) x5])
  obtain s6 where s6: "spi_txrx b rg crc s5 = Some (y6, s6)" "holds s6 c6 m"
    by (rule txrx_holds [OF s5(2) x6])
  have "card_poll xchg 99 c6 = (r, c')"
    using r by (simp add: card_cmd_def card_frame_def x0 x1 x2 x3 x4 x5 x6)
  then obtain s7 where s7: "sd_cmd_poll b rg 99 s6 = Some (r, s7)" "holds s7 c' m"
    using cmd_poll_holds [OF s6(2)] by blast
  have "sd_cmd b rg cmd arg crc s = Some (r, s7)"
    by (simp add: sd_cmd_def s0 s1 s2 s3 s4 s5 s6 s7)
  with s7(2) that show ?thesis by blast
qed

lemma dummies_holds:
  "holds s c m \<Longrightarrow> xfers xchg (replicate n 0xFF) c = (ys, c') \<Longrightarrow>
   \<exists>s'. sd_dummies b rg n s = Some s' \<and> holds s' c' m"
proof (induction n arbitrary: s c ys)
  case (Suc n)
  obtain y c1 where x: "xchg 0xFF c = (y, c1)" by fastforce
  obtain s1 where 1: "sd_dummy b rg s = Some (y, s1)" "holds s1 c1 m"
    by (rule dummy_holds [OF Suc.prems(1) x])
  show ?case
    using Suc.prems(2) Suc.IH [OF 1(2)] x 1 by (auto split: prod.splits)
qed simp

lemma wait_token_holds:
  assumes "holds s c m" "xfers xchg (replicate k 0xFF) c = (ys, c1)" "SD_DATA_TOKEN \<notin> set ys"
    "xchg 0xFF c1 = (SD_DATA_TOKEN, c2)"
  shows "\<exists>s'. sd_wait_token b rg s = Some s' \<and> holds s' c2 m"
  using assms
proof (induction k arbitrary: s c ys)
  case 0
  then obtain s1 where "sd_dummy b rg s = Some (SD_DATA_TOKEN, s1)" "holds s1 c2 m"
    using dummy_holds by (metis Pair_inject replicate_0 xfers.simps(1))
  then show ?case by (subst sd_wait_token.simps) simp
next
  case (Suc k)
  obtain y c3 where x: "xchg 0xFF c = (y, c3)" by fastforce
  obtain s1 where 1: "sd_dummy b rg s = Some (y, s1)" "holds s1 c3 m"
    by (rule dummy_holds [OF Suc.prems(1) x])
  obtain zs where zs: "xfers xchg (replicate k 0xFF) c3 = (zs, c1)" "ys = y # zs"
    using Suc.prems(2) x by (auto split: prod.splits)
  then have "y \<noteq> SD_DATA_TOKEN" "SD_DATA_TOKEN \<notin> set zs" using Suc.prems(3) by auto
  with Suc.IH [OF 1(2) zs(1)] Suc.prems(4) 1(1) show ?case
    by (subst sd_wait_token.simps) simp
qed

lemma crc_loop_holds:
  assumes "holds s c m" "\<forall>j < n. is_ram (p + of_nat (i + j))" "length zs = n"
    "\<forall>j < n. m (p + of_nat (i + j)) = zs ! j"
  shows "\<exists>s'. crc_loop b p i n crc s = (foldl crc16 crc zs, s') \<and> holds s' c m"
  using assms
proof (induction n arbitrary: i crc s zs)
  case (Suc n)
  then obtain z zs1 where z: "zs = z # zs1" by (cases zs) auto
  obtain x s1 where r: "rd8 b (p + of_nat i) s = (x, s1)" by fastforce
  have "is_ram (p + of_nat i)" using Suc.prems(2) by (metis add_0_right zero_less_Suc)
  with r have 1: "V s1 = V s" "x = v_mem (V s) (p + of_nat i)" using ram_read by blast+
  then have h1: "holds s1 c m" using Suc.prems(1) by (simp add: holds_def at_rest_def)
  have "x = z" using Suc.prems(4) z 1(2) Suc.prems(1) by (auto simp: holds_def)
  moreover have "\<exists>s'. crc_loop b p (Suc i) n (crc16 crc z) s1 = (foldl crc16 (crc16 crc z) zs1, s') \<and>
      holds s' c m"
  proof (rule Suc.IH [OF h1])
    have sh: "p + of_nat (Suc i + j) = p + of_nat (i + Suc j)" for j by simp
    show "\<forall>j < n. is_ram (p + of_nat (Suc i + j))"
      using Suc.prems(2) by (simp only: sh) (metis Suc_less_eq)
    show "\<forall>j < n. m (p + of_nat (Suc i + j)) = zs1 ! j"
      using Suc.prems(4) by (simp only: sh) (metis Suc_less_eq nth_Cons_Suc z)
  qed (use Suc.prems(3) z in simp)
  ultimately show ?case using r z by simp
qed simp

end

lemma put_bytes_apply:
  "length ys < 18446744073709551616 \<Longrightarrow>
   put_bytes m a ys x = (if unat (x - a) < length ys then ys ! unat (x - a) else m x)"
proof (induction ys arbitrary: m a)
  case (Cons y ys)
  show ?case
  proof (cases "x = a")
    case True
    have "unat (x - (a + 1)) = 18446744073709551615"
      using True by (simp add: unsigned_minus_1_eq_mask mask_eq_exp_minus_1)
    with Cons True show ?thesis by simp
  next
    case False
    have e: "1 + (x - (a + 1)) = x - a" by simp
    have "1 + (x - (a + 1)) \<noteq> 0" using False by simp
    from unatSuc [OF this] have "unat (x - a) = Suc (unat (x - (a + 1)))" by (simp only: e)
    with Cons False show ?thesis by simp
  qed
qed simp

lemma put_bytes_nth:
  "i < length ys \<Longrightarrow> length ys < 18446744073709551616 \<Longrightarrow> put_bytes m a ys (a + of_nat i) = ys ! i"
  by (simp add: put_bytes_apply unat_of_nat take_bit_nat_eq_self)

context spi_port
begin

lemma chunk_holds:
  assumes h: "holds s c m" and ram: "\<forall>j < 64. is_ram (p + of_nat j)"
    and x: "xfers xchg (replicate 64 0xFF) c = (ys, c')"
  obtains s' where "spi_write_bytes b (replicate 128 0xFF) 64 p s = Some (0, s')"
    "holds s' c' (put_bytes m p ys)"
proof -
  have "at_rest s" and c: "v_card (V s) = c" "v_mem (V s) = m" using h by (auto simp: holds_def)
  moreover have "take (unat (64 :: u32)) (replicate 128 0xFF) = replicate 64 (0xFF :: u8)"
    by simp
  ultimately obtain s' where "spi_write_bytes b (replicate 128 0xFF) 64 p s = Some (0, s')"
      "V s' = (V s)\<lparr>v_card := c', v_sel := False, v_mem := put_bytes m p ys\<rparr>"
    using spi_write_bytes_exchanges [of s 64 "replicate 128 0xFF" p ys c'] ram x by auto
  with h that show ?thesis by (auto simp: holds_def at_rest_def view_eqs)
qed

lemma chunks_holds:
  assumes "holds s c m" "\<forall>j < 64 * n. is_ram (p + of_nat j)"
    "xfers xchg (replicate (64 * n) 0xFF) c = (bs, c')"
  shows "\<exists>s'. sd_chunks b (replicate 128 0xFF) n p crc s =
      Some ((p + of_nat (64 * n), foldl crc16 crc bs), s') \<and> holds s' c' (put_bytes m p bs)"
  using assms
proof (induction n arbitrary: s c m p crc bs)
  case (Suc n)
  have e: "replicate (64 * Suc n) (0xFF :: u8) = replicate 64 0xFF @ replicate (64 * n) 0xFF"
    by (simp add: replicate_add)
  obtain ys c1 where y: "xfers xchg (replicate 64 0xFF) c = (ys, c1)" by fastforce
  obtain zs where z: "xfers xchg (replicate (64 * n) 0xFF) c1 = (zs, c')" "bs = ys @ zs"
    using Suc.prems(3) y by (auto simp: e xfers_append simp del: mult_Suc_right split: prod.splits)
  have len: "length ys = 64" using length_xfers [of xchg "replicate 64 0xFF" c] y by simp
  have ram: "\<forall>j < 64. is_ram (p + of_nat j)" using Suc.prems(2) by auto
  obtain s1 where 1: "spi_write_bytes b (replicate 128 0xFF) 64 p s = Some (0, s1)"
      "holds s1 c1 (put_bytes m p ys)"
    by (rule chunk_holds [OF Suc.prems(1) ram y])
  obtain s2 where 2: "crc_loop b p 0 64 crc s1 = (foldl crc16 crc ys, s2)" "holds s2 c1 (put_bytes m p ys)"
    using crc_loop_holds [OF 1(2), of 64 p 0 ys crc] ram len by (auto simp: put_bytes_nth)
  have "\<forall>j < 64 * n. is_ram (p + 64 + of_nat j)"
  proof (intro allI impI)
    fix j assume "j < 64 * n"
    then have "is_ram (p + of_nat (64 + j))" using Suc.prems(2) [rule_format, of "64 + j"] by simp
    then show "is_ram (p + 64 + of_nat j)" by (simp add: add.assoc)
  qed
  from Suc.IH [OF 2(2) this z(1)] obtain s3 where
    "sd_chunks b (replicate 128 0xFF) n (p + 64) (foldl crc16 crc ys) s2 =
      Some ((p + 64 + of_nat (64 * n), foldl crc16 (foldl crc16 crc ys) zs), s3)"
    "holds s3 c' (put_bytes (put_bytes m p ys) (p + 64) zs)" by blast
  with 1 2 show ?case by (simp add: z(2) put_bytes_append len add.assoc)
qed simp

lemma block_holds:
  assumes h: "holds s c m" and ram: "\<forall>j < 512. is_ram (p + of_nat j)"
    and blk: "sends_block xchg c bs hi lo c'"
  obtains s' where "sd_copy_loop b rg (replicate 128 0xFF) i p s =
      (if block_crc bs \<noteq> push_bit 8 (ucast hi) OR ucast lo then Some (SD_COPY_ERROR_CMD18_CRC, s')
       else if i > 1 then sd_copy_loop b rg (replicate 128 0xFF) (i - 1) (p + 512) s' else Some (0, s'))"
    "holds s' c' (put_bytes m p bs)"
proof -
  from blk obtain k ys c1 where len: "length bs = 512"
    and k: "xfers xchg (replicate k 0xFF) c = (ys, c1)" "SD_DATA_TOKEN \<notin> set ys"
    and d: "xfers xchg (replicate 515 0xFF) c1 = (SD_DATA_TOKEN # bs @ [hi, lo], c')"
    by (auto simp: sends_block_def)
  have e: "replicate 515 (0xFF :: u8) = 0xFF # replicate 512 0xFF @ [0xFF, 0xFF]"
  proof -
    have "replicate (Suc (512 + 2)) (0xFF :: u8) = 0xFF # replicate 512 0xFF @ replicate 2 0xFF"
      by (simp only: replicate_Suc replicate_add append_Cons)
    then show ?thesis by (simp add: numeral_2_eq_2)
  qed
  obtain t c2 where t: "xchg 0xFF c1 = (t, c2)" by fastforce
  obtain us c3 where u: "xfers xchg (replicate 512 0xFF) c2 = (us, c3)" by fastforce
  obtain x c4 where x: "xchg 0xFF c3 = (x, c4)" by fastforce
  obtain y c5 where y: "xchg 0xFF c4 = (y, c5)" by fastforce
  have lu: "length us = 512" using length_xfers [of xchg "replicate 512 0xFF" c2] u by simp
  have eqs: "t = SD_DATA_TOKEN" "us = bs" "x = hi" "y = lo" "c5 = c'"
    using d len lu by (auto simp: e xfers_append t u x y)
  obtain s1 where 1: "sd_wait_token b rg s = Some s1" "holds s1 c2 m"
    using wait_token_holds [OF h k] t eqs by blast
  obtain s2 where 2: "sd_chunks b (replicate 128 0xFF) 8 p 0 s1 = Some ((p + 512, block_crc bs), s2)"
      "holds s2 c3 (put_bytes m p bs)"
    using chunks_holds [OF 1(2), of 8 p bs c3 0] ram u eqs by (auto simp: block_crc_def)
  obtain s3 where 3: "sd_dummy b rg s2 = Some (hi, s3)" "holds s3 c4 (put_bytes m p bs)"
    using dummy_holds [OF 2(2) x] eqs by blast
  obtain s4 where 4: "sd_dummy b rg s3 = Some (lo, s4)" "holds s4 c' (put_bytes m p bs)"
    using dummy_holds [OF 3(2) y] eqs by blast
  obtain s5 where 5: "print_uart b rg (cstr ''.'') s4 = Some s5" "holds s5 c' (put_bytes m p bs)"
    by (rule print_holds [OF 4(2)])
  show ?thesis
  proof (cases "block_crc bs = push_bit 8 (ucast hi) OR ucast lo \<and> i mod 1000 = 0")
    case True
    with 1 2 3 4 5 show ?thesis
      by (intro that [of s5]) (subst sd_copy_loop.simps, simp_all)
  next
    case False
    with 1 2 3 4 show ?thesis
      by (intro that [of s4]) (subst sd_copy_loop.simps, auto)
  qed
qed

end

text \<open>A run of blocks with correct checksums.\<close>

fun sends_blocks :: "(u8 \<Rightarrow> 'c \<Rightarrow> u8 \<times> 'c) \<Rightarrow> 'c \<Rightarrow> u8 list list \<Rightarrow> 'c \<Rightarrow> bool" where
  "sends_blocks xchg c [] c' \<longleftrightarrow> c = c'"
| "sends_blocks xchg c (bs # bss) c' \<longleftrightarrow>
     (\<exists>hi lo c1. sends_block xchg c bs hi lo c1 \<and> block_crc bs = push_bit 8 (ucast hi) OR ucast lo \<and>
        sends_blocks xchg c1 bss c')"

lemma sends_block_length: "sends_block xchg c bs hi lo c' \<Longrightarrow> length bs = 512"
  by (simp add: sends_block_def)

context spi_port
begin

lemma copy_loop_holds:
  assumes "holds s c m" "\<forall>j < 512 * length bss. is_ram (p + of_nat j)" "bss \<noteq> []"
    "sends_blocks xchg c bss c'"
  shows "\<exists>s'. sd_copy_loop b rg (replicate 128 0xFF) (length bss) p s = Some (0, s') \<and>
    holds s' c' (put_bytes m p (concat bss))"
  using assms
proof (induction bss arbitrary: s c m p)
  case (Cons bs bss)
  from Cons.prems(4) obtain hi lo c1 where blk: "sends_block xchg c bs hi lo c1"
      "block_crc bs = push_bit 8 (ucast hi) OR ucast lo" "sends_blocks xchg c1 bss c'" by auto
  have ram: "\<forall>j < 512. is_ram (p + of_nat j)" using Cons.prems(2) by auto
  obtain s1 where 1: "sd_copy_loop b rg (replicate 128 0xFF) (length (bs # bss)) p s =
      (if length (bs # bss) > 1
       then sd_copy_loop b rg (replicate 128 0xFF) (length (bs # bss) - 1) (p + 512) s1 else Some (0, s1))"
      "holds s1 c1 (put_bytes m p bs)"
    using block_holds [OF Cons.prems(1) ram blk(1)] blk(2) by metis
  show ?case
  proof (cases "bss = []")
    case True
    with 1 blk(3) show ?thesis by simp
  next
    case False
    have "\<forall>j < 512 * length bss. is_ram (p + 512 + of_nat j)"
    proof (intro allI impI)
      fix j assume "j < 512 * length bss"
      then have "is_ram (p + of_nat (512 + j))"
        using Cons.prems(2) [rule_format, of "512 + j"] by simp
      then show "is_ram (p + 512 + of_nat j)" by (simp add: add.assoc)
    qed
    from Cons.IH [OF 1(2) this False blk(3)] 1(1) False sends_block_length [OF blk(1)]
    show ?thesis by (simp add: put_bytes_append)
  qed
qed simp

text \<open>A block whose checksum is wrong ends the loop with the error code.\<close>

lemma copy_loop_crc_error:
  assumes "holds s c m" "\<forall>j < 512 * Suc (length bss). is_ram (p + of_nat j)"
    "sends_blocks xchg c bss c1" "sends_block xchg c1 bad hi lo c'"
    "block_crc bad \<noteq> push_bit 8 (ucast hi) OR ucast lo" "length bss < n"
  shows "\<exists>s'. sd_copy_loop b rg (replicate 128 0xFF) n p s = Some (SD_COPY_ERROR_CMD18_CRC, s') \<and>
    holds s' c' (put_bytes m p (concat bss @ bad))"
  using assms
proof (induction bss arbitrary: s c m p n)
  case Nil
  have ram: "\<forall>j < 512. is_ram (p + of_nat j)" using Nil.prems(2) by auto
  from block_holds [OF Nil.prems(1) ram, of bad hi lo c' n] Nil.prems show ?case by auto
next
  case (Cons bs bss)
  from Cons.prems(3) obtain h l c2 where blk: "sends_block xchg c bs h l c2"
      "block_crc bs = push_bit 8 (ucast h) OR ucast l" "sends_blocks xchg c2 bss c1" by auto
  have ram: "\<forall>j < 512. is_ram (p + of_nat j)" using Cons.prems(2) by auto
  obtain s1 where 1: "sd_copy_loop b rg (replicate 128 0xFF) n p s =
      sd_copy_loop b rg (replicate 128 0xFF) (n - 1) (p + 512) s1" "holds s1 c2 (put_bytes m p bs)"
    using block_holds [OF Cons.prems(1) ram blk(1), of n] blk(2) Cons.prems(6) by auto
  have "\<forall>j < 512 * Suc (length bss). is_ram (p + 512 + of_nat j)"
  proof (intro allI impI)
    fix j assume "j < 512 * Suc (length bss)"
    then have "is_ram (p + of_nat (512 + j))"
      using Cons.prems(2) [rule_format, of "512 + j"] by simp
    then show "is_ram (p + 512 + of_nat j)" by (simp add: add.assoc)
  qed
  from Cons.IH [OF 1(2) this blk(3) Cons.prems(4,5), of "n - 1"] 1(1) Cons.prems(6)
    sends_block_length [OF blk(1)]
  show ?case by (simp add: put_bytes_append)
qed

lemma sd_copy_reads:
  assumes h: "holds s c m" and cmd: "card_cmd xchg 18 lba (cmd18_crc lba) c = (0, c1)"
    and blks: "sends_blocks xchg c1 bss c2" "bss \<noteq> []" "unat n = length bss"
    and ram: "\<forall>j < 512 * length bss. is_ram (dst + of_nat j)"
    and stop: "card_cmd xchg 12 0 1 c2 = (r, c3)" "xchg 0xFF c3 = (y, c4)"
  shows "\<exists>s'. sd_copy b rg dst lba n s = Some (0, s') \<and> holds s' c4 (put_bytes m dst (concat bss))"
proof -
  obtain s1 where 1: "sd_cmd b rg 18 lba (cmd18_crc lba) s = Some (0, s1)" "holds s1 c1 m"
    by (rule cmd_holds [OF h cmd])
  obtain s2 where 2: "sd_copy_loop b rg (replicate 128 0xFF) (length bss) dst s1 = Some (0, s2)"
      "holds s2 c2 (put_bytes m dst (concat bss))"
    using copy_loop_holds [OF 1(2) ram blks(2,1)] by blast
  obtain s3 where 3: "sd_cmd b rg 12 0 1 s2 = Some (r, s3)" "holds s3 c3 (put_bytes m dst (concat bss))"
    by (rule cmd_holds [OF 2(2) stop(1)])
  obtain s4 where 4: "sd_dummy b rg s3 = Some (y, s4)" "holds s4 c4 (put_bytes m dst (concat bss))"
    by (rule dummy_holds [OF 3(2) stop(2)])
  with 1 2 3 blks(3) show ?thesis by (simp add: sd_copy_def SD_CMD_STOP_TRANSMISSION_def)
qed

lemma sd_copy_detects:
  assumes h: "holds s c m" and cmd: "card_cmd xchg 18 lba (cmd18_crc lba) c = (0, c1)"
    and blks: "sends_blocks xchg c1 bss c2" "sends_block xchg c2 bad hi lo c3" "length bss < unat n"
    and crc: "block_crc bad \<noteq> push_bit 8 (ucast hi) OR ucast lo"
    and ram: "\<forall>j < 512 * Suc (length bss). is_ram (dst + of_nat j)"
  shows "\<exists>s' c'. sd_copy b rg dst lba n s = Some (SD_COPY_ERROR_CMD18_CRC, s') \<and>
    holds s' c' (put_bytes m dst (concat bss @ bad))"
proof -
  obtain r c4 where stop: "card_cmd xchg 12 0 1 c3 = (r, c4)" by fastforce
  obtain y c5 where stop': "xchg 0xFF c4 = (y, c5)" by fastforce
  obtain s1 where 1: "sd_cmd b rg 18 lba (cmd18_crc lba) s = Some (0, s1)" "holds s1 c1 m"
    by (rule cmd_holds [OF h cmd])
  obtain s2 where 2: "sd_copy_loop b rg (replicate 128 0xFF) (unat n) dst s1 =
        Some (SD_COPY_ERROR_CMD18_CRC, s2)"
      "holds s2 c3 (put_bytes m dst (concat bss @ bad))"
    using copy_loop_crc_error [OF 1(2) ram blks(1,2) crc blks(3)] by blast
  obtain s3 where 3: "sd_cmd b rg 12 0 1 s2 = Some (r, s3)"
      "holds s3 c4 (put_bytes m dst (concat bss @ bad))"
    by (rule cmd_holds [OF 2(2) stop])
  obtain s4 where 4: "sd_dummy b rg s3 = Some (y, s4)" "holds s4 c5 (put_bytes m dst (concat bss @ bad))"
    by (rule dummy_holds [OF 3(2) stop'])
  with 1 2 3 show ?thesis by (auto simp: sd_copy_def SD_CMD_STOP_TRANSMISSION_def)
qed

lemma sd_copy_refused:
  assumes h: "holds s c m" and cmd: "card_cmd xchg 18 lba (cmd18_crc lba) c = (r, c1)" "r \<noteq> 0"
  shows "\<exists>s' c'. sd_copy b rg dst lba n s = Some (SD_COPY_ERROR_CMD18, s') \<and> holds s' c' m"
proof -
  obtain s1 where 1: "sd_cmd b rg 18 lba (cmd18_crc lba) s = Some (r, s1)" "holds s1 c1 m"
    by (rule cmd_holds [OF h cmd(1)])
  obtain ys c2 where x: "xfers xchg (replicate 8 0xFF) c1 = (ys, c2)" by fastforce
  obtain s2 where 2: "sd_dummies b rg 8 s1 = Some s2" "holds s2 c2 m"
    using dummies_holds [OF 1(2) x] by blast
  obtain s3 where 3: "print_uart b rg (cstr (''could not read SD block'' @ crlf)) s2 = Some s3"
      "holds s3 c2 m" by (rule print_holds [OF 2(2)])
  with 1 2 cmd(2) show ?thesis by (auto simp: sd_copy_def SD_COPY_ERROR_CMD18_def)
qed

lemma print_status_holds:
  assumes "holds s c m"
  obtains s' where "print_status b rg t r s = Some s'" "holds s' c m"
proof -
  obtain s1 where 1: "print_uart b rg (cstr ''SD command '') s = Some s1" "holds s1 c m"
    by (rule print_holds [OF assms])
  obtain s2 where 2: "print_uart b rg (cstr t) s1 = Some s2" "holds s2 c m"
    by (rule print_holds [OF 1(2)])
  obtain s3 where 3: "print_uart b rg (cstr ('' '' @ [CHR 0x09] @ ''response : '')) s2 = Some s3" "holds s3 c m"
    by (rule print_holds [OF 2(2)])
  obtain s4 where 4: "print_uart_byte b rg r s3 = Some s4" "holds s4 c m"
    by (rule print_byte_holds [OF 3(2)])
  obtain s5 where 5: "print_uart b rg (cstr crlf) s4 = Some s5" "holds s5 c m"
    by (rule print_holds [OF 4(2)])
  have "print_status b rg t r s = Some s5"
    unfolding print_status_def 1(1) Option.bind.simps 2(1) 3(1) 4(1) 5(1) ..
  with 5(2) that show ?thesis by blast
qed

lemma spi_print_status_view:
  assumes "\<not> dlab (V s)"
  shows "\<exists>s' t. spi_print_status b rg s = Some s' \<and> V s' = sent t (V s)"
proof -
  obtain x s1 where r: "rd32 b SPI_STATUS_REG s = (x, s1)" by fastforce
  then have 1: "V s1 = V s" using sr_read by blast
  obtain s2 where 2: "print_uart b rg (cstr ''status: 0x'') s1 = Some s2" "V s2 = sent (cstr ''status: 0x'') (V s1)"
    using print_uart_sends [of s1] assms 1 by metis
  obtain s3 where 3: "print_uart_addr b rg (ucast x) s2 = Some s3" "V s3 = sent (hex_text (ucast x :: u64) 8) (V s2)"
    using print_uart_addr_sends [of s2] assms 1 2 by (metis dlab_sent)
  obtain s4 where 4: "print_uart b rg (cstr crlf) s3 = Some s4" "V s4 = sent (cstr crlf) (V s3)"
    using print_uart_sends [of s3] assms 1 2 3 by (metis dlab_sent)
  have "spi_print_status b rg s = Some s4"
    unfolding spi_print_status_def read_reg_def r Let_def prod.case 2(1) 3(1) 4(1) Option.bind.simps ..
  with 1 2(2) 3(2) 4(2) show ?thesis by auto
qed

lemma spi_init_holds:
  assumes d: "\<not> dlab (V s)"
  shows "\<exists>s'. spi_init b rg s = Some s' \<and> holds s' (v_card (V s)) (v_mem (V s))"
proof -
  obtain s1 where 1: "print_uart b rg (cstr (''init SPI'' @ crlf)) s = Some s1"
      "V s1 = sent (cstr (''init SPI'' @ crlf)) (V s)"
    using print_uart_sends [OF d] by blast
  define s2 where "s2 = write_reg b SPI_CONTROL_REG 0x104 (write_reg b SPI_RESET_REG 0x0a s1)"
  have 2: "V s2 = (V s1)\<lparr>v_pend := [], v_sel := False\<rparr>"
    by (simp add: s2_def write_reg_def cr_write rst_write)
  have "\<not> dlab (V s2)" using d by (simp add: 2 1 view_eqs)
  then obtain s3 t3 where 3: "spi_print_status b rg s2 = Some s3" "V s3 = sent t3 (V s2)"
    using spi_print_status_view by blast
  define s4 where "s4 = write_reg b SPI_CONTROL_REG 0x166 s3"
  have 4: "V s4 = (V s3)\<lparr>v_pend := []\<rparr>" by (simp add: s4_def write_reg_def cr_write)
  have "\<not> dlab (V s4)" using d by (simp add: 4 3 2 1 view_eqs)
  then obtain s5 t5 where 5: "spi_print_status b rg s4 = Some s5" "V s5 = sent t5 (V s4)"
    using spi_print_status_view by blast
  define s6 where "s6 = write_reg b SPI_CONTROL_REG 0x06 s5"
  have 6: "V s6 = V s5" by (simp add: s6_def write_reg_def cr_write)
  have "\<not> dlab (V s6)" using d by (simp add: 6 5 4 3 2 1 view_eqs)
  then obtain s7 where 7: "print_uart b rg (cstr (''SPI initialized!'' @ crlf)) s6 = Some s7"
      "V s7 = sent (cstr (''SPI initialized!'' @ crlf)) (V s6)"
    using print_uart_sends by blast
  have "spi_init b rg s = Some s7"
    unfolding spi_init_def 1(1) Option.bind.simps Let_def s2_def [symmetric] 3(1) s4_def [symmetric] 5(1)
      s6_def [symmetric] 7(1) ..
  moreover have "holds s7 (v_card (V s)) (v_mem (V s))"
    using d unfolding holds_def at_rest_def 7 6 5 4 3 2 1 by (simp add: view_eqs) (simp add: sent_def)
  ultimately show ?thesis by blast
qed

end

section \<open>Properties of the checksums\<close>

text \<open>
  C12. The data checksum is right: the shift-and-xor formula of \<open>crc16\<close> equals the
  bit-serial CRC-16/CCITT division, for every checksum so far and every byte.
\<close>

theorem crc16_is_ccitt: "crc16 c d = crc16_ref c d"
  by (rule crc16_eq_ref)

text \<open>
  The command checksum is not: \<open>crc7\<close> combines the previous remainder and the input
  with a conjunction, so starting from 0 it stays 0, and the byte sent with the read command
  is the constant 1, whatever the block address.
\<close>

theorem cmd18_crc_constant: "cmd18_crc lba = 1"
proof -
  have "crc7 0 x = 0" for x by (simp add: crc7_def)
  then show ?thesis by (simp add: cmd18_crc_def)
qed

end
