(* ===== verification/Boot_Card.thy ===== *)
theory Boot_Card
  imports Boot_Sd
begin

text \<open>
  What the boot ROM relies on: the locale \<open>sd_card\<close> states the SPI-mode protocol of an SD
  card as the SD specification documents it, in terms of command responses and data blocks,
  and \<open>boot_platform\<close> puts such a card behind the SPI core. The lemmas show that the driver
  initialises the card and reads blocks from it.
\<close>

unbundle bit_operations_syntax

text \<open>
  The states of the card: \<open>powered\<close> before the reset command is accepted, \<open>idle\<close> after
  it, \<open>checked\<close> after the interface condition command, \<open>transfer\<close> after
  initialisation, and \<open>stream l\<close> while a multi-block read is about to send block \<open>l\<close>.
  \<open>attempts\<close> and \<open>waits\<close> bound how often the reset and the initialisation command have
  to be repeated. A card in SPI mode does not check the command CRC of a read.
\<close>

locale sd_card =
  fixes xchg :: "u8 \<Rightarrow> 'c \<Rightarrow> u8 \<times> 'c"
    and powered idle checked transfer :: "'c \<Rightarrow> bool"
    and stream :: "nat \<Rightarrow> 'c \<Rightarrow> bool"
    and attempts waits :: "'c \<Rightarrow> nat"
    and blk :: "nat \<Rightarrow> u8 list"
  assumes blk_size: "length (blk l) = 512"
    and powered_attempts: "powered c \<Longrightarrow> attempts c < 9999"
    and powered_clock: "powered c \<Longrightarrow> powered (snd (xchg 0xFF c))"
    and reset: "powered c \<Longrightarrow> card_cmd xchg 0 0 0x95 c = (r, c1) \<Longrightarrow> xchg 0xFF c1 = (y, c2) \<Longrightarrow>
      (if r = 1 then idle c2 else powered c2 \<and> attempts c2 < attempts c)"
    and condition: "idle c \<Longrightarrow> card_cmd xchg 8 0x1aa 0x87 c = (r, c1) \<Longrightarrow>
      xfers xchg (replicate 6 0xFF) c1 = (ys, c2) \<Longrightarrow>
      r = 1 \<and> ys ! 2 AND 0xf = 1 \<and> ys ! 3 = 0xaa \<and> checked c2"
    and initialise: "checked c \<Longrightarrow> card_cmd xchg 55 0 0x65 c = (r0, c1) \<Longrightarrow> xchg 0xFF c1 = (y, c2) \<Longrightarrow>
      card_cmd xchg 41 0x40000000 0x77 c2 = (r, c3) \<Longrightarrow> xchg 0xFF c3 = (z, c4) \<Longrightarrow>
      r = 0 \<and> transfer c4 \<or> r = 1 \<and> checked c4 \<and> waits c4 < waits c"
    and read_multiple: "transfer c \<Longrightarrow> card_cmd xchg 18 lba crc c = (r, c1) \<Longrightarrow> r = 0 \<and> stream (unat lba) c1"
    and block: "stream l c \<Longrightarrow> \<exists>hi lo c1. sends_block xchg c (blk l) hi lo c1 \<and>
      block_crc (blk l) = push_bit 8 (ucast hi) OR ucast lo \<and> stream (Suc l) c1"
    and stop: "stream l c \<Longrightarrow> card_cmd xchg 12 0 1 c = (r, c1) \<Longrightarrow> xchg 0xFF c1 = (y, c2) \<Longrightarrow>
      transfer c2"
begin

lemma stream_blocks:
  "stream l c \<Longrightarrow> \<exists>c'. sends_blocks xchg c (map blk [l..<l + n]) c' \<and> stream (l + n) c'"
proof (induction n arbitrary: l c)
  case (Suc n)
  obtain hi lo c1 where 1: "sends_block xchg c (blk l) hi lo c1"
      "block_crc (blk l) = push_bit 8 (ucast hi) OR ucast lo" "stream (Suc l) c1"
    using block [OF Suc.prems] by blast
  obtain c' where "sends_blocks xchg c1 (map blk [Suc l..<Suc l + n]) c'" "stream (Suc l + n) c'"
    using Suc.IH [OF 1(3)] by blast
  moreover have "[l..<l + Suc n] = l # [Suc l..<Suc l + n]" by (simp add: upt_conv_Cons)
  ultimately show ?case using 1 by (auto simp del: upt_Suc)
qed simp

lemma powered_dummies: "powered c \<Longrightarrow> powered (snd (xfers xchg (replicate n 0xFF) c))"
  by (induction n arbitrary: c) (auto simp: Let_def case_prod_beta dest: powered_clock)

end

locale boot_platform =
  spi_port b rg V ready busy xchg avail lag is_ram +
  sd_card xchg powered idle checked transfer stream attempts waits blk
  for b :: "'s bus" and rg and V :: "'s \<Rightarrow> ('c, 'z) soc_view_scheme" and ready busy
    and xchg :: "u8 \<Rightarrow> 'c \<Rightarrow> u8 \<times> 'c" and avail lag is_ram
    and powered idle checked transfer stream attempts waits blk
begin

lemma cmd0_loop_succeeds:
  assumes "holds s c m" "powered c" "r \<noteq> 1" "attempts c + 1 < n"
  shows "\<exists>s' c'. sd_cmd0_loop b rg n r s = Some (True, s') \<and> holds s' c' m \<and> idle c'"
  using assms
proof (induction n arbitrary: s c r)
  case (Suc n)
  obtain r1 c1 where c1: "card_cmd xchg 0 0 0x95 c = (r1, c1)" by fastforce
  obtain y c2 where c2: "xchg 0xFF c1 = (y, c2)" by fastforce
  obtain s1 where 1: "sd_cmd b rg 0 0 0x95 s = Some (r1, s1)" "holds s1 c1 m"
    by (rule cmd_holds [OF Suc.prems(1) c1])
  obtain s2 where 2: "sd_dummy b rg s1 = Some (y, s2)" "holds s2 c2 m"
    by (rule dummy_holds [OF 1(2) c2])
  note law = reset [OF Suc.prems(2) c1 c2]
  obtain k where k: "n = Suc k" using Suc.prems(4) by (cases n) auto
  show ?case
  proof (cases "r1 = 1")
    case True
    obtain s3 where "print_status b rg ''cmd0'' r1 s2 = Some s3" "holds s3 c2 m"
      by (rule print_status_holds [OF 2(2)])
    with True law 1 2 Suc.prems(3) k show ?thesis by auto
  next
    case False
    with law Suc.prems(4) have "powered c2" "attempts c2 + 1 < n" by auto
    from Suc.IH [OF 2(2) this(1) False this(2)] 1 2 Suc.prems(3) k show ?thesis by simp
  qed
qed simp

lemma cmd0_succeeds:
  assumes "holds s c m" "powered c"
  obtains s' c' where "sd_cmd0 b rg s = Some (True, s')" "holds s' c' m" "idle c'"
  using cmd0_loop_succeeds [OF assms, of "0xff" 10000] powered_attempts [OF assms(2)] that
  by (auto simp: sd_cmd0_def)

lemma cmd8_succeeds:
  assumes h: "holds s c m" and i: "idle c"
  obtains s' c' where "sd_cmd8 b rg s = Some (True, s')" "holds s' c' m" "checked c'"
proof -
  obtain r c1 where c1: "card_cmd xchg 8 0x1aa 0x87 c = (r, c1)" by fastforce
  obtain y2 c2 where c2: "xchg 0xFF c1 = (y2, c2)" by fastforce
  obtain y3 c3 where c3: "xchg 0xFF c2 = (y3, c3)" by fastforce
  obtain y4 c4 where c4: "xchg 0xFF c3 = (y4, c4)" by fastforce
  obtain y5 c5 where c5: "xchg 0xFF c4 = (y5, c5)" by fastforce
  obtain y6 c6 where c6: "xchg 0xFF c5 = (y6, c6)" by fastforce
  obtain y7 c7 where c7: "xchg 0xFF c6 = (y7, c7)" by fastforce
  have rep: "replicate 6 (0xFF :: u8) = [0xFF, 0xFF, 0xFF, 0xFF, 0xFF, 0xFF]" by (simp add: eval_nat_numeral)
  have "xfers xchg (replicate 6 0xFF) c1 = ([y2, y3, y4, y5, y6, y7], c7)"
    by (simp add: rep c2 c3 c4 c5 c6 c7)
  from condition [OF i c1 this] have law: "r = 1" "y4 AND 0xf = 1" "y5 = 0xaa" "checked c7"
    by (simp_all add: eval_nat_numeral)
  obtain s1 where 1: "sd_cmd b rg 8 0x1aa 0x87 s = Some (r, s1)" "holds s1 c1 m" by (rule cmd_holds [OF h c1])
  obtain s2 where 2: "sd_dummy b rg s1 = Some (y2, s2)" "holds s2 c2 m" by (rule dummy_holds [OF 1(2) c2])
  obtain s3 where 3: "sd_dummy b rg s2 = Some (y3, s3)" "holds s3 c3 m" by (rule dummy_holds [OF 2(2) c3])
  obtain s4 where 4: "sd_dummy b rg s3 = Some (y4, s4)" "holds s4 c4 m" by (rule dummy_holds [OF 3(2) c4])
  obtain s5 where 5: "sd_dummy b rg s4 = Some (y5, s5)" "holds s5 c5 m" by (rule dummy_holds [OF 4(2) c5])
  obtain s6 where 6: "sd_dummy b rg s5 = Some (y6, s6)" "holds s6 c6 m" by (rule dummy_holds [OF 5(2) c6])
  obtain s7 where 7: "sd_dummy b rg s6 = Some (y7, s7)" "holds s7 c7 m" by (rule dummy_holds [OF 6(2) c7])
  have "sd_cmd8 b rg s = Some (True, s7)"
    by (simp add: sd_cmd8_def 1 2 3 4 5 6 7 law)
  with 7(2) law(4) that show ?thesis by blast
qed

lemma acmd41_succeeds:
  "holds s c m \<Longrightarrow> checked c \<Longrightarrow>
   \<exists>s' c'. sd_acmd41 b rg s = Some (True, s') \<and> holds s' c' m \<and> transfer c'"
proof (induction "waits c" arbitrary: s c rule: less_induct)
  case less
  obtain r0 c1 where c1: "card_cmd xchg 55 0 0x65 c = (r0, c1)" by fastforce
  obtain y c2 where c2: "xchg 0xFF c1 = (y, c2)" by fastforce
  obtain r c3 where c3: "card_cmd xchg 41 0x40000000 0x77 c2 = (r, c3)" by fastforce
  obtain z c4 where c4: "xchg 0xFF c3 = (z, c4)" by fastforce
  note law = initialise [OF less(3) c1 c2 c3 c4]
  obtain s1 where 1: "sd_cmd b rg 55 0 0x65 s = Some (r0, s1)" "holds s1 c1 m"
    by (rule cmd_holds [OF less(2) c1])
  obtain s2 where 2: "sd_dummy b rg s1 = Some (y, s2)" "holds s2 c2 m" by (rule dummy_holds [OF 1(2) c2])
  obtain s3 where 3: "print_status b rg ''cmd55'' r0 s2 = Some s3" "holds s3 c2 m"
    by (rule print_status_holds [OF 2(2)])
  obtain s4 where 4: "sd_cmd b rg 41 0x40000000 0x77 s3 = Some (r, s4)" "holds s4 c3 m"
    by (rule cmd_holds [OF 3(2) c3])
  obtain s5 where 5: "print_status b rg ''cmd41'' r s4 = Some s5" "holds s5 c3 m"
    by (rule print_status_holds [OF 4(2)])
  obtain s6 where 6: "sd_dummy b rg s5 = Some (z, s6)" "holds s6 c4 m" by (rule dummy_holds [OF 5(2) c4])
  have step: "sd_acmd41_step b rg s = Some (r, s6)"
    by (simp add: sd_acmd41_step_def sd_cmd55_def 1 2 3 4 5 6)
  show ?case
  proof (cases "r = 1")
    case True
    with law have "checked c4" "waits c4 < waits c" by auto
    from less(1) [OF this(2) 6(2) this(1)] True step show ?thesis by (subst sd_acmd41.simps) simp
  next
    case False
    with law step 6(2) show ?thesis by (subst sd_acmd41.simps) auto
  qed
qed

lemma init_sd_succeeds:
  assumes d: "\<not> dlab (V s)" and p: "powered (v_card (V s))"
  obtains s' c' where "init_sd b rg s = Some (0, s')" "holds s' c' (v_mem (V s))" "transfer c'"
proof -
  let ?m = "v_mem (V s)"
  obtain s1 where 1: "spi_init b rg s = Some s1" "holds s1 (v_card (V s)) ?m"
    using spi_init_holds [OF d] by blast
  obtain s2 where 2: "print_uart b rg (cstr (''initializing SD... '' @ crlf)) s1 = Some s2"
      "holds s2 (v_card (V s)) ?m" by (rule print_holds [OF 1(2)])
  obtain ys c3 where x: "xfers xchg (replicate 10 0xFF) (v_card (V s)) = (ys, c3)" by fastforce
  then have p3: "powered c3" using powered_dummies [OF p, of 10] by simp
  obtain s3 where 3: "sd_dummies b rg 10 s2 = Some s3" "holds s3 c3 ?m"
    using dummies_holds [OF 2(2) x] by blast
  obtain s4 c4 where 4: "sd_cmd0 b rg s3 = Some (True, s4)" "holds s4 c4 ?m" "idle c4"
    by (rule cmd0_succeeds [OF 3(2) p3])
  obtain s5 c5 where 5: "sd_cmd8 b rg s4 = Some (True, s5)" "holds s5 c5 ?m" "checked c5"
    by (rule cmd8_succeeds [OF 4(2,3)])
  obtain s6 c6 where 6: "sd_acmd41 b rg s5 = Some (True, s6)" "holds s6 c6 ?m" "transfer c6"
    using acmd41_succeeds [OF 5(2,3)] by blast
  have "init_sd b rg s = Some (0, s6)"
    unfolding init_sd_def 1(1) 2(1) 3(1) 4(1) 5(1) 6(1) Option.bind.simps prod.case by simp
  with 6 that show ?thesis by blast
qed

lemma sd_copy_succeeds:
  assumes h: "holds s c m" and t: "transfer c" and n: "n \<noteq> 0"
    and ram: "\<forall>j < 512 * unat n. is_ram (dst + of_nat j)"
  obtains s' c' where "sd_copy b rg dst lba n s = Some (0, s')" "transfer c'"
    "holds s' c' (put_bytes m dst (concat (map blk [unat lba..<unat lba + unat n])))"
proof -
  let ?bss = "map blk [unat lba..<unat lba + unat n]"
  obtain r c1 where c1: "card_cmd xchg 18 lba (cmd18_crc lba) c = (r, c1)" by fastforce
  with read_multiple [OF t] have r: "r = 0" "stream (unat lba) c1" by blast+
  obtain c2 where c2: "sends_blocks xchg c1 ?bss c2" "stream (unat lba + unat n) c2"
    using stream_blocks [OF r(2)] by blast
  obtain r3 c3 where c3: "card_cmd xchg 12 0 1 c2 = (r3, c3)" by fastforce
  obtain y c4 where c4: "xchg 0xFF c3 = (y, c4)" by fastforce
  have ne: "?bss \<noteq> []" using n by (simp add: unat_eq_zero)
  from sd_copy_reads [OF h c1 [unfolded r(1)] c2(1) ne _ _ c3 c4, of n dst] ram stop [OF c2(2) c3 c4]
  show ?thesis using that by auto
qed

end

end
