(* ===== verification/Boot_Gpt.thy ===== *)
theory Boot_Gpt
  imports Boot_Card
begin

text \<open>
  The boot loader proper: \<open>gpt.c\<close> and \<open>main.c\<close> of \<open>fpga/src/bootrom/src\<close>. It
  initialises the card, reads the partition table header (block 1) and the first block of
  partition entries into two buffers on its stack, copies the first partition to the start
  of DRAM and jumps there. The addresses of the two buffers are parameters (the compiler and
  the stack pointer choose them). The main result, on any platform that satisfies
  \<open>boot_platform\<close>, is that after the run DRAM holds the blocks of the first partition and
  control goes to its first byte.
\<close>

unbundle bit_operations_syntax

section \<open>The loader\<close>

text \<open>A sequence of statements that print; the state is threaded through.\<close>

fun seqs :: "('s \<Rightarrow> 's option) list \<Rightarrow> 's \<Rightarrow> 's option" where
  "seqs [] s = Some s"
| "seqs (f # fs) s = Option.bind (f s) (seqs fs)"

text \<open>\<open>print_uart_...(p->field)\<close>: load a field and print it.\<close>

definition print_field64 :: "'s bus \<Rightarrow> uart_regs \<Rightarrow> u64 \<Rightarrow> 's \<Rightarrow> 's option" where
  "print_field64 b rg a s = (let (v, s) = rd64 b a s in print_uart_addr b rg v s)"

definition print_field32 :: "'s bus \<Rightarrow> uart_regs \<Rightarrow> u64 \<Rightarrow> 's \<Rightarrow> 's option" where
  "print_field32 b rg a s = (let (v, s) = rd32 b a s in print_uart_int b rg v s)"

definition print_field8 :: "'s bus \<Rightarrow> uart_regs \<Rightarrow> u64 \<Rightarrow> 's \<Rightarrow> 's option" where
  "print_field8 b rg a s = (let (v, s) = rd8 b a s in print_uart_byte b rg v s)"

text \<open>Offsets of the members of \<open>gpt_pth_t\<close> and \<open>partition_entries_t\<close>.\<close>

definition off_signature :: u64 where "off_signature = 0"
definition off_revision :: u64 where "off_revision = 8"
definition off_header_size :: u64 where "off_header_size = 12"
definition off_crc_header :: u64 where "off_crc_header = 16"
definition off_reserved :: u64 where "off_reserved = 20"
definition off_current_lba :: u64 where "off_current_lba = 24"
definition off_backup_lba :: u64 where "off_backup_lba = 32"
definition off_partition_entries_lba :: u64 where "off_partition_entries_lba = 72"
definition off_nr_partition_entries :: u64 where "off_nr_partition_entries = 80"
definition off_size_partition_entry :: u64 where "off_size_partition_entry = 84"
definition off_partition_guid :: u64 where "off_partition_guid = 16"
definition off_first_lba :: u64 where "off_first_lba = 32"
definition off_last_lba :: u64 where "off_last_lba = 40"
definition off_attributes :: u64 where "off_attributes = 48"
definition off_name :: u64 where "off_name = 56"

definition nl_tab :: string where
  "nl_tab = crlf @ [CHR 0x09]"

definition print_header :: "'s bus \<Rightarrow> uart_regs \<Rightarrow> u64 \<Rightarrow> 's \<Rightarrow> 's option" where
  "print_header b rg lba1 =
     (let pr = (\<lambda>t. print_uart b rg (cstr t)) in
      seqs [pr ''gpt partition table header:'',
        pr (nl_tab @ ''signature:'' @ [CHR 0x09]), print_field64 b rg (lba1 + off_signature),
        pr (nl_tab @ ''revision:'' @ [CHR 0x09]), print_field32 b rg (lba1 + off_revision),
        pr (nl_tab @ ''size:'' @ [CHR 0x09, CHR 0x09]), print_field32 b rg (lba1 + off_header_size),
        pr (nl_tab @ ''crc_header:'' @ [CHR 0x09]), print_field32 b rg (lba1 + off_crc_header),
        pr (nl_tab @ ''reserved:'' @ [CHR 0x09]), print_field32 b rg (lba1 + off_reserved),
        pr (nl_tab @ ''current lba:'' @ [CHR 0x09]), print_field64 b rg (lba1 + off_current_lba),
        pr (nl_tab @ ''backup lda:'' @ [CHR 0x09]), print_field64 b rg (lba1 + off_backup_lba),
        pr (nl_tab @ ''partition entries lba:   '' @ [CHR 0x09]),
        print_field64 b rg (lba1 + off_partition_entries_lba),
        pr (nl_tab @ ''number partition entries:'' @ [CHR 0x09]),
        print_field32 b rg (lba1 + off_nr_partition_entries),
        pr (nl_tab @ ''size partition entries:  '' @ [CHR 0x09]),
        print_field32 b rg (lba1 + off_size_partition_entry),
        pr crlf])"

definition print_entry :: "'s bus \<Rightarrow> uart_regs \<Rightarrow> u64 \<Rightarrow> nat \<Rightarrow> 's \<Rightarrow> 's option" where
  "print_entry b rg lba2 i =
     (let pr = (\<lambda>t. print_uart b rg (cstr t)); e = lba2 + of_nat i * 128 in
      seqs ([pr ''gpt partition entry '', print_uart_byte b rg (of_nat i),
        pr (nl_tab @ ''partition type guid:'' @ [CHR 0x09])]
        @ map (\<lambda>j. print_field8 b rg (e + of_nat j)) [0..<16]
        @ [pr (nl_tab @ ''partition guid:     '' @ [CHR 0x09])]
        @ map (\<lambda>j. print_field8 b rg (e + off_partition_guid + of_nat j)) [0..<16]
        @ [pr (nl_tab @ ''first lba:'' @ [CHR 0x09]), print_field64 b rg (e + off_first_lba),
           pr (nl_tab @ ''last lba:'' @ [CHR 0x09]), print_field64 b rg (e + off_last_lba),
           pr (nl_tab @ ''attributes:'' @ [CHR 0x09]), print_field64 b rg (e + off_attributes),
           pr (nl_tab @ ''name:'' @ [CHR 0x09])]
        @ map (\<lambda>j. print_field8 b rg (e + off_name + of_nat j)) [0..<72]
        @ [pr crlf]))"

text \<open>The messages for a failed \<open>sd_copy\<close>; the code is widened to 64 bits with its sign.\<close>

definition print_copy_error :: "'s bus \<Rightarrow> uart_regs \<Rightarrow> int \<Rightarrow> 's \<Rightarrow> 's option" where
  "print_copy_error b rg res =
     seqs [print_uart b rg (cstr (''SD card failed!'' @ crlf)),
       print_uart b rg (cstr ''sd copy return value: ''),
       print_uart_addr b rg (of_int res),
       print_uart b rg (cstr crlf)]"

record boot_frame =
  lba1_buf :: u64
  lba2_buf :: u64

definition gpt_find_boot_partition ::
  "'s bus \<Rightarrow> uart_regs \<Rightarrow> boot_frame \<Rightarrow> u64 \<Rightarrow> u32 \<Rightarrow> 's \<Rightarrow> (int \<times> 's) option" where
  "gpt_find_boot_partition b rg fr dest size_blocks s =
     do { (ret, s) \<leftarrow> init_sd b rg s;
          if ret \<noteq> 0
          then do { s \<leftarrow> print_uart b rg (cstr (''could not initialize sd... exiting'' @ crlf)) s;
                    Some (-1, s) }
          else do {
            s \<leftarrow> print_uart b rg (cstr (''sd initialized!'' @ crlf)) s;
            (res, s) \<leftarrow> sd_copy b rg (lba1_buf fr) 1 1 s;
            if res \<noteq> 0 then do { s \<leftarrow> print_copy_error b rg res s; Some (-2, s) }
            else do {
              s \<leftarrow> print_header b rg (lba1_buf fr) s;
              let (lba, s) = rd64 b (lba1_buf fr + off_partition_entries_lba) s;
              (res, s) \<leftarrow> sd_copy b rg (lba2_buf fr) (ucast lba) 1 s;
              if res \<noteq> 0 then do { s \<leftarrow> print_copy_error b rg res s; Some (-2, s) }
              else do {
                s \<leftarrow> seqs (map (print_entry b rg (lba2_buf fr)) [0..<4]) s;
                s \<leftarrow> print_uart b rg (cstr ''copying boot image '') s;
                let (first, s) = rd64 b (lba2_buf fr + off_first_lba) s;
                (res, s) \<leftarrow> sd_copy b rg dest (ucast first) size_blocks s;
                if res \<noteq> 0 then do { s \<leftarrow> print_copy_error b rg res s; Some (-2, s) }
                else do { s \<leftarrow> print_uart b rg (cstr ('' done!'' @ crlf)) s; Some (0, s) } } } } }"

text \<open>\<open>main\<close>: the jump to the loaded image, or the endless loop at its end.\<close>

datatype boot_end = Jump u64 | Hang

definition main :: "'s bus \<Rightarrow> uart_regs \<Rightarrow> boot_frame \<Rightarrow> 's \<Rightarrow> (boot_end \<times> 's) option" where
  "main b rg fr s =
     do { s \<leftarrow> init_uart b rg 50000000 115200 s;
          s \<leftarrow> print_uart b rg (cstr (''Hello World!'' @ crlf)) s;
          (res, s) \<leftarrow> gpt_find_boot_partition b rg fr 0x80000000 (2 * 16384) s;
          if res = 0 then Some (Jump 0x80000000, s) else Some (Hang, s) }"

section \<open>Loading the image\<close>

text \<open>The block of the partition entries and the first block of the first partition.\<close>

definition entries_lba :: "(nat \<Rightarrow> u8 list) \<Rightarrow> nat" where
  "entries_lba blk = unat (ucast (le64 (\<lambda>i. blk 1 ! (72 + i))) :: u32)"

definition boot_lba :: "(nat \<Rightarrow> u8 list) \<Rightarrow> nat" where
  "boot_lba blk = unat (ucast (le64 (\<lambda>i. blk (entries_lba blk) ! (32 + i))) :: u32)"

definition block_in_ram :: "(u64 \<Rightarrow> bool) \<Rightarrow> u64 \<Rightarrow> bool" where
  "block_in_ram is_ram a \<longleftrightarrow> (\<forall>j < 512. is_ram (a + of_nat j))"

lemma le64_cong: "(\<And>i. i < 8 \<Longrightarrow> f i = g i) \<Longrightarrow> le64 f = le64 g"
  by (simp add: le64_def)

lemma concat_nth_blocks:
  assumes "\<forall>l \<in> set ls. length (f l) = n" "k < length ls" "j < n"
  shows "concat (map f ls) ! (n * k + j) = f (ls ! k) ! j"
  using assms
proof (induction ls arbitrary: k)
  case (Cons l ls)
  show ?case
  proof (cases k)
    case 0
    with Cons.prems show ?thesis by (simp add: nth_append)
  next
    case (Suc i)
    with Cons show ?thesis by (simp add: nth_append)
  qed
qed simp

context boot_platform
begin

definition prints :: "('s \<Rightarrow> 's option) \<Rightarrow> bool" where
  "prints f \<longleftrightarrow> (\<forall>s c m. holds s c m \<longrightarrow> (\<exists>s'. f s = Some s' \<and> holds s' c m))"

lemma printsE:
  assumes "prints f" "holds s c m"
  obtains s' where "f s = Some s'" "holds s' c m"
  using assms unfolding prints_def by blast

lemma prints_seqs: "list_all prints fs \<Longrightarrow> prints (seqs fs)"
proof (induction fs)
  case (Cons f fs)
  then have p: "prints f" "prints (seqs fs)" by simp_all
  have "\<exists>s'. seqs (f # fs) s = Some s' \<and> holds s' c m" if h: "holds s c m" for s c m
  proof -
    obtain s1 where 1: "f s = Some s1" "holds s1 c m" by (rule printsE [OF p(1) h])
    obtain s2 where "seqs fs s1 = Some s2" "holds s2 c m" by (rule printsE [OF p(2) 1(2)])
    with 1 show ?thesis by simp
  qed
  then show ?case unfolding prints_def by blast
qed (simp add: prints_def)

lemma prints_basic [simp]:
  "prints (print_uart b rg cs)" "prints (print_uart_byte b rg x)" "prints (print_uart_addr b rg w)"
  unfolding prints_def using print_holds print_byte_holds print_addr_holds by metis+

lemma holds_same_view: "holds s c m \<Longrightarrow> V s' = V s \<Longrightarrow> holds s' c m"
  by (simp add: holds_def at_rest_def)

lemma prints_field64: "is_ram a \<Longrightarrow> is_ram (a + 7) \<Longrightarrow> prints (print_field64 b rg a)"
  unfolding prints_def print_field64_def
  by (metis (no_types, lifting) case_prod_conv holds_same_view print_addr_holds ram_read64 surj_pair)

lemma prints_field32: "is_ram a \<Longrightarrow> is_ram (a + 3) \<Longrightarrow> prints (print_field32 b rg a)"
  unfolding prints_def print_field32_def
  by (metis (no_types, lifting) case_prod_conv holds_same_view print_int_holds ram_read32 surj_pair)

lemma prints_field8: "is_ram a \<Longrightarrow> prints (print_field8 b rg a)"
  unfolding prints_def print_field8_def
  by (metis (no_types, lifting) case_prod_conv holds_same_view print_byte_holds ram_read surj_pair)

lemma ram_at: "block_in_ram is_ram a \<Longrightarrow> j < 512 \<Longrightarrow> is_ram (a + of_nat j)"
  by (simp add: block_in_ram_def)

lemma field_in_ram:
  assumes "block_in_ram is_ram a" "k < 505"
  shows "is_ram (a + of_nat k)" "is_ram (a + of_nat k + 3)" "is_ram (a + of_nat k + 7)"
proof -
  have "is_ram (a + of_nat (k + 3))" "is_ram (a + of_nat (k + 7))" "is_ram (a + of_nat k)"
    using assms by (auto intro!: ram_at simp del: of_nat_add)
  then show "is_ram (a + of_nat k)" "is_ram (a + of_nat k + 3)" "is_ram (a + of_nat k + 7)"
    by (simp_all add: add.assoc)
qed

lemma prints_header:
  assumes "block_in_ram is_ram a"
  shows "prints (print_header b rg a)"
proof -
  note r = field_in_ram [OF assms]
  have "prints (print_field64 b rg (a + of_nat k))" "prints (print_field32 b rg (a + of_nat k))"
    if "k < 505" for k
    using r [OF that] by (auto intro: prints_field64 prints_field32)
  note p = this(1) [of 0] this(2) [of 8] this(2) [of 12] this(2) [of 16] this(2) [of 20] this(1) [of 24]
    this(1) [of 32] this(1) [of 72] this(2) [of 80] this(2) [of 84]
  show ?thesis
    unfolding print_header_def Let_def
    by (rule prints_seqs) (use p in \<open>simp add: off_signature_def off_revision_def off_header_size_def off_crc_header_def
        off_reserved_def off_current_lba_def off_backup_lba_def off_partition_entries_lba_def
        off_nr_partition_entries_def off_size_partition_entry_def\<close>)
qed

lemma prints_entry:
  assumes "block_in_ram is_ram a" "i < 4"
  shows "prints (print_entry b rg a i)"
proof -
  have e: "a + of_nat i * 128 + of_nat k = a + of_nat (i * 128 + k)" for k by simp
  have r: "is_ram (a + of_nat i * 128 + of_nat k)" if "k < 128" for k
    unfolding e using assms that by (intro ram_at) auto
  have f8: "prints (print_field8 b rg (a + of_nat i * 128 + of_nat k))" if "k < 128" for k
    using r [OF that] by (rule prints_field8)
  have f64: "prints (print_field64 b rg (a + of_nat i * 128 + of_nat k))" if "k < 121" for k
    using r [of k] r [of "k + 7"] that by (intro prints_field64) (auto simp: add.assoc)
  have g: "prints (print_field8 b rg (a + of_nat i * 128 + 16 + of_nat j))" if "j < 16" for j
    using f8 [of "16 + j"] that by (simp add: add.assoc)
  have n: "prints (print_field8 b rg (a + of_nat i * 128 + 56 + of_nat j))" if "j < 72" for j
    using f8 [of "56 + j"] that by (simp add: add.assoc)
  show ?thesis
    unfolding print_entry_def Let_def
    by (rule prints_seqs) (use f8 g n f64 [of 32] f64 [of 40] f64 [of 48] in
      \<open>auto simp: off_partition_guid_def off_first_lba_def off_last_lba_def off_attributes_def
        off_name_def list_all_iff\<close>)
qed

lemma field_load:
  assumes h: "holds s c (put_bytes m a bs)" and ram: "block_in_ram is_ram a" and len: "length bs = 512" and k: "k < 505"
  obtains s' where "rd64 b (a + of_nat k) s = (le64 (\<lambda>i. bs ! (k + i)), s')" "holds s' c (put_bytes m a bs)"
proof -
  obtain w s' where r: "rd64 b (a + of_nat k) s = (w, s')" by fastforce
  from ram_read64 [OF field_in_ram(1,3) [OF ram k] r]
  have v: "V s' = V s" "w = le64 (\<lambda>i. v_mem (V s) (a + of_nat k + of_nat i))" by auto
  have "put_bytes m a bs (a + of_nat k + of_nat i) = bs ! (k + i)" if "i < 8" for i
  proof -
    have "a + of_nat k + of_nat i = a + of_nat (k + i)" by simp
    then show ?thesis using that k len by (simp only: put_bytes_nth)
  qed
  moreover have "v_mem (V s) = put_bytes m a bs" using h by (simp add: holds_def)
  ultimately have "w = le64 (\<lambda>i. bs ! (k + i))"
    unfolding v(2) by (intro le64_cong) simp
  with r that [OF _ holds_same_view [OF h v(1)]] show ?thesis by simp
qed

lemma gpt_loads:
  assumes d: "\<not> dlab (V s)" and p: "powered (v_card (V s))"
    and r1: "block_in_ram is_ram (lba1_buf fr)" and r2: "block_in_ram is_ram (lba2_buf fr)"
    and rd: "\<forall>j < 512 * unat n. is_ram (dest + of_nat j)" and n: "n \<noteq> 0"
  shows "\<exists>s' c' m. gpt_find_boot_partition b rg fr dest n s = Some (0, s') \<and> transfer c' \<and>
    holds s' c' (put_bytes m dest (concat (map blk [boot_lba blk..<boot_lba blk + unat n])))"
proof -
  let ?m = "v_mem (V s)" and ?a1 = "lba1_buf fr" and ?a2 = "lba2_buf fr"
  let ?m1 = "put_bytes ?m ?a1 (blk 1)"
  let ?m2 = "put_bytes ?m1 ?a2 (blk (entries_lba blk))"
  let ?m3 = "put_bytes ?m2 dest (concat (map blk [boot_lba blk..<boot_lba blk + unat n]))"
  obtain s1 c1 where 1: "init_sd b rg s = Some (0, s1)" "holds s1 c1 ?m" "transfer c1"
    by (rule init_sd_succeeds [OF d p])
  obtain s2 where 2: "print_uart b rg (cstr (''sd initialized!'' @ crlf)) s1 = Some s2" "holds s2 c1 ?m"
    by (rule print_holds [OF 1(2)])
  have k: "(72 :: nat) < 505" "(32 :: nat) < 505" by simp_all
  have one: "concat (map blk [l..<l + unat (1 :: u32)]) = blk l" for l by simp
  obtain s3 c3 where 3: "sd_copy b rg ?a1 1 1 s2 = Some (0, s3)" "transfer c3" "holds s3 c3 ?m1"
    using sd_copy_succeeds [OF 2(2) 1(3), of 1 ?a1 1] r1 one [of 1] by (auto simp: block_in_ram_def)
  obtain s4 where 4: "print_header b rg ?a1 s3 = Some s4" "holds s4 c3 ?m1"
    by (rule printsE [OF prints_header [OF r1] 3(3)])
  obtain s5 where 5: "rd64 b (?a1 + of_nat 72) s4 = (le64 (\<lambda>i. blk 1 ! (72 + i)), s5)" "holds s5 c3 ?m1"
    by (rule field_load [OF 4(2) r1 blk_size k(1)])
  obtain s6 c6 where 6: "sd_copy b rg ?a2 (ucast (le64 (\<lambda>i. blk 1 ! (72 + i)))) 1 s5 = Some (0, s6)"
      "transfer c6" "holds s6 c6 ?m2"
    using sd_copy_succeeds [OF 5(2) 3(2), of 1 ?a2 "ucast (le64 (\<lambda>i. blk 1 ! (72 + i)))"] r2
      one [of "entries_lba blk"] by (auto simp: block_in_ram_def entries_lba_def)
  have pe: "prints (seqs (map (print_entry b rg ?a2) [0..<4]))"
    by (rule prints_seqs) (auto simp: list_all_iff intro: prints_entry [OF r2])
  obtain s7 where 7: "seqs (map (print_entry b rg ?a2) [0..<4]) s6 = Some s7" "holds s7 c6 ?m2"
    by (rule printsE [OF pe 6(3)])
  obtain s8 where 8: "print_uart b rg (cstr ''copying boot image '') s7 = Some s8" "holds s8 c6 ?m2"
    by (rule print_holds [OF 7(2)])
  obtain s9 where 9: "rd64 b (?a2 + of_nat 32) s8 = (le64 (\<lambda>i. blk (entries_lba blk) ! (32 + i)), s9)"
      "holds s9 c6 ?m2"
    by (rule field_load [OF 8(2) r2 blk_size k(2)])
  obtain s10 c10 where 10: "sd_copy b rg dest (ucast (le64 (\<lambda>i. blk (entries_lba blk) ! (32 + i)))) n s9 = Some (0, s10)"
      "transfer c10" "holds s10 c10 ?m3"
    using sd_copy_succeeds [OF 9(2) 6(2) n rd] by (metis boot_lba_def)
  obtain s11 where 11: "print_uart b rg (cstr ('' done!'' @ crlf)) s10 = Some s11" "holds s11 c10 ?m3"
    by (rule print_holds [OF 10(3)])
  have "gpt_find_boot_partition b rg fr dest n s = Some (0, s11)"
    using 5(1) 9(1)
    by (simp add: gpt_find_boot_partition_def 1(1) 2(1) 3(1) 4(1) 6(1) 7(1) 8(1) 10(1) 11(1)
        off_partition_entries_lba_def off_first_lba_def del: append.simps One_nat_def)
  with 10(2) 11(2) show ?thesis by blast
qed

lemma main_boots:
  assumes p: "powered (v_card (V s))"
    and r1: "block_in_ram is_ram (lba1_buf fr)" and r2: "block_in_ram is_ram (lba2_buf fr)"
    and rd: "\<forall>j < 16777216. is_ram (0x80000000 + of_nat j)"
  shows "\<exists>s'. main b rg fr s = Some (Jump 0x80000000, s') \<and>
    (\<forall>k < 32768. \<forall>j < 512. v_mem (V s') (0x80000000 + of_nat (512 * k + j)) = blk (boot_lba blk + k) ! j)"
proof -
  obtain s1 where 1: "init_uart b rg 50000000 115200 s = Some s1"
      "V s1 = (V s)\<lparr>u_lcr := 0x03, u_dll := 27, u_dlm := 0\<rparr>"
    using init_uart_sets_divisor [of 115200 27 50000000 s] by auto
  then have d1: "\<not> dlab (V s1)" and p1: "powered (v_card (V s1))" using p by (simp_all add: dlab_def)
  obtain s2 where 2: "print_uart b rg (cstr (''Hello World!'' @ crlf)) s1 = Some s2"
      "V s2 = sent (cstr (''Hello World!'' @ crlf)) (V s1)"
    using print_uart_sends [OF d1] by blast
  have d2: "\<not> dlab (V s2)" and p2: "powered (v_card (V s2))"
    using d1 p1 by (simp_all add: 2) (simp add: sent_def)
  let ?img = "concat (map blk [boot_lba blk..<boot_lba blk + 32768])"
  obtain s3 c3 m where 3: "gpt_find_boot_partition b rg fr 0x80000000 (2 * 16384) s2 = Some (0, s3)"
      "holds s3 c3 (put_bytes m 0x80000000 ?img)"
    using gpt_loads [OF d2 p2 r1 r2, of "2 * 16384" "0x80000000"] rd by auto
  have len: "length ?img = 16777216" by (simp add: length_concat comp_def blk_size sum_list_triv)
  have "v_mem (V s3) (0x80000000 + of_nat (512 * k + j)) = blk (boot_lba blk + k) ! j"
    if "k < 32768" "j < 512" for k j
  proof -
    have "512 * k + j < length ?img" using that len by linarith
    then have "put_bytes m 0x80000000 ?img (0x80000000 + of_nat (512 * k + j)) = ?img ! (512 * k + j)"
      by (rule put_bytes_nth) (simp add: len)
    also have "\<dots> = blk ([boot_lba blk..<boot_lba blk + 32768] ! k) ! j"
      by (rule concat_nth_blocks) (use that blk_size in auto)
    finally show ?thesis using 3(2) that by (simp add: holds_def)
  qed
  with 1(1) 2(1) 3(1) show ?thesis by (auto simp: main_def simp del: append.simps)
qed

end

end
