(* ===== verification/Boot_Sim.thy ===== *)
theory Boot_Sim
  imports Boot_Gpt
begin

text \<open>
  A concrete platform that satisfies the contracts of the boot loader, so that the theorems
  about it can be applied: a UART that is busy for some status reads after every byte, an SPI
  core whose answers arrive after a delay, one gigabyte of memory at the usual place and an
  SD card that follows the SPI-mode protocol byte by byte. The bus takes the exchange function
  of the card as an argument.
\<close>

unbundle bit_operations_syntax

section \<open>The card\<close>

datatype card_mode = Powered | Idle | Checked | Transfer | Streaming nat

record simcard =
  cbuf :: "u8 list"
  cout :: "u8 list"
  cmode :: card_mode

text \<open>A disk: the partition table in blocks 1 and 2, the boot partition from block 2048 on.\<close>

definition disk :: "nat \<Rightarrow> u8 list" where
  "disk l =
     (if l = 1 then replicate 72 0 @ [2, 0, 0, 0, 0, 0, 0, 0] @ replicate 432 0
      else if l = 2 then replicate 32 0 @ [0, 8, 0, 0, 0, 0, 0, 0] @ replicate 472 0
      else replicate 512 (of_nat l))"

definition crc_bytes :: "u8 list \<Rightarrow> u8 list" where
  "crc_bytes bs = [ucast (drop_bit 8 (block_crc bs)), ucast (block_crc bs)]"

text \<open>The byte the card drives while it receives one.\<close>

definition sim_output :: "simcard \<Rightarrow> u8 \<times> simcard" where
  "sim_output c =
     (case cout c of
        y # ys \<Rightarrow> (y, c\<lparr>cout := ys\<rparr>)
      | [] \<Rightarrow>
          (case cmode c of
             Streaming l \<Rightarrow> (SD_DATA_TOKEN, c\<lparr>cout := disk l @ crc_bytes (disk l), cmode := Streaming (Suc l)\<rparr>)
           | _ \<Rightarrow> (0xFF, c)))"

text \<open>A complete command frame: the response after one filler byte, and the next state.\<close>

definition sim_command :: "u8 list \<Rightarrow> simcard \<Rightarrow> simcard" where
  "sim_command f c =
     (let cmd = f ! 0 AND 0x3f; arg = le32 (f ! 4) (f ! 3) (f ! 2) (f ! 1);
          c = c\<lparr>cbuf := []\<rparr> in
      if cmd = 0 then c\<lparr>cout := [0xFF, 0x01], cmode := Idle\<rparr>
      else if cmd = 8 then c\<lparr>cout := [0xFF, 0x01, 0, 0, 1, 0xaa], cmode := Checked\<rparr>
      else if cmd = 55 then c\<lparr>cout := [0xFF, 0x01]\<rparr>
      else if cmd = 41 then c\<lparr>cout := [0xFF, 0x00], cmode := Transfer\<rparr>
      else if cmd = 18 then c\<lparr>cout := [0xFF, 0x00], cmode := Streaming (unat arg)\<rparr>
      else if cmd = 12 then c\<lparr>cout := [0xFF, 0x00], cmode := Transfer\<rparr>
      else c\<lparr>cout := [0xFF, 0x05]\<rparr>)"

definition sim_xchg :: "u8 \<Rightarrow> simcard \<Rightarrow> u8 \<times> simcard" where
  "sim_xchg x c =
     (let (y, c) = sim_output c in
      if cbuf c = [] \<and> x AND 0xC0 \<noteq> 0x40 then (y, c)
      else let f = cbuf c @ [x] in
           if length f = 6 then (y, sim_command f c) else (y, c\<lparr>cbuf := f\<rparr>))"

section \<open>The card follows the protocol\<close>

lemma sim_idle_clock:
  "cbuf c = [] \<Longrightarrow> cout c = y # ys \<Longrightarrow> sim_xchg 0xFF c = (y, c\<lparr>cout := ys\<rparr>)"
  by (simp add: sim_xchg_def sim_output_def)

lemma sim_xfers_out:
  "cbuf c = [] \<Longrightarrow> cout c = ys @ zs \<Longrightarrow>
   xfers sim_xchg (replicate (length ys) 0xFF) c = (ys, c\<lparr>cout := zs\<rparr>)"
  by (induction ys arbitrary: c) (auto simp: sim_idle_clock)

definition streaming :: "simcard \<Rightarrow> bool" where
  "streaming c \<longleftrightarrow> (\<exists>l. cmode c = Streaming l)"

lemma sim_output_keeps:
  "cbuf (snd (sim_output c)) = cbuf c"
  "\<not> streaming c \<Longrightarrow> cmode (snd (sim_output c)) = cmode c"
  by (auto simp: sim_output_def streaming_def split: list.splits card_mode.splits)

lemma sim_xchg_start:
  assumes "cbuf c = []"
  shows "x AND 0xC0 \<noteq> 0x40 \<Longrightarrow> snd (sim_xchg x c) = snd (sim_output c)"
    "x AND 0xC0 = 0x40 \<Longrightarrow> snd (sim_xchg x c) = (snd (sim_output c))\<lparr>cbuf := [x]\<rparr>"
  using assms sim_output_keeps(1) [of c] by (auto simp: sim_xchg_def Let_def case_prod_beta)

lemma sim_xchg_collect:
  assumes "cbuf c \<noteq> []" "length (cbuf c) < 5"
  shows "snd (sim_xchg x c) = (snd (sim_output c))\<lparr>cbuf := cbuf c @ [x]\<rparr>"
  using assms sim_output_keeps(1) [of c] by (auto simp: sim_xchg_def Let_def case_prod_beta)

lemma sim_xchg_last:
  assumes "length (cbuf c) = 5"
  shows "snd (sim_xchg x c) = sim_command (cbuf c @ [x]) (snd (sim_output c))"
  using assms sim_output_keeps(1) [of c] by (auto simp: sim_xchg_def Let_def case_prod_beta)

text \<open>After the seven bytes of a frame the command has been carried out.\<close>

lemma sim_frame:
  assumes c: "cbuf c = []" and x: "(0x40 OR cmd) AND 0xC0 = 0x40"
  obtains d where "snd (xfers sim_xchg (card_frame cmd arg crc) c) =
    sim_command [0x40 OR cmd, ucast (drop_bit 24 arg), ucast (drop_bit 16 arg), ucast (drop_bit 8 arg),
      ucast arg, crc] d" "\<not> streaming c \<longrightarrow> cmode d = cmode c"
proof -
  have st: "snd (xfers sim_xchg (z # zs) c) = snd (xfers sim_xchg zs (snd (sim_xchg z c)))" for z zs c
    by (simp add: Let_def case_prod_beta)
  define c0 where "c0 = snd (sim_xchg 0xFF c)"
  define c1 where "c1 = snd (sim_xchg (0x40 OR cmd) c0)"
  define c2 where "c2 = snd (sim_xchg (ucast (drop_bit 24 arg)) c1)"
  define c3 where "c3 = snd (sim_xchg (ucast (drop_bit 16 arg)) c2)"
  define c4 where "c4 = snd (sim_xchg (ucast (drop_bit 8 arg)) c3)"
  define c5 where "c5 = snd (sim_xchg (ucast arg) c4)"
  let ?k = "\<lambda>d. \<not> streaming c \<longrightarrow> cmode d = cmode c \<and> \<not> streaming d"
  have keep: "?k (snd (sim_output d)\<lparr>cbuf := f\<rparr>)" "?k (snd (sim_output d))" if "?k d" for d f
    using that sim_output_keeps(2) [of d] by (auto simp: streaming_def)
  have b0: "cbuf c0 = []" "?k c0"
    using c sim_output_keeps(1) [of c] keep(2) [of c] by (auto simp: c0_def sim_xchg_start)
  have b1: "cbuf c1 = [0x40 OR cmd]" "?k c1"
    using b0 x keep(1) [of c0] by (auto simp: c1_def sim_xchg_start)
  have b2: "cbuf c2 = [0x40 OR cmd, ucast (drop_bit 24 arg)]" "?k c2"
    using b1 keep(1) [of c1] by (auto simp: c2_def sim_xchg_collect)
  have b3: "cbuf c3 = [0x40 OR cmd, ucast (drop_bit 24 arg), ucast (drop_bit 16 arg)]" "?k c3"
    using b2 keep(1) [of c2] by (auto simp: c3_def sim_xchg_collect)
  have b4: "cbuf c4 = [0x40 OR cmd, ucast (drop_bit 24 arg), ucast (drop_bit 16 arg), ucast (drop_bit 8 arg)]"
      "?k c4"
    using b3 keep(1) [of c3] by (auto simp: c4_def sim_xchg_collect)
  have b5: "cbuf c5 = [0x40 OR cmd, ucast (drop_bit 24 arg), ucast (drop_bit 16 arg), ucast (drop_bit 8 arg),
      ucast arg]" "?k c5"
    using b4 keep(1) [of c4] by (auto simp: c5_def sim_xchg_collect)
  have "snd (xfers sim_xchg (card_frame cmd arg crc) c) = snd (sim_xchg crc c5)"
    unfolding card_frame_def st c0_def [symmetric] c1_def [symmetric] c2_def [symmetric] c3_def [symmetric]
      c4_def [symmetric] c5_def [symmetric] by simp
  also have "\<dots> = sim_command (cbuf c5 @ [crc]) (snd (sim_output c5))"
    by (rule sim_xchg_last) (simp add: b5)
  finally show ?thesis using that [of "snd (sim_output c5)"] b5 keep(2) [of c5] by simp
qed

lemma sim_poll:
  assumes "cbuf c = []" "cout c = 0xFF # r # ys" "r AND 0x80 = 0"
  shows "card_poll sim_xchg 99 c = (r, c\<lparr>cout := ys\<rparr>)"
proof -
  have "99 = Suc (Suc 97)" by simp
  then show ?thesis using assms by (simp only: card_poll.simps) (simp add: sim_idle_clock)
qed

definition rests :: "card_mode \<Rightarrow> simcard \<Rightarrow> bool" where
  "rests m c \<longleftrightarrow> cbuf c = [] \<and> cout c = [] \<and> cmode c = m"

lemma rests_clock: "rests m c \<Longrightarrow> \<forall>l. m \<noteq> Streaming l \<Longrightarrow> sim_xchg 0xFF c = (0xFF, c)"
  by (auto simp: rests_def sim_xchg_def sim_output_def split: card_mode.splits)

lemma sim_cmd:
  assumes c: "cbuf c = []" and x: "(0x40 OR cmd) AND 0xC0 = 0x40"
    and r: "\<And>d. \<not> streaming c \<longrightarrow> cmode d = cmode c \<Longrightarrow>
      sim_command [0x40 OR cmd, ucast (drop_bit 24 arg), ucast (drop_bit 16 arg), ucast (drop_bit 8 arg),
      ucast arg, crc] d = d\<lparr>cbuf := [], cout := 0xFF # resp # ys, cmode := m\<rparr>"
    and resp: "resp AND 0x80 = 0" and e: "card_cmd sim_xchg cmd arg crc c = (y, c')"
  shows "y = resp \<and> cbuf c' = [] \<and> cout c' = ys \<and> cmode c' = m"
proof -
  obtain d where d: "snd (xfers sim_xchg (card_frame cmd arg crc) c) =
    sim_command [0x40 OR cmd, ucast (drop_bit 24 arg), ucast (drop_bit 16 arg), ucast (drop_bit 8 arg),
      ucast arg, crc] d" "\<not> streaming c \<longrightarrow> cmode d = cmode c"
    by (rule sim_frame [OF c x])
  from e show ?thesis
    unfolding card_cmd_def d(1) r [OF d(2)]
    by (subst (asm) sim_poll) (use resp in auto)
qed

lemma sim_reset:
  assumes "rests m c" "card_cmd sim_xchg 0 0 0x95 c = (r, c1)"
  shows "r = 1 \<and> rests Idle c1"
  using sim_cmd [OF _ _ _ _ assms(2), where resp = 1 and ys = "[]" and m = Idle] assms(1)
  by (simp add: rests_def sim_command_def Let_def)

lemma sim_condition:
  assumes "rests m c" "card_cmd sim_xchg 8 0x1aa 0x87 c = (r, c1)"
  shows "r = 1 \<and> cbuf c1 = [] \<and> cout c1 = [0, 0, 1, 0xaa] \<and> cmode c1 = Checked"
  using sim_cmd [OF _ _ _ _ assms(2), where resp = 1 and ys = "[0, 0, 1, 0xaa]" and m = Checked] assms(1)
  by (simp add: rests_def sim_command_def Let_def)

lemma sim_app:
  assumes "rests Checked c" "card_cmd sim_xchg 55 0 0x65 c = (r, c1)"
  shows "rests Checked c1"
  using sim_cmd [OF _ _ _ _ assms(2), where resp = 1 and ys = "[]" and m = Checked] assms(1)
  by (simp add: rests_def sim_command_def Let_def streaming_def)

lemma sim_initialise:
  assumes "rests m c" "card_cmd sim_xchg 41 0x40000000 0x77 c = (r, c1)"
  shows "r = 0 \<and> rests Transfer c1"
  using sim_cmd [OF _ _ _ _ assms(2), where resp = 0 and ys = "[]" and m = Transfer] assms(1)
  by (simp add: rests_def sim_command_def Let_def)

lemma sim_read:
  assumes "rests m c" "card_cmd sim_xchg 18 lba crc c = (r, c1)"
  shows "r = 0 \<and> rests (Streaming (unat lba)) c1"
  using sim_cmd [OF _ _ _ _ assms(2), where resp = 0 and ys = "[]" and m = "Streaming (unat lba)"] assms(1)
  by (simp add: rests_def sim_command_def Let_def)

lemma sim_stop:
  assumes "rests m c" "card_cmd sim_xchg 12 0 1 c = (r, c1)"
  shows "r = 0 \<and> rests Transfer c1"
  using sim_cmd [OF _ _ _ _ assms(2), where resp = 0 and ys = "[]" and m = Transfer] assms(1)
  by (simp add: rests_def sim_command_def Let_def)

lemma length_disk: "length (disk l) = 512"
  by (simp add: disk_def)

lemma crc_bytes_crc:
  "crc_bytes bs = [hi, lo] \<Longrightarrow> block_crc bs = push_bit 8 (ucast hi) OR ucast lo"
proof -
  assume "crc_bytes bs = [hi, lo]"
  then have e: "hi = ucast (drop_bit 8 (block_crc bs))" "lo = ucast (block_crc bs)"
    by (simp_all add: crc_bytes_def)
  show ?thesis
    unfolding e by (rule bit_word_eqI) (auto simp: bit_simps)
qed

lemma sim_block:
  assumes "rests (Streaming l) c"
  shows "\<exists>hi lo c1. sends_block sim_xchg c (disk l) hi lo c1 \<and>
    block_crc (disk l) = push_bit 8 (ucast hi) OR ucast lo \<and> rests (Streaming (Suc l)) c1"
proof -
  let ?hi = "ucast (drop_bit 8 (block_crc (disk l))) :: u8" and ?lo = "ucast (block_crc (disk l)) :: u8"
  let ?c = "c\<lparr>cout := disk l @ [?hi, ?lo], cmode := Streaming (Suc l)\<rparr>"
  let ?c1 = "c\<lparr>cout := [], cmode := Streaming (Suc l)\<rparr>"
  have 1: "sim_xchg 0xFF c = (SD_DATA_TOKEN, ?c)"
    using assms by (simp add: rests_def sim_xchg_def sim_output_def crc_bytes_def)
  have 2: "xfers sim_xchg (replicate (length (disk l @ [?hi, ?lo])) 0xFF) ?c = (disk l @ [?hi, ?lo], ?c\<lparr>cout := []\<rparr>)"
    by (rule sim_xfers_out) (use assms in \<open>simp_all add: rests_def\<close>)
  have n: "515 = Suc (length (disk l @ [?hi, ?lo]))" by (simp add: length_disk)
  have "xfers sim_xchg (replicate 515 0xFF) c = (SD_DATA_TOKEN # disk l @ [?hi, ?lo], ?c1)"
    unfolding n by (simp add: 1 del: length_append) (use 2 in simp)
  then have "sends_block sim_xchg c (disk l) ?hi ?lo ?c1"
    unfolding sends_block_def by (auto simp: length_disk intro!: exI [of _ 0])
  moreover have "rests (Streaming (Suc l)) ?c1" using assms by (simp add: rests_def)
  moreover have "block_crc (disk l) = push_bit 8 (ucast ?hi) OR ucast ?lo"
    by (rule crc_bytes_crc) (simp add: crc_bytes_def)
  ultimately show ?thesis by blast
qed

section \<open>The system on chip\<close>

text \<open>
  The state: the view of the contract, the number of status reads for which the transmitter
  stays busy, and the number for which the next received byte is still on its way.
\<close>

type_synonym 'c sim = "'c soc_view \<times> nat \<times> nat"

definition sim_ram :: "u64 \<Rightarrow> bool" where
  "sim_ram a \<longleftrightarrow> 0x80000000 \<le> a \<and> a < 0xC0000000"

definition sim_rd8 :: "u64 \<Rightarrow> 'c sim \<Rightarrow> u8 \<times> 'c sim" where
  "sim_rd8 a = (\<lambda>(v, k, j).
     if a = 0x10000014 then (if k = 0 then (0x60, (v, 0, j)) else (0, (v, k - 1, j)))
     else if sim_ram a then (v_mem v a, (v, k, j)) else (0, (v, k, j)))"

definition sim_wr8 :: "u64 \<Rightarrow> u8 \<Rightarrow> 'c sim \<Rightarrow> 'c sim" where
  "sim_wr8 a x = (\<lambda>(v, k, j).
     if a = 0x10000000 then (if dlab v then (v\<lparr>u_dll := x\<rparr>, k, j) else (sent [x] v, 4, j))
     else if a = 0x10000004 then (if dlab v then (v\<lparr>u_dlm := x\<rparr>, k, j) else (v, k, j))
     else if a = 0x1000000C then (v\<lparr>u_lcr := x\<rparr>, k, j)
     else if sim_ram a then (v\<lparr>v_mem := (v_mem v)(a := x)\<rparr>, k, j) else (v, k, j))"

definition sim_rd32 :: "u64 \<Rightarrow> 'c sim \<Rightarrow> u32 \<times> 'c sim" where
  "sim_rd32 a = (\<lambda>(v, k, j).
     if a = SPI_STATUS_REG
     then (if v_pend v = [] then (1, (v, k, j)) else if j = 0 then (0, (v, k, 0)) else (1, (v, k, j - 1)))
     else if a = SPI_RECEIVE_REG
     then (if v_pend v = [] then (0, (v, k, j)) else (ucast (hd (v_pend v)), (v\<lparr>v_pend := tl (v_pend v)\<rparr>, k, 2)))
     else if sim_ram a
     then (le32 (v_mem v a) (v_mem v (a + 1)) (v_mem v (a + 2)) (v_mem v (a + 3)), (v, k, j))
     else (0, (v, k, j)))"

definition sim_wr32 ::
  "(u8 \<Rightarrow> 'c \<Rightarrow> u8 \<times> 'c) \<Rightarrow> u64 \<Rightarrow> u32 \<Rightarrow> 'c sim \<Rightarrow> 'c sim" where
  "sim_wr32 xf a x = (\<lambda>(v, k, j).
     if a = SPI_SLAVE_SELECT_REG then (v\<lparr>v_sel := x AND 1 = 0\<rparr>, k, j)
     else if a = SPI_TRANSMIT_REG
     then (if v_sel v \<and> length (v_pend v) < 256
           then let (y, c) = xf (ucast x) (v_card v)
                in (v\<lparr>v_pend := v_pend v @ [y], v_card := c\<rparr>, k, 3)
           else (v, k, j))
     else if a = SPI_CONTROL_REG
     then (if x AND 0x60 = 0 then (v, k, j) else (v\<lparr>v_pend := []\<rparr>, k, j))
     else if a = SPI_RESET_REG then (v\<lparr>v_pend := [], v_sel := False\<rparr>, k, j)
     else (v, k, j))"

definition sim_rd64 :: "u64 \<Rightarrow> 'c sim \<Rightarrow> u64 \<times> 'c sim" where
  "sim_rd64 a = (\<lambda>(v, k, j). (le64 (\<lambda>i. v_mem v (a + of_nat i)), (v, k, j)))"

definition sim_bus :: "(u8 \<Rightarrow> 'c \<Rightarrow> u8 \<times> 'c) \<Rightarrow> 'c sim bus" where
  "sim_bus xf = \<lparr>rd8 = sim_rd8, wr8 = sim_wr8, rd32 = sim_rd32, wr32 = sim_wr32 xf, rd64 = sim_rd64,
     wr64 = (\<lambda>_ _ s. s)\<rparr>"

lemmas spi_regs = SPI_SLAVE_SELECT_REG_def SPI_TRANSMIT_REG_def SPI_CONTROL_REG_def SPI_RESET_REG_def
  SPI_STATUS_REG_def SPI_RECEIVE_REG_def

lemma sim_ram_no_device: "sim_ram a \<Longrightarrow>
    a \<noteq> 0x10000000 \<and> a \<noteq> 0x10000004 \<and> a \<noteq> 0x1000000C \<and> a \<noteq> 0x10000014 \<and>
    a \<noteq> SPI_STATUS_REG \<and> a \<noteq> SPI_RECEIVE_REG"
  by (auto simp: sim_ram_def spi_regs)

lemma sim_uart_regs:
  "UART_THR fpga_uart = 0x10000000" "UART_INTERRUPT_ENABLE fpga_uart = 0x10000004"
  "UART_FIFO_CONTROL fpga_uart = 0x10000008" "UART_LINE_CONTROL fpga_uart = 0x1000000C"
  "UART_MODEM_CONTROL fpga_uart = 0x10000010" "UART_LINE_STATUS fpga_uart = 0x10000014"
  "UART_DLAB_LSB fpga_uart = 0x10000000" "UART_DLAB_MSB fpga_uart = 0x10000004"
  by (simp_all add: fpga_uart_def)

lemma sim_ram_uart: "\<not> sim_ram 0x10000008" "\<not> sim_ram 0x10000010"
  by (simp_all add: sim_ram_def)

interpretation sim_uart: uart_port "sim_bus xf" fpga_uart fst "\<lambda>(v, k, j). k = 0" "\<lambda>(v, k, j). k"
    for xf :: "u8 \<Rightarrow> 'c \<Rightarrow> u8 \<times> 'c"
  by unfold_locales
    (auto simp: sim_bus_def sim_uart_regs sim_rd8_def sim_wr8_def sim_ram_uart split: if_splits prod.splits)

interpretation sim_sd: sd_card sim_xchg "rests Powered" "rests Idle" "rests Checked" "rests Transfer"
    "\<lambda>l. rests (Streaming l)" "\<lambda>c. 0" "\<lambda>c. 0" disk
proof (unfold_locales, goal_cases)
  case (4 c r c1 y c2)
  then show ?case using sim_reset rests_clock [of Idle c1] by auto
next
  case (5 c r c1 ys c2)
  then have r: "r = 1" and c1: "cbuf c1 = []" "cout c1 = [0, 0, 1, 0xaa]" "cmode c1 = Checked"
    using sim_condition by auto
  have e: "xfers sim_xchg (replicate 4 0xFF) c1 = ([0, 0, 1, 0xaa], c1\<lparr>cout := []\<rparr>)"
    using sim_xfers_out [of c1 "[0, 0, 1, 0xaa]" "[]"] c1
    by (simp del: replicate.simps xfers.simps add: numeral_eq_Suc)
  have rc: "rests Checked (c1\<lparr>cout := []\<rparr>)" using c1 by (simp add: rests_def)
  have "replicate 6 (0xFF :: u8) = replicate 4 0xFF @ [0xFF, 0xFF]" by (simp add: eval_nat_numeral)
  with 5(3) e rests_clock [OF rc] have "ys = [0, 0, 1, 0xaa, 0xFF, 0xFF]" "c2 = c1\<lparr>cout := []\<rparr>"
    by (simp_all add: xfers_append)
  with r rc show ?case by (simp add: eval_nat_numeral)
next
  case (6 c r0 c1 y c2 r c3 z c4)
  then show ?case
    using sim_app [OF 6(1,2)] rests_clock [of Checked c1] sim_initialise [OF _ 6(4)]
      rests_clock [of Transfer c3] by auto
next
  case (9 l c r c1 y c2)
  then show ?case using sim_stop rests_clock [of Transfer c1] by auto
qed (auto simp: length_disk rests_clock sim_read sim_block)

interpretation sim_spi: spi_port "sim_bus xf" fpga_uart fst "\<lambda>(v, k, j). k = 0" "\<lambda>(v, k, j). k"
    xf "\<lambda>(v, k, j). j = 0" "\<lambda>(v, k, j). j" sim_ram
    for xf :: "u8 \<Rightarrow> 'c \<Rightarrow> u8 \<times> 'c"
proof (unfold_locales, goal_cases)
  case (1 x s)
  then show ?case by (simp add: sim_bus_def sim_wr32_def split: prod.splits)
next
  case (2 s x y c)
  then show ?case by (auto simp: sim_bus_def sim_wr32_def spi_regs split: prod.splits)
next
  case (3 x s)
  then show ?case by (auto simp: sim_bus_def sim_wr32_def spi_regs split: prod.splits)
next
  case (4 s)
  then show ?case by (auto simp: sim_bus_def sim_wr32_def spi_regs split: prod.splits)
next
  case (5 s x s')
  then show ?case by (auto simp: sim_bus_def sim_rd32_def split: prod.splits if_splits)
next
  case (6 s y ys x s')
  then show ?case by (auto simp: sim_bus_def sim_rd32_def spi_regs split: prod.splits if_splits)
next
  case (7 a y s)
  then show ?case using sim_ram_no_device [of a] by (auto simp: sim_bus_def sim_wr8_def split: prod.splits)
next
  case (8 a s y s')
  then show ?case using sim_ram_no_device [of a] by (auto simp: sim_bus_def sim_rd8_def split: prod.splits)
next
  case (9 a s x s')
  then show ?case using sim_ram_no_device [of a] by (auto simp: sim_bus_def sim_rd32_def split: prod.splits)
next
  case (10 a s w s')
  then show ?case by (auto simp: sim_bus_def sim_rd64_def split: prod.splits)
qed

interpretation platform: boot_platform "sim_bus sim_xchg" fpga_uart fst "\<lambda>(v, k, j). k = 0" "\<lambda>(v, k, j). k"
    sim_xchg "\<lambda>(v, k, j). j = 0" "\<lambda>(v, k, j). j" sim_ram
    "rests Powered" "rests Idle" "rests Checked" "rests Transfer" "\<lambda>l. rests (Streaming l)"
    "\<lambda>c. 0" "\<lambda>c. 0" disk
  by unfold_locales

end
