(* ===== verification/Boot_Theorems.thy ===== *)
theory Boot_Theorems
  imports Boot_Sim
begin

text \<open>
  The properties of the boot loader. Each is stated for every bus that satisfies the contract
  it names; the witnesses apply it to the platform of \<open>Boot_Sim\<close>.
\<close>

unbundle bit_operations_syntax

section \<open>The platform at power-up\<close>

definition sim_start :: "simcard sim" where
  "sim_start = (\<lparr>u_out = [], u_lcr = 0, u_dll = 0, u_dlm = 0, v_sel = False, v_pend = [],
     v_card = \<lparr>cbuf = [], cout = [], cmode = Powered\<rparr>, v_mem = (\<lambda>_. 0)\<rparr>, 0, 0)"

definition sim_frame_bufs :: boot_frame where
  "sim_frame_bufs = \<lparr>lba1_buf = 0x80000000 + of_nat 0x3FFFC00, lba2_buf = 0x80000000 + of_nat 0x3FFFA00\<rparr>"

lemma sim_ram_offset: "i < 0x40000000 \<Longrightarrow> sim_ram (0x80000000 + of_nat i)"
proof -
  assume i: "i < 0x40000000"
  then have u: "unat (of_nat i :: u64) = i" by (simp add: unat_of_nat take_bit_nat_eq_self)
  then have "unat (0x80000000 + of_nat i :: u64) = 0x80000000 + i"
    using i by (simp add: unat_word_ariths)
  with i show ?thesis by (simp add: sim_ram_def word_le_nat_alt word_less_nat_alt)
qed

lemma sim_block_in_ram:
  "i + 512 \<le> 0x40000000 \<Longrightarrow> block_in_ram sim_ram (0x80000000 + of_nat i)"
  unfolding block_in_ram_def
proof (intro allI impI)
  fix j :: nat assume "i + 512 \<le> 0x40000000" "j < 512"
  then have "sim_ram (0x80000000 + of_nat (i + j))" by (intro sim_ram_offset) simp
  then show "sim_ram (0x80000000 + of_nat i + of_nat j)" by (simp add: add.assoc)
qed

lemma boot_lba_disk: "boot_lba disk = 2048"
proof -
  have "entries_lba disk = 2"
    by (simp add: entries_lba_def le64_def le32_def disk_def nth_append)
  then show ?thesis
    by (simp add: boot_lba_def le64_def le32_def disk_def nth_append)
qed

section \<open>Booting\<close>

text \<open>
  C2. The boot ROM loads and starts the operating system. On every platform whose UART, SPI
  core, memory and SD card keep their contracts, \<open>main\<close> returns from all its polling loops
  and jumps to the start of DRAM, where by then the 32768 blocks of the first partition of
  the card's partition table lie in order.
\<close>

theorem boot_loads_image:
  assumes "boot_platform b rg V ready busy xchg avail lag is_ram powered idle checked transfer
      stream attempts waits blk"
    and "powered (v_card (V s))"
    and "block_in_ram is_ram (lba1_buf fr)" "block_in_ram is_ram (lba2_buf fr)"
    and "\<forall>j < 16777216. is_ram (0x80000000 + of_nat j)"
  shows "\<exists>s'. main b rg fr s = Some (Jump 0x80000000, s') \<and>
    (\<forall>k < 32768. \<forall>j < 512. v_mem (V s') (0x80000000 + of_nat (512 * k + j)) = blk (boot_lba blk + k) ! j)"
  by (rule boot_platform.main_boots [OF assms])

theorem boot_loads_image_witness:
  "\<exists>s'. main (sim_bus sim_xchg) fpga_uart sim_frame_bufs sim_start = Some (Jump 0x80000000, s') \<and>
    (\<forall>k < 32768. \<forall>j < 512. v_mem (fst s') (0x80000000 + of_nat (512 * k + j)) = disk (2048 + k) ! j)"
proof -
  have "block_in_ram sim_ram (lba1_buf sim_frame_bufs)" "block_in_ram sim_ram (lba2_buf sim_frame_bufs)"
    unfolding sim_frame_bufs_def boot_frame.simps by (rule sim_block_in_ram, simp)+
  moreover have "\<forall>j < 16777216. sim_ram (0x80000000 + of_nat j)"
    by (auto intro: sim_ram_offset)
  moreover have "rests Powered (v_card (fst sim_start))" by (simp add: sim_start_def rests_def)
  ultimately show ?thesis
    using boot_loads_image [OF platform.boot_platform_axioms, of sim_start sim_frame_bufs]
    unfolding boot_lba_disk by blast
qed

section \<open>The SD card driver\<close>

text \<open>
  C10. A command on the wire. For every bus that keeps the contract of the SPI core, and
  whatever device is behind it, \<open>sd_cmd\<close> returns, sends the device exactly the seven bytes
  of the command frame followed by at most one hundred polling bytes, returns the first
  response with a clear top bit (or the last byte polled), and leaves memory unchanged and no
  received byte unread.
\<close>

theorem sd_cmd_refines_card_cmd:
  assumes "spi_port b rg V ready busy xchg avail lag is_ram"
    and "v_pend (V s) = []" "\<not> dlab (V s)"
    and "card_cmd xchg cmd arg crc (v_card (V s)) = (r, c)"
  shows "\<exists>s'. sd_cmd b rg cmd arg crc s = Some (r, s') \<and> v_card (V s') = c \<and>
    v_mem (V s') = v_mem (V s) \<and> v_pend (V s') = [] \<and> \<not> dlab (V s')"
proof -
  note sp = assms(1)
  have "spi_port.holds V s (v_card (V s)) (v_mem (V s))"
    using assms by (simp add: spi_port.holds_def [OF sp] spi_port.at_rest_def [OF sp])
  then obtain s' where "sd_cmd b rg cmd arg crc s = Some (r, s')"
      "spi_port.holds V s' c (v_mem (V s))"
    by (rule spi_port.cmd_holds [OF sp _ assms(4)])
  then show ?thesis by (auto simp: spi_port.holds_def [OF sp] spi_port.at_rest_def [OF sp])
qed

theorem sd_cmd_refines_card_cmd_witness:
  "\<exists>s'. sd_cmd (sim_bus sim_xchg) fpga_uart 0 0 0x95 sim_start = Some (0x01, s') \<and>
     cmode (v_card (fst s')) = Idle"
proof -
  obtain r c where c: "card_cmd sim_xchg 0 0 0x95 (v_card (fst sim_start)) = (r, c)" by fastforce
  have p: "v_pend (fst sim_start) = []" "\<not> dlab (fst sim_start)" "rests Powered (v_card (fst sim_start))"
    by (simp_all add: sim_start_def rests_def dlab_def)
  have r: "r = 1" "cmode c = Idle" using sim_reset [OF p(3) c] by (simp_all add: rests_def)
  from sd_cmd_refines_card_cmd [OF sim_spi.spi_port_axioms p(1,2) c] obtain s' where
      "sd_cmd (sim_bus sim_xchg) fpga_uart 0 0 0x95 sim_start = Some (r, s')" "v_card (fst s') = c" by blast
  with r show ?thesis by simp
qed

text \<open>
  C11. A corrupted block is not accepted. If the card answers a read with some good blocks and
  then a block whose checksum does not match its data, \<open>sd_copy\<close> stops there, ends the
  transmission and reports the checksum error, however many blocks were asked for.
\<close>

theorem sd_copy_detects_corruption:
  assumes "spi_port b rg V ready busy xchg avail lag is_ram"
    and "v_pend (V s) = []" "\<not> dlab (V s)"
    and "card_cmd xchg 18 lba (cmd18_crc lba) (v_card (V s)) = (0, c1)"
    and "sends_blocks xchg c1 bss c2" "sends_block xchg c2 bad hi lo c3" "length bss < unat n"
    and "block_crc bad \<noteq> push_bit 8 (ucast hi) OR ucast lo"
    and "\<forall>j < 512 * Suc (length bss). is_ram (dst + of_nat j)"
  shows "\<exists>s'. sd_copy b rg dst lba n s = Some (SD_COPY_ERROR_CMD18_CRC, s') \<and> v_pend (V s') = []"
proof -
  note sp = assms(1)
  have "spi_port.holds V s (v_card (V s)) (v_mem (V s))"
    using assms by (simp add: spi_port.holds_def [OF sp] spi_port.at_rest_def [OF sp])
  from spi_port.sd_copy_detects [OF sp this assms(4-)] obtain s' c' m where
      "sd_copy b rg dst lba n s = Some (SD_COPY_ERROR_CMD18_CRC, s')" "spi_port.holds V s' c' m"
    by blast
  then show ?thesis by (auto simp: spi_port.holds_def [OF sp] spi_port.at_rest_def [OF sp])
qed

text \<open>A device that plays back a fixed answer: an accepted read, then a block of zeros whose
  checksum field is 1 instead of 0.\<close>

fun tape_xchg :: "u8 \<Rightarrow> u8 list \<Rightarrow> u8 \<times> u8 list" where
  "tape_xchg x [] = (0xFF, [])"
| "tape_xchg x (y # ys) = (y, ys)"

definition bad_tape :: "u8 list" where
  "bad_tape = replicate 7 0xFF @ [0x00] @ [SD_DATA_TOKEN] @ replicate 512 0 @ [0, 1]"

definition tape_start :: "u8 list sim" where
  "tape_start = (\<lparr>u_out = [], u_lcr = 0, u_dll = 0, u_dlm = 0, v_sel = False, v_pend = [],
     v_card = bad_tape, v_mem = (\<lambda>_. 0)\<rparr>, 0, 0)"

lemma tape_xfers: "xfers tape_xchg (replicate (length ys) 0xFF) (ys @ zs) = (ys, zs)"
  by (induction ys) auto

lemma tape_frame: "snd (xfers tape_xchg xs (ys @ zs)) = zs" if "length xs = length ys"
  using that by (induction xs ys rule: list_induct2) (auto simp: Let_def case_prod_beta)

lemma block_crc_zeros: "block_crc (replicate n 0) = 0"
proof -
  have "crc16 0 0 = 0" by (simp add: crc16_def)
  then have "foldl crc16 0 (replicate n 0) = 0" by (induction n) auto
  then show ?thesis by (simp add: block_crc_def)
qed

lemma bad_tape_read: "card_cmd tape_xchg 18 5 (cmd18_crc 5) bad_tape =
    (0, SD_DATA_TOKEN # replicate 512 0 @ [0, 1])"
proof -
  let ?rest = "SD_DATA_TOKEN # replicate 512 0 @ [0, 1]"
  have "snd (xfers tape_xchg (card_frame 18 5 (cmd18_crc 5)) (replicate 7 0xFF @ 0 # ?rest)) = 0 # ?rest"
    by (rule tape_frame) (simp add: card_frame_def)
  moreover have "card_poll tape_xchg (Suc 98) (0 # ?rest) = (0, ?rest)"
    by (simp only: card_poll.simps tape_xchg.simps) simp
  ultimately show ?thesis by (simp add: card_cmd_def bad_tape_def)
qed

lemma bad_tape_block:
  "sends_block tape_xchg (SD_DATA_TOKEN # replicate 512 0 @ [0, 1]) (replicate 512 0) 0 1 []"
proof -
  have "xfers tape_xchg (replicate (length (SD_DATA_TOKEN # replicate 512 0 @ [0, 1])) 0xFF)
      ((SD_DATA_TOKEN # replicate 512 0 @ [0, 1]) @ []) = (SD_DATA_TOKEN # replicate 512 0 @ [0, 1], [])"
    by (rule tape_xfers)
  moreover have "length (SD_DATA_TOKEN # replicate 512 0 @ [0, 1]) = 515" by simp
  ultimately show ?thesis
    unfolding sends_block_def by (auto intro!: exI [of _ 0])
qed

theorem sd_copy_detects_corruption_witness:
  "\<exists>s'. sd_copy (sim_bus tape_xchg) fpga_uart 0x80000000 5 100 tape_start =
     Some (SD_COPY_ERROR_CMD18_CRC, s') \<and> v_pend (fst s') = []"
proof -
  have p: "v_pend (fst tape_start) = []" "\<not> dlab (fst tape_start)"
    by (simp_all add: tape_start_def dlab_def)
  have c: "card_cmd tape_xchg 18 5 (cmd18_crc 5) (v_card (fst tape_start)) =
      (0, SD_DATA_TOKEN # replicate 512 0 @ [0, 1])"
    by (simp only: tape_start_def fst_conv soc_view.simps bad_tape_read)
  have b: "sends_blocks tape_xchg (SD_DATA_TOKEN # replicate 512 0 @ [0, 1]) []
      (SD_DATA_TOKEN # replicate 512 0 @ [0, 1])"
    by (simp only: sends_blocks.simps)
  have n: "length ([] :: u8 list list) < unat (100 :: u32)" by simp
  have x: "block_crc (replicate 512 0) \<noteq> push_bit 8 (ucast (0 :: u8)) OR ucast (1 :: u8)"
    by (simp only: block_crc_zeros) simp
  have ram: "\<forall>j < 512 * Suc (length ([] :: u8 list list)). sim_ram (0x80000000 + of_nat j)"
    by (auto intro: sim_ram_offset)
  show ?thesis
    by (rule sd_copy_detects_corruption [OF sim_spi.spi_port_axioms p c b bad_tape_block n x ram])
qed

section \<open>The console\<close>

text \<open>
  \<open>init_uart\<close> programs the baud rate: for every frequency and rate whose product with
  16 does not wrap to zero it leaves the quotient in the divisor latch, selects eight data
  bits without parity, closes the latch and sends nothing.
\<close>

theorem init_uart_programs_divisor:
  assumes "uart_port b rg V ready busy" and "push_bit 4 baud \<noteq> (0 :: u32)"
  shows "\<exists>s'. init_uart b rg freq baud s = Some s' \<and>
    V s' = (V s)\<lparr>u_lcr := 0x03, u_dll := ucast (freq div push_bit 4 baud),
                 u_dlm := ucast (drop_bit 8 (freq div push_bit 4 baud))\<rparr>"
  using uart_port.init_uart_sets_divisor [OF assms refl] .

theorem init_uart_programs_divisor_witness:
  "\<exists>s'. init_uart (sim_bus sim_xchg) fpga_uart 50000000 115200 sim_start = Some s' \<and>
     u_dll (fst s') = 27 \<and> u_dlm (fst s') = 0"
proof -
  have "push_bit 4 (115200 :: u32) \<noteq> 0" by simp
  from init_uart_programs_divisor [OF sim_uart.uart_port_axioms [of sim_xchg] this, of 50000000 sim_start]
  show ?thesis by force
qed

text \<open>
  \<open>print_uart_int\<close> prints a word in hexadecimal: it returns and sends eight characters
  of the digit table, whose values, most significant first, give the word back.
\<close>

theorem print_uart_int_hex:
  assumes "uart_port b rg V ready busy" and "\<not> dlab (V s)"
  shows "\<exists>s' ds. print_uart_int b rg w s = Some s' \<and>
    u_out (V s') = u_out (V s) @ map (\<lambda>d. bin_to_hex_table ! d) ds \<and>
    length ds = 8 \<and> (\<forall>d \<in> set ds. d < 16) \<and> foldl (\<lambda>a d. 16 * a + d) 0 ds = unat w"
proof -
  obtain s' where 1: "print_uart_int b rg w s = Some s'" "V s' = sent (hex_text w 4) (V s)"
    using uart_port.print_uart_int_sends [OF assms] by blast
  let ?ds = "hex_digits (unat w) 4"
  have "unat w mod 256 ^ 4 = unat w" using unat_u32_less [of w] by simp
  then have "foldl (\<lambda>a d. 16 * a + d) 0 ?ds = unat w" by (simp add: foldl_hex_digits)
  moreover have "length ?ds = 8" using length_hex_text [of w 4] by (simp add: hex_text_digits)
  moreover have "\<forall>d \<in> set (hex_digits v n). d < 16" for v n by (induction n) auto
  ultimately show ?thesis using 1 by (auto simp: hex_text_digits)
qed

theorem print_uart_int_hex_witness:
  "\<exists>s' ds. print_uart_int (sim_bus sim_xchg) fpga_uart 0x1234ABCD sim_start = Some s' \<and>
    u_out (fst s') = map (\<lambda>d. bin_to_hex_table ! d) ds \<and>
    foldl (\<lambda>a d. 16 * a + d) 0 ds = 0x1234ABCD"
proof -
  have "\<not> dlab (fst sim_start)" by (simp add: sim_start_def dlab_def)
  from print_uart_int_hex [OF sim_uart.uart_port_axioms [of sim_xchg] this, of "0x1234ABCD"] show ?thesis
    by (auto simp: sim_start_def)
qed

text \<open>C38. \<open>print_uart_dec\<close> of the OpenPiton ROM prints a number in decimal: it sends the digits
  of the number, most significant first, at least \<open>digits\<close> of them (but not more than ten),
  with no superfluous leading zero, and returns how many it sent.
\<close>

theorem print_uart_dec_decimal:
  assumes "uart_port b rg V ready busy" and "\<not> dlab (V s)"
  shows "\<exists>s' ds. print_uart_dec b rg val digits s = Some (of_nat (length ds), s') \<and>
    u_out (V s') = u_out (V s) @ map dec_char ds \<and> (\<forall>d \<in> set ds. d < 10) \<and>
    foldl (\<lambda>a d. 10 * a + d) 0 ds = unat val \<and>
    min 10 (unat digits) \<le> length ds \<and> length ds \<le> 10 \<and>
    (unat digits < length ds \<longrightarrow> hd ds \<noteq> 0)"
proof -
  have "unat val < 10 ^ 10" using unat_u32_less [of val] by simp
  note spec = dec_text_spec [OF this, of "unat digits"]
  obtain s' where "print_uart_dec b rg val digits s =
        Some (of_nat (length (dec_text 10 (unat digits) (unat val))), s')"
      "V s' = sent (map dec_char (dec_text 10 (unat digits) (unat val))) (V s)"
    using uart_port.print_uart_dec_sends [OF assms] by blast
  with spec show ?thesis
    by (intro exI [of _ s'] exI [of _ "dec_text 10 (unat digits) (unat val)"]) auto
qed

theorem print_uart_dec_decimal_witness:
  "\<exists>s' ds. print_uart_dec (sim_bus sim_xchg) fpga_uart 32768 1 sim_start = Some (of_nat (length ds), s') \<and>
    u_out (fst s') = map dec_char ds \<and> foldl (\<lambda>a d. 10 * a + d) 0 ds = 32768"
proof -
  have "\<not> dlab (fst sim_start)" by (simp add: sim_start_def dlab_def)
  from print_uart_dec_decimal [OF sim_uart.uart_port_axioms [of sim_xchg] this, of 32768 1] show ?thesis
    by (auto simp: sim_start_def)
qed

end
