(* ===== verification/Boot_Piton.thy ===== *)
theory Boot_Piton
  imports Boot_Gpt
begin

text \<open>
  The OpenPiton variant of the boot loader, \<open>openpiton/bootrom/linux/src\<close>: \<open>sd.c\<close>, where
  the SD card is mapped into the address space and \<open>sd_copy\<close> copies 64-bit words with a
  progress report, \<open>gpt.c\<close> and \<open>main.c\<close>. The locale \<open>piton_platform\<close> adds 64-bit
  memory accesses to the UART contract; the main lemma shows that a copy transfers every word.
\<close>

unbundle bit_operations_syntax

section \<open>The memory-mapped card\<close>

definition PITON_SD_BASE_ADDR :: u64 where "PITON_SD_BASE_ADDR = 0xf000000000"

text \<open>A call whose returned count is dropped.\<close>

definition ign :: "('s \<Rightarrow> (u32 \<times> 's) option) \<Rightarrow> 's \<Rightarrow> 's option" where
  "ign f s = map_option snd (f s)"

definition piton_init_sd :: "'s bus \<Rightarrow> uart_regs \<Rightarrow> 's \<Rightarrow> (int \<times> 's) option" where
  "piton_init_sd b rg s =
     do { (_, s) \<leftarrow> piton_print_uart b rg (cstr (''initializing SD... '' @ crlf)) s; Some (0, s) }"

fun backspaces :: "'s bus \<Rightarrow> uart_regs \<Rightarrow> nat \<Rightarrow> 's \<Rightarrow> 's option" where
  "backspaces b rg 0 s = Some s"
| "backspaces b rg (Suc k) s =
     do { (_, s) \<leftarrow> piton_print_uart b rg [0x08] s; backspaces b rg k s }"

text \<open>The progress line, printed for every hundredth block; the result is \<open>num_chars\<close>.\<close>

definition report :: "'s bus \<Rightarrow> uart_regs \<Rightarrow> u32 \<Rightarrow> u32 \<Rightarrow> u32 \<Rightarrow> 's \<Rightarrow> (u32 \<times> 's) option" where
  "report b rg blkno size_blocks num_chars s =
     do { s \<leftarrow> backspaces b rg (unat num_chars) s;
          (n1, s) \<leftarrow> piton_print_uart b rg (cstr ''copying block '') s;
          (n2, s) \<leftarrow> print_uart_dec b rg blkno 1 s;
          (n3, s) \<leftarrow> piton_print_uart b rg (cstr '' of '') s;
          (n4, s) \<leftarrow> print_uart_dec b rg size_blocks 1 s;
          (n5, s) \<leftarrow> piton_print_uart b rg (cstr '' blocks ('') s;
          (n6, s) \<leftarrow> print_uart_dec b rg (blkno * 100 div size_blocks) 1 s;
          (n7, s) \<leftarrow> piton_print_uart b rg (cstr '' %)'') s;
          Some (n1 + n2 + n3 + n4 + n5 + n6 + n7, s) }"

fun copy_words :: "'s bus \<Rightarrow> nat \<Rightarrow> u64 \<Rightarrow> u64 \<Rightarrow> 's \<Rightarrow> 's" where
  "copy_words b 0 p addr s = s"
| "copy_words b (Suc n) p addr s =
     (let (w, s) = rd64 b addr s; s = wr64 b p w s in copy_words b n (p + 8) (addr + 8) s)"

text \<open>The block loop; \<open>n\<close> is the number of blocks left, \<open>size_blocks - n\<close> the block number.\<close>

fun piton_copy_loop ::
  "'s bus \<Rightarrow> uart_regs \<Rightarrow> u32 \<Rightarrow> nat \<Rightarrow> u32 \<Rightarrow> u64 \<Rightarrow> u64 \<Rightarrow> 's \<Rightarrow> 's option" where
  "piton_copy_loop b rg size_blocks 0 num_chars p addr s = Some s"
| "piton_copy_loop b rg size_blocks (Suc n) num_chars p addr s =
     (let blkno = size_blocks - of_nat (Suc n) in
      do { (num_chars, s) \<leftarrow> (if blkno mod 100 = 0 then report b rg blkno size_blocks num_chars s
                              else Some (num_chars, s));
           let s = copy_words b 64 p addr s;
           piton_copy_loop b rg size_blocks n num_chars (p + 512) (addr + 512) s })"

definition piton_sd_copy :: "'s bus \<Rightarrow> uart_regs \<Rightarrow> u64 \<Rightarrow> u32 \<Rightarrow> u32 \<Rightarrow> 's \<Rightarrow> (int \<times> 's) option" where
  "piton_sd_copy b rg dst src_lba size_blocks s =
     (let raw_addr = PITON_SD_BASE_ADDR + push_bit 9 (ucast src_lba) in
      do { s \<leftarrow> piton_copy_loop b rg size_blocks (unat size_blocks) 0 dst raw_addr s;
           (_, s) \<leftarrow> piton_print_uart b rg (cstr crlf) s;
           Some (0, s) })"

section \<open>The loader\<close>

definition piton_field64 :: "'s bus \<Rightarrow> uart_regs \<Rightarrow> u64 \<Rightarrow> 's \<Rightarrow> 's option" where
  "piton_field64 b rg a s = (let (v, s) = rd64 b a s in ign (piton_print_uart_addr b rg v) s)"

definition piton_field32 :: "'s bus \<Rightarrow> uart_regs \<Rightarrow> u64 \<Rightarrow> 's \<Rightarrow> 's option" where
  "piton_field32 b rg a s = (let (v, s) = rd32 b a s in ign (piton_print_uart_int b rg v) s)"

definition piton_field8 :: "'s bus \<Rightarrow> uart_regs \<Rightarrow> u64 \<Rightarrow> 's \<Rightarrow> 's option" where
  "piton_field8 b rg a s = (let (v, s) = rd8 b a s in ign (piton_print_uart_byte b rg v) s)"

definition piton_print_header :: "'s bus \<Rightarrow> uart_regs \<Rightarrow> u64 \<Rightarrow> 's \<Rightarrow> 's option" where
  "piton_print_header b rg lba1 =
     (let pr = (\<lambda>t. ign (piton_print_uart b rg (cstr t))) in
      seqs [pr ''gpt partition table header:'',
        pr (nl_tab @ ''signature:'' @ [CHR 0x09]), piton_field64 b rg (lba1 + off_signature),
        pr (nl_tab @ ''revision:'' @ [CHR 0x09]), piton_field32 b rg (lba1 + off_revision),
        pr (nl_tab @ ''size:'' @ [CHR 0x09, CHR 0x09]), piton_field32 b rg (lba1 + off_header_size),
        pr (nl_tab @ ''crc_header:'' @ [CHR 0x09]), piton_field32 b rg (lba1 + off_crc_header),
        pr (nl_tab @ ''reserved:'' @ [CHR 0x09]), piton_field32 b rg (lba1 + off_reserved),
        pr (nl_tab @ ''current lba:'' @ [CHR 0x09]), piton_field64 b rg (lba1 + off_current_lba),
        pr (nl_tab @ ''backup lda:'' @ [CHR 0x09]), piton_field64 b rg (lba1 + off_backup_lba),
        pr (nl_tab @ ''partition entries lba:   '' @ [CHR 0x09]),
        piton_field64 b rg (lba1 + off_partition_entries_lba),
        pr (nl_tab @ ''number partition entries:'' @ [CHR 0x09]),
        piton_field32 b rg (lba1 + off_nr_partition_entries),
        pr (nl_tab @ ''size partition entries:  '' @ [CHR 0x09]),
        piton_field32 b rg (lba1 + off_size_partition_entry),
        pr crlf])"

definition piton_print_entry :: "'s bus \<Rightarrow> uart_regs \<Rightarrow> u64 \<Rightarrow> nat \<Rightarrow> 's \<Rightarrow> 's option" where
  "piton_print_entry b rg lba2 i =
     (let pr = (\<lambda>t. ign (piton_print_uart b rg (cstr t))); e = lba2 + of_nat i * 128 in
      seqs ([pr ''gpt partition entry '', ign (piton_print_uart_byte b rg (of_nat i)),
        pr (nl_tab @ ''partition type guid:'' @ [CHR 0x09])]
        @ map (\<lambda>j. piton_field8 b rg (e + of_nat j)) [0..<16]
        @ [pr (nl_tab @ ''partition guid:     '' @ [CHR 0x09])]
        @ map (\<lambda>j. piton_field8 b rg (e + off_partition_guid + of_nat j)) [0..<16]
        @ [pr (nl_tab @ ''first lba:'' @ [CHR 0x09]), piton_field64 b rg (e + off_first_lba),
           pr (nl_tab @ ''last lba:'' @ [CHR 0x09]), piton_field64 b rg (e + off_last_lba),
           pr (nl_tab @ ''attributes:'' @ [CHR 0x09]), piton_field64 b rg (e + off_attributes),
           pr (nl_tab @ ''name:'' @ [CHR 0x09])]
        @ map (\<lambda>j. piton_field8 b rg (e + off_name + of_nat j)) [0..<72]
        @ [pr crlf]))"

definition piton_copy_error :: "'s bus \<Rightarrow> uart_regs \<Rightarrow> int \<Rightarrow> 's \<Rightarrow> 's option" where
  "piton_copy_error b rg res =
     seqs [ign (piton_print_uart b rg (cstr (''SD card failed!'' @ crlf))),
       ign (piton_print_uart b rg (cstr ''sd copy return value: '')),
       ign (piton_print_uart_addr b rg (of_int res)),
       ign (piton_print_uart b rg (cstr crlf))]"

definition piton_gpt_find_boot_partition ::
  "'s bus \<Rightarrow> uart_regs \<Rightarrow> boot_frame \<Rightarrow> u64 \<Rightarrow> u32 \<Rightarrow> 's \<Rightarrow> (int \<times> 's) option" where
  "piton_gpt_find_boot_partition b rg fr dest size_blocks s =
     (let pr = (\<lambda>t. ign (piton_print_uart b rg (cstr t))) in
      do { (ret, s) \<leftarrow> piton_init_sd b rg s;
          if ret \<noteq> 0
          then do { s \<leftarrow> pr (''could not initialize sd... exiting'' @ crlf) s; Some (-1, s) }
          else do {
            s \<leftarrow> pr (''sd initialized!'' @ crlf) s;
            (res, s) \<leftarrow> piton_sd_copy b rg (lba1_buf fr) 1 1 s;
            if res \<noteq> 0 then do { s \<leftarrow> piton_copy_error b rg res s; Some (-2, s) }
            else do {
              s \<leftarrow> piton_print_header b rg (lba1_buf fr) s;
              let (lba, s) = rd64 b (lba1_buf fr + off_partition_entries_lba) s;
              (res, s) \<leftarrow> piton_sd_copy b rg (lba2_buf fr) (ucast lba) 1 s;
              if res \<noteq> 0 then do { s \<leftarrow> piton_copy_error b rg res s; Some (-2, s) }
              else do {
                s \<leftarrow> seqs (map (piton_print_entry b rg (lba2_buf fr)) [0..<4]) s;
                s \<leftarrow> pr ''copying boot image '' s;
                s \<leftarrow> pr crlf s;
                let (first, s) = rd64 b (lba2_buf fr + off_first_lba) s;
                (res, s) \<leftarrow> piton_sd_copy b rg dest (ucast first) size_blocks s;
                if res \<noteq> 0 then do { s \<leftarrow> piton_copy_error b rg res s; Some (-2, s) }
                else do { s \<leftarrow> pr ('' done!'' @ crlf) s; Some (0, s) } } } } })"

text \<open>\<open>main\<close> ignores the result and returns to the start-up code, which jumps to DRAM.
  \<open>info\<close> is a generated string.\<close>

definition piton_main :: "'s bus \<Rightarrow> uart_regs \<Rightarrow> u32 \<Rightarrow> u8 list \<Rightarrow> boot_frame \<Rightarrow> 's \<Rightarrow> (int \<times> 's) option" where
  "piton_main b rg uart_freq info fr s =
     do { s \<leftarrow> piton_init_uart b rg uart_freq 115200 s;
          s \<leftarrow> ign (piton_print_uart b rg info) s;
          s \<leftarrow> ign (piton_print_uart b rg (cstr (''sd initialized!'' @ crlf))) s;
          (res, s) \<leftarrow> piton_gpt_find_boot_partition b rg fr 0x80000000 (2 * 16384) s;
          Some (0, s) }"

section \<open>What the platform promises\<close>

text \<open>\<open>p_mem\<close> gives the 64-bit word at an aligned address, in memory or in the card's window.\<close>

record piton_view = uart_view +
  p_mem :: "u64 \<Rightarrow> u64"

locale piton_platform = uart_port b rg V ready busy
  for b :: "'s bus" and rg and V :: "'s \<Rightarrow> 'z piton_view_scheme" and ready and busy +
  fixes mapped writable :: "u64 \<Rightarrow> bool"
  assumes load: "mapped a \<Longrightarrow> rd64 b a s = (w, s') \<Longrightarrow> V s' = V s \<and> w = p_mem (V s) a"
    and store: "writable a \<Longrightarrow> V (wr64 b a w s) = (V s)\<lparr>p_mem := (p_mem (V s))(a := w)\<rparr>"
begin

lemma ign_print_sends:
  "\<not> dlab (V s) \<Longrightarrow> \<exists>s'. ign (piton_print_uart b rg cs) s = Some s' \<and> V s' = sent cs (V s)"
  using piton_print_uart_sends [of s cs] by (auto simp: ign_def)

lemma backspaces_sends:
  "\<not> dlab (V s) \<Longrightarrow> \<exists>s' t. backspaces b rg n s = Some s' \<and> V s' = sent t (V s)"
proof (induction n arbitrary: s)
  case 0
  show ?case by (rule exI [of _ s], rule exI [of _ "[]"]) simp
next
  case (Suc n)
  obtain s1 k where 1: "piton_print_uart b rg [0x08] s = Some (k, s1)" "V s1 = sent [0x08] (V s)"
    using piton_print_uart_sends [OF Suc.prems] by blast
  with Suc.IH [of s1] Suc.prems obtain s2 t where "backspaces b rg n s1 = Some s2" "V s2 = sent t (V s1)"
    by auto
  with 1 show ?case by auto
qed

lemma report_sends:
  assumes d: "\<not> dlab (V s)"
  shows "\<exists>n s' t. report b rg k sz num s = Some (n, s') \<and> V s' = sent t (V s)"
proof -
  have pr: "\<exists>n s' t. piton_print_uart b rg cs s = Some (n, s') \<and> V s' = sent t (V s)"
    if "\<not> dlab (V s)" for cs s using piton_print_uart_sends [OF that] by blast
  have pd: "\<exists>n s' t. print_uart_dec b rg x 1 s = Some (n, s') \<and> V s' = sent t (V s)"
    if "\<not> dlab (V s)" for x s using print_uart_dec_sends [OF that] by blast
  obtain s0 t0 where 0: "backspaces b rg (unat num) s = Some s0" "V s0 = sent t0 (V s)"
    using backspaces_sends [OF d] by blast
  have d0: "\<not> dlab (V s0)" using d 0 by simp
  obtain n1 s1 t1 where 1: "piton_print_uart b rg (cstr ''copying block '') s0 = Some (n1, s1)" "V s1 = sent t1 (V s0)"
    using pr [OF d0] by blast
  have d1: "\<not> dlab (V s1)" using d0 1 by simp
  obtain n2 s2 t2 where 2: "print_uart_dec b rg k 1 s1 = Some (n2, s2)" "V s2 = sent t2 (V s1)"
    using pd [OF d1] by blast
  have d2: "\<not> dlab (V s2)" using d1 2 by simp
  obtain n3 s3 t3 where 3: "piton_print_uart b rg (cstr '' of '') s2 = Some (n3, s3)" "V s3 = sent t3 (V s2)"
    using pr [OF d2] by blast
  have d3: "\<not> dlab (V s3)" using d2 3 by simp
  obtain n4 s4 t4 where 4: "print_uart_dec b rg sz 1 s3 = Some (n4, s4)" "V s4 = sent t4 (V s3)"
    using pd [OF d3] by blast
  have d4: "\<not> dlab (V s4)" using d3 4 by simp
  obtain n5 s5 t5 where 5: "piton_print_uart b rg (cstr '' blocks ('') s4 = Some (n5, s5)" "V s5 = sent t5 (V s4)"
    using pr [OF d4] by blast
  have d5: "\<not> dlab (V s5)" using d4 5 by simp
  obtain n6 s6 t6 where 6: "print_uart_dec b rg (k * 100 div sz) 1 s5 = Some (n6, s6)" "V s6 = sent t6 (V s5)"
    using pd [OF d5] by blast
  have d6: "\<not> dlab (V s6)" using d5 6 by simp
  obtain n7 s7 t7 where 7: "piton_print_uart b rg (cstr '' %)'') s6 = Some (n7, s7)" "V s7 = sent t7 (V s6)"
    using pr [OF d6] by blast
  have "report b rg k sz num s = Some (n1 + n2 + n3 + n4 + n5 + n6 + n7, s7)"
    unfolding report_def 0(1) 1(1) 2(1) 3(1) 4(1) 5(1) 6(1) 7(1) Option.bind.simps prod.case ..
  moreover have "V s7 = sent (t0 @ t1 @ t2 @ t3 @ t4 @ t5 @ t6 @ t7) (V s)"
    by (simp add: 0 1 2 3 4 5 6 7)
  ultimately show ?thesis by blast
qed

end

text \<open>The effect of a copy on the words of memory.\<close>

fun put_words :: "(u64 \<Rightarrow> u64) \<Rightarrow> nat \<Rightarrow> u64 \<Rightarrow> u64 \<Rightarrow> (u64 \<Rightarrow> u64)" where
  "put_words m 0 p a = m"
| "put_words m (Suc n) p a = put_words (m(p := m a)) n (p + 8) (a + 8)"

lemma put_words_add:
  "put_words m (n + k) p a = put_words (put_words m n p a) k (p + 8 * of_nat n) (a + 8 * of_nat n)"
  by (induction n arbitrary: m p a) (auto simp: algebra_simps)

lemma put_words_other: "\<forall>j < n. p + 8 * of_nat j \<noteq> x \<Longrightarrow> put_words m n p a x = m x"
proof (induction n arbitrary: m p a)
  case (Suc n)
  have "p \<noteq> x" using Suc.prems [rule_format, of 0] by simp
  moreover have "\<forall>j < n. p + 8 + 8 * of_nat j \<noteq> x"
    using Suc.prems [rule_format, of "Suc _"] by (auto simp: algebra_simps)
  ultimately show ?case using Suc.IH by simp
qed simp

text \<open>When source and target do not meet, every source word arrives.\<close>

lemma put_words_copies:
  assumes "\<forall>i < n. \<forall>j < n. p + 8 * of_nat i \<noteq> a + 8 * of_nat j"
    and "\<forall>i < n. \<forall>j < n. i \<noteq> j \<longrightarrow> p + 8 * of_nat i \<noteq> p + 8 * (of_nat j :: u64)"
    and "k < n"
  shows "put_words m n p a (p + 8 * of_nat k) = m (a + 8 * of_nat k)"
proof -
  have n: "n = k + (1 + (n - k - 1))" using assms(3) by simp
  let ?m1 = "put_words m k p a"
  let ?m2 = "put_words ?m1 1 (p + 8 * of_nat k) (a + 8 * of_nat k)"
  have e: "put_words m n p a = put_words ?m2 (n - k - 1) (p + 8 * of_nat (k + 1)) (a + 8 * of_nat (k + 1))"
    by (subst n) (simp only: put_words_add, simp add: algebra_simps)
  have "put_words ?m2 (n - k - 1) (p + 8 * of_nat (k + 1)) (a + 8 * of_nat (k + 1)) (p + 8 * of_nat k) =
      ?m2 (p + 8 * of_nat k)"
  proof (rule put_words_other, intro allI impI)
    fix j assume "j < n - k - 1"
    then have "k + 1 + j < n" by linarith
    then have "p + 8 * of_nat (k + 1 + j) \<noteq> p + 8 * (of_nat k :: u64)"
      using assms(2) [rule_format, of "k + 1 + j" k] assms(3) by simp
    then show "p + 8 * of_nat (k + 1) + 8 * of_nat j \<noteq> p + 8 * (of_nat k :: u64)"
      by (simp add: algebra_simps)
  qed
  also have "\<dots> = ?m1 (a + 8 * of_nat k)" by simp
  also have "\<dots> = m (a + 8 * of_nat k)"
    by (rule put_words_other) (use assms(1,3) in auto)
  finally show ?thesis by (simp only: e)
qed

context piton_platform
begin

lemma copy_words_copies:
  assumes "\<forall>j < n. mapped (a + 8 * of_nat j)" "\<forall>j < n. writable (p + 8 * of_nat j)"
  shows "V (copy_words b n p a s) = (V s)\<lparr>p_mem := put_words (p_mem (V s)) n p a\<rparr>"
  using assms
proof (induction n arbitrary: p a s)
  case (Suc n)
  obtain w s1 where r: "rd64 b a s = (w, s1)" by fastforce
  have "mapped a" "writable p" using Suc.prems by (auto dest!: spec [of _ 0])
  with load [OF _ r] store [of p w s1]
  have 1: "V (wr64 b p w s1) = (V s)\<lparr>p_mem := (p_mem (V s))(p := p_mem (V s) a)\<rparr>" by auto
  have "\<forall>j < n. mapped (a + 8 + 8 * of_nat j)" "\<forall>j < n. writable (p + 8 + 8 * of_nat j)"
    using Suc.prems(1) [rule_format, of "Suc _"] Suc.prems(2) [rule_format, of "Suc _"]
    by (auto simp: algebra_simps)
  from Suc.IH [OF this] show ?case by (simp add: r 1 del: fun_upd_apply)
qed simp

lemma copy_loop_copies:
  assumes "\<not> dlab (V s)" "\<forall>j < 64 * n. mapped (a + 8 * of_nat j)" "\<forall>j < 64 * n. writable (p + 8 * of_nat j)"
  shows "\<exists>s' t. piton_copy_loop b rg sz n num p a s = Some s' \<and>
    V s' = sent t ((V s)\<lparr>p_mem := put_words (p_mem (V s)) (64 * n) p a\<rparr>)"
  using assms
proof (induction n arbitrary: s num p a)
  case 0
  show ?case by (rule exI [of _ s], rule exI [of _ "[]"]) simp
next
  case (Suc n)
  let ?k = "sz - of_nat (Suc n)"
  obtain num1 s1 t1 where 1: "(if ?k mod 100 = 0 then report b rg ?k sz num s else Some (num, s)) =
      Some (num1, s1)" "V s1 = sent t1 (V s)"
  proof (cases "?k mod 100 = 0")
    case True
    with report_sends [OF Suc.prems(1), of ?k sz num] that show ?thesis by auto
  next
    case False
    with that [of num s "[]"] show ?thesis by simp
  qed
  define s2 where "s2 = copy_words b 64 p a s1"
  have 2: "V s2 = (V s1)\<lparr>p_mem := put_words (p_mem (V s1)) 64 p a\<rparr>"
    unfolding s2_def by (rule copy_words_copies) (use Suc.prems in auto)
  have sh: "x + 512 + 8 * of_nat j = x + 8 * of_nat (64 + j)" for x :: u64 and j by simp
  have "\<exists>s' t. piton_copy_loop b rg sz n num1 (p + 512) (a + 512) s2 = Some s' \<and>
    V s' = sent t ((V s2)\<lparr>p_mem := put_words (p_mem (V s2)) (64 * n) (p + 512) (a + 512)\<rparr>)"
  proof (rule Suc.IH)
    show "\<not> dlab (V s2)" using Suc.prems(1) by (simp add: 2 1 dlab_def sent_def)
    show "\<forall>j < 64 * n. mapped (a + 512 + 8 * of_nat j)" "\<forall>j < 64 * n. writable (p + 512 + 8 * of_nat j)"
      unfolding sh using Suc.prems(2) [rule_format, of "64 + _"] Suc.prems(3) [rule_format, of "64 + _"]
      by auto
  qed
  then obtain s3 t3 where 3: "piton_copy_loop b rg sz n num1 (p + 512) (a + 512) s2 = Some s3"
    "V s3 = sent t3 ((V s2)\<lparr>p_mem := put_words (p_mem (V s2)) (64 * n) (p + 512) (a + 512)\<rparr>)" by blast
  have "put_words m (64 * Suc n) p a = put_words (put_words m 64 p a) (64 * n) (p + 512) (a + 512)" for m
    using put_words_add [of m 64 "64 * n" p a] by simp
  then have "V s3 = sent (t1 @ t3) ((V s)\<lparr>p_mem := put_words (p_mem (V s)) (64 * Suc n) p a\<rparr>)"
    by (simp only: 3 2 1) (simp add: sent_def)
  moreover have "piton_copy_loop b rg sz (Suc n) num p a s = Some s3"
    unfolding piton_copy_loop.simps Let_def 1(1) Option.bind.simps prod.case s2_def [symmetric] 3(1) ..
  ultimately show ?case by blast
qed

lemma sd_copy_copies:
  assumes "\<not> dlab (V s)" and src: "src = PITON_SD_BASE_ADDR + push_bit 9 (ucast lba)"
    and "\<forall>j < 64 * unat n. mapped (src + 8 * of_nat j)" "\<forall>j < 64 * unat n. writable (dst + 8 * of_nat j)"
  shows "\<exists>s' t. piton_sd_copy b rg dst lba n s = Some (0, s') \<and>
    V s' = sent t ((V s)\<lparr>p_mem := put_words (p_mem (V s)) (64 * unat n) dst src\<rparr>)"
proof -
  obtain s1 t1 where 1: "piton_copy_loop b rg n (unat n) 0 dst src s = Some s1"
    "V s1 = sent t1 ((V s)\<lparr>p_mem := put_words (p_mem (V s)) (64 * unat n) dst src\<rparr>)"
    using copy_loop_copies [OF assms(1,3,4)] by blast
  have "\<not> dlab (V s1)" using assms(1) by (simp add: 1 dlab_def sent_def)
  then obtain k s2 where 2: "piton_print_uart b rg (cstr crlf) s1 = Some (k, s2)" "V s2 = sent (cstr crlf) (V s1)"
    using piton_print_uart_sends by blast
  have "piton_sd_copy b rg dst lba n s = Some (0, s2)"
    by (simp add: piton_sd_copy_def src [symmetric] 1 2 Let_def)
  with 1 2 show ?thesis by auto
qed

end

section \<open>A concrete platform\<close>

definition psim_rd8 :: "u64 \<Rightarrow> piton_view \<times> nat \<Rightarrow> u8 \<times> (piton_view \<times> nat)" where
  "psim_rd8 a = (\<lambda>(v, k). if k = 0 then (0x60, (v, 0)) else (0, (v, k - 1)))"

definition psim_wr8 :: "u64 \<Rightarrow> u8 \<Rightarrow> piton_view \<times> nat \<Rightarrow> piton_view \<times> nat" where
  "psim_wr8 a x = (\<lambda>(v, k).
     if a = 0xFFF0C2C000 then (if dlab v then (v\<lparr>u_dll := x\<rparr>, k) else (sent [x] v, 2))
     else if a = 0xFFF0C2C001 then (if dlab v then (v\<lparr>u_dlm := x\<rparr>, k) else (v, k))
     else if a = 0xFFF0C2C003 then (v\<lparr>u_lcr := x\<rparr>, k) else (v, k))"

definition psim_bus :: "(piton_view \<times> nat) bus" where
  "psim_bus = \<lparr>rd8 = psim_rd8, wr8 = psim_wr8, rd32 = (\<lambda>_ s. (0, s)), wr32 = (\<lambda>_ _ s. s),
     rd64 = (\<lambda>a (v, k). (p_mem v a, (v, k))),
     wr64 = (\<lambda>a w (v, k). (v\<lparr>p_mem := (p_mem v)(a := w)\<rparr>, k))\<rparr>"

interpretation psim: piton_platform psim_bus piton_uart fst "\<lambda>(v, k). k = 0" snd "\<lambda>_. True" "\<lambda>_. True"
  by unfold_locales
    (auto simp: psim_bus_def piton_uart_def psim_rd8_def psim_wr8_def split: prod.splits if_splits)

section \<open>Properties\<close>

lemma word_slots_distinct:
  assumes "i < n" "j < n" "n \<le> 2 ^ 60" "p + 8 * of_nat i = p + 8 * (of_nat j :: u64)"
  shows "i = j"
proof -
  have "(of_nat (8 * i) :: u64) = of_nat (8 * j)" using assms(4) by simp
  then have "unat (of_nat (8 * i) :: u64) = unat (of_nat (8 * j) :: u64)" by simp
  moreover have "8 * i < 2 ^ 64" "8 * j < 2 ^ 64" using assms by auto
  ultimately show ?thesis by (simp add: unat_of_nat take_bit_nat_eq_self del: of_nat_mult)
qed

text \<open>
  C13. The OpenPiton block copy is complete. On every platform that keeps the contract,
  \<open>sd_copy\<close> returns 0 after any number of progress reports, and each of the 64 words of
  each of the \<open>n\<close> blocks from block \<open>lba\<close> of the card's window on is in memory at its
  place, provided the destination does not overlap the source.
\<close>

theorem piton_sd_copy_complete:
  assumes pp: "piton_platform b rg V ready busy mapped writable" and d: "\<not> dlab (V s)"
    and src: "src = PITON_SD_BASE_ADDR + push_bit 9 (ucast lba)"
    and m: "\<forall>j < 64 * unat n. mapped (src + 8 * of_nat j)"
    and w: "\<forall>j < 64 * unat n. writable (dst + 8 * of_nat j)"
    and apart: "\<forall>i < 64 * unat n. \<forall>j < 64 * unat n. dst + 8 * of_nat i \<noteq> src + 8 * of_nat j"
  shows "\<exists>s'. piton_sd_copy b rg dst lba n s = Some (0, s') \<and>
    (\<forall>k < 64 * unat n. p_mem (V s') (dst + 8 * of_nat k) = p_mem (V s) (src + 8 * of_nat k))"
proof -
  obtain s' t where 1: "piton_sd_copy b rg dst lba n s = Some (0, s')"
    "V s' = sent t ((V s)\<lparr>p_mem := put_words (p_mem (V s)) (64 * unat n) dst src\<rparr>)"
    using piton_platform.sd_copy_copies [OF pp d src m w] by blast
  have "64 * unat n \<le> 2 ^ 60" using unat_u32_less [of n] by simp
  then have "\<forall>i < 64 * unat n. \<forall>j < 64 * unat n. i \<noteq> j \<longrightarrow>
      dst + 8 * of_nat i \<noteq> dst + 8 * (of_nat j :: u64)"
    using word_slots_distinct by blast
  from put_words_copies [OF apart this] 1 show ?thesis by (auto simp: sent_def)
qed

definition psim_start :: "piton_view \<times> nat" where
  "psim_start = (\<lparr>u_out = [], u_lcr = 3, u_dll = 0, u_dlm = 0, p_mem = (\<lambda>a. a + 1)\<rparr>, 0)"

theorem piton_sd_copy_complete_witness:
  "\<exists>s'. piton_sd_copy psim_bus piton_uart 0x80000000 1 1 psim_start = Some (0, s') \<and>
    p_mem (fst s') (0x80000000 + 8 * of_nat 63) = 0xf000000200 + 504 + 1"
proof -
  let ?src = "PITON_SD_BASE_ADDR + push_bit 9 (ucast (1 :: u32))"
  have src: "?src = 0xf000000200" by (simp add: PITON_SD_BASE_ADDR_def)
  have d: "\<not> dlab (fst psim_start)" by (simp add: psim_start_def dlab_def)
  have small: "unat (8 * of_nat i :: u64) = 8 * i" if "i < 64" for i
  proof -
    have "(8 * of_nat i :: u64) = of_nat (8 * i)" by simp
    then show ?thesis using that by (simp add: unat_of_nat take_bit_nat_eq_self del: of_nat_mult)
  qed
  have "0x80000000 + 8 * of_nat i \<noteq> ?src + 8 * (of_nat j :: u64)" if "i < 64" "j < 64" for i j
  proof -
    have "unat (0x80000000 + 8 * of_nat i :: u64) = 0x80000000 + 8 * i"
      "unat (0xf000000200 + 8 * of_nat j :: u64) = 0xf000000200 + 8 * j"
      using that by (simp_all add: unat_word_ariths(1) small)
    moreover have "0x80000000 + 8 * i < 0xf000000200 + 8 * j" using that by linarith
    ultimately have "unat (0x80000000 + 8 * of_nat i :: u64) \<noteq> unat (0xf000000200 + 8 * of_nat j :: u64)"
      by linarith
    then show ?thesis unfolding src by metis
  qed
  then have apart: "\<forall>i < 64 * unat (1 :: u32). \<forall>j < 64 * unat (1 :: u32).
      0x80000000 + 8 * of_nat i \<noteq> ?src + 8 * (of_nat j :: u64)" by simp
  from piton_sd_copy_complete [OF psim.piton_platform_axioms d refl _ _ apart]
  obtain s' where 1: "piton_sd_copy psim_bus piton_uart 0x80000000 1 1 psim_start = Some (0, s')"
      "\<forall>k < 64 * unat (1 :: u32). p_mem (fst s') (0x80000000 + 8 * of_nat k) =
         p_mem (fst psim_start) (?src + 8 * of_nat k)"
    by blast
  have "p_mem (fst s') (0x80000000 + 8 * of_nat 63) = p_mem (fst psim_start) (?src + 8 * of_nat 63)"
    using 1(2) [rule_format, of 63] by simp
  also have "\<dots> = 0xf000000200 + 504 + 1" unfolding src by (simp add: psim_start_def)
  finally show ?thesis using 1(1) by blast
qed

end
