(* ===== verification/Bsp_Plic.thy ===== *)
theory Bsp_Plic
  imports Boot_Uart
begin

text \<open>
  The interrupt controller of the board support package: \<open>sw/bsp/hal/plic.h\<close>, over the
  same bus as the boot ROM. The processor is the 32-bit CV32A6, so pointers are 32-bit words
  that the bus sees zero-extended. The register addresses are computed from the member sizes
  of \<open>PLIC_Type\<close>, as the compiler does. The hardware side is the generated register
  decoder \<open>src/rv_plic/rtl/plic_regmap.sv\<close>; on it the enable and priority registers
  behave as the driver expects, while the threshold and claim registers of the driver lie at
  addresses that the decoder does not know.
\<close>

unbundle bit_operations_syntax

section \<open>32-bit accesses\<close>

definition ld8 :: "'s bus \<Rightarrow> u32 \<Rightarrow> 's \<Rightarrow> u8 \<times> 's" where "ld8 b a = rd8 b (ucast a)"
definition st8 :: "'s bus \<Rightarrow> u32 \<Rightarrow> u8 \<Rightarrow> 's \<Rightarrow> 's" where "st8 b a = wr8 b (ucast a)"
definition ld32 :: "'s bus \<Rightarrow> u32 \<Rightarrow> 's \<Rightarrow> u32 \<times> 's" where "ld32 b a = rd32 b (ucast a)"
definition st32 :: "'s bus \<Rightarrow> u32 \<Rightarrow> u32 \<Rightarrow> 's \<Rightarrow> 's" where "st32 b a = wr32 b (ucast a)"

text \<open>The control and status registers that the driver uses: reading \<open>mhartid\<close>, setting
  bits of \<open>mie\<close>.\<close>

record 's csrs =
  mhartid :: "'s \<Rightarrow> u32"
  set_mie :: "u32 \<Rightarrow> 's \<Rightarrow> 's"

section \<open>PLIC_Type\<close>

definition PLIC_SET_UP_REGISTERS :: u32 where "PLIC_SET_UP_REGISTERS = 2"
definition PLIC_NUM_SOURCES :: u32 where "PLIC_NUM_SOURCES = 30"
definition NUM_CLAIM_REGS :: u32 where "NUM_CLAIM_REGS = 2"
definition PLIC_BASE_ADDR :: u32 where "PLIC_BASE_ADDR = 0x0C000000"
definition NoInterrupt_IRQHandler :: u32 where "NoInterrupt_IRQHandler = 0"
definition UART_0_PLIC_IRQHandler :: u32 where "UART_0_PLIC_IRQHandler = 1"
definition MAX_PLIC_INT :: u32 where "MAX_PLIC_INT = 30"
definition TARGET_OFFSET_HART0_M :: u32 where "TARGET_OFFSET_HART0_M = 0"
definition TARGET_OFFSET_HART0_S :: u32 where "TARGET_OFFSET_HART0_S = 1"
definition MIP_MEIP :: u32 where "MIP_MEIP = 0x800"

text \<open>Each member starts where the one before it ends.\<close>

definition off_SOURCE_PRIORITY :: u32 where "off_SOURCE_PRIORITY = 4"
definition off_RESERVED1 :: u32 where "off_RESERVED1 = off_SOURCE_PRIORITY + 4 * PLIC_NUM_SOURCES"
definition off_PENDING_ARRAY :: u32 where
  "off_PENDING_ARRAY = off_RESERVED1 + 4 * (0x1000 div 4 - (PLIC_NUM_SOURCES + 1))"
definition off_RESERVED2 :: u32 where "off_RESERVED2 = off_PENDING_ARRAY + 4 * PLIC_SET_UP_REGISTERS"
definition off_HART0_MMODE_ENA :: u32 where
  "off_HART0_MMODE_ENA = off_RESERVED2 + 4 * (0x1000 div 4 - PLIC_SET_UP_REGISTERS)"
definition off_RESERVED3a :: u32 where "off_RESERVED3a = off_HART0_MMODE_ENA + 4 * PLIC_SET_UP_REGISTERS"
definition off_HART0_SMODE_ENA :: u32 where
  "off_HART0_SMODE_ENA = off_RESERVED3a + 4 * (0x80 div 4 - PLIC_SET_UP_REGISTERS)"
definition off_RESERVED3 :: u32 where "off_RESERVED3 = off_HART0_SMODE_ENA + 4 * PLIC_SET_UP_REGISTERS"
definition off_RESERVED4 :: u32 where
  "off_RESERVED4 = off_RESERVED3 + 4 * (0x80 div 4 - PLIC_SET_UP_REGISTERS)"
definition off_TARGET :: u32 where
  "off_TARGET = off_RESERVED4 + 4 * ((0x200000 - 0x2000) div 4 - PLIC_SET_UP_REGISTERS)"
definition sizeof_IRQ_Target_Type :: u32 where
  "sizeof_IRQ_Target_Type = 4 + 4 + 4 * (0x1000 div 4 - 2)"

definition SOURCE_PRIORITY :: "u32 \<Rightarrow> u32" where
  "SOURCE_PRIORITY i = PLIC_BASE_ADDR + off_SOURCE_PRIORITY + 4 * i"
definition HART0_MMODE_ENA :: "u32 \<Rightarrow> u32" where
  "HART0_MMODE_ENA i = PLIC_BASE_ADDR + off_HART0_MMODE_ENA + 4 * i"
definition HART0_SMODE_ENA :: "u32 \<Rightarrow> u32" where
  "HART0_SMODE_ENA i = PLIC_BASE_ADDR + off_HART0_SMODE_ENA + 4 * i"
definition PRIORITY_THRESHOLD :: "u32 \<Rightarrow> u32" where
  "PRIORITY_THRESHOLD t = PLIC_BASE_ADDR + off_TARGET + sizeof_IRQ_Target_Type * t"
definition CLAIM_COMPLETE :: "u32 \<Rightarrow> u32" where
  "CLAIM_COMPLETE t = PLIC_BASE_ADDR + off_TARGET + sizeof_IRQ_Target_Type * t + 4"

section \<open>The driver\<close>

definition PLIC_init :: "'s bus \<Rightarrow> 's csrs \<Rightarrow> 's \<Rightarrow> 's" where
  "PLIC_init b k s =
     (let s = fold (\<lambda>inc s. st32 b (HART0_SMODE_ENA inc) 0 (st32 b (HART0_MMODE_ENA inc) 0 s))
                [0, 1] s;
          s = st32 b (PRIORITY_THRESHOLD TARGET_OFFSET_HART0_M) 0 s;
          s = st32 b (PRIORITY_THRESHOLD TARGET_OFFSET_HART0_S) 7 s
      in set_mie k MIP_MEIP s)"

definition PLIC_EnableIRQ :: "'s bus \<Rightarrow> 's csrs \<Rightarrow> u32 \<Rightarrow> 's \<Rightarrow> 's" where
  "PLIC_EnableIRQ b k IRQn s =
     (if mhartid k s = 0
      then let (current, s) = ld32 b (HART0_MMODE_ENA (IRQn div 32)) s;
               current = current OR push_bit (unat (IRQn mod 32)) 1
           in st32 b (HART0_MMODE_ENA (IRQn div 32)) current s
      else s)"

definition PLIC_DisableIRQ :: "'s bus \<Rightarrow> 's csrs \<Rightarrow> u32 \<Rightarrow> 's \<Rightarrow> 's" where
  "PLIC_DisableIRQ b k IRQn s =
     (if mhartid k s = 0
      then let (current, s) = ld32 b (HART0_MMODE_ENA (IRQn div 32)) s;
               current = current AND NOT (push_bit (unat (IRQn mod 32)) 1)
           in st32 b (HART0_MMODE_ENA (IRQn div 32)) current s
      else s)"

definition PLIC_SetPriority :: "'s bus \<Rightarrow> u32 \<Rightarrow> u32 \<Rightarrow> 's \<Rightarrow> 's" where
  "PLIC_SetPriority b IRQn priority s =
     (if IRQn > NoInterrupt_IRQHandler \<and> IRQn < PLIC_NUM_SOURCES
      then st32 b (SOURCE_PRIORITY (IRQn - 1)) priority s else s)"

definition PLIC_GetPriority :: "'s bus \<Rightarrow> u32 \<Rightarrow> 's \<Rightarrow> u32 \<times> 's" where
  "PLIC_GetPriority b IRQn s =
     (if IRQn > NoInterrupt_IRQHandler \<and> IRQn < PLIC_NUM_SOURCES
      then ld32 b (SOURCE_PRIORITY (IRQn - 1)) s else (0, s))"

definition PLIC_ClaimIRQ :: "'s bus \<Rightarrow> 's csrs \<Rightarrow> 's \<Rightarrow> u32 \<times> 's" where
  "PLIC_ClaimIRQ b k s = ld32 b (CLAIM_COMPLETE (mhartid k s)) s"

definition PLIC_CompleteIRQ :: "'s bus \<Rightarrow> 's csrs \<Rightarrow> u32 \<Rightarrow> 's \<Rightarrow> 's" where
  "PLIC_CompleteIRQ b k source s = st32 b (CLAIM_COMPLETE (mhartid k s)) source s"

definition PLIC_SetPriority_Threshold :: "'s bus \<Rightarrow> 's csrs \<Rightarrow> u32 \<Rightarrow> 's \<Rightarrow> 's" where
  "PLIC_SetPriority_Threshold b k threshold s =
     st32 b (PRIORITY_THRESHOLD (mhartid k s)) threshold s"

text \<open>The loop that completes claimed interrupts until none is left; it may run forever. The
  delay loop has no effect in the model.\<close>

partial_function (option) PLIC_clear_loop :: "'s bus \<Rightarrow> 's csrs \<Rightarrow> u32 \<Rightarrow> 's \<Rightarrow> 's option" where
  "PLIC_clear_loop b k int_num s =
     (if int_num \<noteq> NoInterrupt_IRQHandler
      then PLIC_clear_loop b k (fst (PLIC_ClaimIRQ b k (PLIC_CompleteIRQ b k int_num s)))
             (snd (PLIC_ClaimIRQ b k (PLIC_CompleteIRQ b k int_num s)))
      else Some s)"

definition PLIC_ClearPendingIRQ :: "'s bus \<Rightarrow> 's csrs \<Rightarrow> 's \<Rightarrow> 's option" where
  "PLIC_ClearPendingIRQ b k s = (let (int_num, s) = PLIC_ClaimIRQ b k s in PLIC_clear_loop b k int_num s)"

definition PLIC_init_on_reset :: "'s bus \<Rightarrow> 's csrs \<Rightarrow> 's \<Rightarrow> 's option" where
  "PLIC_init_on_reset b k s =
     (let s = fold (\<lambda>inc. st32 b (SOURCE_PRIORITY (of_nat inc)) 0) [0..<unat PLIC_NUM_SOURCES] s;
          s = fold (\<lambda>inc. st32 b (PRIORITY_THRESHOLD (of_nat inc)) 7) [0..<unat NUM_CLAIM_REGS] s;
          s = fold (\<lambda>inc s. st32 b (HART0_SMODE_ENA (of_nat inc)) 0 (st32 b (HART0_MMODE_ENA (of_nat inc)) 0 s))
                [0..<unat PLIC_SET_UP_REGISTERS] s
      in PLIC_ClearPendingIRQ b k s)"

section \<open>The register decoder of the hardware\<close>

text \<open>
  Priorities (3 bits) of sources 0 to 30, enables (31 bits), thresholds (3 bits) and the
  interrupt offered to each of the two targets. The effects of a claim and of a completion on
  the gateways are left to the functions \<open>on_claim\<close> and \<open>on_complete\<close>. An address
  that is not decoded is answered with the error flag and the data 0 and changes no register.
\<close>

record plic_hw =
  prio :: "nat \<Rightarrow> u32"
  ie :: "nat \<Rightarrow> u32"
  threshold :: "nat \<Rightarrow> u32"
  cc :: "nat \<Rightarrow> u32"

definition plic_reg_write :: "(nat \<Rightarrow> u32 \<Rightarrow> plic_hw \<Rightarrow> plic_hw) \<Rightarrow> u64 \<Rightarrow> u32 \<Rightarrow> plic_hw \<Rightarrow> plic_hw" where
  "plic_reg_write on_complete a w h =
     (if 0xc000000 \<le> a \<and> a \<le> 0xc000078 \<and> a mod 4 = 0
      then h\<lparr>prio := (prio h)(unat ((a - 0xc000000) div 4) := w AND mask 3)\<rparr>
      else if a = 0xc002000 then h\<lparr>ie := (ie h)(0 := w AND mask 31)\<rparr>
      else if a = 0xc002080 then h\<lparr>ie := (ie h)(1 := w AND mask 31)\<rparr>
      else if a = 0xc200000 then h\<lparr>threshold := (threshold h)(0 := w AND mask 3)\<rparr>
      else if a = 0xc201000 then h\<lparr>threshold := (threshold h)(1 := w AND mask 3)\<rparr>
      else if a = 0xc200004 then on_complete 0 (w AND mask 5) h
      else if a = 0xc201004 then on_complete 1 (w AND mask 5) h
      else h)"

definition plic_reg_read :: "(nat \<Rightarrow> plic_hw \<Rightarrow> plic_hw) \<Rightarrow> (plic_hw \<Rightarrow> u32) \<Rightarrow> u64 \<Rightarrow> plic_hw \<Rightarrow> u32 \<times> plic_hw" where
  "plic_reg_read on_claim ip a h =
     (if 0xc000000 \<le> a \<and> a \<le> 0xc000078 \<and> a mod 4 = 0
      then (prio h (unat ((a - 0xc000000) div 4)), h)
      else if a = 0xc001000 then (ip h, h)
      else if a = 0xc002000 then (ie h 0, h)
      else if a = 0xc002080 then (ie h 1, h)
      else if a = 0xc200000 then (threshold h 0, h)
      else if a = 0xc201000 then (threshold h 1, h)
      else if a = 0xc200004 then (cc h 0, on_claim 0 h)
      else if a = 0xc201004 then (cc h 1, on_claim 1 h)
      else (0, h))"

text \<open>A bus with this decoder in the window of the interrupt controller.\<close>

definition plic_window :: "u64 \<Rightarrow> bool" where
  "plic_window a \<longleftrightarrow> 0x0C000000 \<le> a \<and> a < 0x10000000"

locale plic_port =
  fixes b :: "'s bus" and P :: "'s \<Rightarrow> plic_hw"
    and on_claim :: "nat \<Rightarrow> plic_hw \<Rightarrow> plic_hw"
    and on_complete :: "nat \<Rightarrow> u32 \<Rightarrow> plic_hw \<Rightarrow> plic_hw"
    and ip :: "plic_hw \<Rightarrow> u32"
  assumes window_write: "plic_window a \<Longrightarrow> P (wr32 b a w s) = plic_reg_write on_complete a w (P s)"
    and window_read: "plic_window a \<Longrightarrow> rd32 b a s = (w, s') \<Longrightarrow>
      plic_reg_read on_claim ip a (P s) = (w, P s')"

definition plic_bus ::
  "(nat \<Rightarrow> plic_hw \<Rightarrow> plic_hw) \<Rightarrow> (nat \<Rightarrow> u32 \<Rightarrow> plic_hw \<Rightarrow> plic_hw) \<Rightarrow> (plic_hw \<Rightarrow> u32) \<Rightarrow> plic_hw bus" where
  "plic_bus on_claim on_complete ip =
     \<lparr>rd8 = (\<lambda>_ h. (0, h)), wr8 = (\<lambda>_ _ h. h), rd32 = plic_reg_read on_claim ip,
      wr32 = plic_reg_write on_complete, rd64 = (\<lambda>_ h. (0, h)), wr64 = (\<lambda>_ _ h. h)\<rparr>"

interpretation plic_hardware: plic_port "plic_bus on_claim on_complete ip" "\<lambda>h. h" on_claim on_complete ip
  for on_claim on_complete ip
  by unfold_locales (simp_all add: plic_bus_def)

section \<open>Where the driver's registers are\<close>

lemmas plic_offsets = off_SOURCE_PRIORITY_def off_RESERVED1_def off_PENDING_ARRAY_def off_RESERVED2_def
  off_HART0_MMODE_ENA_def off_RESERVED3a_def off_HART0_SMODE_ENA_def off_RESERVED3_def off_RESERVED4_def
  off_TARGET_def sizeof_IRQ_Target_Type_def PLIC_SET_UP_REGISTERS_def PLIC_NUM_SOURCES_def PLIC_BASE_ADDR_def

lemma plic_addresses:
  "SOURCE_PRIORITY i = 0x0C000004 + 4 * i" "HART0_MMODE_ENA i = 0x0C002000 + 4 * i"
  "HART0_SMODE_ENA i = 0x0C002080 + 4 * i" "PRIORITY_THRESHOLD t = 0x0C2000F8 + 0x1000 * t"
  "CLAIM_COMPLETE t = 0x0C2000FC + 0x1000 * t"
  by (simp_all add: SOURCE_PRIORITY_def HART0_MMODE_ENA_def HART0_SMODE_ENA_def PRIORITY_THRESHOLD_def
      CLAIM_COMPLETE_def plic_offsets)

lemma priority_address:
  assumes "0 < n" "n \<le> (30 :: u32)"
  shows "ucast (SOURCE_PRIORITY (n - 1)) = (0xc000000 + 4 * ucast n :: u64)"
    "unat (4 * ucast n :: u64) = 4 * unat n"
proof -
  have n: "unat n \<le> 30" using assms(2) by (simp add: word_le_nat_alt)
  have e: "SOURCE_PRIORITY (n - 1) = 0x0C000000 + 4 * n" by (simp add: plic_addresses algebra_simps)
  have "unat (0x0C000000 + 4 * n) = 0x0C000000 + 4 * unat n"
    using n by (simp add: unat_word_ariths)
  moreover show u: "unat (4 * ucast n :: u64) = 4 * unat n"
    using n by (simp add: unat_word_ariths unsigned_ucast_eq take_bit_nat_eq_self)
  moreover have "unat (0xc000000 + 4 * ucast n :: u64) = 0xc000000 + 4 * unat n"
    using n by (simp add: unat_word_ariths(1) u)
  ultimately have "unat (ucast (0x0C000000 + 4 * n) :: u64) = unat (0xc000000 + 4 * ucast n :: u64)"
    using n by (simp add: unsigned_ucast_eq take_bit_nat_eq_self)
  then show "ucast (SOURCE_PRIORITY (n - 1)) = (0xc000000 + 4 * ucast n :: u64)"
    unfolding e by (simp only: word_unat_eq_iff)
qed

section \<open>What the driver does to the hardware\<close>

lemma plic_window_addresses [simp]:
  "plic_window (ucast (HART0_MMODE_ENA 0))" "plic_window (ucast (HART0_MMODE_ENA 1))"
  "plic_window (ucast (HART0_SMODE_ENA 0))" "plic_window (ucast (HART0_SMODE_ENA 1))"
  "plic_window (ucast (PRIORITY_THRESHOLD 0))" "plic_window (ucast (PRIORITY_THRESHOLD 1))"
  "plic_window (ucast (CLAIM_COMPLETE 0))" "plic_window (ucast (CLAIM_COMPLETE 1))"
  by (simp_all add: plic_window_def plic_addresses)

lemma plic_window_priority:
  assumes "0 < n" "n \<le> (30 :: u32)"
  shows "plic_window (ucast (SOURCE_PRIORITY (n - 1)))"
    and "0xc000000 \<le> (ucast (SOURCE_PRIORITY (n - 1)) :: u64)"
    and "ucast (SOURCE_PRIORITY (n - 1)) \<le> (0xc000078 :: u64)"
    and "ucast (SOURCE_PRIORITY (n - 1)) mod (4 :: u64) = 0"
    and "unat ((ucast (SOURCE_PRIORITY (n - 1)) - 0xc000000 :: u64) div 4) = unat n"
proof -
  have n: "unat n \<le> 30" using assms(2) by (simp add: word_le_nat_alt)
  note a = priority_address [OF assms]
  have u: "unat (ucast (SOURCE_PRIORITY (n - 1)) :: u64) = 0xc000000 + 4 * unat n"
    unfolding a(1) using n by (simp add: unat_word_ariths(1) a(2))
  show "plic_window (ucast (SOURCE_PRIORITY (n - 1)))"
    using n u by (simp add: plic_window_def word_le_nat_alt word_less_nat_alt)
  show "0xc000000 \<le> (ucast (SOURCE_PRIORITY (n - 1)) :: u64)"
    "ucast (SOURCE_PRIORITY (n - 1)) \<le> (0xc000078 :: u64)"
    using n u by (simp_all add: word_le_nat_alt)
  show "ucast (SOURCE_PRIORITY (n - 1)) mod (4 :: u64) = 0"
    unfolding word_unat_eq_iff unat_mod_distrib u by (simp add: mod_eq_0_iff_dvd)
  show "unat ((ucast (SOURCE_PRIORITY (n - 1)) - 0xc000000 :: u64) div 4) = unat n"
    unfolding a(1) by (simp add: unat_div_distrib a(2))
qed

lemma plic_regs_enable:
  "plic_reg_write oc (ucast (HART0_MMODE_ENA 0)) w h = h\<lparr>ie := (ie h)(0 := w AND mask 31)\<rparr>"
  "plic_reg_write oc (ucast (HART0_SMODE_ENA 0)) w h = h\<lparr>ie := (ie h)(1 := w AND mask 31)\<rparr>"
  "plic_reg_write oc (ucast (HART0_MMODE_ENA 1)) w h = h"
  "plic_reg_write oc (ucast (HART0_SMODE_ENA 1)) w h = h"
  "plic_reg_read cl ip (ucast (HART0_MMODE_ENA 0)) h = (ie h 0, h)"
  by (simp_all add: plic_reg_write_def plic_reg_read_def plic_addresses)

lemma plic_regs_missed:
  "plic_reg_write oc (ucast (PRIORITY_THRESHOLD 0)) w h = h"
  "plic_reg_write oc (ucast (PRIORITY_THRESHOLD 1)) w h = h"
  "plic_reg_write oc (ucast (CLAIM_COMPLETE 0)) w h = h"
  "plic_reg_read cl ip (ucast (CLAIM_COMPLETE 0)) h = (0, h)"
  by (simp_all add: plic_reg_write_def plic_reg_read_def plic_addresses)

lemma plic_regs_priority:
  assumes "0 < n" "n \<le> (30 :: u32)"
  shows "plic_reg_write oc (ucast (SOURCE_PRIORITY (n - 1))) w h = h\<lparr>prio := (prio h)(unat n := w AND mask 3)\<rparr>"
    and "plic_reg_read cl ip (ucast (SOURCE_PRIORITY (n - 1))) h = (prio h (unat n), h)"
  unfolding plic_reg_write_def plic_reg_read_def
  by (simp_all only: plic_window_priority [OF assms] if_True simp_thms)

lemma irq_group:
  assumes "n \<le> MAX_PLIC_INT"
  shows "n div 32 = 0" "unat (n mod 32) = unat n"
proof -
  have "unat n \<le> 30" using assms by (simp add: MAX_PLIC_INT_def word_le_nat_alt)
  then show "n div 32 = 0" "unat (n mod 32) = unat n"
    by (simp_all add: word_unat_eq_iff unat_div_distrib unat_mod_distrib)
qed

context plic_port
begin

lemma EnableIRQ:
  assumes "mhartid k s = 0" "n \<le> MAX_PLIC_INT"
  shows "P (PLIC_EnableIRQ b k n s) =
    (P s)\<lparr>ie := (ie (P s))(0 := (ie (P s) 0 OR push_bit (unat n) 1) AND mask 31)\<rparr>"
proof -
  obtain w s' where r: "rd32 b (ucast (HART0_MMODE_ENA 0)) s = (w, s')" by (cases "rd32 b (ucast (HART0_MMODE_ENA 0)) s")
  have "w = ie (P s) 0" "P s' = P s" using window_read [OF _ r] by (auto simp: plic_regs_enable)
  then show ?thesis
    using assms r irq_group [OF assms(2)]
    by (simp add: PLIC_EnableIRQ_def ld32_def st32_def window_write plic_regs_enable)
qed

lemma DisableIRQ:
  assumes "mhartid k s = 0" "n \<le> MAX_PLIC_INT"
  shows "P (PLIC_DisableIRQ b k n s) =
    (P s)\<lparr>ie := (ie (P s))(0 := (ie (P s) 0 AND NOT (push_bit (unat n) 1)) AND mask 31)\<rparr>"
proof -
  obtain w s' where r: "rd32 b (ucast (HART0_MMODE_ENA 0)) s = (w, s')" by (cases "rd32 b (ucast (HART0_MMODE_ENA 0)) s")
  have "w = ie (P s) 0" "P s' = P s" using window_read [OF _ r] by (auto simp: plic_regs_enable)
  then show ?thesis
    using assms r irq_group [OF assms(2)]
    by (simp add: PLIC_DisableIRQ_def ld32_def st32_def window_write plic_regs_enable)
qed

lemma SetPriority:
  "P (PLIC_SetPriority b n p s) =
     (if 0 < n \<and> n < PLIC_NUM_SOURCES then (P s)\<lparr>prio := (prio (P s))(unat n := p AND mask 3)\<rparr> else P s)"
proof (cases "0 < n \<and> n < PLIC_NUM_SOURCES")
  case True
  then have n: "0 < n" "n \<le> 30" by (auto simp: PLIC_NUM_SOURCES_def)
  show ?thesis
    using True
    by (simp add: PLIC_SetPriority_def st32_def NoInterrupt_IRQHandler_def
        window_write [OF plic_window_priority(1) [OF n]] plic_regs_priority [OF n])
qed (auto simp: PLIC_SetPriority_def NoInterrupt_IRQHandler_def)

lemma GetPriority:
  assumes "PLIC_GetPriority b n s = (p, s')"
  shows "P s' = P s" "p = (if 0 < n \<and> n < PLIC_NUM_SOURCES then prio (P s) (unat n) else 0)"
proof -
  have "P s' = P s \<and> p = (if 0 < n \<and> n < PLIC_NUM_SOURCES then prio (P s) (unat n) else 0)"
  proof (cases "0 < n \<and> n < PLIC_NUM_SOURCES")
    case True
    then have n: "0 < n" "n \<le> 30" by (auto simp: PLIC_NUM_SOURCES_def)
    have "rd32 b (ucast (SOURCE_PRIORITY (n - 1))) s = (p, s')"
      using assms True by (simp add: PLIC_GetPriority_def ld32_def NoInterrupt_IRQHandler_def)
    from window_read [OF plic_window_priority(1) [OF n] this] True show ?thesis
      by (auto simp: plic_regs_priority [OF n])
  qed (use assms in \<open>auto simp: PLIC_GetPriority_def NoInterrupt_IRQHandler_def\<close>)
  then show "P s' = P s" "p = (if 0 < n \<and> n < PLIC_NUM_SOURCES then prio (P s) (unat n) else 0)" by auto
qed

lemma ClaimIRQ:
  assumes "mhartid k s = 0" "PLIC_ClaimIRQ b k s = (p, s')"
  shows "p = 0" "P s' = P s"
  using window_read [of "ucast (CLAIM_COMPLETE 0)" s p s'] assms
  by (simp_all add: PLIC_ClaimIRQ_def ld32_def plic_regs_missed)

lemma SetPriority_Threshold:
  assumes "mhartid k s = 0"
  shows "P (PLIC_SetPriority_Threshold b k w s) = P s"
  using assms by (simp add: PLIC_SetPriority_Threshold_def st32_def window_write plic_regs_missed)

lemma CompleteIRQ:
  assumes "mhartid k s = 0"
  shows "P (PLIC_CompleteIRQ b k w s) = P s"
  using assms by (simp add: PLIC_CompleteIRQ_def st32_def window_write plic_regs_missed)

lemma ClearPendingIRQ:
  assumes "mhartid k s = 0"
  shows "\<exists>s'. PLIC_ClearPendingIRQ b k s = Some s' \<and> P s' = P s"
proof -
  obtain p s' where c: "PLIC_ClaimIRQ b k s = (p, s')" by (cases "PLIC_ClaimIRQ b k s")
  show ?thesis
    using ClaimIRQ [OF assms c] c
    by (simp add: PLIC_ClearPendingIRQ_def PLIC_clear_loop.simps NoInterrupt_IRQHandler_def)
qed

lemma clear_priorities:
  assumes "m \<le> 30"
  shows "P (fold (\<lambda>inc. st32 b (SOURCE_PRIORITY (of_nat inc)) 0) [0..<m] s) =
    (P s)\<lparr>prio := (\<lambda>i. if 1 \<le> i \<and> i \<le> m then 0 else prio (P s) i)\<rparr>"
  using assms
proof (induction m)
  case 0
  show ?case by (simp add: fun_eq_iff)
next
  case (Suc m)
  have u: "unat (of_nat m + 1 :: u32) = Suc m"
    using Suc.prems unat_of_nat_u32 [of "Suc m"] by (simp add: add.commute)
  have n: "0 < (of_nat m + 1 :: u32)" "(of_nat m + 1 :: u32) \<le> 30"
    using Suc.prems u by (simp_all add: word_less_nat_alt word_le_nat_alt)
  have s: "SOURCE_PRIORITY (of_nat m) = SOURCE_PRIORITY ((of_nat m + 1) - 1)" by simp
  have st: "P (st32 b (SOURCE_PRIORITY (of_nat m)) 0 s') = (P s')\<lparr>prio := (prio (P s'))(Suc m := 0)\<rparr>" for s'
    unfolding st32_def s window_write [OF plic_window_priority(1) [OF n]] plic_regs_priority [OF n] u by simp
  show ?case
    using Suc.prems by (auto simp: st Suc.IH fun_eq_iff intro!: plic_hw.equality)
qed

lemma init_on_reset:
  assumes "\<And>s. mhartid k s = 0"
  shows "\<exists>s'. PLIC_init_on_reset b k s = Some s' \<and>
    P s' = (P s)\<lparr>prio := (\<lambda>i. if 1 \<le> i \<and> i \<le> 30 then 0 else prio (P s) i), ie := (ie (P s))(0 := 0, 1 := 0)\<rparr>"
proof -
  let ?s1 = "fold (\<lambda>inc. st32 b (SOURCE_PRIORITY (of_nat inc)) 0) [0..<30] s"
  let ?s2 = "fold (\<lambda>inc. st32 b (PRIORITY_THRESHOLD (of_nat inc)) 7) [0..<2] ?s1"
  let ?s3 = "fold (\<lambda>inc s. st32 b (HART0_SMODE_ENA (of_nat inc)) 0 (st32 b (HART0_MMODE_ENA (of_nat inc)) 0 s)) [0..<2] ?s2"
  have two: "[0..<2] = [0, Suc 0]" by code_simp
  have 2: "P ?s2 = P ?s1" unfolding two by (simp add: st32_def window_write plic_regs_missed)
  have 3: "P ?s3 = (P ?s2)\<lparr>ie := (ie (P ?s2))(0 := 0, 1 := 0)\<rparr>"
    unfolding two by (simp add: st32_def window_write plic_regs_enable)
  obtain s' where "PLIC_ClearPendingIRQ b k ?s3 = Some s'" "P s' = P ?s3"
    using ClearPendingIRQ [OF assms] by blast
  then have "PLIC_init_on_reset b k s = Some s' \<and> P s' = P ?s3"
    by (simp add: PLIC_init_on_reset_def PLIC_NUM_SOURCES_def NUM_CLAIM_REGS_def PLIC_SET_UP_REGISTERS_def)
  with 3 2 clear_priorities [of 30 s] show ?thesis by simp
qed

lemma init_enables:
  "\<exists>s0. PLIC_init b k s = set_mie k MIP_MEIP s0 \<and> P s0 = (P s)\<lparr>ie := (ie (P s))(0 := 0, 1 := 0)\<rparr>"
  by (rule exI, rule conjI, unfold PLIC_init_def Let_def, rule refl)
    (simp add: st32_def window_write plic_regs_enable plic_regs_missed
      TARGET_OFFSET_HART0_M_def TARGET_OFFSET_HART0_S_def)

end

section \<open>Properties\<close>

text \<open>The CSRs of a hart whose identifier never changes and whose \<open>mie\<close> is outside of the
  interrupt controller.\<close>

definition fixed_hart :: "u32 \<Rightarrow> 's csrs" where
  "fixed_hart i = \<lparr>mhartid = (\<lambda>_. i), set_mie = (\<lambda>_ s. s)\<rparr>"

text \<open>C34. Enabling and then disabling interrupts on hart 0 sets and clears exactly the bit of
  the given source in the machine-mode enable register and changes nothing else of the
  controller.\<close>

theorem plic_enable_disable_exact:
  fixes h :: plic_hw and on_claim on_complete ip
  assumes "n \<le> MAX_PLIC_INT" and "ie h 0 AND mask 31 = ie h 0"
  defines "b \<equiv> plic_bus on_claim on_complete ip"
  defines "en \<equiv> PLIC_EnableIRQ b (fixed_hart 0) n h"
  defines "dis \<equiv> PLIC_DisableIRQ b (fixed_hart 0) n h"
  shows "(\<forall>m. bit (ie en 0) m \<longleftrightarrow> m = unat n \<or> bit (ie h 0) m) \<and>
    (\<forall>m. bit (ie dis 0) m \<longleftrightarrow> m \<noteq> unat n \<and> bit (ie h 0) m) \<and>
    en\<lparr>ie := ie h\<rparr> = h \<and> dis\<lparr>ie := ie h\<rparr> = h \<and> ie en 1 = ie h 1 \<and> ie dis 1 = ie h 1"
proof -
  have n: "unat n < 31" using assms(1) by (simp add: MAX_PLIC_INT_def word_le_nat_alt)
  have lo: "bit (ie h 0) m \<Longrightarrow> m < 31" for m
    by (subst (asm) assms(2) [symmetric]) (simp add: bit_simps)
  have en: "en = h\<lparr>ie := (ie h)(0 := (ie h 0 OR push_bit (unat n) 1) AND mask 31)\<rparr>"
    unfolding en_def b_def by (rule plic_hardware.EnableIRQ) (simp_all add: fixed_hart_def assms(1))
  have dis: "dis = h\<lparr>ie := (ie h)(0 := (ie h 0 AND NOT (push_bit (unat n) 1)) AND mask 31)\<rparr>"
    unfolding dis_def b_def by (rule plic_hardware.DisableIRQ) (simp_all add: fixed_hart_def assms(1))
  show ?thesis
    unfolding en dis using n lo by (auto simp: bit_simps dest: bit_imp_le_length)
qed

text \<open>Source 1 on a controller with source 4 enabled.\<close>

definition plic_sample :: plic_hw where
  "plic_sample = \<lparr>prio = (\<lambda>_. 1), ie = (\<lambda>t. if t = 0 then 16 else 0), threshold = (\<lambda>_. 0), cc = (\<lambda>_. 0)\<rparr>"

theorem plic_enable_disable_exact_witness:
  "bit (ie (PLIC_EnableIRQ (plic_bus (\<lambda>_ h. h) (\<lambda>_ _ h. h) (\<lambda>_. 0)) (fixed_hart 0) UART_0_PLIC_IRQHandler plic_sample) 0) 1 \<and>
   bit (ie (PLIC_EnableIRQ (plic_bus (\<lambda>_ h. h) (\<lambda>_ _ h. h) (\<lambda>_. 0)) (fixed_hart 0) UART_0_PLIC_IRQHandler plic_sample) 0) 4"
proof -
  have "UART_0_PLIC_IRQHandler \<le> MAX_PLIC_INT" "ie plic_sample 0 AND mask 31 = ie plic_sample 0"
    by (simp_all add: UART_0_PLIC_IRQHandler_def MAX_PLIC_INT_def plic_sample_def mask_numeral)
  from plic_enable_disable_exact [OF this, of "\<lambda>_ h. h" "\<lambda>_ _ h. h" "\<lambda>_. 0"]
  show ?thesis by (simp add: UART_0_PLIC_IRQHandler_def plic_sample_def bit_numeral_rec)
qed

text \<open>A priority that was set is read back, cut to the three bits of the hardware, for the
  sources 1 to 29 and only the priority of that source changes; the guard of both functions also
  excludes source 30, the last one of the controller: its priority cannot be changed and
  reads as 0.\<close>

theorem plic_priority_roundtrip:
  fixes n p :: u32 and h :: plic_hw and on_claim on_complete ip
  defines "b \<equiv> plic_bus on_claim on_complete ip"
  defines "h' \<equiv> PLIC_SetPriority b n p h"
  shows "(0 < n \<and> n < MAX_PLIC_INT \<longrightarrow>
      PLIC_GetPriority b n h' = (p AND 7, h') \<and> h' = h\<lparr>prio := (prio h)(unat n := p AND 7)\<rparr>) \<and>
    (n = MAX_PLIC_INT \<longrightarrow> h' = h \<and> PLIC_GetPriority b n h' = (0, h'))"
proof -
  obtain q h2 where g: "PLIC_GetPriority b n h' = (q, h2)" by (cases "PLIC_GetPriority b n h'")
  note get = plic_hardware.GetPriority [OF g [unfolded b_def]]
  note set = plic_hardware.SetPriority [of on_claim on_complete ip n p h, folded b_def, folded h'_def]
  have "mask 3 = (7 :: u32)" by (simp add: mask_numeral)
  with g get set show ?thesis by (auto simp: MAX_PLIC_INT_def PLIC_NUM_SOURCES_def)
qed

theorem plic_priority_roundtrip_witness:
  "fst (PLIC_GetPriority (plic_bus (\<lambda>_ h. h) (\<lambda>_ _ h. h) (\<lambda>_. 0)) 1
     (PLIC_SetPriority (plic_bus (\<lambda>_ h. h) (\<lambda>_ _ h. h) (\<lambda>_. 0)) 1 13 plic_sample)) = 5"
  using plic_priority_roundtrip [of 1 "\<lambda>_ h. h" "\<lambda>_ _ h. h" "\<lambda>_. 0" 13 plic_sample]
  by (auto simp: MAX_PLIC_INT_def)

text \<open>The threshold and claim registers of \<open>PLIC_Type\<close> lie outside of the decoded
  addresses: on hart 0, setting the threshold and completing an interrupt change nothing, a
  claim always answers \<open>NoInterrupt\<close>, and the initialisation on reset ends, with the
  priorities and enables cleared and the thresholds left as they were (they should be 7).\<close>

theorem plic_target_registers_missed:
  fixes h :: plic_hw and on_claim on_complete ip
  defines "b \<equiv> plic_bus on_claim on_complete ip"
  shows "PLIC_SetPriority_Threshold b (fixed_hart 0) w h = h \<and>
    PLIC_CompleteIRQ b (fixed_hart 0) w h = h \<and>
    PLIC_ClaimIRQ b (fixed_hart 0) h = (NoInterrupt_IRQHandler, h) \<and>
    PLIC_init_on_reset b (fixed_hart 0) h =
      Some (h\<lparr>prio := (\<lambda>i. if 1 \<le> i \<and> i \<le> 30 then 0 else prio h i), ie := (ie h)(0 := 0, 1 := 0)\<rparr>)"
proof (intro conjI)
  have m: "\<And>s. mhartid (fixed_hart 0) s = 0" by (simp add: fixed_hart_def)
  show "PLIC_SetPriority_Threshold b (fixed_hart 0) w h = h"
    unfolding b_def by (rule plic_hardware.SetPriority_Threshold [OF m])
  show "PLIC_CompleteIRQ b (fixed_hart 0) w h = h"
    unfolding b_def by (rule plic_hardware.CompleteIRQ [OF m])
  obtain p s' where c: "PLIC_ClaimIRQ b (fixed_hart 0) h = (p, s')" by (cases "PLIC_ClaimIRQ b (fixed_hart 0) h")
  show "PLIC_ClaimIRQ b (fixed_hart 0) h = (NoInterrupt_IRQHandler, h)"
    using plic_hardware.ClaimIRQ [OF m c [unfolded b_def]] c by (simp add: NoInterrupt_IRQHandler_def)
  show "PLIC_init_on_reset b (fixed_hart 0) h =
      Some (h\<lparr>prio := (\<lambda>i. if 1 \<le> i \<and> i \<le> 30 then 0 else prio h i), ie := (ie h)(0 := 0, 1 := 0)\<rparr>)"
    unfolding b_def using plic_hardware.init_on_reset [OF m] by blast
qed

end
