(* ===== verification/Bsp_Uart.thy ===== *)
theory Bsp_Uart
  imports Bsp_Plic
begin

text \<open>
  The serial driver of the board support package: \<open>sw/bsp/drivers/uart/uart.c\<close> and
  \<open>uart.h\<close>. A \<open>uart_instance\<close> is passed and returned explicitly; transmit and receive
  buffers are in the memory behind the bus, at 32-bit addresses, the null pointer being 0.
  Handlers registered by an application are parameters. Waiting loops are partial functions.
  The flag \<open>g0\<close> stands for the comparison of \<open>this_uart\<close> with the address of
  \<open>g_uart_0\<close>. The macro \<open>ASSERT\<close> of this platform is empty.
\<close>

unbundle bit_operations_syntax

section \<open>Types and constants of uart.h\<close>

datatype uart_irq_handler = NULL_HANDLER | DEFAULT_TX_HANDLER | USER_HANDLER nat

record uart_instance =
  hw_reg :: u32
  baudrate :: u32
  lineconfig :: u8
  status :: u8
  tx_buffer :: u32
  tx_buff_size :: u32
  tx_idx :: u32
  linests_handler :: uart_irq_handler
  rx_handler :: uart_irq_handler
  tx_handler :: uart_irq_handler
  modemsts_handler :: uart_irq_handler

text \<open>The members of \<open>UART_TypeDef\<close>, one byte at each word.\<close>

definition RBR :: "uart_instance \<Rightarrow> u32" where "RBR u = hw_reg u"
definition THR :: "uart_instance \<Rightarrow> u32" where "THR u = hw_reg u"
definition DLL :: "uart_instance \<Rightarrow> u32" where "DLL u = hw_reg u"
definition DLM :: "uart_instance \<Rightarrow> u32" where "DLM u = hw_reg u + 4"
definition IER :: "uart_instance \<Rightarrow> u32" where "IER u = hw_reg u + 4"
definition IIR :: "uart_instance \<Rightarrow> u32" where "IIR u = hw_reg u + 8"
definition FCR :: "uart_instance \<Rightarrow> u32" where "FCR u = hw_reg u + 8"
definition LCR :: "uart_instance \<Rightarrow> u32" where "LCR u = hw_reg u + 12"
definition MCR :: "uart_instance \<Rightarrow> u32" where "MCR u = hw_reg u + 16"
definition LSR :: "uart_instance \<Rightarrow> u32" where "LSR u = hw_reg u + 20"
definition MSR :: "uart_instance \<Rightarrow> u32" where "MSR u = hw_reg u + 24"

definition FPGA_UART_0_BASE :: u32 where "FPGA_UART_0_BASE = 0x10000000"
definition FPGA_UART_0_FREQUENCY :: u64 where "FPGA_UART_0_FREQUENCY = 25000000"
definition TX_FIFO_SIZE :: u32 where "TX_FIFO_SIZE = 16"
definition UART_DATA_READY :: u8 where "UART_DATA_READY = 0x01"
definition UART_THRE :: u8 where "UART_THRE = 0x20"
definition UART_TEMT :: u8 where "UART_TEMT = 0x40"
definition STATUS_ERROR_MASK :: u8 where "STATUS_ERROR_MASK = 0x02 OR 0x04 OR 0x08 OR 0x10 OR 0x80"
definition ERBFI_MASK :: u8 where "ERBFI_MASK = 0x01"
definition ETBEI_MASK :: u8 where "ETBEI_MASK = 0x02"
definition EDSSI_MASK :: u8 where "EDSSI_MASK = 0x08"
definition SB_MASK :: u8 where "SB_MASK = 0x40"
definition DLAB_MASK :: u8 where "DLAB_MASK = 0x80"
definition IIRF_MASK :: u8 where "IIRF_MASK = 0x0F"
definition IIRF_MODEM_STATUS :: u8 where "IIRF_MODEM_STATUS = 0x00"
definition IIRF_THRE :: u8 where "IIRF_THRE = 0x02"
definition IIRF_RX_DATA :: u8 where "IIRF_RX_DATA = 0x04"
definition IIRF_RX_LINE_STATUS :: u8 where "IIRF_RX_LINE_STATUS = 0x06"
definition IIRF_DATA_TIMEOUT :: u8 where "IIRF_DATA_TIMEOUT = 0x0C"
definition FCR_TRIG_LEVEL_MASK :: u8 where "FCR_TRIG_LEVEL_MASK = 0xC0"
definition UART_FIFO_INVALID_TRIG_LEVEL :: u32 where "UART_FIFO_INVALID_TRIG_LEVEL = 0xC1"
definition UART_INVALID_IRQ :: u16 where "UART_INVALID_IRQ = 0xFFFF"

text \<open>\<open>r |= m\<close> and \<open>r &= m\<close> on a device register: a load, then a store.\<close>

definition reg_or :: "'s bus \<Rightarrow> u32 \<Rightarrow> u8 \<Rightarrow> 's \<Rightarrow> 's" where
  "reg_or b a m s = (let (x, s) = ld8 b a s in st8 b a (x OR m) s)"

definition reg_and :: "'s bus \<Rightarrow> u32 \<Rightarrow> u8 \<Rightarrow> 's \<Rightarrow> 's" where
  "reg_and b a m s = (let (x, s) = ld8 b a s in st8 b a (x AND m) s)"

text \<open>\<open>status = LSR; this_uart->status |= status\<close>.\<close>

definition read_lsr :: "'s bus \<Rightarrow> uart_instance \<Rightarrow> 's \<Rightarrow> u8 \<times> uart_instance \<times> 's" where
  "read_lsr b u s = (let (x, s) = ld8 b (LSR u) s in (x, u\<lparr>status := status u OR x\<rparr>, s))"

section \<open>Initialisation\<close>

text \<open>\<open>None\<close> is the division by a baud rate of zero.\<close>

definition config_baud_divisors :: "'s bus \<Rightarrow> uart_instance \<Rightarrow> u32 \<Rightarrow> 's \<Rightarrow> (uart_instance \<times> 's) option" where
  "config_baud_divisors b u baud s =
     (let u = u\<lparr>baudrate := baud\<rparr>; pclk_freq = FPGA_UART_0_FREQUENCY in
      if baud = 0 then None
      else
        let baud_value_by_128 = (ucast ((8 * pclk_freq) div ucast baud) :: u32);
            baud_value_by_64 = baud_value_by_128 div 2;
            baud_value = baud_value_by_64 div 64
        in Some (u,
             if baud_value \<le> 0xFFFF
             then let s = st8 b (LCR u) DLAB_MASK s;
                      s = st8 b (DLM u) (ucast (drop_bit 8 baud_value)) s;
                      s = st8 b (DLL u) (ucast baud_value) s
                  in st8 b (LCR u) 0 s
             else s))"

definition global_init :: "'s bus \<Rightarrow> uart_instance \<Rightarrow> u32 \<Rightarrow> u8 \<Rightarrow> 's \<Rightarrow> (uart_instance \<times> 's) option" where
  "global_init b u baud_rate line_config s =
     (let s = st8 b (IER u) 0 s;
          s = st8 b (FCR u) 0 s;
          s = st8 b (FCR u) (0xC0 OR 0x02 OR 0x04 OR 0x01) s;
          s = st8 b (MCR u) 0 s
      in do { (u, s) \<leftarrow> config_baud_divisors b u baud_rate s;
              let s = st8 b (LCR u) line_config s;
              Some (u\<lparr>baudrate := baud_rate, lineconfig := line_config, tx_buff_size := 0, tx_buffer := 0,
                      tx_idx := 0, rx_handler := NULL_HANDLER, tx_handler := NULL_HANDLER,
                      linests_handler := NULL_HANDLER, modemsts_handler := NULL_HANDLER, status := 0\<rparr>, s) })"

definition UART_init :: "'s bus \<Rightarrow> uart_instance \<Rightarrow> u32 \<Rightarrow> u8 \<Rightarrow> 's \<Rightarrow> (uart_instance \<times> 's) option" where
  "UART_init b u baud_rate line_config s =
     do { (u, s) \<leftarrow> global_init b u baud_rate line_config s;
          Some (u\<lparr>tx_handler := DEFAULT_TX_HANDLER\<rparr>, s) }"

section \<open>Polled transmission\<close>

partial_function (option) wait_thre :: "'s bus \<Rightarrow> uart_instance \<Rightarrow> 's \<Rightarrow> 's option" where
  "wait_thre b u s =
     (if fst (ld8 b (LSR u) s) AND UART_THRE = 0 then wait_thre b u (snd (ld8 b (LSR u) s))
      else Some (snd (ld8 b (LSR u) s)))"

definition send_from :: "'s bus \<Rightarrow> uart_instance \<Rightarrow> u32 \<Rightarrow> 's \<Rightarrow> 's" where
  "send_from b u a s = (let (c, s) = ld8 b a s in st8 b (THR u) c s)"

partial_function (option) polled_tx_loop :: "'s bus \<Rightarrow> uart_instance \<Rightarrow> u32 \<Rightarrow> u32 \<Rightarrow> u32 \<Rightarrow> 's \<Rightarrow> 's option" where
  "polled_tx_loop b u pbuff tx_size char_idx s =
     do { s \<leftarrow> wait_thre b u s;
          if char_idx + 1 < tx_size
          then polled_tx_loop b u pbuff tx_size (char_idx + 1) (send_from b u (pbuff + char_idx) s)
          else Some (send_from b u (pbuff + char_idx) s) }"

definition UART_polled_tx :: "'s bus \<Rightarrow> uart_instance \<Rightarrow> u32 \<Rightarrow> u32 \<Rightarrow> 's \<Rightarrow> 's option" where
  "UART_polled_tx b u pbuff tx_size s =
     (if pbuff \<noteq> 0 \<and> tx_size > 0 then polled_tx_loop b u pbuff tx_size 0 s else Some s)"

partial_function (option) polled_string_loop :: "'s bus \<Rightarrow> uart_instance \<Rightarrow> u32 \<Rightarrow> u32 \<Rightarrow> u8 \<Rightarrow> 's \<Rightarrow> 's option" where
  "polled_string_loop b u p_sz_string char_idx data_byte s =
     (if data_byte \<noteq> 0
      then do { s \<leftarrow> wait_thre b u s;
                let s = st8 b (THR u) data_byte s;
                polled_string_loop b u p_sz_string (char_idx + 1)
                  (fst (ld8 b (p_sz_string + (char_idx + 1)) s)) (snd (ld8 b (p_sz_string + (char_idx + 1)) s)) }
      else Some s)"

definition UART_polled_tx_string :: "'s bus \<Rightarrow> uart_instance \<Rightarrow> u32 \<Rightarrow> 's \<Rightarrow> 's option" where
  "UART_polled_tx_string b u p_sz_string s =
     (if p_sz_string \<noteq> 0
      then let (data_byte, s) = ld8 b p_sz_string s in polled_string_loop b u p_sz_string 0 data_byte s
      else Some s)"

section \<open>Interrupt control\<close>

definition uart_plic_num :: "bool \<Rightarrow> u32" where
  "uart_plic_num g0 = (if g0 then UART_0_PLIC_IRQHandler else 0)"

definition enable_irq :: "'s bus \<Rightarrow> 's csrs \<Rightarrow> bool \<Rightarrow> 's \<Rightarrow> 's" where
  "enable_irq b k g0 s = PLIC_EnableIRQ b k (uart_plic_num g0) s"

definition disable_irq :: "'s bus \<Rightarrow> 's csrs \<Rightarrow> bool \<Rightarrow> 's \<Rightarrow> 's" where
  "disable_irq b k g0 s = PLIC_DisableIRQ b k (uart_plic_num g0) s"

definition UART_irq_tx ::
  "'s bus \<Rightarrow> 's csrs \<Rightarrow> bool \<Rightarrow> uart_instance \<Rightarrow> u32 \<Rightarrow> u32 \<Rightarrow> 's \<Rightarrow> uart_instance \<times> 's" where
  "UART_irq_tx b k g0 u pbuff tx_size s =
     (if tx_size > 0 \<and> pbuff \<noteq> 0
      then let u = u\<lparr>tx_buffer := pbuff, tx_buff_size := tx_size, tx_idx := 0, tx_handler := DEFAULT_TX_HANDLER\<rparr>;
               s = reg_or b (IER u) ETBEI_MASK s
           in (u, enable_irq b k g0 s)
      else (u, s))"

definition UART_tx_complete :: "'s bus \<Rightarrow> uart_instance \<Rightarrow> 's \<Rightarrow> u8 \<times> uart_instance \<times> 's" where
  "UART_tx_complete b u s =
     (let (x, u, s) = read_lsr b u s
      in (if tx_buff_size u = 0 \<and> x AND UART_TEMT \<noteq> 0 then 1 else 0, u, s))"

definition UART_enable_irq :: "'s bus \<Rightarrow> 's csrs \<Rightarrow> bool \<Rightarrow> uart_instance \<Rightarrow> u16 \<Rightarrow> 's \<Rightarrow> 's" where
  "UART_enable_irq b k g0 u irq_mask s =
     (let s = enable_irq b k g0 s in
      if irq_mask < UART_INVALID_IRQ then reg_or b (IER u) (ucast irq_mask AND IIRF_MASK) s else s)"

definition UART_set_rx_handler ::
  "'s bus \<Rightarrow> 's csrs \<Rightarrow> bool \<Rightarrow> uart_instance \<Rightarrow> uart_irq_handler \<Rightarrow> u32 \<Rightarrow> 's \<Rightarrow> uart_instance \<times> 's" where
  "UART_set_rx_handler b k g0 u handler trigger_level s =
     (if handler \<noteq> NULL_HANDLER \<and> trigger_level < UART_FIFO_INVALID_TRIG_LEVEL
      then let u = u\<lparr>rx_handler := handler\<rparr>;
               (x, s) = ld8 b (FCR u) s;
               s = st8 b (FCR u) ((x AND NOT FCR_TRIG_LEVEL_MASK) OR ucast trigger_level) s;
               s = reg_or b (IER u) ERBFI_MASK s
           in (u, enable_irq b k g0 s)
      else (u, s))"

definition UART_set_tx_handler ::
  "'s bus \<Rightarrow> 's csrs \<Rightarrow> bool \<Rightarrow> uart_instance \<Rightarrow> uart_irq_handler \<Rightarrow> 's \<Rightarrow> uart_instance \<times> 's" where
  "UART_set_tx_handler b k g0 u handler s =
     (if handler \<noteq> NULL_HANDLER
      then let u = u\<lparr>tx_handler := handler, tx_buffer := 0, tx_buff_size := 0\<rparr>;
               s = reg_or b (IER u) ETBEI_MASK s
           in (u, enable_irq b k g0 s)
      else (u, s))"

definition UART_set_modemstatus_handler ::
  "'s bus \<Rightarrow> 's csrs \<Rightarrow> bool \<Rightarrow> uart_instance \<Rightarrow> uart_irq_handler \<Rightarrow> 's \<Rightarrow> uart_instance \<times> 's" where
  "UART_set_modemstatus_handler b k g0 u handler s =
     (if handler \<noteq> NULL_HANDLER
      then let u = u\<lparr>modemsts_handler := handler\<rparr>;
               s = reg_or b (IER u) EDSSI_MASK s
           in (u, enable_irq b k g0 s)
      else (u, s))"

section \<open>Reception\<close>

text \<open>Read while data is ready and the buffer has room; the result is the number of bytes read.\<close>

function get_rx_loop ::
  "'s bus \<Rightarrow> uart_instance \<Rightarrow> u32 \<Rightarrow> u32 \<Rightarrow> u32 \<Rightarrow> u8 \<Rightarrow> 's \<Rightarrow> u32 \<times> uart_instance \<times> 's" where
  "get_rx_loop b u rx_buff buff_size rx_size x s =
     (if x AND UART_DATA_READY \<noteq> 0 \<and> rx_size < buff_size
      then let (c, s) = ld8 b (RBR u) s;
               s = st8 b (rx_buff + rx_size) c s;
               (x, u, s) = read_lsr b u s
           in get_rx_loop b u rx_buff buff_size (rx_size + 1) x s
      else (rx_size, u, s))"
  by pat_completeness auto

termination get_rx_loop
proof (relation "measure (\<lambda>(b, u, rx_buff, buff_size, rx_size, x, s). unat buff_size - unat rx_size)", goal_cases)
  case (2 b u rx_buff buff_size rx_size x s c s1 s2 y v z t)
  then have "rx_size < buff_size" by simp
  with unat_plus1_u32 [of rx_size buff_size] show ?case by simp
qed simp

definition UART_get_rx :: "'s bus \<Rightarrow> uart_instance \<Rightarrow> u32 \<Rightarrow> u32 \<Rightarrow> 's \<Rightarrow> u32 \<times> uart_instance \<times> 's" where
  "UART_get_rx b u rx_buff buff_size s =
     (if rx_buff \<noteq> 0 \<and> buff_size > 0
      then let (x, u, s) = read_lsr b u s in get_rx_loop b u rx_buff buff_size 0 x s
      else (0, u, s))"

section \<open>Transmission through the FIFO\<close>

definition UART_fill_tx_fifo :: "'s bus \<Rightarrow> uart_instance \<Rightarrow> u32 \<Rightarrow> u32 \<Rightarrow> 's \<Rightarrow> u32 \<times> uart_instance \<times> 's" where
  "UART_fill_tx_fifo b u buf tx_size s =
     (if buf \<noteq> 0 \<and> tx_size > 0
      then let (x, u, s) = read_lsr b u s in
           if x AND UART_THRE \<noteq> 0
           then let fill_size = (if tx_size < TX_FIFO_SIZE then tx_size else TX_FIFO_SIZE)
                in (fill_size, u, fold (\<lambda>i. send_from b u (buf + of_nat i)) [0..<unat fill_size] s)
           else (0, u, s)
      else (0, u, s))"

text \<open>The \<open>for\<close> loop of the transmit handler, with the number of iterations left.\<close>

fun tx_fill_loop :: "'s bus \<Rightarrow> nat \<Rightarrow> uart_instance \<Rightarrow> 's \<Rightarrow> uart_instance \<times> 's" where
  "tx_fill_loop b 0 u s = (u, s)"
| "tx_fill_loop b (Suc n) u s =
     (let s = send_from b u (tx_buffer u + tx_idx u) s
      in tx_fill_loop b n (u\<lparr>tx_idx := tx_idx u + 1\<rparr>) s)"

definition default_tx_handler :: "'s bus \<Rightarrow> uart_instance \<Rightarrow> 's \<Rightarrow> uart_instance \<times> 's" where
  "default_tx_handler b u s =
     (if tx_buffer u \<noteq> 0 \<and> 0 < tx_buff_size u
      then let (x, u, s) = read_lsr b u s;
               (u, s) = (if x AND UART_THRE \<noteq> 0
                         then let tx_remain = tx_buff_size u - tx_idx u;
                                  fill_size = (if tx_remain < TX_FIFO_SIZE then tx_remain else TX_FIFO_SIZE)
                              in tx_fill_loop b (unat fill_size) u s
                         else (u, s))
           in if tx_idx u = tx_buff_size u
              then (u\<lparr>tx_buff_size := 0\<rparr>, reg_and b (IER u) (NOT ETBEI_MASK) s)
              else (u, s)
      else (u, s))"

section \<open>Status\<close>

definition UART_get_rx_status :: "'s bus \<Rightarrow> uart_instance \<Rightarrow> 's \<Rightarrow> u8 \<times> uart_instance \<times> 's" where
  "UART_get_rx_status b u s =
     (let (x, u, s) = read_lsr b u s in (status u AND STATUS_ERROR_MASK, u\<lparr>status := 0\<rparr>, s))"

definition UART_get_modem_status :: "'s bus \<Rightarrow> uart_instance \<Rightarrow> 's \<Rightarrow> u8 \<times> 's" where
  "UART_get_modem_status b u s = ld8 b (MSR u) s"

definition UART_get_tx_status :: "'s bus \<Rightarrow> uart_instance \<Rightarrow> 's \<Rightarrow> u8 \<times> uart_instance \<times> 's" where
  "UART_get_tx_status b u s =
     (let (x, u, s) = read_lsr b u s in (x AND (UART_THRE OR UART_TEMT), u, s))"

definition UART_set_break :: "'s bus \<Rightarrow> uart_instance \<Rightarrow> 's \<Rightarrow> 's" where
  "UART_set_break b u s = reg_or b (LCR u) SB_MASK s"

definition UART_clear_break :: "'s bus \<Rightarrow> uart_instance \<Rightarrow> 's \<Rightarrow> 's" where
  "UART_clear_break b u s = reg_and b (LCR u) (NOT SB_MASK) s"

section \<open>The interrupt service routine\<close>

type_synonym 's user_handlers = "nat \<Rightarrow> uart_instance \<Rightarrow> 's \<Rightarrow> uart_instance \<times> 's"

fun call_handler :: "'s bus \<Rightarrow> 's user_handlers \<Rightarrow> uart_irq_handler \<Rightarrow> uart_instance \<Rightarrow> 's \<Rightarrow> uart_instance \<times> 's" where
  "call_handler b us NULL_HANDLER u s = (u, s)"
| "call_handler b us DEFAULT_TX_HANDLER u s = default_tx_handler b u s"
| "call_handler b us (USER_HANDLER i) u s = us i u s"

definition uart_isr :: "'s bus \<Rightarrow> 's user_handlers \<Rightarrow> uart_instance \<Rightarrow> 's \<Rightarrow> uart_instance \<times> 's" where
  "uart_isr b us u s =
     (let (x, s) = ld8 b (IIR u) s; iirf = x AND IIRF_MASK in
      if iirf = IIRF_MODEM_STATUS then call_handler b us (modemsts_handler u) u s
      else if iirf = IIRF_THRE then call_handler b us (tx_handler u) u s
      else if iirf = IIRF_RX_DATA \<or> iirf = IIRF_DATA_TIMEOUT then call_handler b us (rx_handler u) u s
      else if iirf = IIRF_RX_LINE_STATUS then call_handler b us (linests_handler u) u s
      else (u, s))"

section \<open>What the board promises\<close>

text \<open>
  The view of the boot console is extended with the interrupt enable register, the FIFO enable
  bit, the bytes that arrive at the receiver and are not yet read (those to come included), the
  number of bytes that resets of the transmit FIFO have dropped, and the memory. \<open>u_out\<close> are the
  bytes that the transmitter has accepted; a reset of the transmit FIFO, which every write to the
  FIFO control register may be, drops those that are not on the line yet and counts them in
  \<open>d_lost\<close>. \<open>room\<close> is the number of bytes that the transmitter accepts now,
  \<open>busy\<close> bounds the status reads that still report that it accepts none, and \<open>arr\<close> is
  the number of received bytes that can be read now. \<open>idle\<close> relates states between which time
  passes without an access. \<open>P\<close> is the interrupt controller.

  The laws on \<open>room\<close> follow \<open>apb_uart.vhd\<close> of the FPGA design: bit 5 of the line status means that
  the transmitter accepts at least one more byte (the FIFO is not full, or it is empty when it
  is not enabled), not that it is empty. The interrupt for an empty transmitter is raised when
  the FIFO runs empty and cleared by a store of a byte, so that it means that an enabled FIFO
  accepts 16 bytes (the store of a byte in the very clock cycle in which the FIFO runs empty is
  not considered).
\<close>

record board_view = uart_view +
  d_ier :: u8
  d_fifo :: bool
  d_lost :: nat
  d_rx :: "u8 list"
  d_mem :: "u32 \<Rightarrow> u8"

definition g_uart_0 :: uart_instance where
  "g_uart_0 = \<lparr>hw_reg = FPGA_UART_0_BASE, baudrate = 0, lineconfig = 0, status = 0, tx_buffer = 0,
     tx_buff_size = 0, tx_idx = 0, linests_handler = NULL_HANDLER, rx_handler = NULL_HANDLER,
     tx_handler = NULL_HANDLER, modemsts_handler = NULL_HANDLER\<rparr>"

definition ram_bytes :: "(u32 \<Rightarrow> u8) \<Rightarrow> u32 \<Rightarrow> nat \<Rightarrow> u8 list" where
  "ram_bytes m a n = map (\<lambda>i. m (a + of_nat i)) [0..<n]"

lemma length_ram_bytes [simp]: "length (ram_bytes m a n) = n"
  by (simp add: ram_bytes_def)

lemma ram_bytes_0 [simp]: "ram_bytes m a 0 = []"
  by (simp add: ram_bytes_def)

lemma ram_bytes_Suc: "ram_bytes m a (Suc n) = ram_bytes m a n @ [m (a + of_nat n)]"
  by (simp add: ram_bytes_def)

lemma ram_bytes_Cons: "ram_bytes m a (Suc n) = m a # ram_bytes m (a + 1) n"
  by (simp add: ram_bytes_def upt_conv_Cons map_Suc_upt [symmetric] o_def algebra_simps del: upt_Suc)

lemma ram_bytes_add: "ram_bytes m a (i + n) = ram_bytes m a i @ ram_bytes m (a + of_nat i) n"
  by (induction n) (simp_all add: ram_bytes_Suc algebra_simps)

lemma take_ram_bytes: "take i (ram_bytes m a n) = ram_bytes m a (min i n)"
  by (simp add: ram_bytes_def take_map take_upt min_def)

locale board = plic_port b P on_claim on_complete ip
  for b :: "'s bus" and P :: "'s \<Rightarrow> plic_hw" and on_claim on_complete ip +
  fixes W :: "'s \<Rightarrow> 'z board_view_scheme" and room :: "'s \<Rightarrow> nat" and busy :: "'s \<Rightarrow> nat"
    and arr :: "'s \<Rightarrow> nat" and is_ram :: "u32 \<Rightarrow> bool" and idle :: "'s \<Rightarrow> 's \<Rightarrow> bool"
  assumes lsr: "rd8 b 0x10000014 s = (x, s') \<Longrightarrow>
      W s' = W s \<and> room s \<le> room s' \<and> (if x AND 0x20 = 0 then busy s' < busy s else 0 < room s') \<and>
      (0 < room s \<longrightarrow> x AND 0x20 \<noteq> 0) \<and> (x AND 1 \<noteq> 0 \<longleftrightarrow> 0 < arr s') \<and>
      arr s' \<le> length (d_rx (W s'))"
    and thr: "0 < room s \<Longrightarrow> \<not> dlab (W s) \<Longrightarrow>
      W (wr8 b 0x10000000 c s) = sent [c] (W s) \<and> room s \<le> Suc (room (wr8 b 0x10000000 c s))"
    and rbr: "0 < arr s \<Longrightarrow> \<not> dlab (W s) \<Longrightarrow> d_rx (W s) = y # ys \<Longrightarrow> rd8 b 0x10000000 s = (x, s') \<Longrightarrow>
      x = y \<and> W s' = (W s)\<lparr>d_rx := ys\<rparr>"
    and dll: "dlab (W s) \<Longrightarrow> W (wr8 b 0x10000000 c s) = (W s)\<lparr>u_dll := c\<rparr>"
    and ier_wr: "W (wr8 b 0x10000004 c s) =
        (if dlab (W s) then (W s)\<lparr>u_dlm := c\<rparr> else (W s)\<lparr>d_ier := c AND 0x0F\<rparr>) \<and>
      room s \<le> room (wr8 b 0x10000004 c s)"
    and ier_rd: "\<not> dlab (W s) \<Longrightarrow> rd8 b 0x10000004 s = (x, s') \<Longrightarrow> x = d_ier (W s) \<and> W s' = W s \<and> room s \<le> room s'"
    and iir: "rd8 b 0x10000008 s = (x, s') \<Longrightarrow>
      W s' = W s \<and> room s \<le> room s' \<and> (x AND 0x0F = 0x02 \<longrightarrow> d_fifo (W s) \<longrightarrow> 16 \<le> room s')"
    and fcr: "\<exists>i l. W (wr8 b 0x10000008 c s) =
      (W s)\<lparr>d_rx := drop i (d_rx (W s)), d_lost := d_lost (W s) + l, d_fifo := bit c 0\<rparr>"
    and lcr_wr: "W (wr8 b 0x1000000C c s) = (W s)\<lparr>u_lcr := c\<rparr>"
    and lcr_rd: "rd8 b 0x1000000C s = (x, s') \<Longrightarrow> x = u_lcr (W s) \<and> W s' = W s"
    and mcr: "W (wr8 b 0x10000010 c s) = W s"
    and ram_rd: "is_ram a \<Longrightarrow> rd8 b (ucast a) s = (x, s') \<Longrightarrow> x = d_mem (W s) a \<and> W s' = W s \<and> room s \<le> room s'"
    and ram_wr: "is_ram a \<Longrightarrow> W (wr8 b (ucast a) c s) = (W s)\<lparr>d_mem := (d_mem (W s))(a := c)\<rparr>"
    and plic_wr: "plic_window p \<Longrightarrow> W (wr32 b p w s) = W s \<and> room s \<le> room (wr32 b p w s)"
    and plic_rd: "plic_window p \<Longrightarrow> rd32 b p s = (w, s') \<Longrightarrow> W s' = W s \<and> room s \<le> room s'"
    and P_wr8: "P (wr8 b p c s) = P s"
    and P_rd8: "rd8 b p s = (x, s') \<Longrightarrow> P s' = P s"
    and idle_step: "idle s s' \<Longrightarrow> W s' = W s \<and> room s \<le> room s'"

text \<open>The contract of the boot console follows, on the part of the view that it speaks about.\<close>

definition console_part :: "'z board_view_scheme \<Rightarrow> 'z board_view_scheme" where
  "console_part v = v\<lparr>d_ier := 0, d_fifo := False, d_lost := 0, d_rx := []\<rparr>"

lemma console_part_simps [simp]:
  "dlab (console_part v) = dlab v" "console_part (sent cs v) = sent cs (console_part v)"
  "console_part (v\<lparr>u_dll := c\<rparr>) = (console_part v)\<lparr>u_dll := c\<rparr>"
  "console_part (v\<lparr>u_dlm := c\<rparr>) = (console_part v)\<lparr>u_dlm := c\<rparr>"
  "console_part (v\<lparr>u_lcr := c\<rparr>) = (console_part v)\<lparr>u_lcr := c\<rparr>"
  "console_part (v\<lparr>d_ier := e\<rparr>) = console_part v" "console_part (v\<lparr>d_rx := q\<rparr>) = console_part v"
  "console_part (v\<lparr>d_fifo := f\<rparr>) = console_part v" "console_part (v\<lparr>d_lost := l\<rparr>) = console_part v"
  by (simp_all add: console_part_def dlab_def sent_def)

lemma fpga_uart_regs:
  "UART_THR fpga_uart = 0x10000000" "UART_INTERRUPT_ENABLE fpga_uart = 0x10000004"
  "UART_FIFO_CONTROL fpga_uart = 0x10000008" "UART_LINE_CONTROL fpga_uart = 0x1000000C"
  "UART_MODEM_CONTROL fpga_uart = 0x10000010" "UART_LINE_STATUS fpga_uart = 0x10000014"
  "UART_DLAB_LSB fpga_uart = 0x10000000" "UART_DLAB_MSB fpga_uart = 0x10000004"
  by (simp_all add: fpga_uart_def)

sublocale board \<subseteq> boot: uart_port b fpga_uart "\<lambda>s. console_part (W s)" "\<lambda>s. 0 < room s" busy
proof (unfold_locales, unfold fpga_uart_regs, goal_cases)
  case (1 s x s')
  with lsr [OF 1] show ?case by (auto split: if_splits)
next
  case (7 c s)
  obtain i l where "W (wr8 b 0x10000008 c s) = (W s)\<lparr>d_rx := drop i (d_rx (W s)), d_lost := d_lost (W s) + l, d_fifo := bit c 0\<rparr>"
    using fcr by blast
  then show ?case by simp
qed (use thr dll ier_wr lcr_wr mcr in auto)

section \<open>Interrupt-driven transmission\<close>

text \<open>
  \<open>irq_run b us idle c m c'\<close>: from \<open>c\<close>, with time passing in between, the service routine
  ran \<open>m\<close> times for an interrupt that the UART identified as an empty transmitter.
\<close>

inductive irq_run ::
  "'s bus \<Rightarrow> 's user_handlers \<Rightarrow> ('s \<Rightarrow> 's \<Rightarrow> bool) \<Rightarrow> uart_instance \<times> 's \<Rightarrow> nat \<Rightarrow> uart_instance \<times> 's \<Rightarrow> bool"
  for b us idle c where
  start: "irq_run b us idle c 0 c"
| wait: "irq_run b us idle c m (u, s) \<Longrightarrow> idle s s' \<Longrightarrow> irq_run b us idle c m (u, s')"
| isr: "irq_run b us idle c m (u, s) \<Longrightarrow> fst (ld8 b (IIR u) s) AND IIRF_MASK = IIRF_THRE \<Longrightarrow>
    irq_run b us idle c (Suc m) (uart_isr b us u s)"

section \<open>The driver on such a board\<close>

lemma uart_0_registers:
  assumes "hw_reg u = FPGA_UART_0_BASE"
  shows "ucast (RBR u) = (0x10000000 :: u64)" "ucast (THR u) = (0x10000000 :: u64)" "ucast (DLL u) = (0x10000000 :: u64)"
    "ucast (DLM u) = (0x10000004 :: u64)" "ucast (IER u) = (0x10000004 :: u64)" "ucast (IIR u) = (0x10000008 :: u64)"
    "ucast (FCR u) = (0x10000008 :: u64)" "ucast (LCR u) = (0x1000000C :: u64)" "ucast (MCR u) = (0x10000010 :: u64)"
    "ucast (LSR u) = (0x10000014 :: u64)"
  using assms
  by (simp_all add: RBR_def THR_def DLL_def DLM_def IER_def IIR_def FCR_def LCR_def MCR_def LSR_def FPGA_UART_0_BASE_def)

context board
begin

lemma wait_thre_returns:
  assumes "hw_reg u = FPGA_UART_0_BASE"
  shows "\<exists>s'. wait_thre b u s = Some s' \<and> W s' = W s \<and> 0 < room s' \<and> P s' = P s"
proof (induction "busy s" arbitrary: s rule: less_induct)
  case less
  obtain x s1 where r: "rd8 b 0x10000014 s = (x, s1)" by fastforce
  have l: "ld8 b (LSR u) s = (x, s1)" using r assms by (simp add: ld8_def uart_0_registers)
  have p: "P s1 = P s" using P_rd8 r by blast
  note law = lsr [OF r]
  show ?case
  proof (cases "x AND 0x20 = 0")
    case True
    with law less [of s1] l p show ?thesis by (subst wait_thre.simps) (auto simp: UART_THRE_def)
  next
    case False
    with law l p show ?thesis by (subst wait_thre.simps) (simp add: UART_THRE_def)
  qed
qed

lemma send_from_sends:
  assumes "hw_reg u = FPGA_UART_0_BASE" "\<not> dlab (W s)" "0 < room s" "is_ram a"
  shows "W (send_from b u a s) = sent [d_mem (W s) a] (W s)" "room s \<le> Suc (room (send_from b u a s))"
    "P (send_from b u a s) = P s"
proof -
  obtain x s1 where r: "rd8 b (ucast a) s = (x, s1)" by fastforce
  from ram_rd [OF assms(4) r] have 1: "x = d_mem (W s) a" "W s1 = W s" "room s \<le> room s1" by auto
  have e: "send_from b u a s = wr8 b 0x10000000 x s1"
    using r assms(1) by (simp add: send_from_def ld8_def st8_def uart_0_registers)
  have t: "W (wr8 b 0x10000000 x s1) = sent [x] (W s1)" "room s1 \<le> Suc (room (wr8 b 0x10000000 x s1))"
    using thr [of s1 x] assms(2,3) 1 by auto
  show "W (send_from b u a s) = sent [d_mem (W s) a] (W s)" "room s \<le> Suc (room (send_from b u a s))"
    using t 1 by (auto simp: e)
  show "P (send_from b u a s) = P s" using P_rd8 [OF r] by (simp add: e P_wr8)
qed

lemma d_mem_sent [simp]: "d_mem (sent cs v) = d_mem v"
  by (simp add: sent_def)

lemma polled_tx_loop_sends:
  assumes u: "hw_reg u = FPGA_UART_0_BASE"
  shows "\<not> dlab (W s) \<Longrightarrow> i < n \<Longrightarrow> (\<And>j. j < unat n \<Longrightarrow> is_ram (a + of_nat j)) \<Longrightarrow>
    \<exists>s'. polled_tx_loop b u a n i s = Some s' \<and> P s' = P s \<and>
      W s' = sent (ram_bytes (d_mem (W s)) (a + i) (unat n - unat i)) (W s)"
proof (induction "unat n - unat i" arbitrary: s i rule: less_induct)
  case less
  obtain s1 where 1: "wait_thre b u s = Some s1" "W s1 = W s" "0 < room s1" "P s1 = P s"
    using wait_thre_returns [OF u] by blast
  note i = unat_plus1_u32 [OF less(3)]
  have ram: "is_ram (a + i)" using less(4) [of "unat i"] i by simp
  let ?s2 = "send_from b u (a + i) s1"
  have 2: "W ?s2 = sent [d_mem (W s) (a + i)] (W s)" "P ?s2 = P s"
    using send_from_sends [OF u, of s1 "a + i"] 1 ram less(2) by auto
  show ?case
  proof (cases "i + 1 < n")
    case True
    have l: "unat n - unat (i + 1) < unat n - unat i" using i by simp
    obtain s' where "polled_tx_loop b u a n (i + 1) ?s2 = Some s'" "P s' = P ?s2"
      "W s' = sent (ram_bytes (d_mem (W ?s2)) (a + (i + 1)) (unat n - unat (i + 1))) (W ?s2)"
      using less(1) [OF l, of ?s2] 2 less(2) True less(4) by auto
    moreover have "unat n - unat i = Suc (unat n - unat (i + 1))" using i by simp
    ultimately show ?thesis
      using 1 2 True by (subst polled_tx_loop.simps) (simp add: ram_bytes_Cons algebra_simps)
  next
    case False
    then have "unat n - unat i = 1" using i by (simp add: word_less_nat_alt)
    with 1 2 False show ?thesis by (subst polled_tx_loop.simps) (simp add: ram_bytes_def)
  qed
qed

lemma UART_polled_tx_sends:
  assumes u: "hw_reg u = FPGA_UART_0_BASE" and "\<not> dlab (W s)"
    and "\<And>j. j < unat n \<Longrightarrow> is_ram (a + of_nat j)" and "a \<noteq> 0"
  shows "\<exists>s'. UART_polled_tx b u a n s = Some s' \<and> P s' = P s \<and> W s' = sent (ram_bytes (d_mem (W s)) a (unat n)) (W s)"
proof (cases "n = 0")
  case False
  then have "0 < n" by (simp add: word_neq_0_conv)
  with polled_tx_loop_sends [OF u assms(2), of 0 n a] assms(3,4) show ?thesis by (auto simp: UART_polled_tx_def)
qed (simp add: UART_polled_tx_def)

lemma polled_string_loop_sends:
  assumes u: "hw_reg u = FPGA_UART_0_BASE"
  shows "\<not> dlab (W s) \<Longrightarrow> (\<And>j. j \<le> length cs \<Longrightarrow> is_ram (p + i + of_nat j)) \<Longrightarrow> 0 \<notin> set cs \<Longrightarrow>
    ram_bytes (d_mem (W s)) (p + i) (Suc (length cs)) = cs @ [0] \<Longrightarrow> c = hd (cs @ [0]) \<Longrightarrow>
    \<exists>s'. polled_string_loop b u p i c s = Some s' \<and> P s' = P s \<and> W s' = sent cs (W s)"
proof (induction cs arbitrary: s i c)
  case Nil
  then show ?case by (subst polled_string_loop.simps) simp
next
  case (Cons d cs)
  obtain s1 where 1: "wait_thre b u s = Some s1" "W s1 = W s" "0 < room s1" "P s1 = P s"
    using wait_thre_returns [OF u] by blast
  let ?s2 = "st8 b (THR u) d s1"
  have 2: "W ?s2 = sent [d] (W s)" "P ?s2 = P s"
    using thr [of s1 d] 1 Cons.prems(1) u by (auto simp: st8_def uart_0_registers P_wr8)
  have ram: "is_ram (p + (i + 1))" using Cons.prems(2) [of 1] by (simp add: algebra_simps)
  obtain x s3 where 3: "rd8 b (ucast (p + (i + 1))) ?s2 = (x, s3)" by fastforce
  have 4: "x = d_mem (W s) (p + (i + 1))" "W s3 = sent [d] (W s)" "P s3 = P s"
    using ram_rd [OF ram 3] P_rd8 [OF 3] 2 by simp_all
  have m: "ram_bytes (d_mem (W s)) (p + (i + 1)) (Suc (length cs)) = cs @ [0]"
    using Cons.prems(4) by (simp add: ram_bytes_Cons [of _ _ "Suc (length cs)"] algebra_simps)
  then have x: "x = hd (cs @ [0])" unfolding 4 ram_bytes_Cons by (drule_tac f = hd in arg_cong) simp
  have r: "is_ram (p + (i + 1) + of_nat j)" if "j \<le> length cs" for j
    using Cons.prems(2) [of "Suc j"] that by (simp add: algebra_simps)
  have "\<not> dlab (W s3)" "0 \<notin> set cs" "ram_bytes (d_mem (W s3)) (p + (i + 1)) (Suc (length cs)) = cs @ [0]"
    using 4(2) m Cons.prems(1,3) by simp_all
  then obtain s' where "polled_string_loop b u p (i + 1) x s3 = Some s'" "P s' = P s3" "W s' = sent cs (W s3)"
    using Cons.IH [OF _ r _ _ x, of s3] by blast
  with 1 3 4 Cons.prems(3,5) show ?case
    by (subst polled_string_loop.simps) (simp add: ld8_def)
qed

lemma UART_polled_tx_string_sends:
  assumes u: "hw_reg u = FPGA_UART_0_BASE" and "\<not> dlab (W s)" and "p \<noteq> 0" and "0 \<notin> set cs"
    and "\<And>j. j \<le> length cs \<Longrightarrow> is_ram (p + of_nat j)"
    and "ram_bytes (d_mem (W s)) p (Suc (length cs)) = cs @ [0]"
  shows "\<exists>s'. UART_polled_tx_string b u p s = Some s' \<and> P s' = P s \<and> W s' = sent cs (W s)"
proof -
  obtain x s1 where 3: "rd8 b (ucast p) s = (x, s1)" by fastforce
  from ram_rd [OF _ 3] assms(5) [of 0] P_rd8 [OF 3] have 4: "x = d_mem (W s) p" "W s1 = W s" "P s1 = P s" by auto
  have "x = hd (cs @ [0])" using assms(6) unfolding 4 ram_bytes_Cons by (metis list.sel(1))
  with polled_string_loop_sends [OF u, of s1 cs p 0 x] assms 3 4 show ?thesis
    by (simp add: UART_polled_tx_string_def ld8_def)
qed

lemma reg_or_ier:
  assumes "hw_reg u = FPGA_UART_0_BASE" "\<not> dlab (W s)"
  shows "W (reg_or b (IER u) m s) = (W s)\<lparr>d_ier := (d_ier (W s) OR m) AND 0x0F\<rparr>"
    "room s \<le> room (reg_or b (IER u) m s)" "P (reg_or b (IER u) m s) = P s"
proof -
  obtain x s1 where r: "rd8 b 0x10000004 s = (x, s1)" by fastforce
  note l = ier_rd [OF assms(2) r] and p = P_rd8 [OF r]
  have e: "reg_or b (IER u) m s = wr8 b 0x10000004 (x OR m) s1"
    using r assms(1) by (simp add: reg_or_def ld8_def st8_def uart_0_registers)
  show "W (reg_or b (IER u) m s) = (W s)\<lparr>d_ier := (d_ier (W s) OR m) AND 0x0F\<rparr>"
    "P (reg_or b (IER u) m s) = P s"
    unfolding e using ier_wr [of "x OR m" s1] l p assms(2) by (simp_all add: P_wr8)
  show "room s \<le> room (reg_or b (IER u) m s)"
    unfolding e using ier_wr [of "x OR m" s1] l by simp
qed

lemma reg_and_ier:
  assumes "hw_reg u = FPGA_UART_0_BASE" "\<not> dlab (W s)"
  shows "W (reg_and b (IER u) m s) = (W s)\<lparr>d_ier := (d_ier (W s) AND m) AND 0x0F\<rparr>"
    "room s \<le> room (reg_and b (IER u) m s)" "P (reg_and b (IER u) m s) = P s"
proof -
  obtain x s1 where r: "rd8 b 0x10000004 s = (x, s1)" by fastforce
  note l = ier_rd [OF assms(2) r] and p = P_rd8 [OF r]
  have e: "reg_and b (IER u) m s = wr8 b 0x10000004 (x AND m) s1"
    using r assms(1) by (simp add: reg_and_def ld8_def st8_def uart_0_registers)
  show "W (reg_and b (IER u) m s) = (W s)\<lparr>d_ier := (d_ier (W s) AND m) AND 0x0F\<rparr>"
    "P (reg_and b (IER u) m s) = P s"
    unfolding e using ier_wr [of "x AND m" s1] l p assms(2) by (simp_all add: P_wr8)
  show "room s \<le> room (reg_and b (IER u) m s)"
    unfolding e using ier_wr [of "x AND m" s1] l by simp
qed

lemma enable_irq_0:
  assumes "mhartid k s = 0"
  shows "W (enable_irq b k True s) = W s" "room s \<le> room (enable_irq b k True s)"
    "bit (ie (P (enable_irq b k True s)) 0) 1"
proof -
  obtain w s1 where r: "rd32 b (ucast (HART0_MMODE_ENA 0)) s = (w, s1)" by fastforce
  have g: "(1 :: u32) div 32 = 0" by simp
  have e: "enable_irq b k True s = wr32 b (ucast (HART0_MMODE_ENA 0)) (w OR push_bit (unat ((1 :: u32) mod 32)) 1) s1"
    using r assms
    by (simp add: enable_irq_def uart_plic_num_def PLIC_EnableIRQ_def ld32_def st32_def UART_0_PLIC_IRQHandler_def)
  show "W (enable_irq b k True s) = W s" "room s \<le> room (enable_irq b k True s)"
    unfolding e using plic_wr [of "ucast (HART0_MMODE_ENA 0)" _ s1] plic_rd [OF _ r]
    by (simp, meson le_trans plic_window_addresses(1))
  have "UART_0_PLIC_IRQHandler \<le> MAX_PLIC_INT" by (simp add: UART_0_PLIC_IRQHandler_def MAX_PLIC_INT_def)
  from EnableIRQ [OF assms this]
  show "bit (ie (P (enable_irq b k True s)) 0) 1"
    by (simp add: enable_irq_def uart_plic_num_def UART_0_PLIC_IRQHandler_def bit_simps)
qed

lemma read_lsr_0:
  assumes "hw_reg u = FPGA_UART_0_BASE" "read_lsr b u s = (x, u', s')"
  shows "u' = u\<lparr>status := status u OR x\<rparr>" "W s' = W s" "room s \<le> room s'" "P s' = P s"
    "0 < room s \<Longrightarrow> x AND UART_THRE \<noteq> 0" "x AND UART_THRE \<noteq> 0 \<Longrightarrow> 0 < room s'"
    "x AND UART_DATA_READY \<noteq> 0 \<longleftrightarrow> 0 < arr s'" "arr s' \<le> length (d_rx (W s))"
proof -
  have r: "rd8 b 0x10000014 s = (x, s')" and u': "u' = u\<lparr>status := status u OR x\<rparr>"
    using assms by (auto simp: read_lsr_def ld8_def uart_0_registers split: prod.splits)
  show "u' = u\<lparr>status := status u OR x\<rparr>" by (fact u')
  show "W s' = W s" "room s \<le> room s'" "P s' = P s"
    "0 < room s \<Longrightarrow> x AND UART_THRE \<noteq> 0" "x AND UART_THRE \<noteq> 0 \<Longrightarrow> 0 < room s'"
    "x AND UART_DATA_READY \<noteq> 0 \<longleftrightarrow> 0 < arr s'" "arr s' \<le> length (d_rx (W s))"
    using lsr [OF r] P_rd8 [OF r] by (auto simp: UART_THRE_def UART_DATA_READY_def)
qed

lemma tx_fill_loop_sends:
  "hw_reg u = FPGA_UART_0_BASE \<Longrightarrow> \<not> dlab (W s) \<Longrightarrow> n \<le> room s \<Longrightarrow>
   (\<And>j. j < n \<Longrightarrow> is_ram (tx_buffer u + tx_idx u + of_nat j)) \<Longrightarrow> tx_fill_loop b n u s = (u', s') \<Longrightarrow>
   u' = u\<lparr>tx_idx := tx_idx u + of_nat n\<rparr> \<and> P s' = P s \<and>
   W s' = sent (ram_bytes (d_mem (W s)) (tx_buffer u + tx_idx u) n) (W s)"
proof (induction n arbitrary: u s)
  case (Suc n)
  let ?a = "tx_buffer u + tx_idx u" and ?s1 = "send_from b u (tx_buffer u + tx_idx u) s"
  let ?u1 = "u\<lparr>tx_idx := tx_idx u + 1\<rparr>"
  have "is_ram ?a" using Suc.prems(4) [of 0] by simp
  then have 1: "W ?s1 = sent [d_mem (W s) ?a] (W s)" "room s \<le> Suc (room ?s1)" "P ?s1 = P s"
    using send_from_sends [OF Suc.prems(1,2), of ?a] Suc.prems(3) by simp_all
  have r: "is_ram (tx_buffer ?u1 + tx_idx ?u1 + of_nat j)" if "j < n" for j
    using Suc.prems(4) [of "Suc j"] that by (simp add: algebra_simps)
  have "tx_fill_loop b n ?u1 ?s1 = (u', s')" using Suc.prems(5) by simp
  with Suc.IH [of ?u1 ?s1, OF _ _ _ r] Suc.prems 1 show ?case
    by (simp add: ram_bytes_Cons algebra_simps)
qed simp

lemma default_tx_handler_step:
  assumes u: "hw_reg u = FPGA_UART_0_BASE" and d: "\<not> dlab (W s)" and "16 \<le> room s" and "tx_buffer u \<noteq> 0"
    and lt: "tx_idx u < tx_buff_size u"
    and ram: "\<And>j. j < unat (tx_buff_size u) \<Longrightarrow> is_ram (tx_buffer u + of_nat j)"
    and h: "default_tx_handler b u s = (u', s')"
  defines "i \<equiv> unat (tx_idx u)" and "k \<equiv> min 16 (unat (tx_buff_size u) - unat (tx_idx u))"
  shows "W s' = (sent (ram_bytes (d_mem (W s)) (tx_buffer u + tx_idx u) k) (W s))
      \<lparr>d_ier := if i + k = unat (tx_buff_size u) then (d_ier (W s) AND NOT 0x02) AND 0x0F else d_ier (W s)\<rparr>"
    and "\<exists>x. u' = u\<lparr>status := x, tx_idx := tx_idx u + of_nat k,
      tx_buff_size := if i + k = unat (tx_buff_size u) then 0 else tx_buff_size u\<rparr>"
    and "P s' = P s"
proof -
  let ?n = "tx_buff_size u"
  have i: "i < unat ?n" using lt by (simp add: i_def word_less_nat_alt)
  obtain x u1 s1 where r: "read_lsr b u s = (x, u1, s1)" by (cases "read_lsr b u s") auto
  note r1 = read_lsr_0 [OF u r]
  obtain u2 s2 where f: "tx_fill_loop b k u1 s1 = (u2, s2)" by fastforce
  have rem: "unat (?n - tx_idx u) = unat ?n - i" using lt by (simp add: i_def unat_sub order_less_imp_le)
  have fill: "unat (if tx_buff_size u1 - tx_idx u1 < TX_FIFO_SIZE then tx_buff_size u1 - tx_idx u1
      else TX_FIFO_SIZE) = k"
    by (auto simp: TX_FIFO_SIZE_def word_less_nat_alt rem k_def i_def r1(1))
  have ram1: "is_ram (tx_buffer u1 + tx_idx u1 + of_nat j)" if "j < k" for j
  proof -
    have "i + j < unat ?n" using that unfolding k_def i_def by linarith
    from ram [OF this] show ?thesis by (simp add: r1(1) i_def algebra_simps)
  qed
  have 2: "u2 = u1\<lparr>tx_idx := tx_idx u1 + of_nat k\<rparr>" "P s2 = P s"
    "W s2 = sent (ram_bytes (d_mem (W s)) (tx_buffer u + tx_idx u) k) (W s)"
    using tx_fill_loop_sends [OF _ _ _ ram1 f] r1(1-4) u d assms(3) by (auto simp: k_def)
  have "i + k < 4294967296" using unat_u32_less [of ?n] i by (simp add: k_def i_def)
  then have idx: "unat (tx_idx u + of_nat k) = i + k"
    using unat_of_nat_u32 [of "i + k"] by (simp add: i_def)
  then have end_iff: "tx_idx u + of_nat k = ?n \<longleftrightarrow> i + k = unat ?n" by (simp add: word_unat_eq_iff)
  have n0: "0 < ?n" using i by (simp add: word_less_nat_alt)
  have h': "(u', s') = (if tx_idx u2 = tx_buff_size u2
      then (u2\<lparr>tx_buff_size := 0\<rparr>, reg_and b (IER u2) (NOT ETBEI_MASK) s2) else (u2, s2))"
    using h r f assms(3,4) n0 r1(5) by (simp add: default_tx_handler_def Let_def fill)
  have u2: "hw_reg u2 = FPGA_UART_0_BASE" "\<not> dlab (W s2)" using 2 u d r1(1) by simp_all
  have e: "tx_idx u2 = tx_idx u + of_nat k" "tx_buff_size u2 = ?n" using 2(1) r1(1) by simp_all
  note land = reg_and_ier [OF u2] and h = h' [unfolded e end_iff]
  show "W s' = (sent (ram_bytes (d_mem (W s)) (tx_buffer u + tx_idx u) k) (W s))
      \<lparr>d_ier := if i + k = unat ?n then (d_ier (W s) AND NOT 0x02) AND 0x0F else d_ier (W s)\<rparr>"
    using h 2(3) land(1) by (cases "i + k = unat ?n") (simp_all add: ETBEI_MASK_def sent_def)
  show "P s' = P s" using h 2(2) land(3) by (auto split: if_splits)
  show "\<exists>x. u' = u\<lparr>status := x, tx_idx := tx_idx u + of_nat k, tx_buff_size := if i + k = unat ?n then 0 else ?n\<rparr>"
    using h 2(1) r1(1) by (intro exI [of _ "status u OR x"]) (auto split: if_splits)
qed

text \<open>The state of an interrupt-driven transmission after \<open>m\<close> runs of the service routine.\<close>

definition tx_progress :: "'z board_view_scheme \<Rightarrow> u32 \<Rightarrow> u32 \<Rightarrow> nat \<Rightarrow> uart_instance \<times> 's \<Rightarrow> bool" where
  "tx_progress w a n m = (\<lambda>(u, s).
     hw_reg u = FPGA_UART_0_BASE \<and> tx_handler u = DEFAULT_TX_HANDLER \<and> tx_buffer u = a \<and>
     (\<exists>e. W s = (sent (ram_bytes (d_mem w) a (min (16 * m) (unat n))) w)\<lparr>d_ier := e\<rparr> \<and>
       (if 16 * m < unat n then tx_idx u = of_nat (16 * m) \<and> tx_buff_size u = n \<and> bit e 1
        else tx_buff_size u = 0 \<and> \<not> bit e 1)))"

lemma tx_progress_isr:
  assumes inv: "tx_progress w a n m (u, s)" and w: "\<not> dlab w" "a \<noteq> 0" "d_fifo w"
    and ram: "\<And>j. j < unat n \<Longrightarrow> is_ram (a + of_nat j)"
    and irq: "fst (ld8 b (IIR u) s) AND IIRF_MASK = IIRF_THRE"
  shows "tx_progress w a n (Suc m) (uart_isr b us u s)"
proof -
  obtain e where i: "hw_reg u = FPGA_UART_0_BASE" "tx_handler u = DEFAULT_TX_HANDLER" "tx_buffer u = a"
    "W s = (sent (ram_bytes (d_mem w) a (min (16 * m) (unat n))) w)\<lparr>d_ier := e\<rparr>"
    "if 16 * m < unat n then tx_idx u = of_nat (16 * m) \<and> tx_buff_size u = n \<and> bit e 1
     else tx_buff_size u = 0 \<and> \<not> bit e 1"
    using inv by (auto simp: tx_progress_def)
  obtain x s1 where r: "rd8 b 0x10000008 s = (x, s1)" by fastforce
  have l: "ld8 b (IIR u) s = (x, s1)" using r i(1) by (simp add: ld8_def uart_0_registers)
  have "d_fifo (W s)" unfolding i(4) using w(3) by (simp add: sent_def)
  then have s1: "W s1 = W s" "16 \<le> room s1" using iir [OF r] irq l by (simp_all add: IIRF_MASK_def IIRF_THRE_def)
  have h: "uart_isr b us u s = default_tx_handler b u s1"
    using l irq i(2) by (simp add: uart_isr_def IIRF_MODEM_STATUS_def IIRF_THRE_def)
  show ?thesis
  proof (cases "16 * m < unat n")
    case False
    then have "default_tx_handler b u s1 = (u, s1)" using i(5) by (simp add: default_tx_handler_def)
    with False i s1 h show ?thesis by (auto simp: tx_progress_def min_absorb2)
  next
    case True
    define k where "k = min 16 (unat n - 16 * m)"
    have u: "tx_idx u = of_nat (16 * m)" "tx_buff_size u = n" "bit e 1" using i(5) True by auto
    have ix: "unat (tx_idx u) = 16 * m"
      unfolding u(1) using True unat_u32_less [of n] by (intro unat_of_nat_u32) simp
    have d: "\<not> dlab (W s1)" "d_mem (W s1) = d_mem w" "d_ier (W s1) = e"
      using w(1) unfolding s1(1) i(4) by (simp_all add: sent_def dlab_def)
    obtain u2 s2 where h2: "default_tx_handler b u s1 = (u2, s2)" by fastforce
    have lt: "tx_idx u < tx_buff_size u" using ix True u(2) by (simp add: word_less_nat_alt)
    have ram': "is_ram (tx_buffer u + of_nat j)" if "j < unat (tx_buff_size u)" for j
      using ram that i(3) u(2) by simp
    note st = default_tx_handler_step [OF i(1) d(1) s1(2) _ lt ram' h2, unfolded ix u(2) i(3) d(2,3), folded k_def, OF w(2)]
    have sk: "min (16 * Suc m) (unat n) = 16 * m + k" using True by (auto simp: k_def min_def)
    have mk: "min (16 * m) (unat n) = 16 * m" using True by simp
    have fin: "16 * Suc m < unat n \<longleftrightarrow> 16 * m + k \<noteq> unat n" using True by (auto simp: k_def min_def)
    obtain x' where u2: "u2 = u\<lparr>status := x', tx_idx := tx_idx u + of_nat k,
        tx_buff_size := if 16 * m + k = unat n then 0 else n\<rparr>" using st(2) by blast
    have W2: "W s2 = (sent (ram_bytes (d_mem w) a (16 * m + k)) w)
        \<lparr>d_ier := if 16 * m + k = unat n then (e AND NOT 0x02) AND 0x0F else e\<rparr>"
      using st(1) unfolding s1(1) i(4) mk u(1) ram_bytes_add by (simp add: sent_def)
    have k16: "16 * m + k \<noteq> unat n \<Longrightarrow> k = 16" using True by (auto simp: k_def min_def split: if_splits)
    show ?thesis
      unfolding h h2 tx_progress_def prod.case sk fin
      using i(1-3) u W2 k16 by (auto simp: u2 bit_simps)
  qed
qed

lemma irq_run_progress:
  assumes "irq_run b us idle c m c'" and "tx_progress w a n 0 c" and w: "\<not> dlab w" "a \<noteq> 0" "d_fifo w"
    and ram: "\<And>j. j < unat n \<Longrightarrow> is_ram (a + of_nat j)"
  shows "tx_progress w a n m c'"
  using assms(1,2)
proof induction
  case (wait m u s s')
  from idle_step [OF wait.hyps(2)] wait.IH [OF wait.prems] show ?case by (simp add: tx_progress_def)
next
  case (isr m u s)
  from tx_progress_isr [OF isr.IH [OF isr.prems] w ram isr.hyps(2)] show ?case by blast
qed

lemma UART_irq_tx_starts:
  assumes "hw_reg u = FPGA_UART_0_BASE" and "\<not> dlab (W s)" "a \<noteq> 0" "0 < n" and hart: "\<And>s. mhartid k s = 0"
    and st: "UART_irq_tx b k True u a n s = (u', s')"
  shows "tx_progress (W s) a n 0 (u', s')" "bit (ie (P s') 0) 1"
proof -
  let ?u = "u\<lparr>tx_buffer := a, tx_buff_size := n, tx_idx := 0, tx_handler := DEFAULT_TX_HANDLER\<rparr>"
  let ?s = "reg_or b (IER ?u) ETBEI_MASK s"
  have e: "u' = ?u" "s' = enable_irq b k True ?s" using st assms(3,4) by (auto simp: UART_irq_tx_def Let_def)
  have "0 < unat n" using assms(4) by (simp add: word_less_nat_alt)
  moreover have "W s' = (W s)\<lparr>d_ier := (d_ier (W s) OR ETBEI_MASK) AND 0x0F\<rparr>"
    unfolding e using enable_irq_0(1) [OF hart] reg_or_ier(1) [of ?u s] assms(1,2) by simp
  ultimately show "tx_progress (W s) a n 0 (u', s')"
    using assms(1) by (auto simp: tx_progress_def e(1) sent_def ETBEI_MASK_def bit_simps)
  show "bit (ie (P s') 0) 1" unfolding e by (rule enable_irq_0(3) [OF hart])
qed

end

subsection \<open>Reception, initialisation, filling the FIFO\<close>

text \<open>Memory after the bytes \<open>cs\<close> were stored from address \<open>a\<close> on.\<close>

definition store_bytes :: "(u32 \<Rightarrow> u8) \<Rightarrow> u32 \<Rightarrow> u8 list \<Rightarrow> u32 \<Rightarrow> u8" where
  "store_bytes m a cs p = (if unat (p - a) < length cs then cs ! unat (p - a) else m p)"

lemma store_bytes_Nil [simp]: "store_bytes m a [] = m"
  by (simp add: store_bytes_def fun_eq_iff)

lemma store_bytes_Cons:
  assumes "Suc (length cs) < 4294967296"
  shows "store_bytes (m(a := c)) (a + 1) cs = store_bytes m a (c # cs)"
proof
  fix p
  show "store_bytes (m(a := c)) (a + 1) cs p = store_bytes m a (c # cs) p"
  proof (cases "p = a")
    case True
    have "unat (a - (a + 1)) = 4294967295" by (simp add: unat_minus1_u32)
    with True assms show ?thesis by (simp add: store_bytes_def)
  next
    case False
    then have "0 < unat (p - a)" by (simp add: unat_gt_0)
    then have "unat (p - a) = Suc (unat (p - (a + 1)))"
      using unat_minus_one [of "p - a"] False by (simp add: algebra_simps)
    with False show ?thesis by (simp add: store_bytes_def)
  qed
qed

context board
begin

lemma get_rx_loop_reads:
  assumes "hw_reg u = FPGA_UART_0_BASE" "\<not> dlab (W s)" "i \<le> n" "x AND UART_DATA_READY \<noteq> 0 \<longleftrightarrow> 0 < arr s"
    "arr s \<le> length (d_rx (W s))" "\<And>j. j < unat n \<Longrightarrow> is_ram (a + of_nat j)"
    "get_rx_loop b u a n i x s = (r, u', s')"
  shows "i \<le> r \<and> r \<le> n \<and> (r < n \<longrightarrow> arr s' = 0) \<and> unat r - unat i \<le> length (d_rx (W s)) \<and> P s' = P s \<and>
    W s' = (W s)\<lparr>d_rx := drop (unat r - unat i) (d_rx (W s)),
      d_mem := store_bytes (d_mem (W s)) (a + i) (take (unat r - unat i) (d_rx (W s)))\<rparr>"
  using assms
proof (induction "unat n - unat i" arbitrary: u s i x rule: less_induct)
  case less
  note u = less(2) and d = less(3) and ram = less(7)
  show ?case
  proof (cases "x AND UART_DATA_READY \<noteq> 0 \<and> i < n")
    case False
    then show ?thesis using less(4,5,8) by (subst (asm) get_rx_loop.simps) (auto simp: not_less)
  next
    case True
    note i = unat_plus1_u32 [of i n]
    obtain c q where q: "d_rx (W s) = c # q" using True less(5,6) by (cases "d_rx (W s)") auto
    obtain c' s1 where r1: "rd8 b 0x10000000 s = (c', s1)" by fastforce
    have 1: "c' = c" "W s1 = (W s)\<lparr>d_rx := q\<rparr>" using rbr [OF _ d q r1] True less(5) by auto
    let ?s2 = "st8 b (a + i) c s1"
    have "is_ram (a + i)" using ram [of "unat i"] True i by simp
    then have 2: "W ?s2 = (W s)\<lparr>d_rx := q, d_mem := (d_mem (W s))(a + i := c)\<rparr>"
      using ram_wr 1 by (simp add: st8_def)
    obtain y v s3 where r3: "read_lsr b u ?s2 = (y, v, s3)" by (cases "read_lsr b u ?s2") auto
    note l = read_lsr_0 [OF u r3]
    have rec: "get_rx_loop b v a n (i + 1) y s3 = (r, u', s')"
      using less(8) True r1 r3 u by (subst (asm) get_rx_loop.simps) (simp add: ld8_def uart_0_registers 1)
    have W3: "W s3 = (W s)\<lparr>d_rx := q, d_mem := (d_mem (W s))(a + i := c)\<rparr>" using l(2) 2 by simp
    have P3: "P s3 = P s" using l(4) P_rd8 [OF r1] by (simp add: st8_def P_wr8)
    have n: "i + 1 \<le> n" "unat n - unat (i + 1) < unat n - unat i" using True i by (simp_all add: word_le_nat_alt)
    have v: "hw_reg v = FPGA_UART_0_BASE" "\<not> dlab (W s3)" "arr s3 \<le> length (d_rx (W s3))"
      using l(1,8) u d unfolding W3 2 by (simp_all add: dlab_def)
    from less(1) [OF n(2) v(1,2) n(1) l(7) v(3) ram rec]
    have IH: "i + 1 \<le> r" "r \<le> n" "r < n \<longrightarrow> arr s' = 0" "unat r - unat (i + 1) \<le> length q" "P s' = P s"
      "W s' = (W s3)\<lparr>d_rx := drop (unat r - unat (i + 1)) q,
        d_mem := store_bytes (d_mem (W s3)) (a + (i + 1)) (take (unat r - unat (i + 1)) q)\<rparr>"
      by (simp_all add: W3 P3)
    have k: "unat r - unat i = Suc (unat r - unat (i + 1))"
      using IH(1) i True by (simp add: word_le_nat_alt)
    have "Suc (length (take (unat r - unat (i + 1)) q)) < 4294967296"
      using k unat_u32_less [of r] by simp
    note st = store_bytes_Cons [OF this, of "d_mem (W s)" "a + i" c]
    have "i \<le> r" using k by (simp add: word_le_nat_alt)
    with IH k st q show ?thesis by (simp add: W3 algebra_simps)
  qed
qed

lemma UART_get_rx_reads:
  assumes "hw_reg u = FPGA_UART_0_BASE" "\<not> dlab (W s)" "a \<noteq> 0" "0 < n"
    "\<And>j. j < unat n \<Longrightarrow> is_ram (a + of_nat j)" "UART_get_rx b u a n s = (r, u', s')"
  shows "r \<le> n \<and> (r < n \<longrightarrow> arr s' = 0) \<and> unat r \<le> length (d_rx (W s)) \<and> P s' = P s \<and>
    W s' = (W s)\<lparr>d_rx := drop (unat r) (d_rx (W s)),
      d_mem := store_bytes (d_mem (W s)) a (take (unat r) (d_rx (W s)))\<rparr>"
proof -
  obtain x v s1 where l: "read_lsr b u s = (x, v, s1)" by (cases "read_lsr b u s") auto
  note r = read_lsr_0 [OF assms(1) l]
  have g: "get_rx_loop b v a n 0 x s1 = (r, u', s')"
    using assms(3,4,6) l by (simp add: UART_get_rx_def del: get_rx_loop.simps)
  have "hw_reg v = FPGA_UART_0_BASE" "\<not> dlab (W s1)" "arr s1 \<le> length (d_rx (W s1))"
    using r(1,2,8) assms(1,2) by simp_all
  from get_rx_loop_reads [OF this(1,2) _ r(7) this(3) assms(5) g] r(2,4) show ?thesis by simp
qed

lemma fold_send_from:
  assumes "hw_reg u = FPGA_UART_0_BASE" "\<not> dlab (W s)"
  shows "n \<le> room s \<Longrightarrow> (\<And>j. j < n \<Longrightarrow> is_ram (a + of_nat j)) \<Longrightarrow>
    W (fold (\<lambda>i. send_from b u (a + of_nat i)) [0..<n] s) = sent (ram_bytes (d_mem (W s)) a n) (W s) \<and>
    room s \<le> room (fold (\<lambda>i. send_from b u (a + of_nat i)) [0..<n] s) + n \<and>
    P (fold (\<lambda>i. send_from b u (a + of_nat i)) [0..<n] s) = P s"
proof (induction n)
  case (Suc n)
  let ?s = "fold (\<lambda>i. send_from b u (a + of_nat i)) [0..<n] s"
  have IH: "W ?s = sent (ram_bytes (d_mem (W s)) a n) (W s)" "room s \<le> room ?s + n" "P ?s = P s"
    using Suc by auto
  have "\<not> dlab (W ?s)" "0 < room ?s" using assms(2) IH(1,2) Suc.prems(1) by simp_all
  from send_from_sends [OF assms(1) this Suc.prems(2) [of n]] IH show ?case
    by (simp add: ram_bytes_Suc)
qed simp

lemma UART_fill_tx_fifo_sends:
  assumes "hw_reg u = FPGA_UART_0_BASE" "\<not> dlab (W s)" "a \<noteq> 0" "0 < n"
    "\<And>j. j < unat n \<Longrightarrow> is_ram (a + of_nat j)" "UART_fill_tx_fifo b u a n s = (r, u', s')"
  shows "(r = 0 \<or> unat r = min 16 (unat n)) \<and> (0 < room s \<longrightarrow> r \<noteq> 0) \<and>
    (r = 0 \<or> unat r \<le> room s \<longrightarrow> P s' = P s \<and> W s' = sent (ram_bytes (d_mem (W s)) a (unat r)) (W s))"
proof -
  obtain x v s1 where l: "read_lsr b u s = (x, v, s1)" by (cases "read_lsr b u s") auto
  note r = read_lsr_0 [OF assms(1) l]
  let ?k = "if n < TX_FIFO_SIZE then n else TX_FIFO_SIZE"
  have k: "unat ?k = min 16 (unat n)" by (auto simp: TX_FIFO_SIZE_def word_less_nat_alt)
  show ?thesis
  proof (cases "x AND UART_THRE \<noteq> 0")
    case True
    have v: "hw_reg v = FPGA_UART_0_BASE" "\<not> dlab (W s1)" using r(1,2) assms(1,2) by simp_all
    have e: "r = ?k" "s' = fold (\<lambda>i. send_from b v (a + of_nat i)) [0..<unat ?k] s1"
      using True l assms(3,4,6) by (auto simp: UART_fill_tx_fifo_def Let_def)
    have f: "P s' = P s" "W s' = sent (ram_bytes (d_mem (W s)) a (unat r)) (W s)" if "unat r \<le> room s"
      using fold_send_from [OF v, of "unat ?k" a] assms(5) k r(2-4) e that by simp_all
    have "unat r = min 16 (unat n)" unfolding e(1) by (rule k)
    moreover have "0 < min 16 (unat n)" using assms(4) by (simp add: word_less_nat_alt)
    ultimately have "r \<noteq> 0" by (metis less_numeral_extra(3) unat_0)
    with f \<open>unat r = min 16 (unat n)\<close> show ?thesis by blast
  next
    case False
    then have "r = 0" "s' = s1" using l assms(3,4,6) by (auto simp: UART_fill_tx_fifo_def)
    with False r show ?thesis by auto
  qed
qed

lemma baud_divisor:
  fixes baud :: u32
  assumes "baud \<noteq> 0"
  shows "unat ((ucast ((8 * FPGA_UART_0_FREQUENCY) div ucast baud) :: u32) div 2 div 64) = 25000000 div (16 * unat baud)"
proof -
  have "unat (ucast baud :: u64) = unat baud"
    using unat_u32_less [of baud] by (simp add: unsigned_ucast_eq take_bit_nat_eq_self)
  then have "unat ((8 * FPGA_UART_0_FREQUENCY) div ucast baud) = 200000000 div unat baud"
    by (simp add: FPGA_UART_0_FREQUENCY_def unat_div_distrib)
  moreover have "200000000 div unat baud < 4294967296"
    by (rule le_less_trans [OF div_le_dividend]) simp
  ultimately have "unat (ucast ((8 * FPGA_UART_0_FREQUENCY) div ucast baud) :: u32) = 200000000 div unat baud"
    by (simp add: unsigned_ucast_eq take_bit_nat_eq_self)
  then have "unat ((ucast ((8 * FPGA_UART_0_FREQUENCY) div ucast baud) :: u32) div 2 div 64) =
      200000000 div unat baud div 2 div 64"
    by (simp add: unat_div_distrib)
  also have "\<dots> = 200000000 div (8 * (16 * unat baud))" by (simp add: div_mult2_eq [symmetric] mult.commute)
  also have "\<dots> = 25000000 div (16 * unat baud)" by (simp only: div_mult2_eq) simp
  finally show ?thesis .
qed

lemma UART_init_programs:
  assumes u: "hw_reg u = FPGA_UART_0_BASE" and "\<not> dlab (W s)" and "baud \<noteq> 0"
  defines "d \<equiv> 25000000 div (16 * unat baud)"
  shows "\<exists>s' i l. UART_init b u baud lc s = Some
      (u\<lparr>baudrate := baud, lineconfig := lc, status := 0, tx_buffer := 0, tx_buff_size := 0, tx_idx := 0,
         linests_handler := NULL_HANDLER, rx_handler := NULL_HANDLER, tx_handler := DEFAULT_TX_HANDLER,
         modemsts_handler := NULL_HANDLER\<rparr>, s') \<and> P s' = P s \<and>
    W s' = (if d \<le> 0xFFFF then (W s)\<lparr>u_dll := of_nat d, u_dlm := of_nat (d div 256)\<rparr> else W s)
      \<lparr>u_lcr := lc, d_ier := 0, d_fifo := True, d_lost := d_lost (W s) + l, d_rx := drop i (d_rx (W s))\<rparr>"
proof -
  let ?v = "ucast ((8 * FPGA_UART_0_FREQUENCY) div ucast baud) div 2 div (64 :: u32)"
  have v: "unat ?v = d" unfolding d_def by (rule baud_divisor [OF assms(3)])
  have le: "?v \<le> 0xFFFF \<longleftrightarrow> d \<le> 0xFFFF" using v by (simp add: word_le_nat_alt)
  have w: "d div 256 = unat (drop_bit 8 ?v)"
    by (simp add: unat_drop_bit_eq v drop_bit_eq_div [of 8 d])
  have dv: "ucast ?v = (of_nat d :: u8)" "ucast (drop_bit 8 ?v) = (of_nat (d div 256) :: u8)"
    unfolding v [symmetric] w [unfolded v [symmetric]] by simp_all
  let ?s1 = "wr8 b 0x10000004 0 s"
  let ?s2 = "wr8 b 0x10000008 0 ?s1"
  obtain i l where i: "W ?s2 = (W ?s1)\<lparr>d_rx := drop i (d_rx (W ?s1)), d_lost := d_lost (W ?s1) + l, d_fifo := bit (0 :: u8) 0\<rparr>"
    using fcr [of 0 ?s1] by blast
  obtain j l' where j: "W (wr8 b 0x10000008 0xC7 ?s2) =
      (W ?s2)\<lparr>d_rx := drop j (d_rx (W ?s2)), d_lost := d_lost (W ?s2) + l', d_fifo := bit (0xC7 :: u8) 0\<rparr>"
    using fcr [of "0xC7" ?s2] by blast
  let ?s4 = "wr8 b 0x10000010 0 (wr8 b 0x10000008 0xC7 (wr8 b 0x10000008 0 ?s1))"
  have "bit (0xC7 :: u8) 0" by simp
  then have 4: "W ?s4 = (W s)\<lparr>d_ier := 0, d_fifo := True, d_lost := d_lost (W s) + (l + l'), d_rx := drop (j + i) (d_rx (W s))\<rparr>"
    using i j ier_wr [of 0 s] assms(2) by (simp add: mcr add.assoc)
  let ?s5 = "if d \<le> 0xFFFF then wr8 b 0x1000000C 0 (wr8 b 0x10000000 (of_nat d)
      (wr8 b 0x10000004 (of_nat (d div 256)) (wr8 b 0x1000000C 0x80 ?s4))) else ?s4"
  have 5: "W ?s5 = (if d \<le> 0xFFFF then (W ?s4)\<lparr>u_dll := of_nat d, u_dlm := of_nat (d div 256), u_lcr := 0\<rparr> else W ?s4)"
    by (simp add: lcr_wr dll ier_wr dlab_def)
  have "UART_init b u baud lc s = Some
      (u\<lparr>baudrate := baud, lineconfig := lc, status := 0, tx_buffer := 0, tx_buff_size := 0, tx_idx := 0,
         linests_handler := NULL_HANDLER, rx_handler := NULL_HANDLER, tx_handler := DEFAULT_TX_HANDLER,
         modemsts_handler := NULL_HANDLER\<rparr>, wr8 b 0x1000000C lc ?s5)"
    using assms(3) u
    by (simp add: UART_init_def global_init_def config_baud_divisors_def Let_def st8_def uart_0_registers
        le dv DLAB_MASK_def LCR_def DLM_def DLL_def FPGA_UART_0_BASE_def)
  moreover have "P (wr8 b 0x1000000C lc ?s5) = P s" by (simp add: P_wr8)
  moreover have "W (wr8 b 0x1000000C lc ?s5) =
      (if d \<le> 0xFFFF then (W s)\<lparr>u_dll := of_nat d, u_dlm := of_nat (d div 256)\<rparr> else W s)
      \<lparr>u_lcr := lc, d_ier := 0, d_fifo := True, d_lost := d_lost (W s) + (l + l'), d_rx := drop (j + i) (d_rx (W s))\<rparr>"
    using 5 4 by (simp add: lcr_wr)
  ultimately show ?thesis by blast
qed

end

end
