(* ===== verification/Bsp_Syscalls.thy ===== *)
theory Bsp_Syscalls
  imports Bsp_Uart
begin

text \<open>
  The system calls that the C library of the board support package uses,
  \<open>sw/bsp/hal/syscalls.c\<close> as built with \<open>STDIO_THRU_UART\<close>, and the default interrupt
  handlers of \<open>sw/bsp/hal/riscv_hal_stubs.c\<close>. The static variables of the file are a record;
  the error numbers, the system call numbers and the layout of \<open>struct stat\<close> belong to
  the C library and are parameters. \<open>None\<close> is a wait that never ends; \<open>Halted\<close> is the
  final loop of \<open>_exit\<close>.
\<close>

unbundle bit_operations_syntax

section \<open>State and parameters\<close>

datatype errno_code = ENOSYS | ENOMEM | EAGAIN | EINVAL | EMLINK | ENOENT | ECHILD

datatype sys_id = SYS_exit | SYS_read | SYS_write | SYS_getpid | SYS_kill | SYS_open | SYS_openat | SYS_close
  | SYS_lseek | SYS_brk | SYS_link | SYS_unlink | SYS_chdir | SYS_getcwd | SYS_stat | SYS_fstat | SYS_lstat
  | SYS_fstatat | SYS_access | SYS_faccessat | SYS_gettimeofday | SYS_times

record 's newlib =
  ecode :: "errno_code \<Rightarrow> u32"
  sysno :: "sys_id \<Rightarrow> u32"
  set_st_mode_chr :: "u32 \<Rightarrow> 's \<Rightarrow> 's"

record 's sys =
  errno :: u32
  brk :: u32
  stdio_uart_init_done :: bool
  my_uart :: uart_instance
  world :: 's

datatype ('a, 's) run = Returned 'a "'s sys" | Halted "'s sys"

definition STDOUT_REG :: u32 where "STDOUT_REG = 0x10000000"
definition EXIT_REG :: u32 where "EXIT_REG = 0x80040000"
definition STDOUT_FILENO :: u32 where "STDOUT_FILENO = 1"
definition STDIO_BAUD_RATE :: u32 where "STDIO_BAUD_RATE = 115200"
definition UART_8N1 :: u8 where "UART_8N1 = 0x03 OR 0x00 OR 0x00"

text \<open>\<open>errno = e; return -1\<close>.\<close>

definition set_errno :: "u32 \<Rightarrow> 's sys \<Rightarrow> u32 \<times> 's sys" where
  "set_errno e k = (- 1, k\<lparr>errno := e\<rparr>)"

section \<open>Calls that fail\<close>

definition syscall_error :: "u32 \<Rightarrow> 's sys \<Rightarrow> u32 \<times> 's sys" where
  "syscall_error a0 k = set_errno (- a0) k"
definition nanosleep :: "'s newlib \<Rightarrow> u32 \<Rightarrow> u32 \<Rightarrow> 's sys \<Rightarrow> u32 \<times> 's sys" where
  "nanosleep nl rqtp rmtp k = set_errno (ecode nl ENOSYS) k"
definition sys_access :: "'s newlib \<Rightarrow> u32 \<Rightarrow> u32 \<Rightarrow> 's sys \<Rightarrow> u32 \<times> 's sys" where
  "sys_access nl file md k = set_errno (ecode nl ENOSYS) k"
definition sys_chdir :: "'s newlib \<Rightarrow> u32 \<Rightarrow> 's sys \<Rightarrow> u32 \<times> 's sys" where
  "sys_chdir nl path k = set_errno (ecode nl ENOSYS) k"
definition sys_chmod :: "'s newlib \<Rightarrow> u32 \<Rightarrow> u32 \<Rightarrow> 's sys \<Rightarrow> u32 \<times> 's sys" where
  "sys_chmod nl path md k = set_errno (ecode nl ENOSYS) k"
definition sys_chown :: "'s newlib \<Rightarrow> u32 \<Rightarrow> u32 \<Rightarrow> u32 \<Rightarrow> 's sys \<Rightarrow> u32 \<times> 's sys" where
  "sys_chown nl path owner grp k = set_errno (ecode nl ENOSYS) k"
definition sys_close :: "u32 \<Rightarrow> 's sys \<Rightarrow> u32 \<times> 's sys" where
  "sys_close file k = (- 1, k)"
definition sys_execve :: "'s newlib \<Rightarrow> u32 \<Rightarrow> u32 \<Rightarrow> u32 \<Rightarrow> 's sys \<Rightarrow> u32 \<times> 's sys" where
  "sys_execve nl name argv env k = set_errno (ecode nl ENOMEM) k"
definition sys_faccessat :: "'s newlib \<Rightarrow> u32 \<Rightarrow> u32 \<Rightarrow> u32 \<Rightarrow> u32 \<Rightarrow> 's sys \<Rightarrow> u32 \<times> 's sys" where
  "sys_faccessat nl dirfd file md flags k = set_errno (ecode nl ENOSYS) k"
definition sys_fork :: "'s newlib \<Rightarrow> 's sys \<Rightarrow> u32 \<times> 's sys" where
  "sys_fork nl k = set_errno (ecode nl EAGAIN) k"
definition sys_fstatat :: "'s newlib \<Rightarrow> u32 \<Rightarrow> u32 \<Rightarrow> u32 \<Rightarrow> u32 \<Rightarrow> 's sys \<Rightarrow> u32 \<times> 's sys" where
  "sys_fstatat nl dirfd file st flags k = set_errno (ecode nl ENOSYS) k"
definition sys_ftime :: "'s newlib \<Rightarrow> u32 \<Rightarrow> 's sys \<Rightarrow> u32 \<times> 's sys" where
  "sys_ftime nl tp k = set_errno (ecode nl ENOSYS) k"
definition sys_getcwd :: "'s newlib \<Rightarrow> u32 \<Rightarrow> u32 \<Rightarrow> 's sys \<Rightarrow> u32 \<times> 's sys" where
  "sys_getcwd nl buf sz k = (0, k\<lparr>errno := - ecode nl ENOSYS\<rparr>)"
definition sys_gettimeofday :: "'s newlib \<Rightarrow> u32 \<Rightarrow> u32 \<Rightarrow> 's sys \<Rightarrow> u32 \<times> 's sys" where
  "sys_gettimeofday nl tp tzp k = set_errno (- ecode nl ENOSYS) k"
definition sys_kill :: "'s newlib \<Rightarrow> u32 \<Rightarrow> u32 \<Rightarrow> 's sys \<Rightarrow> u32 \<times> 's sys" where
  "sys_kill nl pid sig k = set_errno (ecode nl EINVAL) k"
definition sys_link :: "'s newlib \<Rightarrow> u32 \<Rightarrow> u32 \<Rightarrow> 's sys \<Rightarrow> u32 \<times> 's sys" where
  "sys_link nl old_name new_name k = set_errno (ecode nl EMLINK) k"
definition sys_lstat :: "'s newlib \<Rightarrow> u32 \<Rightarrow> u32 \<Rightarrow> 's sys \<Rightarrow> u32 \<times> 's sys" where
  "sys_lstat nl file st k = set_errno (ecode nl ENOSYS) k"
definition sys_open :: "u32 \<Rightarrow> u32 \<Rightarrow> u32 \<Rightarrow> 's sys \<Rightarrow> u32 \<times> 's sys" where
  "sys_open name flags md k = (- 1, k)"
definition sys_openat :: "'s newlib \<Rightarrow> u32 \<Rightarrow> u32 \<Rightarrow> u32 \<Rightarrow> u32 \<Rightarrow> 's sys \<Rightarrow> u32 \<times> 's sys" where
  "sys_openat nl dirfd name flags md k = set_errno (ecode nl ENOSYS) k"
definition sys_sysconf :: "u32 \<Rightarrow> 's sys \<Rightarrow> u32 \<times> 's sys" where
  "sys_sysconf name k = (- 1, k)"
definition sys_times :: "u32 \<Rightarrow> 's sys \<Rightarrow> u32 \<times> 's sys" where
  "sys_times buf k = (- 1, k)"
definition sys_unlink :: "'s newlib \<Rightarrow> u32 \<Rightarrow> 's sys \<Rightarrow> u32 \<times> 's sys" where
  "sys_unlink nl name k = set_errno (ecode nl ENOENT) k"
definition sys_utime :: "'s newlib \<Rightarrow> u32 \<Rightarrow> u32 \<Rightarrow> 's sys \<Rightarrow> u32 \<times> 's sys" where
  "sys_utime nl path tms k = set_errno (ecode nl ENOSYS) k"
definition sys_wait :: "'s newlib \<Rightarrow> u32 \<Rightarrow> 's sys \<Rightarrow> u32 \<times> 's sys" where
  "sys_wait nl st k = set_errno (ecode nl ECHILD) k"

section \<open>Calls with a result\<close>

definition sys_fstat :: "'s newlib \<Rightarrow> u32 \<Rightarrow> u32 \<Rightarrow> 's sys \<Rightarrow> u32 \<times> 's sys" where
  "sys_fstat nl file st k = (0, k\<lparr>world := set_st_mode_chr nl st (world k)\<rparr>)"
definition sys_stat :: "'s newlib \<Rightarrow> u32 \<Rightarrow> u32 \<Rightarrow> 's sys \<Rightarrow> u32 \<times> 's sys" where
  "sys_stat nl file st k = (0, k\<lparr>world := set_st_mode_chr nl st (world k)\<rparr>)"
definition sys_getpid :: "'s sys \<Rightarrow> u32 \<times> 's sys" where
  "sys_getpid k = (1, k)"
definition sys_isatty :: "u32 \<Rightarrow> 's sys \<Rightarrow> u32 \<times> 's sys" where
  "sys_isatty file k = (if file = STDOUT_FILENO then 1 else 0, k)"
definition sys_lseek :: "u32 \<Rightarrow> u32 \<Rightarrow> u32 \<Rightarrow> 's sys \<Rightarrow> u32 \<times> 's sys" where
  "sys_lseek file ptr dir k = (0, k)"
definition sys_read :: "u32 \<Rightarrow> u32 \<Rightarrow> u32 \<Rightarrow> 's sys \<Rightarrow> u32 \<times> 's sys" where
  "sys_read file ptr len k = (0, k)"

text \<open>The state in which \<open>_exit\<close> loops forever.\<close>

definition sys_exit :: "'s bus \<Rightarrow> u32 \<Rightarrow> 's sys \<Rightarrow> (u32, 's) run" where
  "sys_exit b exit_status k = Halted (k\<lparr>world := st32 b EXIT_REG exit_status (world k)\<rparr>)"

definition unimplemented_msg :: "u8 list" where
  "unimplemented_msg = cstr (''Unimplemented system call called!'' @ [CHR 0x0A])"

definition unimplemented_syscall :: "'s bus \<Rightarrow> 's sys \<Rightarrow> 's sys" where
  "unimplemented_syscall b k =
     k\<lparr>world := fold (\<lambda>c. st32 b STDOUT_REG (ucast c)) unimplemented_msg (world k)\<rparr>"

definition sys_write :: "'s bus \<Rightarrow> u32 \<Rightarrow> u32 \<Rightarrow> u32 \<Rightarrow> 's sys \<Rightarrow> (u32 \<times> 's sys) option" where
  "sys_write b file ptr len k =
     do { k \<leftarrow> (if \<not> stdio_uart_init_done k
                then do { (u, s) \<leftarrow> UART_init b (my_uart k) STDIO_BAUD_RATE UART_8N1 (world k);
                          Some (k\<lparr>my_uart := u, world := s, stdio_uart_init_done := True\<rparr>) }
                else Some k);
          s \<leftarrow> UART_polled_tx b (my_uart k) ptr len (world k);
          Some (len, k\<lparr>world := s\<rparr>) }"

definition sys_brk :: "u32 \<Rightarrow> 's sys \<Rightarrow> u32 \<times> 's sys" where
  "sys_brk addr k = (0, k\<lparr>brk := addr\<rparr>)"

text \<open>The stack pointer and the end of the heap, a symbol of the linker, are arguments.\<close>

definition sys_sbrk :: "'s newlib \<Rightarrow> u32 \<Rightarrow> u32 \<Rightarrow> u32 \<Rightarrow> 's sys \<Rightarrow> u32 \<times> 's sys" where
  "sys_sbrk nl sp heap_end incr k =
     (let old_brk = brk k;
          k = k\<lparr>brk := brk k + incr\<rparr>;
          new_brk = brk k
      in if new_brk < sp \<and> new_brk < heap_end then (old_brk, k\<lparr>brk := new_brk\<rparr>)
         else (- 1, k\<lparr>errno := ecode nl ENOMEM\<rparr>))"

section \<open>Dispatch of environment calls\<close>

definition handle_syscall ::
  "'s bus \<Rightarrow> 's newlib \<Rightarrow> u32 \<Rightarrow> u32 \<Rightarrow> u32 \<Rightarrow> u32 \<Rightarrow> u32 \<Rightarrow> 's sys \<Rightarrow> (unit, 's) run option" where
  "handle_syscall b nl a0 a1 a2 a3 a7 k =
     (let ret = (\<lambda>r. Some (Returned () (snd r))) in
      if a7 = sysno nl SYS_exit then
        (case sys_exit b a0 k of Halted k \<Rightarrow> Some (Halted k) | Returned _ k \<Rightarrow> Some (Returned () k))
      else if a7 = sysno nl SYS_read then ret (sys_read a0 a1 a2 k)
      else if a7 = sysno nl SYS_write then Option.bind (sys_write b a0 a1 a2 k) ret
      else if a7 = sysno nl SYS_getpid then ret (sys_getpid k)
      else if a7 = sysno nl SYS_kill then ret (sys_kill nl a0 a1 k)
      else if a7 = sysno nl SYS_open then ret (sys_open a0 a1 a2 k)
      else if a7 = sysno nl SYS_openat then ret (sys_openat nl a0 a1 a2 a3 k)
      else if a7 = sysno nl SYS_close then ret (sys_close a0 k)
      else if a7 = sysno nl SYS_lseek then ret (sys_lseek a0 a1 a2 k)
      else if a7 = sysno nl SYS_brk then ret (sys_brk a0 k)
      else if a7 = sysno nl SYS_link then ret (sys_link nl a0 a1 k)
      else if a7 = sysno nl SYS_unlink then ret (sys_unlink nl a0 k)
      else if a7 = sysno nl SYS_chdir then ret (sys_chdir nl a0 k)
      else if a7 = sysno nl SYS_getcwd then ret (sys_getcwd nl a0 a1 k)
      else if a7 = sysno nl SYS_stat then ret (sys_stat nl a0 a1 k)
      else if a7 = sysno nl SYS_fstat then ret (sys_fstat nl a0 a1 k)
      else if a7 = sysno nl SYS_lstat then ret (sys_lstat nl a0 a1 k)
      else if a7 = sysno nl SYS_fstatat then ret (sys_fstatat nl a0 a1 a2 a3 k)
      else if a7 = sysno nl SYS_access then ret (sys_access nl a0 a1 k)
      else if a7 = sysno nl SYS_faccessat then ret (sys_faccessat nl a0 a1 a2 a3 k)
      else if a7 = sysno nl SYS_gettimeofday then ret (sys_gettimeofday nl a0 a1 k)
      else if a7 = sysno nl SYS_times then ret (sys_times a0 k)
      else Some (Returned () (unimplemented_syscall b k)))"

section \<open>Default interrupt handlers\<close>

text \<open>The 32 weak handlers of \<open>riscv_hal_stubs.c\<close>, one per interrupt: all of them only return 0.\<close>

definition hal_stub :: "nat \<Rightarrow> 's \<Rightarrow> u8 \<times> 's" where
  "hal_stub irq s = (0, s)"

section \<open>The heap\<close>

text \<open>
  The program break stays inside of the heap as long as the calls succeed. A call that fails
  has moved the break all the same, so that later calls that would fit fail too.
\<close>

lemma sbrk_result:
  "sys_sbrk nl sp heap_end incr k =
     (if brk k + incr < min sp heap_end then (brk k, k\<lparr>brk := brk k + incr\<rparr>)
      else (- 1, k\<lparr>brk := brk k + incr, errno := ecode nl ENOMEM\<rparr>))"
  by (auto simp: sys_sbrk_def Let_def)

text \<open>C37. A call of \<open>_sbrk\<close> whose result stays below the stack pointer and the end of the
  heap returns the old break, and the break then lies below both. A call that does not fit
  returns -1 with \<open>ENOMEM\<close>, but the break has been advanced by then: asking for nothing
  afterwards fails as well, until a request of the opposite size is made.\<close>

theorem sbrk_behaviour:
  assumes "sys_sbrk nl sp heap_end incr k = (r, k')"
  shows "(brk k + incr < min sp heap_end \<longrightarrow> r = brk k \<and> k' = k\<lparr>brk := brk k + incr\<rparr> \<and> brk k' < min sp heap_end) \<and>
    (\<not> brk k + incr < min sp heap_end \<longrightarrow> r = - 1 \<and> errno k' = ecode nl ENOMEM \<and> brk k' = brk k + incr \<and>
       fst (sys_sbrk nl sp heap_end 0 k') = - 1 \<and>
       (brk k < min sp heap_end \<longrightarrow> brk (snd (sys_sbrk nl sp heap_end (- incr) k')) = brk k))"
  using assms by (auto simp: sbrk_result split: if_splits)

definition sample_newlib :: "'s newlib" where
  "sample_newlib = \<lparr>ecode = (\<lambda>e. case e of ENOSYS \<Rightarrow> 88 | ENOMEM \<Rightarrow> 12 | EAGAIN \<Rightarrow> 11 | EINVAL \<Rightarrow> 22
       | EMLINK \<Rightarrow> 31 | ENOENT \<Rightarrow> 2 | ECHILD \<Rightarrow> 10),
     sysno = (\<lambda>i. case i of SYS_exit \<Rightarrow> 93 | SYS_read \<Rightarrow> 63 | SYS_write \<Rightarrow> 64 | SYS_getpid \<Rightarrow> 172 | SYS_kill \<Rightarrow> 129
       | SYS_open \<Rightarrow> 1024 | SYS_openat \<Rightarrow> 56 | SYS_close \<Rightarrow> 57 | SYS_lseek \<Rightarrow> 62 | SYS_brk \<Rightarrow> 214 | SYS_link \<Rightarrow> 1025
       | SYS_unlink \<Rightarrow> 1026 | SYS_chdir \<Rightarrow> 49 | SYS_getcwd \<Rightarrow> 17 | SYS_stat \<Rightarrow> 1038 | SYS_fstat \<Rightarrow> 80
       | SYS_lstat \<Rightarrow> 1039 | SYS_fstatat \<Rightarrow> 79 | SYS_access \<Rightarrow> 1033 | SYS_faccessat \<Rightarrow> 48
       | SYS_gettimeofday \<Rightarrow> 169 | SYS_times \<Rightarrow> 153),
     set_st_mode_chr = (\<lambda>_ s. s)\<rparr>"

definition sample_sys :: "'s \<Rightarrow> 's sys" where
  "sample_sys s = \<lparr>errno = 0, brk = 0x80010000, stdio_uart_init_done = False, my_uart = g_uart_0, world = s\<rparr>"

theorem sbrk_behaviour_witness:
  "fst (sys_sbrk sample_newlib 0x80020000 0x80018000 0x9000 (sample_sys ())) = - 1 \<and>
   fst (sys_sbrk sample_newlib 0x80020000 0x80018000 0 (snd (sys_sbrk sample_newlib 0x80020000 0x80018000 0x9000 (sample_sys ())))) = - 1"
proof -
  have e: "sys_sbrk sample_newlib 0x80020000 0x80018000 0x9000 (sample_sys ()) =
      (fst (sys_sbrk sample_newlib 0x80020000 0x80018000 0x9000 (sample_sys ())),
       snd (sys_sbrk sample_newlib 0x80020000 0x80018000 0x9000 (sample_sys ())))" by simp
  from sbrk_behaviour [OF e] show ?thesis by (simp add: sample_sys_def)
qed

section \<open>Which call changes what\<close>

lemmas failing_calls = sys_access_def sys_chdir_def sys_faccessat_def sys_fstatat_def sys_getcwd_def
  sys_gettimeofday_def sys_kill_def sys_link_def sys_lstat_def sys_openat_def sys_unlink_def set_errno_def

lemmas passive_calls = sys_read_def sys_getpid_def sys_open_def sys_close_def sys_lseek_def sys_times_def

text \<open>The error number that a call leaves behind, if it sets one.\<close>

fun call_errno :: "'s newlib \<Rightarrow> sys_id \<Rightarrow> u32 option" where
  "call_errno nl SYS_kill = Some (ecode nl EINVAL)"
| "call_errno nl SYS_link = Some (ecode nl EMLINK)"
| "call_errno nl SYS_unlink = Some (ecode nl ENOENT)"
| "call_errno nl SYS_getcwd = Some (- ecode nl ENOSYS)"
| "call_errno nl SYS_gettimeofday = Some (- ecode nl ENOSYS)"
| "call_errno nl i = (if i \<in> {SYS_openat, SYS_chdir, SYS_lstat, SYS_fstatat, SYS_access, SYS_faccessat}
     then Some (ecode nl ENOSYS) else None)"

text \<open>Dispatch: apart from output, exit, the break and the two calls that fill a status buffer, an
  environment call changes nothing but the error number.\<close>

lemma handle_syscall_errno:
  assumes "inj (sysno nl)" "i \<notin> {SYS_write, SYS_exit, SYS_brk, SYS_stat, SYS_fstat}"
  shows "handle_syscall b nl a0 a1 a2 a3 (sysno nl i) k =
    Some (Returned () (case call_errno nl i of None \<Rightarrow> k | Some e \<Rightarrow> k\<lparr>errno := e\<rparr>))"
  using assms(2) by (cases i) (simp_all add: handle_syscall_def inj_eq [OF assms(1)] failing_calls passive_calls)

lemma inj_sample_newlib: "inj (sysno sample_newlib)"
proof (rule injI)
  fix x y assume "sysno (sample_newlib :: 's newlib) x = sysno (sample_newlib :: 's newlib) y"
  then show "x = y" by (cases x; cases y) (simp_all add: sample_newlib_def)
qed

end
