(* ===== verification/Bsp_Board.thy ===== *)
theory Bsp_Board
  imports Bsp_Syscalls
begin

text \<open>
  A board that keeps the contract of \<open>board\<close>: a UART as that of the FPGA design, with a transmit
  FIFO of 16 bytes when it is enabled and of one byte when it is not, a store that is dropped
  when there is no room, a FIFO that is reset when its enable bit changes or on command, and a
  transmitter that drains between accesses; the interrupt controller of \<open>Bsp_Plic\<close> and 2 GB of memory. The
  properties of the serial driver and of the C library's output are stated for every board
  that keeps the contract; this one shows that there is such a board and evaluates them.
\<close>

unbundle bit_operations_syntax

section \<open>The board\<close>

record sim_board =
  sb_v :: board_view
  sb_room :: nat
  sb_plic :: plic_hw

definition sb_ram :: "u32 \<Rightarrow> bool" where
  "sb_ram a \<longleftrightarrow> 0x80000000 \<le> a"

definition sb_depth :: "sim_board \<Rightarrow> nat" where
  "sb_depth s = (if d_fifo (sb_v s) then 16 else 1)"

lemma sb_depth_pos [simp]: "0 < sb_depth s"
  by (simp add: sb_depth_def)

text \<open>Time enough for one byte, and for all of them, to leave the FIFO.\<close>

definition sb_tick :: "sim_board \<Rightarrow> sim_board" where
  "sb_tick s = (if sb_room s < sb_depth s then s\<lparr>sb_room := sb_room s + 1\<rparr> else s)"

definition sb_drain :: "sim_board \<Rightarrow> sim_board" where
  "sb_drain s = s\<lparr>sb_room := max (sb_depth s) (sb_room s)\<rparr>"

text \<open>A write to the FIFO control register.\<close>

definition sb_fcr :: "u8 \<Rightarrow> sim_board \<Rightarrow> sim_board" where
  "sb_fcr c s =
     (let toggle = bit c 0 \<noteq> d_fifo (sb_v s); w = sb_v s;
          w = (if toggle \<or> bit c 1 then w\<lparr>d_rx := []\<rparr> else w);
          w = (if toggle \<or> bit c 2 then w\<lparr>d_lost := d_lost w + (sb_depth s - sb_room s)\<rparr> else w);
          w = w\<lparr>d_fifo := bit c 0\<rparr>
      in s\<lparr>sb_v := w, sb_room := if toggle \<or> bit c 2 then if bit c 0 then 16 else 1 else sb_room s\<rparr>)"

definition sb_rd8 :: "u64 \<Rightarrow> sim_board \<Rightarrow> u8 \<times> sim_board" where
  "sb_rd8 a s =
     (if a = 0x10000014
      then ((if sb_depth s \<le> sb_room s then 0x40 else 0) OR (if 0 < sb_room s then 0x20 else 0) OR
              (if d_rx (sb_v s) = [] then 0 else 1), sb_tick s)
      else if a = 0x10000000
      then (if dlab (sb_v s) then (u_dll (sb_v s), s)
            else case d_rx (sb_v s) of [] \<Rightarrow> (0, s) | y # ys \<Rightarrow> (y, s\<lparr>sb_v := (sb_v s)\<lparr>d_rx := ys\<rparr>\<rparr>))
      else if a = 0x10000004 then (if dlab (sb_v s) then u_dlm (sb_v s) else d_ier (sb_v s), s)
      else if a = 0x10000008
      then ((if d_fifo (sb_v s) then 0xC0 else 0) OR (if bit (d_ier (sb_v s)) 1 \<and> sb_depth s \<le> sb_room s then 2 else 1), s)
      else if a = 0x1000000C then (u_lcr (sb_v s), s)
      else if 0x80000000 \<le> a then (d_mem (sb_v s) (ucast a), s)
      else (0, s))"

definition sb_wr8 :: "u64 \<Rightarrow> u8 \<Rightarrow> sim_board \<Rightarrow> sim_board" where
  "sb_wr8 a c s =
     (if a = 0x10000000
      then (if dlab (sb_v s) then s\<lparr>sb_v := (sb_v s)\<lparr>u_dll := c\<rparr>\<rparr>
            else if sb_room s = 0 then s else s\<lparr>sb_v := sent [c] (sb_v s), sb_room := sb_room s - 1\<rparr>)
      else if a = 0x10000004
      then s\<lparr>sb_v := if dlab (sb_v s) then (sb_v s)\<lparr>u_dlm := c\<rparr> else (sb_v s)\<lparr>d_ier := c AND 0x0F\<rparr>\<rparr>
      else if a = 0x10000008 then sb_fcr c s
      else if a = 0x1000000C then s\<lparr>sb_v := (sb_v s)\<lparr>u_lcr := c\<rparr>\<rparr>
      else if 0x80000000 \<le> a then s\<lparr>sb_v := (sb_v s)\<lparr>d_mem := (d_mem (sb_v s))(ucast a := c)\<rparr>\<rparr>
      else s)"

definition sb_rd32 :: "u64 \<Rightarrow> sim_board \<Rightarrow> u32 \<times> sim_board" where
  "sb_rd32 a s =
     (if plic_window a then let (w, h) = plic_reg_read (\<lambda>_ h. h) (\<lambda>_. 0) a (sb_plic s) in (w, s\<lparr>sb_plic := h\<rparr>)
      else (0, s))"

definition sb_wr32 :: "u64 \<Rightarrow> u32 \<Rightarrow> sim_board \<Rightarrow> sim_board" where
  "sb_wr32 a w s = (if plic_window a then s\<lparr>sb_plic := plic_reg_write (\<lambda>_ _ h. h) a w (sb_plic s)\<rparr> else s)"

definition sb_bus :: "sim_board bus" where
  "sb_bus = \<lparr>rd8 = sb_rd8, wr8 = sb_wr8, rd32 = sb_rd32, wr32 = sb_wr32, rd64 = (\<lambda>_ s. (0, s)), wr64 = (\<lambda>_ _ s. s)\<rparr>"

definition sb_busy :: "sim_board \<Rightarrow> nat" where
  "sb_busy s = 16 - sb_room s"

definition sb_unsent :: "sim_board \<Rightarrow> nat" where
  "sb_unsent s = sb_depth s - sb_room s"

definition sb_arr :: "sim_board \<Rightarrow> nat" where
  "sb_arr s = length (d_rx (sb_v s))"

definition sb_idle :: "sim_board \<Rightarrow> sim_board \<Rightarrow> bool" where
  "sb_idle s s' \<longleftrightarrow> s' = sb_drain s"

lemma sb_drain_simps [simp]:
  "sb_v (sb_drain s) = sb_v s" "sb_plic (sb_drain s) = sb_plic s" "sb_room s \<le> sb_room (sb_drain s)"
  "sb_depth s \<le> sb_room (sb_drain s)" "0 < sb_room (sb_drain s)" "sb_depth (sb_drain s) = sb_depth s"
  using sb_depth_pos [of s] by (auto simp: sb_drain_def sb_depth_def simp del: sb_depth_pos)

lemma sb_tick_simps [simp]:
  "sb_v (sb_tick s) = sb_v s" "sb_plic (sb_tick s) = sb_plic s" "sb_room s \<le> sb_room (sb_tick s)"
  "0 < sb_room (sb_tick s)" "sb_room s < sb_depth s \<Longrightarrow> sb_room (sb_tick s) = Suc (sb_room s)"
  "sb_depth (sb_tick s) = sb_depth s"
  using sb_depth_pos [of s] by (auto simp: sb_tick_def sb_depth_def simp del: sb_depth_pos)

lemma sb_fcr_view:
  "\<exists>i l. sb_v (sb_fcr c s) = (sb_v s)\<lparr>d_rx := drop i (d_rx (sb_v s)), d_lost := d_lost (sb_v s) + l, d_fifo := bit c 0\<rparr>"
proof -
  let ?t = "bit c 0 \<noteq> d_fifo (sb_v s)"
  have "sb_v (sb_fcr c s) = (sb_v s)\<lparr>d_rx := drop (if ?t \<or> bit c 1 then length (d_rx (sb_v s)) else 0) (d_rx (sb_v s)),
      d_lost := d_lost (sb_v s) + (if ?t \<or> bit c 2 then sb_depth s - sb_room s else 0), d_fifo := bit c 0\<rparr>"
    by (simp add: sb_fcr_def Let_def)
  then show ?thesis by blast
qed

lemma sb_fcr_plic [simp]: "sb_plic (sb_fcr c s) = sb_plic s"
  by (simp add: sb_fcr_def Let_def)

lemma sb_ram_address:
  assumes "sb_ram a"
  shows "0x80000000 \<le> (ucast a :: u64)" "ucast (ucast a :: u64) = a"
    and "(ucast a :: u64) \<notin> {0x10000014, 0x10000000, 0x10000004, 0x10000008, 0x1000000C}"
proof -
  have "unat (ucast a :: u64) = unat a"
    using unat_u32_less [of a] by (simp add: unsigned_ucast_eq take_bit_nat_eq_self)
  then show h: "0x80000000 \<le> (ucast a :: u64)" using assms by (simp add: sb_ram_def word_le_nat_alt)
  show "ucast (ucast a :: u64) = a" by (rule bit_word_eqI) (auto simp: bit_simps)
  show "(ucast a :: u64) \<notin> {0x10000014, 0x10000000, 0x10000004, 0x10000008, 0x1000000C}" using h by auto
qed

lemma sb_ram_access:
  assumes "sb_ram a"
  shows "sb_rd8 (ucast a) s = (d_mem (sb_v s) a, s)"
    and "sb_wr8 (ucast a) c s = s\<lparr>sb_v := (sb_v s)\<lparr>d_mem := (d_mem (sb_v s))(a := c)\<rparr>\<rparr>"
  using sb_ram_address [OF assms] by (simp_all add: sb_rd8_def sb_wr8_def del: fun_upd_apply)

interpretation sim: board sb_bus sb_plic "\<lambda>_ h. h" "\<lambda>_ _ h. h" "\<lambda>_. 0" sb_v sb_room sb_busy sb_arr sb_ram sb_idle
proof (unfold_locales, goal_cases)
  case (1 a w s)
  then show ?case by (simp add: sb_bus_def sb_wr32_def)
next
  case (2 a s w s')
  then show ?case by (auto simp: sb_bus_def sb_rd32_def split: prod.splits)
next
  case (3 s x s')
  then show ?case
    by (auto simp: sb_bus_def sb_rd8_def sb_busy_def sb_arr_def split: if_splits)
next
  case (5 s y ys x s')
  then show ?case by (auto simp: sb_bus_def sb_rd8_def)
next
  case (10 c s)
  show ?case using sb_fcr_view [of c s] by (simp add: sb_bus_def sb_wr8_def)
next
  case (14 a s x s')
  then show ?case by (auto simp: sb_bus_def sb_ram_access)
next
  case (15 a c s)
  then show ?case by (simp add: sb_bus_def sb_ram_access)
next
  case (17 p s w s')
  then show ?case by (auto simp: sb_bus_def sb_rd32_def split: prod.splits)
next
  case (18 p c s)
  show ?case by (simp add: sb_bus_def sb_wr8_def)
next
  case (19 p s x s')
  then show ?case by (auto simp: sb_bus_def sb_rd8_def split: if_splits list.splits)
next
  case (9 s x s')
  then show ?case by (auto simp: sb_bus_def sb_rd8_def sb_depth_def split: if_splits)
qed (auto simp: sb_bus_def sb_rd8_def sb_wr8_def sb_wr32_def sb_idle_def split: if_splits)

section \<open>The serial driver\<close>

text \<open>A board just after power-up with text in memory, zeros behind it, and received bytes.\<close>

definition sb_start :: "string \<Rightarrow> u8 list \<Rightarrow> sim_board" where
  "sb_start txt rx =
     \<lparr>sb_v = \<lparr>u_out = [], u_lcr = 0, u_dll = 0, u_dlm = 0, d_ier = 0, d_fifo = False, d_lost = 0, d_rx = rx,
              d_mem = store_bytes (\<lambda>_. 0) 0x80000000 (cstr txt)\<rparr>,
      sb_room = 1, sb_plic = plic_sample\<rparr>"

lemma sb_start_dlab [simp]: "\<not> dlab (sb_v (sb_start txt rx))"
  by (simp add: sb_start_def dlab_def)

lemma sb_start_view [simp]:
  "u_out (sb_v (sb_start txt rx)) = []" "d_rx (sb_v (sb_start txt rx)) = rx"
  "d_mem (sb_v (sb_start txt rx)) = store_bytes (\<lambda>_. 0) 0x80000000 (cstr txt)"
  by (simp_all add: sb_start_def)

lemma g_uart_0_base [simp]: "hw_reg g_uart_0 = FPGA_UART_0_BASE"
  by (simp add: g_uart_0_def)

lemma sb_ram_low: "j < 0x80000000 \<Longrightarrow> sb_ram (0x80000000 + of_nat j)"
  by (simp add: sb_ram_def word_le_nat_alt unat_word_ariths unat_of_nat_u32)

text \<open>\<open>UART_init\<close>, on every board that keeps the contract and for every baud rate but 0,
  returns with the integer divisor \<open>25000000 / (16 * baud)\<close> in the divisor latch when it
  fits into 16 bits (and an untouched latch otherwise), the line configuration in the line
  control register, interrupts off, nothing sent and the instance reset to the default
  transmit handler.\<close>

theorem uart_init_programs_baud:
  assumes "board b P on_claim on_complete ip W room busy arr is_ram idle"
    and "hw_reg u = FPGA_UART_0_BASE" and "\<not> dlab (W s)" and "baud \<noteq> 0" and "d = 25000000 div (16 * unat baud)"
  shows "\<exists>u' s'. UART_init b u baud lc s = Some (u', s') \<and> u_out (W s') = u_out (W s) \<and>
    u_lcr (W s') = lc \<and> d_ier (W s') = 0 \<and>
    (u_dll (W s'), u_dlm (W s')) = (if d \<le> 0xFFFF then (of_nat d, of_nat (d div 256)) else (u_dll (W s), u_dlm (W s))) \<and>
    baudrate u' = baud \<and> tx_handler u' = DEFAULT_TX_HANDLER \<and> tx_buff_size u' = 0 \<and> rx_handler u' = NULL_HANDLER"
proof -
  obtain s' i l where e: "UART_init b u baud lc s = Some
      (u\<lparr>baudrate := baud, lineconfig := lc, status := 0, tx_buffer := 0, tx_buff_size := 0, tx_idx := 0,
         linests_handler := NULL_HANDLER, rx_handler := NULL_HANDLER, tx_handler := DEFAULT_TX_HANDLER,
         modemsts_handler := NULL_HANDLER\<rparr>, s')"
    and w: "W s' = (if d \<le> 0xFFFF then (W s)\<lparr>u_dll := of_nat d, u_dlm := of_nat (d div 256)\<rparr> else W s)
      \<lparr>u_lcr := lc, d_ier := 0, d_fifo := True, d_lost := d_lost (W s) + l, d_rx := drop i (d_rx (W s))\<rparr>"
    using board.UART_init_programs [OF assms(1-4), of lc] unfolding assms(5) by blast
  show ?thesis unfolding e by (cases "d \<le> 0xFFFF") (auto simp: w)
qed

theorem uart_init_programs_baud_witness:
  "\<exists>u' s'. UART_init sb_bus g_uart_0 115200 3 (sb_start [] []) = Some (u', s') \<and>
     u_dll (sb_v s') = 13 \<and> u_dlm (sb_v s') = 0 \<and> u_lcr (sb_v s') = 3"
proof -
  have "13 = 25000000 div (16 * unat (115200 :: u32))" by simp
  from uart_init_programs_baud [OF sim.board_axioms g_uart_0_base sb_start_dlab [of "[]" "[]"] _ this, of 3]
  show ?thesis by auto
qed

text \<open>C15. \<open>UART_polled_tx\<close> always returns and puts exactly the bytes of the buffer on the
  line, in order, without touching memory, the interrupt controller or the configuration.\<close>

theorem uart_polled_tx_sends_buffer:
  assumes "board b P on_claim on_complete ip W room busy arr is_ram idle"
    and "hw_reg u = FPGA_UART_0_BASE" and "\<not> dlab (W s)" and "\<And>j. j < unat n \<Longrightarrow> is_ram (a + of_nat j)" and "a \<noteq> 0"
  shows "\<exists>s'. UART_polled_tx b u a n s = Some s' \<and>
    W s' = (W s)\<lparr>u_out := u_out (W s) @ map (\<lambda>i. d_mem (W s) (a + of_nat i)) [0..<unat n]\<rparr> \<and> P s' = P s"
  using board.UART_polled_tx_sends [OF assms] by (auto simp: sent_def ram_bytes_def)

theorem uart_polled_tx_sends_buffer_witness:
  "\<exists>s'. UART_polled_tx sb_bus g_uart_0 0x80000000 3 (sb_start ''CVA6'' []) = Some s' \<and>
     u_out (sb_v s') = cstr ''CVA''"
proof -
  have r: "sb_ram (0x80000000 + of_nat j)" if "j < unat (3 :: u32)" for j
    using sb_ram_low [of j] that by simp
  have "map (\<lambda>i. store_bytes (\<lambda>_. 0) 0x80000000 (cstr ''CVA6'') (0x80000000 + of_nat i)) [0..<unat (3 :: u32)] = cstr ''CVA''"
    by (simp add: store_bytes_def cstr_def upt_rec [of _ 3] numeral_3_eq_3 [symmetric] upt_conv_Cons)
  with uart_polled_tx_sends_buffer [OF sim.board_axioms g_uart_0_base sb_start_dlab [of "''CVA6''" "[]"], where n = 3 and a = "0x80000000"] r
  show ?thesis by auto
qed

text \<open>C5. Interrupt-driven transmission with the FIFO enabled, as \<open>UART_init\<close> leaves it: after
  \<open>UART_irq_tx\<close> on hart 0, in every run of the service routine for \<open>m\<close> transmitter-empty interrupts, with any time in between, exactly
  the first \<open>16 * m\<close> bytes of the buffer have been accepted by the transmitter, in order. The transmit interrupt
  stays enabled in the UART (its source is enabled in the interrupt controller) until the whole
  buffer is sent; then it is disabled and the transmission is marked as complete.\<close>

theorem uart_irq_tx_sends_all:
  assumes "board b P on_claim on_complete ip W room busy arr is_ram idle"
    and "hw_reg u = FPGA_UART_0_BASE" and "\<not> dlab (W s)" and "a \<noteq> 0" and "0 < n" and "\<And>s. mhartid k s = 0"
    and "d_fifo (W s)" and "\<And>j. j < unat n \<Longrightarrow> is_ram (a + of_nat j)"
    and "irq_run b us idle (UART_irq_tx b k True u a n s) m (u', s')"
  shows "u_out (W s') = u_out (W s) @ take (16 * m) (ram_bytes (d_mem (W s)) a (unat n)) \<and>
    bit (ie (P (snd (UART_irq_tx b k True u a n s))) 0) (unat UART_0_PLIC_IRQHandler) \<and>
    (bit (d_ier (W s')) 1 \<longleftrightarrow> 16 * m < unat n) \<and> (unat n \<le> 16 * m \<longrightarrow> tx_buff_size u' = 0)"
proof -
  obtain u1 s1 where st: "UART_irq_tx b k True u a n s = (u1, s1)" by fastforce
  note start = board.UART_irq_tx_starts [OF assms(1-6) st]
  from board.irq_run_progress [OF assms(1) assms(9) [unfolded st] start(1) assms(3,4,7,8)]
  obtain e where "W s' = (sent (ram_bytes (d_mem (W s)) a (min (16 * m) (unat n))) (W s))\<lparr>d_ier := e\<rparr>"
    "if 16 * m < unat n then bit e 1 else tx_buff_size u' = 0 \<and> \<not> bit e 1"
    unfolding board.tx_progress_def [OF assms(1)] prod.case by (auto split: if_splits)
  then show ?thesis
    using start(2) by (auto simp: st take_ram_bytes sent_def UART_0_PLIC_IRQHandler_def split: if_splits)
qed

theorem uart_irq_tx_sends_all_witness:
  "\<exists>u s u' s'. UART_init sb_bus g_uart_0 115200 3 (sb_start ''CVA6'' []) = Some (u, s) \<and>
     irq_run sb_bus (\<lambda>_ u s. (u, s)) sb_idle (UART_irq_tx sb_bus (fixed_hart 0) True u 0x80000000 3 s) 1 (u', s') \<and>
     u_out (sb_v s') = ram_bytes (d_mem (sb_v (sb_start ''CVA6'' []))) 0x80000000 3 \<and>
     \<not> bit (d_ier (sb_v s')) 1 \<and> tx_buff_size u' = 0"
proof -
  let ?us = "\<lambda>_ :: nat. \<lambda>u s. (u :: uart_instance, s :: sim_board)"
  obtain u s where init: "UART_init sb_bus g_uart_0 115200 3 (sb_start ''CVA6'' []) = Some (u, s)"
    "hw_reg u = FPGA_UART_0_BASE" "\<not> dlab (sb_v s)" "d_fifo (sb_v s)"
    "u_out (sb_v s) = []" "d_mem (sb_v s) = d_mem (sb_v (sb_start ''CVA6'' []))"
    using sim.UART_init_programs [OF g_uart_0_base sb_start_dlab [of "''CVA6''" "[]"], of 115200 3]
    by (auto simp: dlab_def)
  let ?c = "UART_irq_tx sb_bus (fixed_hart 0) True u 0x80000000 3 s"
  obtain u1 s1 where c: "?c = (u1, s1)" by fastforce
  have ram: "sb_ram (0x80000000 + of_nat j)" if "j < unat (3 :: u32)" for j
    using sb_ram_low [of j] that by simp
  note sends = uart_irq_tx_sends_all [OF sim.board_axioms init(2,3) _ _ _ init(4) ram]
  let ?s2 = "sb_drain s1"
  have run0: "irq_run sb_bus ?us sb_idle ?c 0 (u1, s1)" unfolding c by (rule irq_run.start)
  have run1: "irq_run sb_bus ?us sb_idle ?c 0 (u1, ?s2)"
    by (rule irq_run.wait [OF run0]) (simp add: sb_idle_def)
  have u1: "hw_reg u1 = FPGA_UART_0_BASE" using c init(2) by (auto simp: UART_irq_tx_def Let_def)
  have "bit (d_ier (sb_v s1)) 1" using sends [OF _ _ _ _ run0] by (simp add: fixed_hart_def)
  then have "fst (ld8 sb_bus (IIR u1) ?s2) AND IIRF_MASK = IIRF_THRE"
    using u1 by (simp add: ld8_def uart_0_registers sb_bus_def sb_rd8_def IIRF_MASK_def IIRF_THRE_def)
  from irq_run.isr [OF run1 this]
  have run2: "irq_run sb_bus ?us sb_idle ?c 1 (uart_isr sb_bus ?us u1 ?s2)" by simp
  obtain u' s' where i: "uart_isr sb_bus ?us u1 ?s2 = (u', s')" by fastforce
  have "u_out (sb_v s') = ram_bytes (d_mem (sb_v (sb_start ''CVA6'' []))) 0x80000000 3 \<and>
      \<not> bit (d_ier (sb_v s')) 1 \<and> tx_buff_size u' = 0"
    using sends [OF _ _ _ _ run2 [unfolded i]] by (simp add: fixed_hart_def init(5,6))
  with init(1) run2 [unfolded i] show ?thesis by blast
qed

text \<open>
  \<open>UART_fill_tx_fifo\<close> takes bit 5 of the line status for an empty FIFO. With the FIFO enabled it
  only says that there is room for one more byte: the function then stores and reports up to
  16 bytes all the same, and those that find no room are lost.
\<close>

lemma sb_send_from:
  assumes "hw_reg u = FPGA_UART_0_BASE" "\<not> dlab (sb_v s)" "sb_ram a"
  shows "sb_v (send_from sb_bus u a s) = (if sb_room s = 0 then sb_v s else sent [d_mem (sb_v s) a] (sb_v s))"
    "sb_room (send_from sb_bus u a s) = sb_room s - 1"
  using assms sb_ram_access(1) [OF assms(3)]
  by (simp_all add: send_from_def ld8_def st8_def uart_0_registers sb_bus_def sb_wr8_def)

lemma sb_fold_send_from:
  assumes "hw_reg u = FPGA_UART_0_BASE" "\<not> dlab (sb_v s)"
  shows "(\<And>j. j < n \<Longrightarrow> sb_ram (a + of_nat j)) \<Longrightarrow>
    sb_v (fold (\<lambda>i. send_from sb_bus u (a + of_nat i)) [0..<n] s) =
      sent (ram_bytes (d_mem (sb_v s)) a (min n (sb_room s))) (sb_v s) \<and>
    sb_room (fold (\<lambda>i. send_from sb_bus u (a + of_nat i)) [0..<n] s) = sb_room s - n"
proof (induction n)
  case (Suc n)
  let ?s = "fold (\<lambda>i. send_from sb_bus u (a + of_nat i)) [0..<n] s"
  have IH: "sb_v ?s = sent (ram_bytes (d_mem (sb_v s)) a (min n (sb_room s))) (sb_v s)" "sb_room ?s = sb_room s - n"
    using Suc by auto
  have "\<not> dlab (sb_v ?s)" using assms(2) IH(1) by simp
  note step = sb_send_from [OF assms(1) this Suc.prems [of n]]
  show ?case
  proof (cases "n < sb_room s")
    case True
    with IH step show ?thesis by (simp add: min_def ram_bytes_Suc)
  next
    case False
    then have "min (Suc n) (sb_room s) = min n (sb_room s)" by simp
    with False IH step show ?thesis by simp
  qed
qed simp

lemma fill_tx_fifo_loses:
  assumes "hw_reg u = FPGA_UART_0_BASE" "\<not> dlab (sb_v s)" "d_fifo (sb_v s)" "0 < sb_room s" "sb_room s < 15"
    and "a \<noteq> 0" "\<And>j. j < 16 \<Longrightarrow> sb_ram (a + of_nat j)"
  shows "\<exists>u' s'. UART_fill_tx_fifo sb_bus u a 16 s = (16, u', s') \<and>
    u_out (sb_v s') = u_out (sb_v s) @ ram_bytes (d_mem (sb_v s)) a (sb_room s + 1)"
proof -
  obtain x v s1 where l: "read_lsr sb_bus u s = (x, v, s1)" by (cases "read_lsr sb_bus u s") auto
  note r = sim.read_lsr_0 [OF assms(1) l]
  have "s1 = sb_tick s"
    using l assms(1) by (simp add: read_lsr_def ld8_def uart_0_registers sb_bus_def sb_rd8_def)
  then have s1: "sb_room s1 = sb_room s + 1" using assms(3,5) by (simp add: sb_depth_def)
  have v: "hw_reg v = FPGA_UART_0_BASE" "\<not> dlab (sb_v s1)" using r(1,2) assms(1,2) by simp_all
  have "UART_fill_tx_fifo sb_bus u a 16 s = (16, v, fold (\<lambda>i. send_from sb_bus v (a + of_nat i)) [0..<16] s1)"
    using l r(5) assms(4,6) by (simp add: UART_fill_tx_fifo_def TX_FIFO_SIZE_def)
  moreover have "min 16 (sb_room s1) = sb_room s + 1" using s1 assms(5) by simp
  ultimately show ?thesis
    using sb_fold_send_from [OF v, of 16 a] assms(7) r(2) by (auto simp: sent_def)
qed

text \<open>C16. \<open>UART_get_rx\<close> reads at most as many bytes as the buffer holds and stops early only
  when the receiver has nothing more; the bytes are stored in the order of arrival from the
  start of the buffer, no other byte of memory changes, and exactly they are consumed.\<close>

theorem uart_get_rx_in_order:
  assumes "board b P on_claim on_complete ip W room busy arr is_ram idle"
    and "hw_reg u = FPGA_UART_0_BASE" and "\<not> dlab (W s)" and "a \<noteq> 0" and "0 < n"
    and "\<And>j. j < unat n \<Longrightarrow> is_ram (a + of_nat j)" and "UART_get_rx b u a n s = (r, u', s')"
  shows "r \<le> n \<and> (r < n \<longrightarrow> arr s' = 0) \<and> unat r \<le> length (d_rx (W s)) \<and>
    d_rx (W s) = map (\<lambda>i. d_mem (W s') (a + of_nat i)) [0..<unat r] @ d_rx (W s') \<and>
    (\<forall>p. unat (p - a) \<ge> unat r \<longrightarrow> d_mem (W s') p = d_mem (W s) p) \<and> u_out (W s') = u_out (W s)"
proof -
  have g: "r \<le> n" "r < n \<longrightarrow> arr s' = 0" and l: "unat r \<le> length (d_rx (W s))"
    and w: "W s' = (W s)\<lparr>d_rx := drop (unat r) (d_rx (W s)),
      d_mem := store_bytes (d_mem (W s)) a (take (unat r) (d_rx (W s)))\<rparr>"
    using board.UART_get_rx_reads [OF assms] by auto
  have "d_mem (W s') (a + of_nat i) = take (unat r) (d_rx (W s)) ! i" if "i < unat r" for i
    using that l unat_u32_less [of r] by (simp add: w store_bytes_def unat_of_nat_u32)
  then have "map (\<lambda>i. d_mem (W s') (a + of_nat i)) [0..<unat r] = take (unat r) (d_rx (W s))"
    using l by (intro nth_equalityI) simp_all
  then show ?thesis using g l by (auto simp: w store_bytes_def)
qed

theorem uart_get_rx_in_order_witness:
  "\<exists>r u' s'. UART_get_rx sb_bus g_uart_0 0x80000000 4 (sb_start ''--------'' (cstr ''hello'')) = (r, u', s') \<and> r \<le> 4 \<and>
     cstr ''hello'' = map (\<lambda>i. d_mem (sb_v s') (0x80000000 + of_nat i)) [0..<unat r] @ d_rx (sb_v s')"
proof -
  obtain r u' s' where e: "UART_get_rx sb_bus g_uart_0 0x80000000 4 (sb_start ''--------'' (cstr ''hello'')) = (r, u', s')"
    by (metis prod_cases3)
  have ram: "sb_ram (0x80000000 + of_nat j)" if "j < unat (4 :: u32)" for j
    using sb_ram_low [of j] that by simp
  from uart_get_rx_in_order [OF sim.board_axioms g_uart_0_base sb_start_dlab _ _ ram e] e show ?thesis by auto
qed

section \<open>Output of the C library\<close>

text \<open>The port is in its resting configuration: 115200 baud, 8 data bits, no parity, one stop bit.\<close>

definition stdio_ready :: "'z board_view_scheme \<Rightarrow> bool" where
  "stdio_ready w \<longleftrightarrow> u_lcr w = UART_8N1 \<and> u_dll w = 13 \<and> u_dlm w = 0"

definition stdio_inv :: "('s \<Rightarrow> 'z board_view_scheme) \<Rightarrow> 's sys \<Rightarrow> bool" where
  "stdio_inv W k \<longleftrightarrow> hw_reg (my_uart k) = FPGA_UART_0_BASE \<and> \<not> dlab (W (world k)) \<and>
     (stdio_uart_init_done k \<longrightarrow> stdio_ready (W (world k)))"

text \<open>C14. \<open>_write\<close> keeps the invariant of the standard output (the port is configured for 115200
  baud, 8N1, once the first call is done), returns the length it was given whatever the file
  descriptor, and hands exactly the bytes of the buffer to the transmitter, after those of the
  calls before it. Once the port is configured no call resets the transmitter, so that none of
  these bytes is dropped. The program break and \<open>errno\<close> stay as they are.\<close>

theorem write_sends_text:
  assumes "board b P on_claim on_complete ip W room busy arr is_ram idle"
    and "stdio_inv W k" and "\<And>j. j < unat len \<Longrightarrow> is_ram (ptr + of_nat j)" and "ptr \<noteq> 0"
  shows "\<exists>k'. sys_write b file ptr len k = Some (len, k') \<and> stdio_inv W k' \<and> stdio_uart_init_done k' \<and>
    u_out (W (world k')) = u_out (W (world k)) @ ram_bytes (d_mem (W (world k))) ptr (unat len) \<and>
    d_mem (W (world k')) = d_mem (W (world k)) \<and> brk k' = brk k \<and> errno k' = errno k \<and>
    (stdio_uart_init_done k \<longrightarrow> d_lost (W (world k')) = d_lost (W (world k)))"
proof -
  note inv = assms(2) [unfolded stdio_inv_def]
  obtain k1 where k1: "(if \<not> stdio_uart_init_done k
                then do { (u, s) \<leftarrow> UART_init b (my_uart k) STDIO_BAUD_RATE UART_8N1 (world k);
                          Some (k\<lparr>my_uart := u, world := s, stdio_uart_init_done := True\<rparr>) }
                else Some k) = Some k1" "stdio_inv W k1" "stdio_uart_init_done k1" "brk k1 = brk k" "errno k1 = errno k"
      "u_out (W (world k1)) = u_out (W (world k))" "d_mem (W (world k1)) = d_mem (W (world k))"
      "stdio_uart_init_done k \<longrightarrow> d_lost (W (world k1)) = d_lost (W (world k))"
  proof (cases "stdio_uart_init_done k")
    case True
    with assms(2) show ?thesis by (intro that [of k]) simp_all
  next
    case False
    have d: "25000000 div (16 * unat STDIO_BAUD_RATE) = 13" by (simp add: STDIO_BAUD_RATE_def)
    have "STDIO_BAUD_RATE \<noteq> 0" by (simp add: STDIO_BAUD_RATE_def)
    from board.UART_init_programs [OF assms(1) conjunct1 [OF inv] conjunct1 [OF conjunct2 [OF inv]] this, of UART_8N1,
        unfolded d]
    obtain u s where e: "UART_init b (my_uart k) STDIO_BAUD_RATE UART_8N1 (world k) = Some (u, s)"
      "hw_reg u = hw_reg (my_uart k)" "u_out (W s) = u_out (W (world k))" "d_mem (W s) = d_mem (W (world k))"
      "u_lcr (W s) = UART_8N1" "u_dll (W s) = 13" "u_dlm (W s) = 0" by auto
    with False inv show ?thesis
      by (intro that [of "k\<lparr>my_uart := u, world := s, stdio_uart_init_done := True\<rparr>"])
        (simp_all add: stdio_inv_def stdio_ready_def dlab_def UART_8N1_def)
  qed
  from board.UART_polled_tx_sends [OF assms(1) _ _ assms(3,4), of "my_uart k1" "world k1"] k1(2)
  obtain s' where "UART_polled_tx b (my_uart k1) ptr len (world k1) = Some s'"
    "W s' = sent (ram_bytes (d_mem (W (world k1))) ptr (unat len)) (W (world k1))"
    by (auto simp: stdio_inv_def)
  with k1 show ?thesis
    by (auto simp: sys_write_def stdio_inv_def stdio_ready_def sent_def dlab_def intro!: exI [of _ "k1\<lparr>world := s'\<rparr>"])
qed

theorem write_sends_text_witness:
  "\<exists>k'. sys_write sb_bus 1 0x80000000 3 (sample_sys (sb_start ''CVA6'' [])) = Some (3, k') \<and> stdio_uart_init_done k' \<and>
     u_out (sb_v (world k')) = ram_bytes (store_bytes (\<lambda>_. 0) 0x80000000 (cstr ''CVA6'')) 0x80000000 3"
proof -
  have i: "stdio_inv sb_v (sample_sys (sb_start ''CVA6'' []))" by (simp add: stdio_inv_def sample_sys_def)
  have r: "sb_ram (0x80000000 + of_nat j)" if "j < unat (3 :: u32)" for j
    using sb_ram_low [of j] that by simp
  from write_sends_text [OF sim.board_axioms i, where len = 3 and ptr = "0x80000000"] r show ?thesis by (auto simp: sample_sys_def)
qed

end
