(* ===== verification/Bsp_Trap.thy ===== *)
theory Bsp_Trap
  imports Bsp_Syscalls Flat_Memory
begin

text \<open>
  The assembly of the board support package: the trap handlers \<open>sw/bsp/hal/handlers.S\<close>, the
  vector table \<open>vectors.S\<close> and the start-up code \<open>crt0.S\<close>, line by line, with an interpreter for the
  instructions that they use. Calls of C functions are a parameter; the locale
  \<open>calling_convention\<close> states what the handlers rely on, and the system calls of
  \<open>Bsp_Syscalls\<close> are the functions behind it. \<open>None\<close> is code that never ends or leaves the program text;
  the start-up code, which ends in \<open>exit\<close>, is described by the trace of its calls with the machine at each
  of them, also when a call does not return.
\<close>

unbundle bit_operations_syntax

section \<open>Instructions\<close>

datatype xreg = Ra | Sp | Gp | A0 | A1 | A2 | A3 | A4 | A5 | A6 | A7 | T0 | T1 | T2 | T3 | T4 | T5 | T6 | Saved nat

datatype csr = Mcause | Mepc | Mtvec

datatype asm = Label string | Addi xreg xreg u32 | Ori xreg xreg u32 | Andr xreg xreg xreg | Subr xreg xreg xreg
  | Sw xreg u32 xreg | Lw xreg u32 xreg | Lb xreg u32 xreg | Li xreg u32 | La xreg string
  | Beq xreg xreg string | Bne xreg xreg string | Jump string | Call string | Tail string
  | Csrr xreg csr | Csrw csr xreg | Mret

record 's machine =
  xr :: "xreg \<Rightarrow> u32"
  csrs :: "csr \<Rightarrow> u32"
  ram :: memory
  sysenv :: 's

definition set_x :: "xreg \<Rightarrow> u32 \<Rightarrow> 's machine \<Rightarrow> 's machine" where
  "set_x r v m = m\<lparr>xr := (xr m)(r := v)\<rparr>"

text \<open>The position of a label; beyond the end when there is none.\<close>

fun label_pos :: "asm list \<Rightarrow> string \<Rightarrow> nat" where
  "label_pos [] l = 0"
| "label_pos (i # is) l = (if i = Label l then 0 else Suc (label_pos is l))"

text \<open>
  The interpreter. \<open>syms\<close> gives the addresses of symbols, \<open>fn\<close> what a called function does to the
  machine. \<open>mret\<close> and a tail call end the code.
\<close>

datatype 's outcome = Goto nat "'s machine" | Finish "'s machine" | Stuck

definition execute ::
  "asm list \<Rightarrow> (string \<Rightarrow> u32) \<Rightarrow> (string \<Rightarrow> 's machine \<Rightarrow> 's machine option) \<Rightarrow> nat \<Rightarrow> 's machine \<Rightarrow> asm \<Rightarrow> 's outcome" where
  "execute P syms fn pc m ins =
     (case ins of
        Label l \<Rightarrow> Goto (Suc pc) m
      | Addi d s i \<Rightarrow> Goto (Suc pc) (set_x d (xr m s + i) m)
      | Ori d s i \<Rightarrow> Goto (Suc pc) (set_x d (xr m s OR i) m)
      | Andr d s t \<Rightarrow> Goto (Suc pc) (set_x d (xr m s AND xr m t) m)
      | Subr d s t \<Rightarrow> Goto (Suc pc) (set_x d (xr m s - xr m t) m)
      | Sw s off b \<Rightarrow> Goto (Suc pc) (m\<lparr>ram := wr32 (ram m) (xr m b + off) (xr m s)\<rparr>)
      | Lw d off b \<Rightarrow> Goto (Suc pc) (set_x d (Flat_Memory.rd32 (ram m) (xr m b + off)) m)
      | Lb d off b \<Rightarrow> Goto (Suc pc) (set_x d (scast (ram m (xr m b + off))) m)
      | Li d i \<Rightarrow> Goto (Suc pc) (set_x d i m)
      | La d l \<Rightarrow> Goto (Suc pc) (set_x d (syms l) m)
      | Beq s t l \<Rightarrow> Goto (if xr m s = xr m t then label_pos P l else Suc pc) m
      | Bne s t l \<Rightarrow> Goto (if xr m s \<noteq> xr m t then label_pos P l else Suc pc) m
      | Jump l \<Rightarrow> Goto (label_pos P l) m
      | Call f \<Rightarrow> (case fn f m of None \<Rightarrow> Stuck | Some m \<Rightarrow> Goto (Suc pc) m)
      | Tail f \<Rightarrow> (case fn f m of None \<Rightarrow> Stuck | Some m \<Rightarrow> Finish m)
      | Csrr d c \<Rightarrow> Goto (Suc pc) (set_x d (csrs m c) m)
      | Csrw c s \<Rightarrow> Goto (Suc pc) (m\<lparr>csrs := (csrs m)(c := xr m s)\<rparr>)
      | Mret \<Rightarrow> Finish m)"

partial_function (option) exec ::
  "asm list \<Rightarrow> (string \<Rightarrow> u32) \<Rightarrow> (string \<Rightarrow> 's machine \<Rightarrow> 's machine option) \<Rightarrow> nat \<Rightarrow> 's machine \<Rightarrow> 's machine option" where
  "exec P syms fn pc m =
     (if pc < length P
      then case execute P syms fn pc m (P ! pc) of Goto pc m \<Rightarrow> exec P syms fn pc m | Finish m \<Rightarrow> Some m | Stuck \<Rightarrow> None
      else None)"

section \<open>\<open>handlers.S\<close>\<close>

definition EXCEPTION_ILLEGAL_INSN :: u32 where "EXCEPTION_ILLEGAL_INSN = 2"
definition EXCEPTION_BREAKPOINT :: u32 where "EXCEPTION_BREAKPOINT = 3"
definition EXCEPTION_ECALL_M :: u32 where "EXCEPTION_ECALL_M = 11"

definition handlers :: "asm list" where
  "handlers =
    [Label ''__no_irq_handler'',
     La A0 ''no_exception_handler_msg'',
     Call ''puts'',
     Jump ''__no_irq_handler'',
     Label ''sw_irq_handler'',
     Addi Sp Sp (- 64),
     Sw Ra 0 Sp, Sw A0 4 Sp, Sw A1 8 Sp, Sw A2 12 Sp, Sw A3 16 Sp, Sw A4 20 Sp, Sw A5 24 Sp, Sw A6 28 Sp,
     Sw A7 32 Sp, Sw T0 36 Sp, Sw T1 40 Sp, Sw T2 44 Sp, Sw T3 48 Sp, Sw T4 52 Sp, Sw T5 56 Sp, Sw T6 60 Sp,
     Csrr T0 Mcause,
     Li T1 EXCEPTION_ILLEGAL_INSN,
     Beq T0 T1 ''handle_illegal_insn'',
     Li T1 EXCEPTION_ECALL_M,
     Beq T0 T1 ''handle_ecall'',
     Li T1 EXCEPTION_BREAKPOINT,
     Beq T0 T1 ''handle_ebreak'',
     Jump ''handle_unknown'',
     Label ''handle_ecall'',
     Call ''handle_syscall'',
     Jump ''end_handler_incr_mepc'',
     Label ''handle_ebreak'',
     La A0 ''ebreak_msg'',
     Call ''puts'',
     Jump ''end_handler_incr_mepc'',
     Label ''handle_illegal_insn'',
     La A0 ''illegal_insn_msg'',
     Call ''puts'',
     Jump ''end_handler_incr_mepc'',
     Label ''handle_unknown'',
     La A0 ''unknown_msg'',
     Call ''puts'',
     Jump ''end_handler_ret'',
     Label ''end_handler_incr_mepc'',
     Csrr T0 Mepc,
     Lb T1 0 T0,
     Li A0 0x3,
     Andr T1 T1 A0,
     Bne T1 A0 ''end_handler_incr_mepc2'',
     Addi T0 T0 2,
     Label ''end_handler_incr_mepc2'',
     Addi T0 T0 2,
     Csrw Mepc T0,
     Label ''end_handler_ret'',
     Lw Ra 0 Sp, Lw A0 4 Sp, Lw A1 8 Sp, Lw A2 12 Sp, Lw A3 16 Sp, Lw A4 20 Sp, Lw A5 24 Sp, Lw A6 28 Sp,
     Lw A7 32 Sp, Lw T0 36 Sp, Lw T1 40 Sp, Lw T2 44 Sp, Lw T3 48 Sp, Lw T4 52 Sp, Lw T5 56 Sp, Lw T6 60 Sp,
     Addi Sp Sp 64,
     Mret,
     Label ''verification_irq_handler'',
     Mret]"

definition run_handler :: "(string \<Rightarrow> u32) \<Rightarrow> (string \<Rightarrow> 's machine \<Rightarrow> 's machine option) \<Rightarrow> string \<Rightarrow> 's machine \<Rightarrow> 's machine option" where
  "run_handler syms fn l m = exec handlers syms fn (label_pos handlers l) m"

section \<open>\<open>vectors.S\<close> and \<open>crt0.S\<close>\<close>

definition vector_table :: "asm list" where
  "vector_table =
     [Jump ''sw_irq_handler'', Jump ''UART_0_PLIC_IRQHandler''] @ replicate 29 (Jump ''__no_irq_handler'') @ [Jump ''verification_irq_handler'']"

text \<open>\<open>auipc\<close> and \<open>addi\<close> with the two parts of a relative address load the address.\<close>

definition crt0 :: "asm list" where
  "crt0 =
    [Label ''_start'',
     La Gp ''__global_pointer$'',
     La Sp ''__stack_end'',
     La A0 ''__vector_start'',
     Ori A0 A0 1,
     Csrw Mtvec A0,
     La A0 ''_edata'',
     La A2 ''_end'',
     Subr A2 A2 A0,
     Li A1 0,
     Call ''memset'',
     La A0 ''__libc_fini_array'',
     Call ''atexit'',
     Call ''__libc_init_array'',
     Li A0 0,
     Li A1 0,
     Li A2 0,
     Call ''main'',
     Tail ''exit'']"

section \<open>Saving and restoring a frame\<close>

definition caller_saved :: "xreg list" where
  "caller_saved = [Ra, A0, A1, A2, A3, A4, A5, A6, A7, T0, T1, T2, T3, T4, T5, T6]"

lemma caller_saved_length: "length caller_saved = 16"
  by (simp add: caller_saved_def)

lemma exec_goto: "pc < length P \<Longrightarrow> execute P syms fn pc m (P ! pc) = Goto pc' m' \<Longrightarrow> exec P syms fn pc m = exec P syms fn pc' m'"
  by (subst exec.simps) simp

lemma wr_words_Cons:
  "wr_bytes m a (concat (map le32_bytes (v # vs))) = wr_bytes (wr32 m a v) (a + 4) (concat (map le32_bytes vs))"
  using wr_bytes_append [of m a "le32_bytes v" "concat (map le32_bytes vs)"] by (simp add: wr32_def)

lemma exec_saves:
  assumes "pc + length rs \<le> length P" "\<And>i. i < length rs \<Longrightarrow> P ! (pc + i) = Sw (rs ! i) (off + of_nat (4 * i)) Sp"
  shows "exec P syms fn pc m =
    exec P syms fn (pc + length rs) (m\<lparr>ram := wr_bytes (ram m) (xr m Sp + off) (concat (map le32_bytes (map (xr m) rs)))\<rparr>)"
  using assms
proof (induction rs arbitrary: pc off m)
  case (Cons r rs)
  let ?m = "m\<lparr>ram := wr32 (ram m) (xr m Sp + off) (xr m r)\<rparr>"
  have "exec P syms fn pc m = exec P syms fn (Suc pc) ?m"
    using Cons.prems(1) Cons.prems(2) [of 0] by (intro exec_goto) (auto simp: execute_def)
  moreover have "P ! (Suc pc + i) = Sw (rs ! i) (off + 4 + of_nat (4 * i)) Sp" if "i < length rs" for i
    using Cons.prems(2) [of "Suc i"] that by (simp add: add.assoc)
  then have "exec P syms fn (Suc pc) ?m = exec P syms fn (Suc pc + length rs)
      (?m\<lparr>ram := wr_bytes (ram ?m) (xr ?m Sp + (off + 4)) (concat (map le32_bytes (map (xr ?m) rs)))\<rparr>)"
    using Cons.prems(1) by (intro Cons.IH) auto
  ultimately show ?case using wr_words_Cons [of "ram m" "xr m Sp + off" "xr m r" "map (xr m) rs"] by (simp add: add.assoc)
qed simp

lemma exec_restores:
  assumes "pc + length rs \<le> length P" "\<And>i. i < length rs \<Longrightarrow> P ! (pc + i) = Lw (rs ! i) (off + of_nat (4 * i)) Sp"
    "Sp \<notin> set rs" "\<And>i. i < length rs \<Longrightarrow> Flat_Memory.rd32 (ram m) (xr m Sp + (off + of_nat (4 * i))) = f (rs ! i)"
  shows "exec P syms fn pc m = exec P syms fn (pc + length rs) (m\<lparr>xr := (\<lambda>r. if r \<in> set rs then f r else xr m r)\<rparr>)"
  using assms
proof (induction rs arbitrary: pc off m)
  case (Cons r rs)
  let ?m = "set_x r (f r) m"
  have "exec P syms fn pc m = exec P syms fn (Suc pc) ?m"
    using Cons.prems(1) Cons.prems(2) [of 0] Cons.prems(4) [of 0] by (intro exec_goto) (auto simp: execute_def)
  moreover have "P ! (Suc pc + i) = Lw (rs ! i) (off + 4 + of_nat (4 * i)) Sp"
      "Flat_Memory.rd32 (ram ?m) (xr ?m Sp + (off + 4 + of_nat (4 * i))) = f (rs ! i)" if "i < length rs" for i
    using Cons.prems(2) [of "Suc i"] Cons.prems(3) Cons.prems(4) [of "Suc i"] that by (auto simp: add.assoc set_x_def)
  then have "exec P syms fn (Suc pc) ?m = exec P syms fn (Suc pc + length rs) (?m\<lparr>xr := (\<lambda>x. if x \<in> set rs then f x else xr ?m x)\<rparr>)"
    using Cons.prems(1,3) by (intro Cons.IH) auto
  moreover have "(\<lambda>x. if x \<in> set rs then f x else xr ?m x) = (\<lambda>x. if x \<in> set (r # rs) then f x else xr m x)"
    by (auto simp: set_x_def)
  ultimately show ?case by (simp add: set_x_def)
qed simp

lemma frame_read:
  assumes "i < length vs" "4 * length vs \<le> addr_space"
  shows "Flat_Memory.rd32 (wr_bytes m a (concat (map le32_bytes vs))) (a + of_nat (4 * i)) = vs ! i"
proof -
  have len: "length (concat (map le32_bytes xs)) = 4 * length xs" for xs by (induction xs) auto
  have "concat (map le32_bytes vs) = concat (map le32_bytes (take i vs)) @ le32_bytes (vs ! i) @ concat (map le32_bytes (drop (Suc i) vs))"
    by (subst id_take_nth_drop [OF assms(1)]) simp
  then show ?thesis
    using rd32_wr_bytes [of "concat (map le32_bytes (take i vs))" "vs ! i" "concat (map le32_bytes (drop (Suc i) vs))" "a + of_nat (4 * i)" a m]
      assms by (simp add: len)
qed

section \<open>The trap handler\<close>

lemma handlers_length [simp]: "length handlers = 76"
  by (simp add: handlers_def)

lemma handlers_labels [simp]:
  "label_pos handlers ''__no_irq_handler'' = 0" "label_pos handlers ''sw_irq_handler'' = 4" "label_pos handlers ''handle_ecall'' = 30"
  "label_pos handlers ''handle_ebreak'' = 33" "label_pos handlers ''handle_illegal_insn'' = 37" "label_pos handlers ''handle_unknown'' = 41"
  "label_pos handlers ''end_handler_incr_mepc'' = 45" "label_pos handlers ''end_handler_incr_mepc2'' = 52"
  "label_pos handlers ''end_handler_ret'' = 55" "label_pos handlers ''verification_irq_handler'' = 74"
  by code_simp+

text \<open>The handler outside of the two blocks that save and restore registers, one step each.\<close>

lemma handler_steps:
  "exec handlers syms fn 4 m = exec handlers syms fn 5 m"
  "exec handlers syms fn 5 m = exec handlers syms fn 6 (set_x Sp (xr m Sp - 64) m)"
  "exec handlers syms fn 22 m = exec handlers syms fn 23 (set_x T0 (csrs m Mcause) m)"
  "exec handlers syms fn 23 m = exec handlers syms fn 24 (set_x T1 2 m)"
  "exec handlers syms fn 24 m = exec handlers syms fn (if xr m T0 = xr m T1 then 37 else 25) m"
  "exec handlers syms fn 25 m = exec handlers syms fn 26 (set_x T1 11 m)"
  "exec handlers syms fn 26 m = exec handlers syms fn (if xr m T0 = xr m T1 then 30 else 27) m"
  "exec handlers syms fn 27 m = exec handlers syms fn 28 (set_x T1 3 m)"
  "exec handlers syms fn 28 m = exec handlers syms fn (if xr m T0 = xr m T1 then 33 else 29) m"
  "exec handlers syms fn 29 m = exec handlers syms fn 41 m"
  "exec handlers syms fn 30 m = exec handlers syms fn 31 m"
  "exec handlers syms fn 33 m = exec handlers syms fn 34 m"
  "exec handlers syms fn 34 m = exec handlers syms fn 35 (set_x A0 (syms ''ebreak_msg'') m)"
  "exec handlers syms fn 37 m = exec handlers syms fn 38 m"
  "exec handlers syms fn 38 m = exec handlers syms fn 39 (set_x A0 (syms ''illegal_insn_msg'') m)"
  "exec handlers syms fn 41 m = exec handlers syms fn 42 m"
  "exec handlers syms fn 42 m = exec handlers syms fn 43 (set_x A0 (syms ''unknown_msg'') m)"
  by (rule exec_goto; simp add: execute_def handlers_def EXCEPTION_ILLEGAL_INSN_def EXCEPTION_BREAKPOINT_def EXCEPTION_ECALL_M_def)+

lemma handler_call:
  assumes "pc < 75" "handlers ! pc = Call f" "handlers ! (pc + 1) = Jump l"
  shows "exec handlers syms fn pc m = Option.bind (fn f m) (exec handlers syms fn (label_pos handlers l))"
proof (cases "fn f m")
  case None
  then show ?thesis using assms by (subst exec.simps) (simp add: execute_def)
next
  case (Some m')
  have "exec handlers syms fn pc m = exec handlers syms fn (Suc pc) m'"
    using assms Some by (intro exec_goto) (auto simp: execute_def)
  also have "\<dots> = exec handlers syms fn (label_pos handlers l) m'"
    using assms by (intro exec_goto) (auto simp: execute_def)
  finally show ?thesis by (simp add: Some)
qed

lemma handlers_nth:
  "handlers ! 31 = Call ''handle_syscall''" "handlers ! 32 = Jump ''end_handler_incr_mepc''"
  "handlers ! 35 = Call ''puts''" "handlers ! 36 = Jump ''end_handler_incr_mepc''"
  "handlers ! 39 = Call ''puts''" "handlers ! 40 = Jump ''end_handler_incr_mepc''"
  "handlers ! 43 = Call ''puts''" "handlers ! 44 = Jump ''end_handler_ret''" "handlers ! 73 = Mret"
  by (simp_all add: handlers_def)

lemma handler_calls:
  "exec handlers syms fn 31 m = Option.bind (fn ''handle_syscall'' m) (exec handlers syms fn 45)"
  "exec handlers syms fn 35 m = Option.bind (fn ''puts'' m) (exec handlers syms fn 45)"
  "exec handlers syms fn 39 m = Option.bind (fn ''puts'' m) (exec handlers syms fn 45)"
  "exec handlers syms fn 43 m = Option.bind (fn ''puts'' m) (exec handlers syms fn 55)"
  using handler_call [of 31 "''handle_syscall''" "''end_handler_incr_mepc''" syms fn m]
    handler_call [of 35 "''puts''" "''end_handler_incr_mepc''" syms fn m]
    handler_call [of 39 "''puts''" "''end_handler_incr_mepc''" syms fn m]
    handler_call [of 43 "''puts''" "''end_handler_ret''" syms fn m]
  by (simp_all add: handlers_nth)

text \<open>The length of the instruction at an address, from the low bits of its first byte.\<close>

definition insn_bytes :: "memory \<Rightarrow> u32 \<Rightarrow> u32" where
  "insn_bytes mem a = (if mem a AND 3 = 3 then 4 else 2)"

lemma scast_low_bits: "(scast (b :: u8) :: u32) AND 3 = 3 \<longleftrightarrow> b AND 3 = 3"
proof -
  have "(scast b :: u32) AND 3 = ucast (b AND 3)"
    by (rule bit_word_eqI) (auto simp: bit_simps bit_numeral_rec less_Suc_eq numeral_eq_Suc)
  moreover have "ucast (b AND 3) = (3 :: u32) \<longleftrightarrow> b AND 3 = 3"
  proof -
    have "(3 :: u32) = ucast (3 :: u8)" by simp
    then show ?thesis by (metis ucast_u8_u32)
  qed
  ultimately show ?thesis by simp
qed

text \<open>After a call: \<open>mepc\<close> moves behind the instruction, then the registers are read back.\<close>

lemma handler_increment:
  "\<exists>x. exec handlers syms fn 45 m = exec handlers syms fn 55 (m\<lparr>xr := x, csrs := (csrs m)(Mepc := csrs m Mepc + insn_bytes (ram m) (csrs m Mepc))\<rparr>) \<and>
    (\<forall>r. r \<notin> {A0, T0, T1} \<longrightarrow> x r = xr m r)"
proof -
  have s: "exec handlers syms fn 45 m = exec handlers syms fn 46 m" for m
    by (rule exec_goto; simp add: execute_def handlers_def)
  have s1: "exec handlers syms fn 46 m = exec handlers syms fn 47 (set_x T0 (csrs m Mepc) m)" for m
    by (rule exec_goto; simp add: execute_def handlers_def)
  have s2: "exec handlers syms fn 47 m = exec handlers syms fn 48 (set_x T1 (scast (ram m (xr m T0))) m)" for m
    by (rule exec_goto; simp add: execute_def handlers_def)
  have s3: "exec handlers syms fn 48 m = exec handlers syms fn 49 (set_x A0 3 m)" for m
    by (rule exec_goto; simp add: execute_def handlers_def)
  have s4: "exec handlers syms fn 49 m = exec handlers syms fn 50 (set_x T1 (xr m T1 AND xr m A0) m)" for m
    by (rule exec_goto; simp add: execute_def handlers_def)
  have s5: "exec handlers syms fn 50 m = exec handlers syms fn (if xr m T1 \<noteq> xr m A0 then 52 else 51) m" for m
    by (rule exec_goto; simp add: execute_def handlers_def)
  have s6: "exec handlers syms fn 51 m = exec handlers syms fn 52 (set_x T0 (xr m T0 + 2) m)" for m
    by (rule exec_goto; simp add: execute_def handlers_def)
  have s7: "exec handlers syms fn 52 m = exec handlers syms fn 53 m" for m
    by (rule exec_goto; simp add: execute_def handlers_def)
  have s8: "exec handlers syms fn 53 m = exec handlers syms fn 54 (set_x T0 (xr m T0 + 2) m)" for m
    by (rule exec_goto; simp add: execute_def handlers_def)
  have s9: "exec handlers syms fn 54 m = exec handlers syms fn 55 (m\<lparr>csrs := (csrs m)(Mepc := xr m T0)\<rparr>)" for m
    by (rule exec_goto; simp add: execute_def handlers_def)
  show ?thesis
    by (rule exI [of _ "(xr m)(T0 := csrs m Mepc + insn_bytes (ram m) (csrs m Mepc), T1 := scast (ram m (csrs m Mepc)) AND 3, A0 := 3)"])
      (simp add: s s1 s2 s3 s4 s5 s6 s7 s8 s9 set_x_def scast_low_bits insn_bytes_def fun_upd_twist add.assoc)
qed

lemma handler_return:
  assumes "\<And>i. i < 16 \<Longrightarrow> Flat_Memory.rd32 (ram m) (xr m Sp + of_nat (4 * i)) = f (caller_saved ! i)"
  shows "exec handlers syms fn 55 m = Some (m\<lparr>xr := (\<lambda>r. if r \<in> set caller_saved then f r else xr m r)(Sp := xr m Sp + 64)\<rparr>)"
proof -
  let ?x = "\<lambda>r. if r \<in> set caller_saved then f r else xr m r"
  have "exec handlers syms fn 55 m = exec handlers syms fn 56 m"
    by (rule exec_goto; simp add: execute_def handlers_def)
  also have "\<dots> = exec handlers syms fn (56 + length caller_saved) (m\<lparr>xr := ?x\<rparr>)"
  proof (rule exec_restores [where off = 0])
    have "\<forall>i < 16. handlers ! (56 + i) = Lw (caller_saved ! i) (of_nat (4 * i)) Sp"
      by (simp add: handlers_def caller_saved_def numeral_eq_Suc All_less_Suc)
    then show "handlers ! (56 + i) = Lw (caller_saved ! i) (0 + of_nat (4 * i)) Sp" if "i < length caller_saved" for i
      using that by (simp add: caller_saved_def)
  qed (use assms in \<open>auto simp: caller_saved_def\<close>)
  also have "\<dots> = exec handlers syms fn 73 (set_x Sp (xr m Sp + 64) (m\<lparr>xr := ?x\<rparr>))"
    by (rule exec_goto; simp add: execute_def handlers_def caller_saved_def)
  also have "\<dots> = Some (m\<lparr>xr := ?x(Sp := xr m Sp + 64)\<rparr>)"
    by (subst exec.simps) (simp add: execute_def handlers_nth set_x_def)
  finally show ?thesis .
qed

section \<open>What a trap does\<close>

text \<open>The function that the handler calls, and the machine at the call: the frame is saved below the
  stack pointer, and \<open>a0\<close> is a message except for an environment call.\<close>

definition trap_callee :: "u32 \<Rightarrow> string" where
  "trap_callee cause = (if cause = EXCEPTION_ECALL_M then ''handle_syscall'' else ''puts'')"

definition trap_state :: "(string \<Rightarrow> u32) \<Rightarrow> 's machine \<Rightarrow> 's machine" where
  "trap_state syms m =
     (let cause = csrs m Mcause; sp = xr m Sp - 64;
          x = (xr m)(Sp := sp, T0 := cause,
            T1 := if cause = EXCEPTION_ILLEGAL_INSN then EXCEPTION_ILLEGAL_INSN
                  else if cause = EXCEPTION_ECALL_M then EXCEPTION_ECALL_M else EXCEPTION_BREAKPOINT)
      in m\<lparr>xr := if cause = EXCEPTION_ECALL_M then x
             else x(A0 := syms (if cause = EXCEPTION_ILLEGAL_INSN then ''illegal_insn_msg''
                                else if cause = EXCEPTION_BREAKPOINT then ''ebreak_msg'' else ''unknown_msg'')),
           ram := wr_bytes (ram m) sp (concat (map le32_bytes (map (xr m) caller_saved)))\<rparr>)"

text \<open>A handled exception resumes behind its instruction, any other trap at it.\<close>

definition resume_pc :: "memory \<Rightarrow> u32 \<Rightarrow> u32 \<Rightarrow> u32" where
  "resume_pc mem cause pc =
     (if cause \<in> {EXCEPTION_ILLEGAL_INSN, EXCEPTION_ECALL_M, EXCEPTION_BREAKPOINT} then pc + insn_bytes mem pc else pc)"

lemmas exception_codes = EXCEPTION_ILLEGAL_INSN_def EXCEPTION_ECALL_M_def EXCEPTION_BREAKPOINT_def

lemma machine_update_order: "m\<lparr>xr := x, ram := b\<rparr> = m\<lparr>ram := b, xr := x\<rparr>"
  by simp

lemma handler_entry:
  "exec handlers syms fn 4 m = exec handlers syms fn 22 (m\<lparr>xr := (xr m)(Sp := xr m Sp - 64),
    ram := wr_bytes (ram m) (xr m Sp - 64) (concat (map le32_bytes (map (xr m) caller_saved)))\<rparr>)"
proof -
  have "\<forall>i < 16. handlers ! (6 + i) = Sw (caller_saved ! i) (of_nat (4 * i)) Sp"
    by (simp add: handlers_def caller_saved_def numeral_eq_Suc All_less_Suc)
  then have "exec handlers syms fn 6 m = exec handlers syms fn (6 + length caller_saved)
      (m\<lparr>ram := wr_bytes (ram m) (xr m Sp + 0) (concat (map le32_bytes (map (xr m) caller_saved)))\<rparr>)" for m :: "'a machine"
    by (intro exec_saves) (simp_all add: caller_saved_def)
  then show ?thesis by (simp add: handler_steps(1,2) set_x_def caller_saved_def)
qed

lemma handler_dispatch:
  "exec handlers syms fn 4 m = Option.bind (fn (trap_callee (csrs m Mcause)) (trap_state syms m))
    (exec handlers syms fn (if csrs m Mcause \<in> {EXCEPTION_ILLEGAL_INSN, EXCEPTION_ECALL_M, EXCEPTION_BREAKPOINT} then 45 else 55))"
  unfolding handler_entry machine_update_order [symmetric]
  by (simp add: machine_update_order handler_steps(3-) handler_calls set_x_def trap_callee_def trap_state_def Let_def exception_codes)

definition keeps_frame :: "'s machine \<Rightarrow> 's machine \<Rightarrow> bool" where
  "keeps_frame m m' \<longleftrightarrow> (\<forall>r. r \<notin> set caller_saved \<longrightarrow> xr m' r = xr m r) \<and> csrs m' = csrs m \<and>
     (\<forall>a. in_region a (xr m Sp) 64 \<longrightarrow> ram m' a = ram m a)"

text \<open>The contract of the called functions: they keep the registers that are theirs to keep, the
  control registers and the memory of the frame above their stack pointer.\<close>

locale calling_convention =
  fixes fn :: "string \<Rightarrow> 's machine \<Rightarrow> 's machine option"
  assumes keeps: "fn f m = Some m' \<Longrightarrow> keeps_frame m m'"
begin

lemma frame_kept:
  assumes "fn f (trap_state syms m) = Some m1" "i < 16"
  shows "Flat_Memory.rd32 (ram m1) (xr m1 Sp + of_nat (4 * i)) = xr m (caller_saved ! i)"
proof -
  let ?t = "trap_state syms m"
  have sp: "xr m1 Sp = xr m Sp - 64" "xr ?t Sp = xr m Sp - 64"
    using keeps [OF assms(1)] by (auto simp: keeps_frame_def caller_saved_def trap_state_def Let_def)
  have "in_region (xr ?t Sp + of_nat (4 * i) + of_nat j) (xr ?t Sp) 64" if "j < 4" for j
  proof -
    have "4 * i + j < 64" using assms(2) that by simp
    then show ?thesis using unat_of_nat_u32 [of "4 * i + j"] by (simp add: in_region_def add.assoc)
  qed
  from this [of 0] this [of 1] this [of 2] this [of 3]
  have "Flat_Memory.rd32 (ram m1) (xr m1 Sp + of_nat (4 * i)) = Flat_Memory.rd32 (ram ?t) (xr m Sp - 64 + of_nat (4 * i))"
    using keeps [OF assms(1)] unfolding sp keeps_frame_def Flat_Memory.rd32_def by simp
  also have "\<dots> = map (xr m) caller_saved ! i"
    using frame_read [of i "map (xr m) caller_saved" "ram m" "xr m Sp - 64"] assms(2)
    by (simp add: trap_state_def Let_def caller_saved_def addr_space_def)
  also have "\<dots> = xr m (caller_saved ! i)" using assms(2) by (simp add: caller_saved_length)
  finally show ?thesis .
qed

lemma trap_returns:
  assumes "fn (trap_callee (csrs m Mcause)) (trap_state syms m) = Some m1"
  shows "run_handler syms fn ''sw_irq_handler'' m =
    Some (m1\<lparr>xr := xr m, csrs := (csrs m)(Mepc := resume_pc (ram m1) (csrs m Mcause) (csrs m Mepc))\<rparr>)"
proof -
  have k: "xr m1 r = xr (trap_state syms m) r" if "r \<notin> set caller_saved" for r
    using keeps [OF assms] that by (simp add: keeps_frame_def)
  have sp: "xr m1 Sp = xr m Sp - 64" using k [of Sp] by (simp add: caller_saved_def trap_state_def Let_def)
  have other: "xr m1 r = xr m r" if "r \<notin> set caller_saved" "r \<noteq> Sp" for r
    using k [OF that(1)] that by (auto simp: caller_saved_def trap_state_def Let_def)
  have c: "csrs m1 = csrs m" using keeps [OF assms] by (simp add: keeps_frame_def trap_state_def Let_def)
  have restored: "exec handlers syms fn 55 (m1\<lparr>xr := x, csrs := cs\<rparr>) = Some (m1\<lparr>xr := xr m, csrs := cs\<rparr>)"
    if "\<forall>r. r \<notin> set caller_saved \<longrightarrow> x r = xr m1 r" for x cs
  proof -
    have "x Sp = xr m1 Sp" using that by (auto simp: caller_saved_def)
    then have "exec handlers syms fn 55 (m1\<lparr>xr := x, csrs := cs\<rparr>) =
        Some (m1\<lparr>csrs := cs, xr := (\<lambda>r. if r \<in> set caller_saved then xr m r else x r)(Sp := x Sp + 64)\<rparr>)"
      using handler_return [of "m1\<lparr>xr := x, csrs := cs\<rparr>" "xr m"] frame_kept [OF assms] by (simp cong: if_cong)
    moreover have "(\<lambda>r. if r \<in> set caller_saved then xr m r else x r)(Sp := x Sp + 64) = xr m"
      using that other sp by (auto simp: caller_saved_def)
    ultimately show ?thesis by simp
  qed
  show ?thesis
  proof (cases "csrs m Mcause \<in> {EXCEPTION_ILLEGAL_INSN, EXCEPTION_ECALL_M, EXCEPTION_BREAKPOINT}")
    case True
    obtain x where x: "exec handlers syms fn 45 m1 =
        exec handlers syms fn 55 (m1\<lparr>xr := x, csrs := (csrs m1)(Mepc := csrs m1 Mepc + insn_bytes (ram m1) (csrs m1 Mepc))\<rparr>)"
      "\<forall>r. r \<notin> {A0, T0, T1} \<longrightarrow> x r = xr m1 r"
      using handler_increment by blast
    have "\<forall>r. r \<notin> set caller_saved \<longrightarrow> x r = xr m1 r" using x(2) by (auto simp: caller_saved_def)
    with True assms x(1) restored show ?thesis by (simp add: run_handler_def handler_dispatch resume_pc_def c)
  next
    case False
    have "exec handlers syms fn 55 m1 = Some (m1\<lparr>xr := xr m, csrs := csrs m\<rparr>)"
      using restored [of "xr m1" "csrs m1"] by (simp add: c flip: c)
    with False assms show ?thesis by (simp add: run_handler_def handler_dispatch resume_pc_def)
  qed
qed

end

lemma run_handler_trap: "run_handler syms fn ''sw_irq_handler'' m =
    Option.bind (fn (trap_callee (csrs m Mcause)) (trap_state syms m))
      (exec handlers syms fn (if csrs m Mcause \<in> {EXCEPTION_ILLEGAL_INSN, EXCEPTION_ECALL_M, EXCEPTION_BREAKPOINT} then 45 else 55))"
  by (simp only: run_handler_def handlers_labels handler_dispatch)

text \<open>
  The functions of the board support package behind the calls: \<open>handle_syscall\<close> reads its arguments
  from \<open>a0\<close> to \<open>a7\<close> and does not return from \<open>_exit\<close>; \<open>puts\<close> of the C library is a parameter. The
  registers that a call may change are arbitrary after it.
\<close>

definition after_call :: "(xreg \<Rightarrow> u32) \<Rightarrow> 's machine \<Rightarrow> 's \<Rightarrow> 's machine" where
  "after_call u m k = m\<lparr>xr := (\<lambda>r. if r \<in> set caller_saved then u r else xr m r), sysenv := k\<rparr>"

definition bsp_fn ::
  "'s bus \<Rightarrow> 's newlib \<Rightarrow> (u32 \<Rightarrow> 's sys \<Rightarrow> 's sys option) \<Rightarrow> (xreg \<Rightarrow> u32) \<Rightarrow> string \<Rightarrow> 's sys machine \<Rightarrow> 's sys machine option" where
  "bsp_fn b nl pt u f m =
     (if f = ''handle_syscall'' then
        (case handle_syscall b nl (xr m A0) (xr m A1) (xr m A2) (xr m A3) (xr m A7) (sysenv m) of
           Some (Returned _ k) \<Rightarrow> Some (after_call u m k)
         | _ \<Rightarrow> None)
      else map_option (after_call u m) (pt (xr m A0) (sysenv m)))"

interpretation bsp: calling_convention "bsp_fn b nl pt u"
proof
  fix f and m m' :: "'a sys machine"
  assume "bsp_fn b nl pt u f m = Some m'"
  then obtain k where "m' = after_call u m k"
    by (auto simp: bsp_fn_def split: if_splits option.splits run.splits)
  then show "keeps_frame m m'" by (simp add: keeps_frame_def after_call_def)
qed

section \<open>Trap entry of the processor\<close>

text \<open>The write of \<open>mtvec\<close> and the address at which a trap into machine mode starts, from
  \<open>csr_regfile.sv\<close>; \<open>stvec\<close> is zero and the processor is not in debug mode.\<close>

definition mtvec_write :: "u32 \<Rightarrow> u32" where
  "mtvec_write v = (if bit v 0 then (v AND NOT 0xFF) OR 1 else v AND NOT 2)"

definition trap_vector_base :: "u32 \<Rightarrow> u32 \<Rightarrow> u32" where
  "trap_vector_base mtvec cause =
     (let base = mtvec AND NOT 3
      in if bit mtvec 0 \<and> bit cause 31 then (base AND NOT 0xFC) OR push_bit 2 (cause AND 0x3F) else base)"

text \<open>The instruction of the vector table at that address.\<close>

definition vector_insn :: "u32 \<Rightarrow> u32 \<Rightarrow> asm" where
  "vector_insn vstart cause = vector_table ! (unat (trap_vector_base (mtvec_write (vstart OR 1)) cause - vstart) div 4)"

definition irq_cause :: "nat \<Rightarrow> u32" where
  "irq_cause n = 0x80000000 OR of_nat n"

lemma aligned_low_bits:
  fixes vstart :: u32
  assumes "vstart AND 0xFF = 0" "i < 8"
  shows "\<not> bit vstart i"
proof
  assume "bit vstart i"
  then have "bit (vstart AND 0xFF) i" using assms(2) by (auto simp: bit_simps bit_numeral_rec less_Suc_eq numeral_eq_Suc)
  then show False using assms(1) by simp
qed

lemma aligned_and_offset:
  fixes vstart :: u32
  assumes "vstart AND 0xFF = 0"
  shows "vstart AND push_bit 2 (c AND 0x3F) = 0"
  by (rule bit_word_eqI) (use aligned_low_bits [OF assms] in \<open>auto simp: bit_simps bit_numeral_rec less_Suc_eq numeral_eq_Suc split: nat.splits\<close>)

lemma trap_base_aligned:
  assumes "vstart AND 0xFF = 0"
  shows "trap_vector_base (mtvec_write (vstart OR 1)) cause =
    (if bit cause 31 then vstart OR push_bit 2 (cause AND 0x3F) else vstart)"
proof -
  note low = aligned_low_bits [OF assms]
  have w: "mtvec_write (vstart OR 1) = vstart OR 1"
    by (rule bit_word_eqI)
      (use low in \<open>auto simp: mtvec_write_def bit_simps bit_numeral_rec less_Suc_eq numeral_eq_Suc split: nat.splits\<close>)
  have b: "(vstart OR 1) AND NOT 3 = vstart" "vstart AND NOT 0xFC = vstart"
    by (rule bit_word_eqI; use low in \<open>auto simp: bit_simps bit_numeral_rec less_Suc_eq numeral_eq_Suc split: nat.splits\<close>)+
  show ?thesis unfolding trap_vector_base_def w Let_def b by (simp add: bit_simps)
qed

lemma vector_insn_exception: "vstart AND 0xFF = 0 \<Longrightarrow> \<not> bit cause 31 \<Longrightarrow> vector_insn vstart cause = Jump ''sw_irq_handler''"
  by (simp add: vector_insn_def trap_base_aligned vector_table_def)

lemma irq_cause_low: "n < 32 \<Longrightarrow> irq_cause n AND 0x3F = of_nat n" "n < 32 \<Longrightarrow> bit (irq_cause n) 31"
proof -
  have "\<forall>n < 32. irq_cause n AND 0x3F = of_nat n \<and> bit (irq_cause n) 31"
    by (simp add: irq_cause_def numeral_eq_Suc All_less_Suc bit_simps)
  then show "n < 32 \<Longrightarrow> irq_cause n AND 0x3F = of_nat n" "n < 32 \<Longrightarrow> bit (irq_cause n) 31" by auto
qed

lemma vector_insn_irq:
  assumes "vstart AND 0xFF = 0" "n < 32"
  shows "vector_insn vstart (irq_cause n) = vector_table ! n"
proof -
  have "push_bit 2 (of_nat n :: u32) = of_nat (4 * n)" by (simp add: push_bit_eq_mult)
  with disjunctive_add_eq_or [OF aligned_and_offset [OF assms(1), of "irq_cause n"]]
  have "vstart OR push_bit 2 (of_nat n) = vstart + of_nat (4 * n)"
    by (simp only: irq_cause_low(1) [OF assms(2)])
  then have "trap_vector_base (mtvec_write (vstart OR 1)) (irq_cause n) - vstart = of_nat (4 * n)"
    by (simp only: trap_base_aligned [OF assms(1)] irq_cause_low [OF assms(2)] if_True add_diff_cancel_left')
  moreover have "unat (of_nat (4 * n) :: u32) = 4 * n" using assms(2) by (intro unat_of_nat_u32) simp
  ultimately show ?thesis by (simp only: vector_insn_def) simp
qed

text \<open>The default handler prints its message forever.\<close>

lemma no_irq_handler_insns:
  "handlers ! 0 = Label ''__no_irq_handler''" "handlers ! Suc 0 = La A0 ''no_exception_handler_msg''"
  "handlers ! 2 = Call ''puts''" "handlers ! 3 = Jump ''__no_irq_handler''"
  by (simp_all add: handlers_def)

lemma no_irq_handler_induct:
  assumes "exec P syms fn pc m = Some m'"
  shows "P = handlers \<longrightarrow> pc \<notin> {0, 1, 2, 3}"
proof -
  have "case ((((P, syms), fn), pc), m) of ((((P, _), _), pc), _) \<Rightarrow> P = handlers \<longrightarrow> pc \<notin> {0, 1, 2, 3}"
  proof (rule exec.raw_induct [OF _ assms, where Pa = "\<lambda>q _. case q of ((((P, _), _), pc), _) \<Rightarrow> P = handlers \<longrightarrow> pc \<notin> {0, 1, 2, 3}"])
    fix exec :: "asm list \<Rightarrow> (string \<Rightarrow> u32) \<Rightarrow> (string \<Rightarrow> 'a machine \<Rightarrow> 'a machine option) \<Rightarrow> nat \<Rightarrow> 'a machine \<Rightarrow> 'a machine option"
      and P syms fn pc m r
    assume IH: "\<And>P syms fn pc m r. exec P syms fn pc m = Some r \<Longrightarrow>
        case ((((P, syms), fn), pc), m) of ((((P, _), _), pc), _) \<Rightarrow> P = handlers \<longrightarrow> pc \<notin> {0, 1, 2, 3}"
      and step: "(if pc < length P then case execute P syms fn pc m (P ! pc) of
          Goto pc m \<Rightarrow> exec P syms fn pc m | Finish m \<Rightarrow> Some m | Stuck \<Rightarrow> None else None) = Some r"
    have "pc \<notin> {0, 1, 2, 3}" if P: "P = handlers"
    proof
      assume "pc \<in> {0, 1, 2, 3}"
      with P step obtain pc' m' where "exec P syms fn pc' m' = Some r" "pc' \<in> {0, 1, 2, 3}"
        by (auto simp: execute_def no_irq_handler_insns split: option.splits)
      with IH P show False by fastforce
    qed
    then show "case ((((P, syms), fn), pc), m) of ((((P, _), _), pc), _) \<Rightarrow> P = handlers \<longrightarrow> pc \<notin> {0, 1, 2, 3}"
      by simp
  qed
  then show ?thesis by simp
qed

lemma exec_no_irq_handler: "exec handlers syms fn 0 m = None"
  using no_irq_handler_induct [of handlers syms fn 0 m] by (cases "exec handlers syms fn 0 m") auto

section \<open>Traps, interrupts and start-up\<close>

text \<open>C3. A trap is transparent to the interrupted program. Whenever the functions that the handler
  calls keep the registers, control registers and stack memory that are not theirs to change, the
  handler returns exactly when its call does, every register then has its value from before the trap,
  and \<open>mepc\<close> points behind an environment call, a breakpoint or an illegal instruction, by 2 or 4
  bytes according to its length, and at the interrupted instruction in all other cases.\<close>

theorem trap_transparent:
  assumes "\<And>f m m'. fn f m = Some m' \<Longrightarrow> keeps_frame m m'"
  shows "run_handler syms fn ''sw_irq_handler'' m =
    map_option (\<lambda>m1. m1\<lparr>xr := xr m, csrs := (csrs m)(Mepc := resume_pc (ram m1) (csrs m Mcause) (csrs m Mepc))\<rparr>)
      (fn (trap_callee (csrs m Mcause)) (trap_state syms m))"
proof (cases "fn (trap_callee (csrs m Mcause)) (trap_state syms m)")
  case None
  then show ?thesis by (simp add: run_handler_trap)
next
  case (Some m1)
  with calling_convention.trap_returns [OF calling_convention.intro [OF assms]] show ?thesis by simp
qed

lemma after_trap_call:
  "(after_call u (trap_state syms m) k)\<lparr>xr := xr m, csrs := cs\<rparr> = m\<lparr>csrs := cs, ram := ram (trap_state syms m), sysenv := k\<rparr>"
  "ram (after_call u m k) = ram m"
  by (simp_all add: after_call_def trap_state_def Let_def)

text \<open>A program that sets the break with an environment call, of four bytes.\<close>

definition trap_sample :: "plic_hw sys machine" where
  "trap_sample = \<lparr>xr = (\<lambda>_. 7)(A0 := 0x80012000, A7 := sysno (sample_newlib :: plic_hw newlib) SYS_brk, Sp := 0x80020000),
     csrs = (\<lambda>_. 0)(Mcause := EXCEPTION_ECALL_M, Mepc := 0x80000100),
     ram = (\<lambda>_. 0)(0x80000100 := 0x73), sysenv = sample_sys plic_sample\<rparr>"

theorem trap_transparent_witness:
  "run_handler (\<lambda>_. 0) (bsp_fn (plic_bus (\<lambda>_ h. h) (\<lambda>_ _ h. h) (\<lambda>_. 0)) sample_newlib (\<lambda>_. Some) (\<lambda>_. 99)) ''sw_irq_handler'' trap_sample =
     Some (trap_sample\<lparr>csrs := (csrs trap_sample)(Mepc := 0x80000104), ram := ram (trap_state (\<lambda>_. 0) trap_sample),
       sysenv := (sample_sys plic_sample)\<lparr>brk := 0x80012000\<rparr>\<rparr>)"
proof -
  let ?fn = "bsp_fn (plic_bus (\<lambda>_ h. h) (\<lambda>_ _ h. h) (\<lambda>_. 0)) (sample_newlib :: plic_hw newlib) (\<lambda>_. Some) (\<lambda>_. 99)"
  let ?t = "trap_state (\<lambda>_. 0) trap_sample"
  have args: "xr ?t A0 = 0x80012000" "xr ?t A7 = sysno (sample_newlib :: plic_hw newlib) SYS_brk" "sysenv ?t = sample_sys plic_sample"
    by (simp_all add: trap_state_def trap_sample_def Let_def)
  have call: "?fn ''handle_syscall'' ?t = Some (after_call (\<lambda>_. 99) ?t ((sample_sys plic_sample)\<lparr>brk := 0x80012000\<rparr>))"
    by (simp add: bsp_fn_def args handle_syscall_def sys_brk_def sample_newlib_def)
  have "ram ?t 0x80000100 = 0x73"
    by (simp add: trap_state_def trap_sample_def Let_def caller_saved_def le32_bytes_def)
  then have pc: "resume_pc (ram ?t) EXCEPTION_ECALL_M 0x80000100 = 0x80000104"
    by (simp add: resume_pc_def insn_bytes_def)
  have cause: "csrs trap_sample Mcause = EXCEPTION_ECALL_M" "csrs trap_sample Mepc = 0x80000100"
    by (simp_all add: trap_sample_def)
  have "?fn (trap_callee (csrs trap_sample Mcause)) ?t = Some (after_call (\<lambda>_. 99) ?t ((sample_sys plic_sample)\<lparr>brk := 0x80012000\<rparr>))"
    by (simp add: cause trap_callee_def call)
  moreover have "run_handler (\<lambda>_. 0) ?fn ''sw_irq_handler'' trap_sample =
      map_option (\<lambda>m1. m1\<lparr>xr := xr trap_sample, csrs := (csrs trap_sample)(Mepc := resume_pc (ram m1) (csrs trap_sample Mcause) (csrs trap_sample Mepc))\<rparr>)
        (?fn (trap_callee (csrs trap_sample Mcause)) ?t)"
    by (rule trap_transparent) (rule bsp.keeps)
  ultimately show ?thesis by (simp add: after_trap_call cause pc)
qed

text \<open>C17. With \<open>mtvec\<close> as the start-up code sets it and the table aligned to 256 bytes, every exception
  starts at \<open>sw_irq_handler\<close> and interrupt \<open>n\<close> at entry \<open>n\<close> of the table. Interrupt 11, the external
  interrupt of machine mode, and all others except 0, 1 and 31 reach the default handler, which never
  returns; the verification interrupt 31 returns without any effect.\<close>

theorem vector_dispatch:
  assumes "vstart AND 0xFF = 0"
  shows "(\<not> bit cause 31 \<longrightarrow> vector_insn vstart cause = Jump ''sw_irq_handler'') \<and>
    (n < 32 \<longrightarrow> vector_insn vstart (irq_cause n) = Jump
       (if n = 0 then ''sw_irq_handler'' else if n = 1 then ''UART_0_PLIC_IRQHandler''
        else if n = 31 then ''verification_irq_handler'' else ''__no_irq_handler'')) \<and>
    run_handler syms fn ''__no_irq_handler'' m = None \<and> run_handler syms fn ''verification_irq_handler'' m = Some m"
proof (intro conjI impI)
  have v: "exec handlers syms fn 74 m = exec handlers syms fn 75 m"
    by (rule exec_goto; simp add: execute_def handlers_def)
  moreover have "handlers ! 75 = Mret" by (simp add: handlers_def)
  then have "exec handlers syms fn 75 m = Some m" by (subst exec.simps) (simp add: execute_def)
  ultimately show "run_handler syms fn ''verification_irq_handler'' m = Some m" by (simp add: run_handler_def)
  show "vector_insn vstart (irq_cause n) = Jump
      (if n = 0 then ''sw_irq_handler'' else if n = 1 then ''UART_0_PLIC_IRQHandler''
       else if n = 31 then ''verification_irq_handler'' else ''__no_irq_handler'')" if "n < 32"
  proof -
    have "\<forall>n < 32. vector_table ! n = Jump
        (if n = 0 then ''sw_irq_handler'' else if n = 1 then ''UART_0_PLIC_IRQHandler''
         else if n = 31 then ''verification_irq_handler'' else ''__no_irq_handler'')"
      by (auto simp: vector_table_def nth_append nth_Cons')
    with that show ?thesis by (simp only: vector_insn_irq [OF assms])
  qed
qed (use assms in \<open>simp_all add: vector_insn_exception run_handler_def exec_no_irq_handler\<close>)

theorem vector_dispatch_witness:
  "vector_insn 0x80000000 0x8000000B = Jump ''__no_irq_handler'' \<and> run_handler (\<lambda>_. 0) (\<lambda>_. Some) ''__no_irq_handler'' trap_sample = None"
  using vector_dispatch [where vstart = "0x80000000" and n = 11 and syms = "\<lambda>_. 0" and fn = "\<lambda>_. Some" and m = trap_sample] by (simp add: irq_cause_def)

text \<open>
  The start-up code never ends: \<open>exit\<close> does not return. What it does is observed at its calls:
  \<open>call_trace\<close> lists the functions that are called within a number of instructions, each with the
  machine at its call; a called function that does not return (\<open>None\<close>) ends the list.
\<close>

fun call_trace ::
  "nat \<Rightarrow> asm list \<Rightarrow> (string \<Rightarrow> u32) \<Rightarrow> (string \<Rightarrow> 's machine \<Rightarrow> 's machine option) \<Rightarrow> nat \<Rightarrow> 's machine \<Rightarrow>
     (string \<times> 's machine) list" where
  "call_trace 0 P syms fn pc m = []"
| "call_trace (Suc n) P syms fn pc m =
     (if pc < length P
      then (case P ! pc of Call f \<Rightarrow> [(f, m)] | Tail f \<Rightarrow> [(f, m)] | _ \<Rightarrow> []) @
        (case execute P syms fn pc m (P ! pc) of Goto pc m \<Rightarrow> call_trace n P syms fn pc m | Finish m \<Rightarrow> [] | Stuck \<Rightarrow> [])
      else [])"

definition crt0_trace ::
  "nat \<Rightarrow> (string \<Rightarrow> u32) \<Rightarrow> (string \<Rightarrow> 's machine \<Rightarrow> 's machine option) \<Rightarrow> 's machine \<Rightarrow> (string \<times> 's machine) list" where
  "crt0_trace n syms fn m = call_trace n crt0 syms fn (label_pos crt0 ''_start'') m"

text \<open>The machine at the call of \<open>memset\<close>, which clears the segment from \<open>_edata\<close> to \<open>_end\<close>.\<close>

definition boot_state :: "(string \<Rightarrow> u32) \<Rightarrow> 's machine \<Rightarrow> 's machine" where
  "boot_state syms m =
     m\<lparr>csrs := (csrs m)(Mtvec := syms ''__vector_start'' OR 1),
       xr := (xr m)(Gp := syms ''__global_pointer$'', Sp := syms ''__stack_end'', A0 := syms ''_edata'', A1 := 0,
                    A2 := syms ''_end'' - syms ''_edata'')\<rparr>"

text \<open>What a call keeps of its caller's registers, and what \<open>memset\<close> does to memory.\<close>

definition keeps_registers :: "'s machine \<Rightarrow> 's machine \<Rightarrow> bool" where
  "keeps_registers m m' \<longleftrightarrow> (\<forall>r. r \<notin> set caller_saved \<longrightarrow> xr m' r = xr m r) \<and> csrs m' = csrs m"

definition memset_fills :: "'s machine \<Rightarrow> 's machine \<Rightarrow> bool" where
  "memset_fills m m' \<longleftrightarrow> (\<forall>p. in_region p (xr m A0) (unat (xr m A2)) \<longrightarrow> ram m' p = ucast (xr m A1))"

lemma call_trace_goto:
  "pc < length P \<Longrightarrow> execute P syms fn pc m (P ! pc) = Goto pc' m' \<Longrightarrow>
   (\<And>f. P ! pc \<noteq> Call f) \<Longrightarrow> (\<And>f. P ! pc \<noteq> Tail f) \<Longrightarrow>
   call_trace (Suc n) P syms fn pc m = call_trace n P syms fn pc' m'"
  by (simp split: asm.splits)

lemma crt0_trace_steps:
  "call_trace (Suc n) crt0 syms fn 0 m = call_trace n crt0 syms fn (Suc 0) m"
  "call_trace (Suc n) crt0 syms fn (Suc 0) m = call_trace n crt0 syms fn 2 (set_x Gp (syms ''__global_pointer$'') m)"
  "call_trace (Suc n) crt0 syms fn 2 m = call_trace n crt0 syms fn 3 (set_x Sp (syms ''__stack_end'') m)"
  "call_trace (Suc n) crt0 syms fn 3 m = call_trace n crt0 syms fn 4 (set_x A0 (syms ''__vector_start'') m)"
  "call_trace (Suc n) crt0 syms fn 4 m = call_trace n crt0 syms fn 5 (set_x A0 (xr m A0 OR 1) m)"
  "call_trace (Suc n) crt0 syms fn 5 m = call_trace n crt0 syms fn 6 (m\<lparr>csrs := (csrs m)(Mtvec := xr m A0)\<rparr>)"
  "call_trace (Suc n) crt0 syms fn 6 m = call_trace n crt0 syms fn 7 (set_x A0 (syms ''_edata'') m)"
  "call_trace (Suc n) crt0 syms fn 7 m = call_trace n crt0 syms fn 8 (set_x A2 (syms ''_end'') m)"
  "call_trace (Suc n) crt0 syms fn 8 m = call_trace n crt0 syms fn 9 (set_x A2 (xr m A2 - xr m A0) m)"
  "call_trace (Suc n) crt0 syms fn 9 m = call_trace n crt0 syms fn 10 (set_x A1 0 m)"
  "call_trace (Suc n) crt0 syms fn 11 m = call_trace n crt0 syms fn 12 (set_x A0 (syms ''__libc_fini_array'') m)"
  "call_trace (Suc n) crt0 syms fn 14 m = call_trace n crt0 syms fn 15 (set_x A0 0 m)"
  "call_trace (Suc n) crt0 syms fn 15 m = call_trace n crt0 syms fn 16 (set_x A1 0 m)"
  "call_trace (Suc n) crt0 syms fn 16 m = call_trace n crt0 syms fn 17 (set_x A2 0 m)"
  by (rule call_trace_goto; simp add: execute_def crt0_def)+

lemma crt0_start: "label_pos crt0 ''_start'' = 0"
  by (simp add: crt0_def)

lemma crt0_trace_calls:
  "call_trace (Suc n) crt0 syms fn 10 m = (''memset'', m) # (case fn ''memset'' m of None \<Rightarrow> [] | Some m \<Rightarrow> call_trace n crt0 syms fn 11 m)"
  "call_trace (Suc n) crt0 syms fn 12 m = (''atexit'', m) # (case fn ''atexit'' m of None \<Rightarrow> [] | Some m \<Rightarrow> call_trace n crt0 syms fn 13 m)"
  "call_trace (Suc n) crt0 syms fn 13 m =
     (''__libc_init_array'', m) # (case fn ''__libc_init_array'' m of None \<Rightarrow> [] | Some m \<Rightarrow> call_trace n crt0 syms fn 14 m)"
  "call_trace (Suc n) crt0 syms fn 17 m = (''main'', m) # (case fn ''main'' m of None \<Rightarrow> [] | Some m \<Rightarrow> call_trace n crt0 syms fn 18 m)"
  "call_trace (Suc n) crt0 syms fn 18 m = [(''exit'', m)]"
  by (simp_all add: execute_def crt0_def split: option.splits)

lemma crt0_trace_to_memset:
  "call_trace (10 + n) crt0 syms fn 0 m = call_trace n crt0 syms fn 10 (boot_state syms m)"
proof -
  have "10 + n = Suc (Suc (Suc (Suc (Suc (Suc (Suc (Suc (Suc (Suc n)))))))))" by simp
  then show ?thesis
    by (simp only: crt0_trace_steps) (simp add: boot_state_def set_x_def fun_upd_twist)
qed

lemma crt0_trace_to_main:
  "call_trace (Suc (Suc (Suc n))) crt0 syms fn 14 m = call_trace n crt0 syms fn 17 (m\<lparr>xr := (xr m)(A0 := 0, A1 := 0, A2 := 0)\<rparr>)"
  by (simp only: crt0_trace_steps) (simp add: set_x_def)

text \<open>C19. What the start-up code does, observed for any number of instructions from the 19 that it has
  on, and whether or not \<open>main\<close> and \<open>exit\<close> return: when \<open>memset\<close>, \<open>atexit\<close> and
  \<open>__libc_init_array\<close> of the C library return as their documentation says, it calls exactly these
  three, in this order, then \<open>main\<close>, and then, if \<open>main\<close> returns, \<open>exit\<close> with the
  result of \<open>main\<close> in \<open>a0\<close>. The memory from \<open>_edata\<close> to \<open>_end\<close> is zero after the first call;
  \<open>atexit\<close> gets the function that runs the destructors; \<open>main\<close> is called with three zero arguments,
  the global and stack pointers of the linker script, and the vectored trap address installed.\<close>

theorem crt0_starts_main:
  fixes m :: "'s machine"
  assumes "fn ''memset'' (boot_state syms m) = Some m1" "keeps_registers (boot_state syms m) m1"
    "memset_fills (boot_state syms m) m1"
    and "fn ''atexit'' (set_x A0 (syms ''__libc_fini_array'') m1) = Some m2"
    "keeps_registers (set_x A0 (syms ''__libc_fini_array'') m1) m2"
    and "fn ''__libc_init_array'' m2 = Some m3" "keeps_registers m2 m3"
    and "19 \<le> n"
  shows "\<exists>m0. crt0_trace n syms fn m =
      [(''memset'', boot_state syms m), (''atexit'', set_x A0 (syms ''__libc_fini_array'') m1),
       (''__libc_init_array'', m2), (''main'', m0)] @
      (case fn ''main'' m0 of None \<Rightarrow> [] | Some mr \<Rightarrow> [(''exit'', mr)]) \<and>
    (\<forall>p. in_region p (syms ''_edata'') (unat (syms ''_end'' - syms ''_edata'')) \<longrightarrow> ram m1 p = 0) \<and>
    map (xr m0) [A0, A1, A2, Gp, Sp] = [0, 0, 0, syms ''__global_pointer$'', syms ''__stack_end''] \<and>
    csrs m0 = (csrs m)(Mtvec := syms ''__vector_start'' OR 1) \<and> ram m0 = ram m3"
proof (intro exI conjI)
  let ?m0 = "m3\<lparr>xr := (xr m3)(A0 := 0, A1 := 0, A2 := 0)\<rparr>"
  obtain k where k: "n = 10 + Suc (Suc (Suc (Suc (Suc (Suc (Suc (Suc (Suc k))))))))"
    using assms(8) by (auto simp: le_iff_add)
  show "crt0_trace n syms fn m =
      [(''memset'', boot_state syms m), (''atexit'', set_x A0 (syms ''__libc_fini_array'') m1),
       (''__libc_init_array'', m2), (''main'', ?m0)] @
      (case fn ''main'' ?m0 of None \<Rightarrow> [] | Some mr \<Rightarrow> [(''exit'', mr)])"
    unfolding crt0_trace_def crt0_start k crt0_trace_to_memset
    by (simp only: crt0_trace_calls crt0_trace_steps(11) crt0_trace_to_main assms(1,4,6) option.case append.simps)
  show "\<forall>p. in_region p (syms ''_edata'') (unat (syms ''_end'' - syms ''_edata'')) \<longrightarrow> ram m1 p = 0"
    using assms(3) by (simp add: memset_fills_def boot_state_def)
  have kept: "xr m3 x = xr (boot_state syms m) x" if "x \<in> {Gp, Sp}" for x
    using assms(2,5,7) that by (auto simp: keeps_registers_def caller_saved_def set_x_def)
  show "map (xr ?m0) [A0, A1, A2, Gp, Sp] = [0, 0, 0, syms ''__global_pointer$'', syms ''__stack_end'']"
    using kept by (simp add: boot_state_def)
  show "csrs ?m0 = (csrs m)(Mtvec := syms ''__vector_start'' OR 1)"
    using assms(2,5,7) by (simp add: keeps_registers_def set_x_def boot_state_def)
qed simp

text \<open>Library functions as documented, a \<open>main\<close> that returns 3 and an \<open>exit\<close> that never returns.\<close>

definition sample_crt_fn :: "string \<Rightarrow> 's machine \<Rightarrow> 's machine option" where
  "sample_crt_fn f m =
     (if f = ''memset'' then Some (m\<lparr>ram := (\<lambda>p. if in_region p (xr m A0) (unat (xr m A2)) then ucast (xr m A1) else ram m p)\<rparr>)
      else if f = ''main'' then Some (set_x A0 3 m)
      else if f = ''exit'' then None else Some m)"

definition sample_crt_syms :: "string \<Rightarrow> u32" where
  "sample_crt_syms l = (if l = ''_edata'' then 0x80002000 else if l = ''_end'' then 0x80002400
     else if l = ''__vector_start'' then 0x80000000 else 0x80010000)"

theorem crt0_starts_main_witness:
  "\<exists>m0. map fst (crt0_trace 100 sample_crt_syms sample_crt_fn trap_sample) =
       [''memset'', ''atexit'', ''__libc_init_array'', ''main'', ''exit''] \<and>
     snd (crt0_trace 100 sample_crt_syms sample_crt_fn trap_sample ! 4) = set_x A0 3 m0 \<and>
     xr m0 Sp = 0x80010000 \<and> csrs m0 Mtvec = 0x80000001 \<and> ram m0 0x80002000 = 0"
proof -
  let ?b = "boot_state sample_crt_syms trap_sample"
  define m1 where "m1 = ?b\<lparr>ram := (\<lambda>p. if in_region p (xr ?b A0) (unat (xr ?b A2)) then ucast (xr ?b A1) else ram ?b p)\<rparr>"
  let ?m2 = "set_x A0 (sample_crt_syms ''__libc_fini_array'') m1"
  have "sample_crt_fn ''memset'' ?b = Some m1" by (simp add: sample_crt_fn_def m1_def)
  moreover have "keeps_registers ?b m1" "memset_fills ?b m1" "keeps_registers ?m2 ?m2"
    by (simp_all add: keeps_registers_def memset_fills_def m1_def)
  moreover have "sample_crt_fn ''atexit'' ?m2 = Some ?m2" "sample_crt_fn ''__libc_init_array'' ?m2 = Some ?m2"
    by (simp_all add: sample_crt_fn_def)
  ultimately obtain m0 where m0: "crt0_trace 100 sample_crt_syms sample_crt_fn trap_sample =
      [(''memset'', ?b), (''atexit'', ?m2), (''__libc_init_array'', ?m2), (''main'', m0)] @
      (case sample_crt_fn ''main'' m0 of None \<Rightarrow> [] | Some mr \<Rightarrow> [(''exit'', mr)])"
    "\<forall>p. in_region p 0x80002000 0x400 \<longrightarrow> ram m1 p = 0"
    "xr m0 Sp = 0x80010000" "csrs m0 Mtvec = 0x80000001" "ram m0 = ram m1"
    using crt0_starts_main [of sample_crt_fn sample_crt_syms trap_sample m1 ?m2 ?m2 100]
    by (auto simp: sample_crt_syms_def set_x_def)
  have "in_region 0x80002000 (0x80002000 :: u32) 0x400" by (simp add: in_region_def)
  with m0 show ?thesis by (intro exI [of _ m0]) (simp add: sample_crt_fn_def)
qed

end
