(* ===== verification/App_Util.thy ===== *)
theory App_Util
  imports Prelude "HOL-Library.Monad_Syntax"
begin

text \<open>
  The helpers that the benchmark programs under \<open>sw/app\<close> share: \<open>sw/app/common/util.h\<close>
  and the counter snapshot \<open>setStats\<close>, which is repeated in every program. Arrays are lists;
  an access outside of an array gives \<open>None\<close>, so that a result \<open>Some\<close> also says that
  the code stays inside of its arrays. Array sizes and loop counters are natural numbers.
\<close>

unbundle bit_operations_syntax

section \<open>Array accesses\<close>

definition aget :: "'a list \<Rightarrow> nat \<Rightarrow> 'a option" where
  "aget xs i = (if i < length xs then Some (xs ! i) else None)"

definition aset :: "'a list \<Rightarrow> nat \<Rightarrow> 'a \<Rightarrow> 'a list option" where
  "aset xs i v = (if i < length xs then Some (xs[i := v]) else None)"

lemma aget_in [simp]: "i < length xs \<Longrightarrow> aget xs i = Some (xs ! i)"
  by (simp add: aget_def)

lemma aset_in [simp]: "i < length xs \<Longrightarrow> aset xs i v = Some (xs[i := v])"
  by (simp add: aset_def)

lemma aget_SomeE: "aget xs i = Some v \<Longrightarrow> i < length xs \<and> v = xs ! i"
  by (simp add: aget_def split: if_splits)

lemma aset_SomeE: "aset xs i v = Some ys \<Longrightarrow> i < length xs \<and> ys = xs[i := v]"
  by (simp add: aset_def split: if_splits)

section \<open>Results of type int\<close>

text \<open>\<open>chk\<close> is the value of an operation on \<open>int\<close> (32 bits, as is \<open>long\<close> on the 32-bit
  core): an overflow, which C leaves undefined, gives \<open>None\<close>.\<close>

definition chk :: "int \<Rightarrow> int option" where
  "chk i = (if -2147483648 \<le> i \<and> i \<le> 2147483647 then Some i else None)"

lemma chk_in [simp]: "-2147483648 \<le> i \<Longrightarrow> i \<le> 2147483647 \<Longrightarrow> chk i = Some i"
  by (simp add: chk_def)

section \<open>Comparing results\<close>

text \<open>
  \<open>verify\<close>: two elements per round. The result is 0, or one more than the index of a difference.
  The loops take the comparison of the element type as an argument (the two functions of the
  source are for \<open>int\<close> and for \<open>double\<close>); the number of rounds left is the first argument.
\<close>

fun verify_loop :: "('a \<Rightarrow> 'a \<Rightarrow> bool) \<Rightarrow> nat \<Rightarrow> nat \<Rightarrow> 'a list \<Rightarrow> 'a list \<Rightarrow> nat option option" where
  "verify_loop eq 0 i test vrf = Some None"
| "verify_loop eq (Suc r) i test vrf =
     do { t0 \<leftarrow> aget test i; t1 \<leftarrow> aget test (i + 1); v0 \<leftarrow> aget vrf i; v1 \<leftarrow> aget vrf (i + 1);
          if \<not> eq t0 v0 then Some (Some (i + 1))
          else if \<not> eq t1 v1 then Some (Some (i + 2))
          else verify_loop eq r (i + 2) test vrf }"

definition verify_last :: "('a \<Rightarrow> 'a \<Rightarrow> bool) \<Rightarrow> nat \<Rightarrow> 'a list \<Rightarrow> 'a list \<Rightarrow> nat option" where
  "verify_last eq n test vrf =
     (if n mod 2 \<noteq> 0
      then do { t \<leftarrow> aget test (n - 1); v \<leftarrow> aget vrf (n - 1); Some (if \<not> eq t v then n else 0) }
      else Some 0)"

definition verify :: "nat \<Rightarrow> int list \<Rightarrow> int list \<Rightarrow> nat option" where
  "verify n test vrf =
     do { r \<leftarrow> verify_loop (=) (n div 2) 0 test vrf;
          case r of Some k \<Rightarrow> Some k | None \<Rightarrow> verify_last (=) n test vrf }"

fun verifyDouble_loop :: "('d \<Rightarrow> 'd \<Rightarrow> bool) \<Rightarrow> nat \<Rightarrow> nat \<Rightarrow> 'd list \<Rightarrow> 'd list \<Rightarrow> nat option option" where
  "verifyDouble_loop feq 0 i test vrf = Some None"
| "verifyDouble_loop feq (Suc r) i test vrf =
     do { t0 \<leftarrow> aget test i; t1 \<leftarrow> aget test (i + 1); v0 \<leftarrow> aget vrf i; v1 \<leftarrow> aget vrf (i + 1);
          let eq1 = feq t0 v0; let eq2 = feq t1 v1;
          if \<not> (eq1 \<and> eq2) then Some (Some (i + 1 + (if eq1 then 1 else 0)))
          else verifyDouble_loop feq r (i + 2) test vrf }"

text \<open>The equality of the hardware's double precision numbers is a parameter.\<close>

definition verifyDouble :: "('d \<Rightarrow> 'd \<Rightarrow> bool) \<Rightarrow> nat \<Rightarrow> 'd list \<Rightarrow> 'd list \<Rightarrow> nat option" where
  "verifyDouble feq n test vrf =
     do { r \<leftarrow> verifyDouble_loop feq (n div 2) 0 test vrf;
          case r of Some k \<Rightarrow> Some k | None \<Rightarrow> verify_last feq n test vrf }"

text \<open>The reference: one more than the first index with a difference, or 0.\<close>

definition first_diff :: "('a \<Rightarrow> 'a \<Rightarrow> bool) \<Rightarrow> 'a list \<Rightarrow> 'a list \<Rightarrow> nat \<Rightarrow> nat" where
  "first_diff eq xs ys n =
     (if \<forall>i<n. eq (xs ! i) (ys ! i) then 0 else Suc (LEAST i. i < n \<and> \<not> eq (xs ! i) (ys ! i)))"

lemma first_diff_at:
  assumes "i < n" "\<not> eq (xs ! i) (ys ! i)" "\<And>j. j < i \<Longrightarrow> eq (xs ! j) (ys ! j)"
  shows "first_diff eq xs ys n = Suc i"
proof -
  have "(LEAST i. i < n \<and> \<not> eq (xs ! i) (ys ! i)) = i"
    using assms by (intro Least_equality) (auto simp: not_less [symmetric])
  with assms(1,2) show ?thesis by (auto simp: first_diff_def)
qed

lemma verify_loop_spec:
  assumes "i + 2 * r \<le> length test" "i + 2 * r \<le> length vrf" "i + 2 * r \<le> n"
    and "\<And>j. j < i \<Longrightarrow> eq (test ! j) (vrf ! j)"
  shows "(\<exists>k. verify_loop eq r i test vrf = Some (Some k) \<and> k = first_diff eq test vrf n) \<or>
    (verify_loop eq r i test vrf = Some None \<and> (\<forall>j < i + 2 * r. eq (test ! j) (vrf ! j)))"
  using assms
proof (induction r arbitrary: i)
  case (Suc r)
  show ?case
  proof (cases "eq (test ! i) (vrf ! i)")
    case False
    with first_diff_at [of i n eq test vrf] Suc.prems show ?thesis by auto
  next
    case e0: True
    show ?thesis
    proof (cases "eq (test ! Suc i) (vrf ! Suc i)")
      case False
      have "eq (test ! j) (vrf ! j)" if "j < Suc i" for j
        using that e0 Suc.prems(4) by (cases "j = i") auto
      with False first_diff_at [of "Suc i" n eq test vrf] Suc.prems e0 show ?thesis by auto
    next
      case True
      have "eq (test ! j) (vrf ! j)" if "j < i + 2" for j
        using that e0 True Suc.prems(4) by (cases "j = i"; cases "j = Suc i") auto
      with Suc.IH [of "i + 2"] Suc.prems e0 True show ?thesis by auto
    qed
  qed
qed auto

lemma verifyDouble_loop_eq: "verifyDouble_loop feq r i test vrf = verify_loop feq r i test vrf"
  by (induction r arbitrary: i) (auto simp: Let_def intro!: Option.bind_cong)

lemma verify_last_spec:
  assumes "n \<le> length test" "n \<le> length vrf" "\<And>j. j < n div 2 * 2 \<Longrightarrow> eq (test ! j) (vrf ! j)"
  shows "verify_last eq n test vrf = Some (first_diff eq test vrf n)"
proof (cases "n mod 2 = 0")
  case True
  then have "n div 2 * 2 = n" by (simp add: mult_div_mod_eq [symmetric] mod_0_imp_dvd)
  with True assms(3) show ?thesis by (simp add: verify_last_def first_diff_def)
next
  case False
  then have n: "n div 2 * 2 = n - 1" "0 < n" by (auto simp: mult_div_mod_eq [symmetric] dest: mod_0_imp_dvd) presburger+
  have all: "eq (test ! j) (vrf ! j)" if "j < n - 1" for j using assms(3) that n by simp
  show ?thesis
  proof (cases "eq (test ! (n - 1)) (vrf ! (n - 1))")
    case True
    have "eq (test ! j) (vrf ! j)" if "j < n" for j using all [of j] that True by (cases "j = n - 1") auto
    with True False assms n show ?thesis by (simp add: verify_last_def first_diff_def)
  next
    case F: False
    with first_diff_at [of "n - 1" n eq test vrf] all n have "first_diff eq test vrf n = n" by simp
    with F False assms n show ?thesis by (simp add: verify_last_def)
  qed
qed

lemma verify_generic:
  assumes "n \<le> length test" "n \<le> length vrf"
  shows "do { r \<leftarrow> verify_loop eq (n div 2) 0 test vrf;
      case r of Some k \<Rightarrow> Some k | None \<Rightarrow> verify_last eq n test vrf } = Some (first_diff eq test vrf n)"
proof -
  have "0 + 2 * (n div 2) \<le> n" by simp
  then consider k where "verify_loop eq (n div 2) 0 test vrf = Some (Some k)" "k = first_diff eq test vrf n"
    | "verify_loop eq (n div 2) 0 test vrf = Some None" "\<forall>j < n div 2 * 2. eq (test ! j) (vrf ! j)"
    using verify_loop_spec [of 0 "n div 2" test vrf n eq] assms by (auto simp: mult.commute)
  then show ?thesis
    using verify_last_spec [OF assms, of eq] by cases auto
qed

text \<open>On arrays with at least \<open>n\<close> elements, \<open>verify\<close> and \<open>verifyDouble\<close> stay inside
  of the arrays and return 0 exactly when the first \<open>n\<close> elements agree; otherwise the result
  is one more than the index of the first difference. The two-fold unrolled loops agree with
  this element-wise definition for even and odd sizes.\<close>

theorem verify_first_difference:
  assumes "n \<le> length test" "n \<le> length vrf" "n \<le> length dtest" "n \<le> length dvrf"
  shows "verify n test vrf = Some (first_diff (=) test vrf n) \<and>
    (verify n test vrf = Some 0 \<longleftrightarrow> take n test = take n vrf) \<and>
    verifyDouble feq n dtest dvrf = Some (first_diff feq dtest dvrf n)"
proof -
  have "verify n test vrf = Some (first_diff (=) test vrf n)"
    unfolding verify_def by (rule verify_generic [OF assms(1,2)])
  moreover have "first_diff (=) test vrf n = 0 \<longleftrightarrow> take n test = take n vrf"
    using assms by (auto simp: first_diff_def list_eq_iff_nth_eq)
  moreover have "verifyDouble feq n dtest dvrf = Some (first_diff feq dtest dvrf n)"
    unfolding verifyDouble_def verifyDouble_loop_eq by (rule verify_generic [OF assms(3,4)])
  ultimately show ?thesis by simp
qed

theorem verify_first_difference_witness:
  "verify 3 [1, 2, 3] [1, 2, 4] = Some 3 \<and> verify 3 [1, 2, 3] [1, 2, 3] = Some 0"
proof -
  have "take 3 [1, 2, 3 :: int] = take 3 [1, 2, 3]" by simp
  with verify_first_difference [of 3 "[1, 2, 3]" "[1, 2, 3]" "[(), (), ()]" "[(), (), ()]" "(=)"]
  have "verify 3 [1, 2, 3] [1, 2, 3] = Some 0" by (auto simp: first_diff_def)
  moreover have "first_diff (=) [1, 2, 3] [1, 2, 4 :: int] 3 = 3"
    by (subst first_diff_at [of 2]) (auto simp: less_2_cases_iff)
  then have "verify 3 [1, 2, 3] [1, 2, 4] = Some 3"
    using verify_first_difference [of 3 "[1, 2, 3]" "[1, 2, 4]" "[(), (), ()]" "[(), (), ()]" "(=)"] by simp
  ultimately show ?thesis by simp
qed

section \<open>Random numbers and instruction lengths\<close>

definition lfsr :: "u64 \<Rightarrow> u64" where
  "lfsr x = (let b = (x XOR drop_bit 1 x) AND 1 in drop_bit 1 x OR push_bit 62 b)"

text \<open>The halfword at the program counter is the argument.\<close>

definition insn_len :: "u16 \<Rightarrow> u32" where
  "insn_len h = (if h AND 3 \<noteq> 0 then 4 else 2)"

section \<open>Counter snapshots\<close>

text \<open>
  \<open>setStats\<close> with its two counters: \<open>csr\<close> gives the current values of \<open>mcycle\<close> and
  \<open>minstret\<close> at the two reads. Stopping stores the difference and the names.
\<close>

record stats =
  counters :: "u32 list"
  counter_names :: "string list"

definition NUM_COUNTERS :: nat where "NUM_COUNTERS = 2"

definition read_ctr :: "bool \<Rightarrow> string \<Rightarrow> u32 \<Rightarrow> nat \<times> stats \<Rightarrow> (nat \<times> stats) option" where
  "read_ctr enable name csr = (\<lambda>(i, k).
     if i \<ge> NUM_COUNTERS then None
     else let csr = (if \<not> enable then csr - counters k ! i else csr);
              k = (if \<not> enable then k\<lparr>counter_names := (counter_names k)[i := name]\<rparr> else k)
          in Some (i + 1, k\<lparr>counters := (counters k)[i := csr]\<rparr>))"

definition setStats :: "bool \<Rightarrow> u32 \<Rightarrow> u32 \<Rightarrow> stats \<Rightarrow> stats option" where
  "setStats enable mcycle minstret k =
     do { k \<leftarrow> read_ctr enable ''mcycle'' mcycle (0, k);
          k \<leftarrow> read_ctr enable ''minstret'' minstret k;
          Some (snd k) }"

lemma setStats_measures:
  assumes "length (counters k) = 2" "length (counter_names k) = 2"
  shows "\<exists>k1 k2. setStats True c0 i0 k = Some k1 \<and> setStats False c1 i1 k1 = Some k2 \<and>
    counters k2 = [c1 - c0, i1 - i0] \<and> counter_names k2 = [''mcycle'', ''minstret'']"
proof -
  obtain x y where "counters k = [x, y]" using assms(1) by (auto simp: numeral_2_eq_2 length_Suc_conv)
  moreover obtain n m where "counter_names k = [n, m]" using assms(2) by (auto simp: numeral_2_eq_2 length_Suc_conv)
  ultimately show ?thesis by (simp add: setStats_def read_ctr_def NUM_COUNTERS_def)
qed

text \<open>C39. The pseudo-random generator stays on 63-bit numbers, never reaches 0 from another
  number and never maps two 63-bit numbers to the same one: its state space splits into cycles.\<close>

theorem lfsr_permutes:
  assumes "\<not> bit x 63" "\<not> bit y 63"
  shows "\<not> bit (lfsr x) 63 \<and> (lfsr x = 0 \<longleftrightarrow> x = 0) \<and> (lfsr x = lfsr y \<longrightarrow> x = y)"
proof -
  have b: "bit (lfsr x) n = (if n = 62 then bit x 0 \<noteq> bit x 1 else n < 62 \<and> bit x (Suc n))"
    if "\<not> bit x 63" for x n
  proof -
    have "n < 62 \<or> n = 62 \<or> n = 63 \<or> 63 < n" by arith
    then show ?thesis
      using that by (auto simp: lfsr_def Let_def bit_simps dest: bit_imp_le_length)
  qed
  have inj: "x = y" if e: "lfsr x = lfsr y" and "\<not> bit x 63" "\<not> bit y 63" for x y
  proof (rule bit_word_eqI)
    fix n assume n: "n < LENGTH(64)"
    have s: "bit x (Suc m) = bit y (Suc m)" if "m < 62" for m
      using arg_cong [OF e, of "\<lambda>w. bit w m"] that by (simp add: b \<open>\<not> bit x 63\<close> \<open>\<not> bit y 63\<close>)
    have "bit x 0 = bit y 0"
      using arg_cong [OF e, of "\<lambda>w. bit w 62"] s [of 0] by (auto simp: b \<open>\<not> bit x 63\<close> \<open>\<not> bit y 63\<close>)
    then show "bit x n = bit y n"
      using s [of "n - 1"] n that(2,3) by (cases "n = 0"; cases "n = 63") auto
  qed
  have "lfsr 0 = 0" by (simp add: lfsr_def)
  with inj [of x 0] inj [of x y] assms b [of x 63] show ?thesis by auto
qed

theorem lfsr_permutes_witness: "lfsr 6 = 3 + 2 ^ 62 \<and> lfsr 6 \<noteq> lfsr 7 \<and> \<not> bit (lfsr 6) 63"
  using lfsr_permutes [of 6 7] by (auto simp: bit_numeral_rec lfsr_def)

end
