(* ===== verification/App_Barrier.thy ===== *)
theory App_Barrier
  imports App_Util
begin

text \<open>
  The sense-reversing barrier of \<open>sw/app/common/util.h\<close> as a step relation: \<open>ncores\<close>
  threads share \<open>sense\<close> and \<open>count\<close>, every thread has its own \<open>threadsense\<close>, and
  each step is one access to a shared variable. \<open>entered\<close> and \<open>exited\<close> count the calls
  and the returns of each thread; they are history, no step depends on them.
\<close>

datatype bpc = Outside | Adding | Spinning | Resetting | Releasing

record bthread =
  threadsense :: bool
  bpc :: bpc
  entered :: nat
  exited :: nat

record barrier_state =
  sense :: bool
  bcount :: int
  thr :: "nat \<Rightarrow> bthread"

definition set_thr :: "nat \<Rightarrow> bthread \<Rightarrow> barrier_state \<Rightarrow> barrier_state" where
  "set_thr t x s = s\<lparr>thr := (thr s)(t := x)\<rparr>"

text \<open>The initial values of the static variables are zero.\<close>

definition barrier_init :: barrier_state where
  "barrier_init = \<lparr>sense = False, bcount = 0,
     thr = (\<lambda>_. \<lparr>threadsense = False, bpc = Outside, entered = 0, exited = 0\<rparr>)\<rparr>"

inductive barrier_step :: "nat \<Rightarrow> barrier_state \<Rightarrow> barrier_state \<Rightarrow> bool" for ncores where
  flip: "t < ncores \<Longrightarrow> bpc (thr s t) = Outside \<Longrightarrow>
    barrier_step ncores s (set_thr t ((thr s t)\<lparr>threadsense := \<not> threadsense (thr s t), bpc := Adding,
      entered := entered (thr s t) + 1\<rparr>) s)"
| fetch_add: "t < ncores \<Longrightarrow> bpc (thr s t) = Adding \<Longrightarrow>
    barrier_step ncores s (set_thr t ((thr s t)\<lparr>bpc := if bcount s = int ncores - 1 then Resetting else Spinning\<rparr>)
      (s\<lparr>bcount := bcount s + 1\<rparr>))"
| reset: "t < ncores \<Longrightarrow> bpc (thr s t) = Resetting \<Longrightarrow>
    barrier_step ncores s (set_thr t ((thr s t)\<lparr>bpc := Releasing\<rparr>) (s\<lparr>bcount := 0\<rparr>))"
| release: "t < ncores \<Longrightarrow> bpc (thr s t) = Releasing \<Longrightarrow>
    barrier_step ncores s (set_thr t ((thr s t)\<lparr>bpc := Outside, exited := exited (thr s t) + 1\<rparr>)
      (s\<lparr>sense := threadsense (thr s t)\<rparr>))"
| spin: "t < ncores \<Longrightarrow> bpc (thr s t) = Spinning \<Longrightarrow> sense s = threadsense (thr s t) \<Longrightarrow>
    barrier_step ncores s (set_thr t ((thr s t)\<lparr>bpc := Outside, exited := exited (thr s t) + 1\<rparr>) s)"

inductive barrier_reach :: "nat \<Rightarrow> barrier_state \<Rightarrow> bool" for ncores where
  init: "barrier_reach ncores barrier_init"
| step: "barrier_reach ncores s \<Longrightarrow> barrier_step ncores s s' \<Longrightarrow> barrier_reach ncores s'"

section \<open>The invariant\<close>

text \<open>After \<open>r\<close> releases: where a thread can be, and which threads have been counted.\<close>

definition thread_ok :: "nat \<Rightarrow> bthread \<Rightarrow> bool" where
  "thread_ok r x \<longleftrightarrow> threadsense x = odd (entered x) \<and>
     (case bpc x of
        Outside \<Rightarrow> entered x = r \<and> exited x = r
      | Spinning \<Rightarrow> entered x = r + 1 \<and> exited x = r \<or> entered x = r \<and> exited x + 1 = r
      | _ \<Rightarrow> entered x = r + 1 \<and> exited x = r)"

definition added :: "nat \<Rightarrow> nat \<Rightarrow> barrier_state \<Rightarrow> nat set" where
  "added ncores r s = {t. t < ncores \<and> entered (thr s t) = r + 1 \<and> bpc (thr s t) \<noteq> Adding}"

definition last_one :: "barrier_state \<Rightarrow> nat \<Rightarrow> bool" where
  "last_one s t \<longleftrightarrow> bpc (thr s t) = Resetting \<or> bpc (thr s t) = Releasing"

definition barrier_inv :: "nat \<Rightarrow> nat \<Rightarrow> barrier_state \<Rightarrow> bool" where
  "barrier_inv ncores r s \<longleftrightarrow>
     sense s = odd r \<and> (\<forall>t<ncores. thread_ok r (thr s t)) \<and>
     (\<forall>t<ncores. last_one s t \<longrightarrow>
        (\<forall>u<ncores. u \<noteq> t \<longrightarrow> bpc (thr s u) = Spinning \<and> entered (thr s u) = r + 1)) \<and>
     bcount s = (if \<exists>t<ncores. bpc (thr s t) = Releasing then 0 else int (card (added ncores r s))) \<and>
     ((\<forall>t<ncores. \<not> last_one s t) \<longrightarrow> card (added ncores r s) < ncores)"

lemma finite_added [simp]: "finite (added ncores r s)"
  by (simp add: added_def)

lemma thr_set_thr [simp]: "thr (set_thr t x s) u = (if u = t then x else thr s u)"
  and sense_set_thr [simp]: "sense (set_thr t x s) = sense s"
  and bcount_set_thr [simp]: "bcount (set_thr t x s) = bcount s"
  by (simp_all add: set_thr_def)

lemma added_cong:
  "(\<And>t. t < ncores \<Longrightarrow> t \<in> added ncores r s' \<longleftrightarrow> t \<in> added ncores r s) \<Longrightarrow> added ncores r s' = added ncores r s"
  by (auto simp: added_def)

lemma thread_okD:
  assumes "thread_ok r x"
  shows "threadsense x = odd (entered x)" "bpc x = Outside \<Longrightarrow> entered x = r \<and> exited x = r"
    "bpc x = Adding \<Longrightarrow> entered x = r + 1 \<and> exited x = r"
    "bpc x = Resetting \<Longrightarrow> entered x = r + 1 \<and> exited x = r"
    "bpc x = Releasing \<Longrightarrow> entered x = r + 1 \<and> exited x = r"
    "bpc x = Spinning \<Longrightarrow> entered x = r + 1 \<and> exited x = r \<or> entered x = r \<and> exited x + 1 = r"
  using assms by (auto simp: thread_ok_def)

lemma barrier_invI:
  assumes "sense s = odd r" "\<And>t. t < ncores \<Longrightarrow> thread_ok r (thr s t)"
    "\<And>t u. t < ncores \<Longrightarrow> last_one s t \<Longrightarrow> u < ncores \<Longrightarrow> u \<noteq> t \<Longrightarrow>
       bpc (thr s u) = Spinning \<and> entered (thr s u) = r + 1"
    "bcount s = (if \<exists>t<ncores. bpc (thr s t) = Releasing then 0 else int (card (added ncores r s)))"
    "(\<And>t. t < ncores \<Longrightarrow> \<not> last_one s t) \<Longrightarrow> card (added ncores r s) < ncores"
  shows "barrier_inv ncores r s"
  using assms by (simp add: barrier_inv_def)

lemma barrier_invD:
  assumes "barrier_inv ncores r s"
  shows "sense s = odd r" "\<And>t. t < ncores \<Longrightarrow> thread_ok r (thr s t)"
    "\<And>t u. t < ncores \<Longrightarrow> last_one s t \<Longrightarrow> u < ncores \<Longrightarrow> u \<noteq> t \<Longrightarrow>
       bpc (thr s u) = Spinning \<and> entered (thr s u) = r + 1"
    "bcount s = (if \<exists>t<ncores. bpc (thr s t) = Releasing then 0 else int (card (added ncores r s)))"
    "(\<And>t. t < ncores \<Longrightarrow> \<not> last_one s t) \<Longrightarrow> card (added ncores r s) < ncores"
  using assms by (simp_all add: barrier_inv_def)

text \<open>While some thread is at another place than the spin loop, no other thread is the last one.\<close>

lemma barrier_no_last:
  assumes "barrier_inv ncores r s" "t < ncores" "\<not> last_one s t"
    "bpc (thr s t) \<noteq> Spinning \<or> entered (thr s t) \<noteq> r + 1" "u < ncores"
  shows "\<not> last_one s u"
  using barrier_invD(3) [OF assms(1) assms(5) _ assms(2)] assms(3,4) by (cases "u = t") auto

lemma last_one_set_thr [simp]:
  "last_one (set_thr t x s) u \<longleftrightarrow>
     (if u = t then bpc x = Resetting \<or> bpc x = Releasing else last_one s u)"
  by (simp add: last_one_def)

lemma last_one_update [simp]: "last_one (s\<lparr>bcount := c\<rparr>) u = last_one s u" "last_one (s\<lparr>sense := b\<rparr>) u = last_one s u"
  by (simp_all add: last_one_def)

lemma releasing_last: "bpc (thr s t) = Releasing \<Longrightarrow> last_one s t" "bpc (thr s t) = Resetting \<Longrightarrow> last_one s t"
  by (simp_all add: last_one_def)

lemma barrier_inv_flip:
  assumes inv: "barrier_inv n r s" and t: "t < n" "bpc (thr s t) = Outside"
  defines "s' \<equiv> set_thr t ((thr s t)\<lparr>threadsense := \<not> threadsense (thr s t), bpc := Adding,
      entered := entered (thr s t) + 1\<rparr>) s"
  shows "barrier_inv n r s'"
proof (rule barrier_invI)
  note ok = barrier_invD(2) [OF inv]
  have none: "\<not> last_one s u" if "u < n" for u
    by (rule barrier_no_last [OF inv t(1) _ _ that]) (simp_all add: t last_one_def)
  have A: "added n r s' = added n r s"
    using thread_okD(2) [OF ok [OF t(1)] t(2)] t by (auto simp: added_def s'_def)
  show "sense s' = odd r" using barrier_invD(1) [OF inv] by (simp add: s'_def)
  show "thread_ok r (thr s' u)" if "u < n" for u
    using ok [OF that] ok [OF t(1)] t(2) by (cases "u = t") (simp_all add: s'_def thread_ok_def)
  show "bpc (thr s' u) = Spinning \<and> entered (thr s' u) = r + 1" if "v < n" "last_one s' v" for u v
    using that none [of v] by (cases "v = t") (simp_all add: s'_def)
  have "\<not> (\<exists>u<n. bpc (thr s u) = Releasing)" using none releasing_last(1) by blast
  then show "bcount s' = (if \<exists>u<n. bpc (thr s' u) = Releasing then 0 else int (card (added n r s')))"
    using barrier_invD(4) [OF inv] unfolding A by (auto simp: s'_def)
  show "card (added n r s') < n" using barrier_invD(5) [OF inv none] by (simp add: A)
qed

lemma barrier_inv_fetch_add:
  assumes inv: "barrier_inv n r s" and t: "t < n" "bpc (thr s t) = Adding"
  defines "s' \<equiv> set_thr t ((thr s t)\<lparr>bpc := if bcount s = int n - 1 then Resetting else Spinning\<rparr>)
      (s\<lparr>bcount := bcount s + 1\<rparr>)"
  shows "barrier_inv n r s'"
proof (rule barrier_invI)
  note ok = barrier_invD(2) [OF inv]
  have none: "\<not> last_one s u" if "u < n" for u
    by (rule barrier_no_last [OF inv t(1) _ _ that]) (simp_all add: t last_one_def)
  have norel: "\<not> (\<exists>u<n. bpc (thr s u) = Releasing)" using none releasing_last(1) by blast
  have cnt: "bcount s = int (card (added n r s))" "card (added n r s) < n"
    using barrier_invD(4) [OF inv] norel barrier_invD(5) [OF inv none] by simp_all
  have tA: "t \<notin> added n r s" using t by (simp add: added_def)
  have A: "added n r s' = insert t (added n r s)"
    using t thread_okD(3) [OF ok [OF t(1)] t(2)] by (auto simp: added_def s'_def)
  have cA: "card (added n r s') = Suc (card (added n r s))" using A tA by simp
  have full: "bpc (thr s u) = Spinning \<and> entered (thr s u) = r + 1" if "bcount s = int n - 1" "u < n" "u \<noteq> t" for u
  proof -
    have sub: "added n r s \<subseteq> {..<n} - {t}" using tA by (auto simp: added_def)
    have "card (added n r s) = card ({..<n} - {t})" using that(1) cnt t(1) by simp
    with sub have "added n r s = {..<n} - {t}" by (intro card_subset_eq) auto
    then have u: "u \<in> added n r s" using that by auto
    have "entered (thr s u) = r + 1" "bpc (thr s u) \<noteq> Adding" using u by (simp_all add: added_def)
    with none [OF that(2)] thread_okD(2) [OF ok [OF that(2)]] show ?thesis
      by (cases "bpc (thr s u)") (simp_all add: last_one_def)
  qed
  show "sense s' = odd r" using barrier_invD(1) [OF inv] by (simp add: s'_def)
  show "thread_ok r (thr s' u)" if "u < n" for u
    using ok [OF that] ok [OF t(1)] t(2) by (cases "u = t") (simp_all add: s'_def thread_ok_def)
  have "\<not> (\<exists>u<n. bpc (thr s' u) = Releasing)" using norel by (auto simp: s'_def)
  then show "bcount s' = (if \<exists>u<n. bpc (thr s' u) = Releasing then 0 else int (card (added n r s')))"
    using cA cnt by (simp add: s'_def)
  show "card (added n r s') < n" if "\<And>u. u < n \<Longrightarrow> \<not> last_one s' u"
  proof -
    have "bcount s \<noteq> int n - 1" using that [OF t(1)] by (simp add: s'_def split: if_splits)
    then show ?thesis using cA cnt by simp
  qed
  show "bpc (thr s' u) = Spinning \<and> entered (thr s' u) = r + 1"
    if "v < n" "last_one s' v" "u < n" "u \<noteq> v" for u v
  proof -
    have "v = t" "bcount s = int n - 1" using that(1,2) none [OF that(1)] by (simp_all add: s'_def split: if_splits)
    with full [OF _ that(3)] that(4) show ?thesis by (simp add: s'_def)
  qed
qed

lemma barrier_inv_reset:
  assumes inv: "barrier_inv n r s" and t: "t < n" "bpc (thr s t) = Resetting"
  defines "s' \<equiv> set_thr t ((thr s t)\<lparr>bpc := Releasing\<rparr>) (s\<lparr>bcount := 0\<rparr>)"
  shows "barrier_inv n r s'"
proof (rule barrier_invI)
  note ok = barrier_invD(2) [OF inv]
  note all = barrier_invD(3) [OF inv t(1) releasing_last(2) [of s t, OF t(2)]]
  have rel: "\<exists>u<n. bpc (thr s' u) = Releasing" using t(1) by (intro exI [of _ t]) (simp add: s'_def)
  show "sense s' = odd r" using barrier_invD(1) [OF inv] by (simp add: s'_def)
  show "thread_ok r (thr s' u)" if "u < n" for u
    using ok [OF that] ok [OF t(1)] t(2) by (cases "u = t") (simp_all add: s'_def thread_ok_def)
  show "bpc (thr s' u) = Spinning \<and> entered (thr s' u) = r + 1"
    if "v < n" "last_one s' v" "u < n" "u \<noteq> v" for u v
    using all [of v] all [of u] that by (cases "v = t") (auto simp: s'_def last_one_def)
  show "bcount s' = (if \<exists>u<n. bpc (thr s' u) = Releasing then 0 else int (card (added n r s')))"
    using rel by (simp add: s'_def)
  show "card (added n r s') < n" if "\<And>u. u < n \<Longrightarrow> \<not> last_one s' u"
    using that [OF t(1)] by (simp add: s'_def)
qed

lemma barrier_inv_release:
  assumes inv: "barrier_inv n r s" and t: "t < n" "bpc (thr s t) = Releasing"
  defines "s' \<equiv> set_thr t ((thr s t)\<lparr>bpc := Outside, exited := exited (thr s t) + 1\<rparr>)
      (s\<lparr>sense := threadsense (thr s t)\<rparr>)"
  shows "barrier_inv n (r + 1) s'"
proof (rule barrier_invI)
  note ok = barrier_invD(2) [OF inv]
  note all = barrier_invD(3) [OF inv t(1) releasing_last(1) [of s t, OF t(2)]]
  note okt = thread_okD(1) [OF ok [OF t(1)]] thread_okD(5) [OF ok [OF t(1)] t(2)]
  have none: "\<not> last_one s' u" if "u < n" for u
    using all [OF that] by (cases "u = t") (simp_all add: s'_def last_one_def)
  have A: "added n (r + 1) s' = {}" using all okt t by (auto simp: added_def s'_def split: if_splits)
  show "sense s' = odd (r + 1)" using okt by (simp add: s'_def)
  show "thread_ok (r + 1) (thr s' u)" if "u < n" for u
    using ok [OF that] all [OF that] okt by (cases "u = t") (auto simp: s'_def thread_ok_def)
  show "bpc (thr s' u) = Spinning \<and> entered (thr s' u) = r + 1 + 1" if "v < n" "last_one s' v" for u v
    using none that by blast
  have "\<not> (\<exists>u<n. bpc (thr s' u) = Releasing)" using none releasing_last(1) by blast
  moreover have "bcount s = 0" using barrier_invD(4) [OF inv] t by auto
  ultimately show "bcount s' = (if \<exists>u<n. bpc (thr s' u) = Releasing then 0 else int (card (added n (r + 1) s')))"
    unfolding A by (simp add: s'_def)
  show "card (added n (r + 1) s') < n" unfolding A using t(1) by simp
qed

lemma barrier_inv_spin:
  assumes inv: "barrier_inv n r s" and t: "t < n" "bpc (thr s t) = Spinning" "sense s = threadsense (thr s t)"
  defines "s' \<equiv> set_thr t ((thr s t)\<lparr>bpc := Outside, exited := exited (thr s t) + 1\<rparr>) s"
  shows "barrier_inv n r s'"
proof (rule barrier_invI)
  note ok = barrier_invD(2) [OF inv]
  have "odd r = odd (entered (thr s t))"
    using barrier_invD(1) [OF inv] t(3) thread_okD(1) [OF ok [OF t(1)]] by simp
  then have e: "entered (thr s t) = r" "exited (thr s t) + 1 = r"
    using thread_okD(6) [OF ok [OF t(1)] t(2)] by auto
  have none: "\<not> last_one s u" if "u < n" for u
    by (rule barrier_no_last [OF inv t(1) _ _ that]) (simp_all add: t e last_one_def)
  have A: "added n r s' = added n r s" using t e by (auto simp: added_def s'_def)
  show "sense s' = odd r" using barrier_invD(1) [OF inv] by (simp add: s'_def)
  show "thread_ok r (thr s' u)" if "u < n" for u
    using ok [OF that] ok [OF t(1)] t(2) e by (cases "u = t") (simp_all add: s'_def thread_ok_def)
  show "bpc (thr s' u) = Spinning \<and> entered (thr s' u) = r + 1" if "v < n" "last_one s' v" for u v
    using that none [of v] by (cases "v = t") (simp_all add: s'_def)
  have "\<not> (\<exists>u<n. bpc (thr s u) = Releasing)" using none releasing_last(1) by blast
  then show "bcount s' = (if \<exists>u<n. bpc (thr s' u) = Releasing then 0 else int (card (added n r s')))"
    using barrier_invD(4) [OF inv] unfolding A by (auto simp: s'_def)
  show "card (added n r s') < n" using barrier_invD(5) [OF inv none] by (simp add: A)
qed

lemma barrier_inv_step:
  assumes "barrier_step n s s'" "barrier_inv n r s"
  shows "\<exists>r'. barrier_inv n r' s'"
  using assms
proof cases
  case (flip t)
  then show ?thesis using barrier_inv_flip [OF assms(2)] by blast
next
  case (fetch_add t)
  then show ?thesis using barrier_inv_fetch_add [OF assms(2)] by blast
next
  case (reset t)
  then show ?thesis using barrier_inv_reset [OF assms(2)] by blast
next
  case (release t)
  then show ?thesis using barrier_inv_release [OF assms(2)] by blast
next
  case (spin t)
  then show ?thesis using barrier_inv_spin [OF assms(2)] by blast
qed

lemma barrier_reach_inv:
  assumes "barrier_reach ncores s" "0 < ncores"
  shows "\<exists>r. barrier_inv ncores r s"
  using assms
proof induction
  case init
  have "added ncores 0 barrier_init = {}" by (auto simp: added_def barrier_init_def)
  with init show ?case
    by (intro exI [of _ 0]) (simp add: barrier_inv_def barrier_init_def thread_ok_def last_one_def)
next
  case (step s s')
  then show ?case using barrier_inv_step by blast
qed

section \<open>Properties\<close>

text \<open>C6. The barrier is safe and reusable: in every interleaving of the threads' accesses, no
  thread has returned from more calls than any other thread has made, and no thread has made
  more than two calls beyond another thread's returns. The counter stays between 0 and the number
  of threads, and it only has that number while a thread is about to reset it. The barrier does not deadlock: as long as every thread
  is inside of a call, some thread can do more than wait.\<close>

theorem barrier_safe_and_live:
  assumes "barrier_reach ncores s" "t < ncores" "u < ncores"
  shows "exited (thr s t) \<le> entered (thr s u) \<and> entered (thr s t) \<le> exited (thr s u) + 2 \<and>
    0 \<le> bcount s \<and> bcount s \<le> int ncores \<and>
    (bcount s = int ncores \<longrightarrow> (\<exists>v<ncores. bpc (thr s v) = Resetting)) \<and>
    ((\<forall>v<ncores. bpc (thr s v) \<noteq> Outside) \<longrightarrow> (\<exists>s'. barrier_step ncores s s'))"
proof (intro conjI impI)
  have n: "0 < ncores" using assms(2) by simp
  obtain r where inv: "barrier_inv ncores r s" using barrier_reach_inv [OF assms(1) n] by blast
  note ok = barrier_invD(2) [OF inv]
  show "exited (thr s t) \<le> entered (thr s u)" "entered (thr s t) \<le> exited (thr s u) + 2"
    using ok [OF assms(2)] ok [OF assms(3)] by (auto simp: thread_ok_def split: bpc.splits)
  have "card (added ncores r s) \<le> card {..<ncores}" by (rule card_mono) (auto simp: added_def)
  then show "0 \<le> bcount s" "bcount s \<le> int ncores" using barrier_invD(4) [OF inv] by simp_all
  show "\<exists>v<ncores. bpc (thr s v) = Resetting" if full: "bcount s = int ncores"
  proof -
    have "\<not> (\<exists>v<ncores. bpc (thr s v) = Releasing)" "card (added ncores r s) = ncores"
      using barrier_invD(4) [OF inv] full n by (auto split: if_splits)
    with barrier_invD(5) [OF inv] show ?thesis by (auto simp: last_one_def)
  qed
  show "\<exists>s'. barrier_step ncores s s'" if all: "\<forall>v<ncores. bpc (thr s v) \<noteq> Outside"
  proof (rule ccontr)
    assume no: "\<nexists>s'. barrier_step ncores s s'"
    have sp: "bpc (thr s v) = Spinning" "sense s \<noteq> threadsense (thr s v)" if "v < ncores" for v
      using no all that by (cases "bpc (thr s v)"; blast intro: barrier_step.intros)+
    have "entered (thr s v) = r + 1" if "v < ncores" for v
      using sp [OF that] thread_okD(1,6) [OF ok [OF that]] barrier_invD(1) [OF inv] by auto
    then have "added ncores r s = {..<ncores}" using sp by (auto simp: added_def)
    then have "card (added ncores r s) = ncores" by simp
    moreover have "\<forall>v<ncores. \<not> last_one s v" using sp by (auto simp: last_one_def)
    ultimately show False using barrier_invD(5) [OF inv] by simp
  qed
qed

text \<open>One thread of two has entered.\<close>

definition barrier_one_in :: barrier_state where
  "barrier_one_in = set_thr 0 ((thr barrier_init 0)\<lparr>threadsense := True, bpc := Adding, entered := 1\<rparr>) barrier_init"

theorem barrier_safe_and_live_witness:
  "barrier_reach 2 barrier_one_in \<and> exited (thr barrier_one_in 0) \<le> entered (thr barrier_one_in 1) \<and>
   bcount barrier_one_in \<le> 2"
proof -
  have "barrier_step 2 barrier_init barrier_one_in"
    using barrier_step.flip [of 0 2 barrier_init] by (simp add: barrier_one_in_def barrier_init_def)
  then have r: "barrier_reach 2 barrier_one_in" by (rule barrier_reach.step [OF barrier_reach.init])
  with barrier_safe_and_live [OF r, of 0 1] show ?thesis by simp
qed

end
