(* ===== verification/App_Qsort.thy ===== *)
theory App_Qsort
  imports App_Util
begin

text \<open>
  The quicksort benchmark \<open>sw/app/qsort/qsort_main.c\<close>: median of three, an explicit stack of
  \<open>NSTACK\<close> pointers and insertion sort below the threshold. Pointers into the array are
  indices; an access outside of the array or of the stack gives \<open>None\<close>. The proof follows
  the pending segments: at every moment two elements are in order unless one pending segment
  contains both.
\<close>

section \<open>The program\<close>

definition INSERTION_THRESHOLD :: int where "INSERTION_THRESHOLD = 10"
definition NSTACK :: nat where "NSTACK = 50"

definition SWAP :: "int list \<Rightarrow> nat \<Rightarrow> nat \<Rightarrow> int list option" where
  "SWAP xs p q = do { temp \<leftarrow> aget xs p; y \<leftarrow> aget xs q; xs \<leftarrow> aset xs p y; aset xs q temp }"

definition SWAP_IF_GREATER :: "int list \<Rightarrow> nat \<Rightarrow> nat \<Rightarrow> int list option" where
  "SWAP_IF_GREATER xs p q = do { x \<leftarrow> aget xs p; y \<leftarrow> aget xs q; if x > y then SWAP xs p q else Some xs }"

text \<open>The inner loop of the insertion sort of the subarray that starts at \<open>b\<close>; it reads below
  \<open>j\<close>, so that \<open>j = 0\<close> is an access outside of the array.\<close>

fun insertion_inner :: "int list \<Rightarrow> nat \<Rightarrow> int \<Rightarrow> nat \<Rightarrow> (int list \<times> nat) option" where
  "insertion_inner xs b v 0 = None"
| "insertion_inner xs b v (Suc j) =
     do { x \<leftarrow> aget xs j;
          if v < x
          then do { xs \<leftarrow> aset xs (Suc j) x;
                    if j = b then Some (xs, j) else insertion_inner xs b v j }
          else Some (xs, Suc j) }"

fun insertion_outer :: "int list \<Rightarrow> nat \<Rightarrow> nat list \<Rightarrow> int list option" where
  "insertion_outer xs b [] = Some xs"
| "insertion_outer xs b (i # is) =
     do { v \<leftarrow> aget xs i;
          (xs, j) \<leftarrow> insertion_inner xs b v i;
          xs \<leftarrow> aset xs j v;
          insertion_outer xs b is }"

definition insertion_sort :: "nat \<Rightarrow> nat \<Rightarrow> int list \<Rightarrow> int list option" where
  "insertion_sort n b xs = insertion_outer xs b [b + 1..<b + n]"

fun selection_inner :: "int list \<Rightarrow> nat \<Rightarrow> nat list \<Rightarrow> int list option" where
  "selection_inner xs i [] = Some xs"
| "selection_inner xs i (j # js) = do { xs \<leftarrow> SWAP_IF_GREATER xs i j; selection_inner xs i js }"

fun selection_outer :: "nat \<Rightarrow> int list \<Rightarrow> nat list \<Rightarrow> int list option" where
  "selection_outer n xs [] = Some xs"
| "selection_outer n xs (i # is) = do { xs \<leftarrow> selection_inner xs i [i + 1..<n]; selection_outer n xs is }"

definition selection_sort :: "nat \<Rightarrow> int list \<Rightarrow> int list option" where
  "selection_sort n xs = selection_outer n xs [0..<n - 1]"

text \<open>\<open>while (*i++ < a);\<close> and \<open>while (*(j-- - 2) > a);\<close>\<close>

function scan_up :: "int list \<Rightarrow> int \<Rightarrow> nat \<Rightarrow> nat option" where
  "scan_up xs a i =
     (if i < length xs then if xs ! i < a then scan_up xs a (i + 1) else Some (i + 1) else None)"
  by pat_completeness auto
termination by (relation "measure (\<lambda>(xs, a, i). length xs - i)") auto

declare scan_up.simps [simp del]

fun scan_down :: "int list \<Rightarrow> int \<Rightarrow> nat \<Rightarrow> nat option" where
  "scan_down xs a (Suc (Suc k)) =
     do { x \<leftarrow> aget xs k; if x > a then scan_down xs a (Suc k) else Some (Suc k) }"
| "scan_down xs a _ = None"

partial_function (option) part_loop :: "int list \<Rightarrow> int \<Rightarrow> nat \<Rightarrow> nat \<Rightarrow> (int list \<times> nat \<times> nat) option" where
  "part_loop xs a i j =
     do { i \<leftarrow> scan_up xs a i;
          j \<leftarrow> scan_down xs a j;
          if j < i then Some (xs, i, j)
          else do { xs \<leftarrow> SWAP xs (i - 1) (j - 1); part_loop xs a i j } }"

definition partition_step :: "int list \<Rightarrow> nat \<Rightarrow> nat \<Rightarrow> (int list \<times> nat \<times> nat) option" where
  "partition_step xs l ir =
     do { xs \<leftarrow> SWAP xs ((l + ir) div 2 - 1) l;
          xs \<leftarrow> SWAP_IF_GREATER xs (l - 1) (ir - 1);
          xs \<leftarrow> SWAP_IF_GREATER xs l (ir - 1);
          xs \<leftarrow> SWAP_IF_GREATER xs (l - 1) l;
          a \<leftarrow> aget xs l;
          (xs, i, j) \<leftarrow> part_loop xs a (l + 1) ir;
          y \<leftarrow> aget xs (j - 1);
          xs \<leftarrow> aset xs l y;
          xs \<leftarrow> aset xs (j - 1) a;
          Some (xs, i, j) }"

partial_function (option) sort_loop ::
  "int list \<Rightarrow> nat \<Rightarrow> nat \<Rightarrow> nat list \<Rightarrow> nat \<Rightarrow> int list option" where
  "sort_loop xs l ir stack stackp =
     (if int ir - int l < INSERTION_THRESHOLD
      then do { xs \<leftarrow> insertion_sort (nat (int ir - int l + 1)) (l - 1) xs;
                if stackp = 0 then Some xs
                else do { ir \<leftarrow> aget stack stackp;
                          l \<leftarrow> aget stack (stackp - 1);
                          sort_loop xs l ir stack (stackp - 2) } }
      else do { r \<leftarrow> partition_step xs l ir;
                let xs = fst r; let i = fst (snd r); let j = snd (snd r);
                if int ir - int i + 1 \<ge> int j - int l
                then do { stack \<leftarrow> aset stack (stackp + 2) ir;
                          stack \<leftarrow> aset stack (stackp + 1) i;
                          sort_loop xs l (j - 1) stack (stackp + 2) }
                else do { stack \<leftarrow> aset stack (stackp + 2) (j - 1);
                          stack \<leftarrow> aset stack (stackp + 1) l;
                          sort_loop xs i ir stack (stackp + 2) } })"

definition qsort :: "nat \<Rightarrow> int list \<Rightarrow> int list option" where
  "qsort n xs = sort_loop xs 1 n (replicate NSTACK 0) 0"

section \<open>Permuting a segment\<close>

definition seg_perm :: "nat \<Rightarrow> nat \<Rightarrow> 'a list \<Rightarrow> 'a list \<Rightarrow> bool" where
  "seg_perm a b xs ys \<longleftrightarrow> length ys = length xs \<and> mset ys = mset xs \<and>
     (\<forall>k < length xs. k < a \<or> b \<le> k \<longrightarrow> ys ! k = xs ! k)"

lemma seg_perm_refl [simp]: "seg_perm a b xs xs"
  by (simp add: seg_perm_def)

lemma seg_perm_trans: "seg_perm a b xs ys \<Longrightarrow> seg_perm a b ys zs \<Longrightarrow> seg_perm a b xs zs"
  by (simp add: seg_perm_def)

lemma seg_perm_mono: "seg_perm a b xs ys \<Longrightarrow> a' \<le> a \<Longrightarrow> b \<le> b' \<Longrightarrow> seg_perm a' b' xs ys"
  by (auto simp: seg_perm_def)

lemma seg_perm_length: "seg_perm a b xs ys \<Longrightarrow> length ys = length xs"
  by (simp add: seg_perm_def)

lemma seg_perm_outside: "seg_perm a b xs ys \<Longrightarrow> k < length xs \<Longrightarrow> k < a \<or> b \<le> k \<Longrightarrow> ys ! k = xs ! k"
  by (auto simp: seg_perm_def)

lemma seg_perm_swap:
  assumes "p < length xs" "q < length xs" "a \<le> p" "p < b" "a \<le> q" "q < b"
  shows "seg_perm a b xs (xs[p := xs ! q, q := xs ! p])"
  using assms mset_swap_nth [OF assms(1,2)] by (auto simp: seg_perm_def nth_list_update)

lemma seg_split: "a \<le> b \<Longrightarrow> b \<le> length xs \<Longrightarrow> xs = take a xs @ take (b - a) (drop a xs) @ drop b xs"
  by (metis append_take_drop_id drop_drop le_add_diff_inverse2)

lemma seg_perm_inside:
  assumes "seg_perm a b xs ys" "b \<le> length xs" "a \<le> q" "q < b"
  obtains q' where "a \<le> q'" "q' < b" "ys ! q = xs ! q'"
proof -
  have l: "length ys = length xs" using assms(1) by (simp add: seg_perm_def)
  have out: "ys ! k = xs ! k" if "k < length xs" "k < a \<or> b \<le> k" for k
    by (rule seg_perm_outside [OF assms(1) that])
  have "take a ys = take a xs" by (rule nth_equalityI) (use l out in auto)
  moreover have "drop b ys = drop b xs" by (rule nth_equalityI) (use l out assms(2) in auto)
  moreover have "mset ys = mset xs" using assms(1) by (simp add: seg_perm_def)
  moreover have "mset xs = mset (take a xs) + mset (take (b - a) (drop a xs)) + mset (drop b xs)"
    "mset ys = mset (take a ys) + mset (take (b - a) (drop a ys)) + mset (drop b ys)"
    using seg_split [of a b xs] seg_split [of a b ys] assms(2-4) l by (metis add.assoc le_less_trans less_imp_le mset_append)+
  ultimately have "mset (take (b - a) (drop a ys)) = mset (take (b - a) (drop a xs))" by simp
  then have "set (take (b - a) (drop a ys)) = set (take (b - a) (drop a xs))" by (rule mset_eq_setD)
  moreover have "ys ! q \<in> set (take (b - a) (drop a ys))"
    unfolding in_set_conv_nth by (rule exI [of _ "q - a"]) (use assms l in auto)
  ultimately have "ys ! q \<in> set (take (b - a) (drop a xs))" by simp
  then obtain k where "k < b - a" "a + k < length xs" "ys ! q = xs ! (a + k)"
    unfolding in_set_conv_nth by auto
  then show ?thesis using that [of "a + k"] by simp
qed

lemma SWAP_in:
  "p < length xs \<Longrightarrow> q < length xs \<Longrightarrow> SWAP xs p q = Some (xs[p := xs ! q, q := xs ! p])"
  by (simp add: SWAP_def)

lemma SWAP_IF_GREATER_in:
  "p < length xs \<Longrightarrow> q < length xs \<Longrightarrow>
   SWAP_IF_GREATER xs p q = Some (if xs ! p > xs ! q then xs[p := xs ! q, q := xs ! p] else xs)"
  by (simp add: SWAP_IF_GREATER_def SWAP_in)

section \<open>Insertion sort\<close>

text \<open>The segment from \<open>b\<close> to \<open>i\<close> is in order except for the element at \<open>j\<close>, which is not
  above those behind it.\<close>

definition hole_sorted :: "nat \<Rightarrow> nat \<Rightarrow> nat \<Rightarrow> int list \<Rightarrow> bool" where
  "hole_sorted b i j xs \<longleftrightarrow>
     (\<forall>p q. b \<le> p \<longrightarrow> p < q \<longrightarrow> q \<le> i \<longrightarrow> p \<noteq> j \<longrightarrow> q \<noteq> j \<longrightarrow> xs ! p \<le> xs ! q) \<and>
     (\<forall>q. j < q \<longrightarrow> q \<le> i \<longrightarrow> xs ! j \<le> xs ! q)"

definition seg_sorted :: "nat \<Rightarrow> nat \<Rightarrow> int list \<Rightarrow> bool" where
  "seg_sorted a b xs \<longleftrightarrow> (\<forall>p q. a \<le> p \<longrightarrow> p < q \<longrightarrow> q < b \<longrightarrow> xs ! p \<le> xs ! q)"

lemma hole_sorted_step:
  assumes "hole_sorted b i (Suc j) ys" "b \<le> j" "Suc j \<le> i" "i < length ys" "ys ! Suc j < ys ! j"
  shows "hole_sorted b i j (ys[Suc j := ys ! j, j := ys ! Suc j])"
  using assms unfolding hole_sorted_def
  by (auto simp: nth_list_update less_Suc_eq_le)

lemma hole_sorted_done:
  assumes "hole_sorted b i j ys" "j \<le> i" "j = b \<or> (b < j \<and> ys ! (j - 1) \<le> ys ! j)"
  shows "seg_sorted b (Suc i) ys"
  unfolding seg_sorted_def
proof (intro allI impI)
  fix p q assume pq: "b \<le> p" "p < q" "q < Suc i"
  consider "p = j" | "q = j" | "p \<noteq> j" "q \<noteq> j" by blast
  then show "ys ! p \<le> ys ! q"
  proof cases
    case 2
    then have "ys ! (j - 1) \<le> ys ! j" "b < j" using assms(3) pq by auto
    moreover have "ys ! p \<le> ys ! (j - 1)"
      using assms(1,2) pq 2 by (cases "p = j - 1") (auto simp: hole_sorted_def)
    ultimately show ?thesis using 2 by simp
  qed (use assms pq in \<open>auto simp: hole_sorted_def\<close>)
qed

lemma insertion_inner_spec:
  assumes "b < j" "j \<le> i" "i < length xs" "hole_sorted b i j (xs[j := v])"
  shows "\<exists>ys k. insertion_inner xs b v j = Some (ys, k) \<and> k < length xs \<and> length ys = length xs \<and>
    seg_perm b (Suc i) (xs[j := v]) (ys[k := v]) \<and> seg_sorted b (Suc i) (ys[k := v])"
  using assms
proof (induction j arbitrary: xs)
  case (Suc j)
  let ?w = "xs[Suc j := v]"
  show ?case
  proof (cases "v < xs ! j")
    case False
    have "seg_sorted b (Suc i) ?w"
      by (rule hole_sorted_done [OF Suc.prems(4,2)]) (use Suc.prems False in simp)
    with False Suc.prems show ?thesis by auto
  next
    case True
    let ?xs = "xs[Suc j := xs ! j]"
    have w: "?xs[j := v] = ?w[Suc j := ?w ! j, j := ?w ! Suc j]"
      using Suc.prems by (simp add: list_update_swap)
    have h: "hole_sorted b i j (?xs[j := v])"
      unfolding w by (rule hole_sorted_step [OF Suc.prems(4)]) (use Suc.prems True in auto)
    have p: "seg_perm b (Suc i) ?w (?xs[j := v])"
      unfolding w by (rule seg_perm_swap) (use Suc.prems in auto)
    show ?thesis
    proof (cases "j = b")
      case True
      have "seg_sorted b (Suc i) (?xs[j := v])"
        by (rule hole_sorted_done [OF h]) (use Suc.prems True in auto)
      with p True Suc.prems \<open>v < xs ! j\<close> show ?thesis by auto
    next
      case False
      then have "b < j" "j \<le> i" "i < length ?xs" using Suc.prems by auto
      from Suc.IH [OF this h] obtain ys k where "insertion_inner ?xs b v j = Some (ys, k)" "k < length xs"
        "length ys = length xs" "seg_perm b (Suc i) (?xs[j := v]) (ys[k := v])" "seg_sorted b (Suc i) (ys[k := v])"
        by auto
      with p seg_perm_trans True False Suc.prems show ?thesis by auto
    qed
  qed
qed simp

lemma insertion_outer_spec:
  "seg_sorted b (b + k) xs \<Longrightarrow> b + n \<le> length xs \<Longrightarrow> 1 \<le> k \<Longrightarrow> k \<le> n \<Longrightarrow>
   \<exists>ys. insertion_outer xs b [b + k..<b + n] = Some ys \<and> seg_perm b (b + n) xs ys \<and> seg_sorted b (b + n) ys"
proof (induction "n - k" arbitrary: k xs)
  case (Suc m)
  have u: "[b + k..<b + n] = (b + k) # [b + Suc k..<b + n]" using Suc.hyps(2) by (simp add: upt_conv_Cons)
  have nk: "m = n - Suc k" "Suc k \<le> n" using Suc.hyps(2) by simp_all
  have lt: "b + k < length xs" using Suc.hyps(2) Suc.prems(2) by linarith
  have h: "hole_sorted b (b + k) (b + k) (xs[b + k := xs ! (b + k)])"
    using Suc.prems(1) by (auto simp: hole_sorted_def seg_sorted_def)
  obtain ys j where i: "insertion_inner xs b (xs ! (b + k)) (b + k) = Some (ys, j)" "j < length xs"
    "length ys = length xs" "seg_perm b (Suc (b + k)) xs (ys[j := xs ! (b + k)])"
    "seg_sorted b (Suc (b + k)) (ys[j := xs ! (b + k)])"
    using insertion_inner_spec [OF _ _ lt h] Suc.prems by auto
  let ?zs = "ys[j := xs ! (b + k)]"
  obtain ys' where "insertion_outer ?zs b [b + Suc k..<b + n] = Some ys'" "seg_perm b (b + n) ?zs ys'"
    "seg_sorted b (b + n) ys'"
    using Suc.hyps(1) [of "Suc k" ?zs, OF nk(1) _ _ _ nk(2)] Suc.prems i by auto
  moreover have "seg_perm b (b + n) xs ?zs" by (rule seg_perm_mono [OF i(4)]) (use Suc.hyps(2) in auto)
  ultimately show ?case
    unfolding u using i Suc.hyps(2) Suc.prems by (auto intro: seg_perm_trans)
qed auto

lemma insertion_sort_spec:
  assumes "b + n \<le> length xs"
  shows "\<exists>ys. insertion_sort n b xs = Some ys \<and> seg_perm b (b + n) xs ys \<and> seg_sorted b (b + n) ys"
proof (cases "n = 0")
  case True
  then show ?thesis by (simp add: insertion_sort_def seg_sorted_def)
next
  case False
  have "seg_sorted b (b + 1) xs" by (auto simp: seg_sorted_def)
  with insertion_outer_spec [of b 1 xs n] assms False show ?thesis by (simp add: insertion_sort_def)
qed

section \<open>Partitioning\<close>

lemma scan_up_spec:
  assumes "i \<le> m" "m < length xs" "\<not> xs ! m < a"
  shows "\<exists>i'. scan_up xs a i = Some i' \<and> i < i' \<and> i' \<le> Suc m \<and> a \<le> xs ! (i' - 1) \<and>
    (\<forall>k. i \<le> k \<longrightarrow> k < i' - 1 \<longrightarrow> xs ! k < a)"
  using assms
proof (induction "m - i" arbitrary: i rule: less_induct)
  case less
  show ?case
  proof (cases "xs ! i < a")
    case False
    with less.prems show ?thesis by (subst scan_up.simps) auto
  next
    case True
    then have "i \<noteq> m" using less.prems by auto
    then have "m - (i + 1) < m - i" "i + 1 \<le> m" using less.prems by auto
    from less.hyps [OF this less.prems(2,3)] obtain i' where
      i': "scan_up xs a (i + 1) = Some i'" "i + 1 < i'" "i' \<le> Suc m" "a \<le> xs ! (i' - 1)"
      "\<forall>k. i + 1 \<le> k \<longrightarrow> k < i' - 1 \<longrightarrow> xs ! k < a" by blast
    have "xs ! k < a" if "i \<le> k" "k < i' - 1" for k
      using i'(5) True that by (cases "k = i") auto
    with i' True less.prems show ?thesis by (subst scan_up.simps) auto
  qed
qed

lemma scan_down_spec:
  assumes "m + 2 \<le> j" "j < length xs + 2" "\<not> xs ! m > a"
  shows "\<exists>j'. scan_down xs a j = Some j' \<and> m + 1 \<le> j' \<and> j' < j \<and> xs ! (j' - 1) \<le> a \<and>
    (\<forall>k. j' \<le> k \<longrightarrow> k < j - 1 \<longrightarrow> xs ! k > a)"
  using assms
proof (induction xs a j rule: scan_down.induct)
  case (1 xs a k)
  show ?case
  proof (cases "xs ! k > a")
    case False
    with 1 show ?thesis by auto
  next
    case True
    then have "m \<noteq> k" using 1 by auto
    then obtain j' where j': "scan_down xs a (Suc k) = Some j'" "m + 1 \<le> j'" "j' < Suc k" "xs ! (j' - 1) \<le> a"
      "\<forall>i. j' \<le> i \<longrightarrow> i < k \<longrightarrow> xs ! i > a"
      using 1(1) [of "xs ! k"] 1(2-) True by auto
    have "xs ! i > a" if "j' \<le> i" "i < Suc k" for i using j'(5) True that by (cases "i = k") auto
    with j' True 1(2-) show ?thesis by auto
  qed
qed auto

text \<open>The state of the partitioning loop: everything before \<open>i\<close> is at most the pivot,
  everything from \<open>j - 1\<close> on is at least the pivot.\<close>

definition parting :: "nat \<Rightarrow> nat \<Rightarrow> int \<Rightarrow> nat \<Rightarrow> nat \<Rightarrow> int list \<Rightarrow> bool" where
  "parting l ir a i j xs \<longleftrightarrow> xs ! (l - 1) \<le> a \<and> xs ! l = a \<and>
     (\<forall>k. l < k \<longrightarrow> k < i \<longrightarrow> xs ! k \<le> a) \<and> (\<forall>k. j - 1 \<le> k \<longrightarrow> k < ir \<longrightarrow> a \<le> xs ! k)"

lemma parting_swap:
  assumes inv: "parting l ir a i j xs" and l: "1 \<le> l" "l < i" "ir \<le> length xs" "i < i'" "j' < j"
    and up: "\<forall>k. i \<le> k \<longrightarrow> k < i' - 1 \<longrightarrow> xs ! k < a" and down: "\<forall>k. j' \<le> k \<longrightarrow> k < j - 1 \<longrightarrow> xs ! k > a"
    and x: "a \<le> xs ! (i' - 1)" and y: "xs ! (j' - 1) \<le> a" and c: "i' \<le> j'" "j' \<le> ir"
  shows "parting l ir a i' j' (xs[i' - 1 := xs ! (j' - 1), j' - 1 := xs ! (i' - 1)])"
proof -
  let ?ys = "xs[i' - 1 := xs ! (j' - 1), j' - 1 := xs ! (i' - 1)]"
  have d: "l < i' - 1" "l < j' - 1" "i' - 1 < length xs" "j' - 1 < length xs" using l c by auto
  have lo: "xs ! k \<le> a" if "l < k" "k < i' - 1" for k
    using inv up that by (cases "k < i") (auto simp: parting_def intro: less_imp_le)
  have hi: "a \<le> xs ! k" if "j' \<le> k" "k < ir" for k
    using inv down that by (cases "k < j - 1") (auto simp: parting_def intro: less_imp_le)
  have "?ys ! k \<le> a" if "l < k" "k < i'" for k
  proof (cases "k = i' - 1")
    case True
    then show ?thesis using d y x c by (cases "i' = j'") (auto simp: nth_list_update)
  next
    case False
    then show ?thesis using lo [of k] that d c by (auto simp: nth_list_update)
  qed
  moreover have "a \<le> ?ys ! k" if "j' - 1 \<le> k" "k < ir" for k
  proof (cases "k = j' - 1")
    case True
    then show ?thesis using d x by (auto simp: nth_list_update)
  next
    case False
    then show ?thesis using hi [of k] that d c by (auto simp: nth_list_update)
  qed
  moreover have "?ys ! (l - 1) \<le> a" "?ys ! l = a" using inv d l by (auto simp: parting_def nth_list_update)
  ultimately show ?thesis by (auto simp: parting_def)
qed

lemma part_loop_spec:
  assumes "parting l ir a i j xs" "1 \<le> l" "l < i" "i < ir" "l + 2 \<le> j" "j \<le> ir" "ir \<le> length xs"
  shows "\<exists>ys i' j'. part_loop xs a i j = Some (ys, i', j') \<and> seg_perm (l - 1) ir xs ys \<and>
    ys ! (l - 1) \<le> a \<and> ys ! l = a \<and> i < i' \<and> i' \<le> ir \<and> l < j' \<and> j' < j \<and> j' < i' \<and> ys ! (j' - 1) \<le> a \<and>
    (\<forall>k. l < k \<longrightarrow> k < i' - 1 \<longrightarrow> ys ! k \<le> a) \<and> (\<forall>k. j' \<le> k \<longrightarrow> k < ir \<longrightarrow> a \<le> ys ! k)"
  using assms
proof (induction j arbitrary: xs i rule: less_induct)
  case (less j)
  note p = less.prems
  have ir: "i \<le> ir - 1" "ir - 1 < length xs" "Suc (ir - 1) = ir" using p by auto
  have "a \<le> xs ! (ir - 1)" using p by (auto simp: parting_def)
  then obtain i' where i': "scan_up xs a i = Some i'" "i < i'" "i' \<le> ir" "a \<le> xs ! (i' - 1)"
      "\<forall>k. i \<le> k \<longrightarrow> k < i' - 1 \<longrightarrow> xs ! k < a"
    using scan_up_spec [of i "ir - 1" xs a] ir by auto
  have "\<not> xs ! l > a" using p by (auto simp: parting_def)
  then obtain j' where j': "scan_down xs a j = Some j'" "l < j'" "j' < j" "xs ! (j' - 1) \<le> a"
      "\<forall>k. j' \<le> k \<longrightarrow> k < j - 1 \<longrightarrow> xs ! k > a"
    using scan_down_spec [of l j xs a] p by auto
  show ?case
  proof (cases "j' < i'")
    case True
    have "xs ! k \<le> a" if "l < k" "k < i' - 1" for k
      using p(1) i'(5) that by (cases "k < i") (auto simp: parting_def intro: less_imp_le)
    moreover have "a \<le> xs ! k" if "j' \<le> k" "k < ir" for k
      using p(1) j'(5) that by (cases "k < j - 1") (auto simp: parting_def intro: less_imp_le)
    ultimately show ?thesis
      using True i' j' p by (subst part_loop.simps) (auto simp: parting_def)
  next
    case False
    let ?xs = "xs[i' - 1 := xs ! (j' - 1), j' - 1 := xs ! (i' - 1)]"
    have d: "i' - 1 < length xs" "j' - 1 < length xs" using False i' j' p by auto
    have inv: "parting l ir a i' j' ?xs"
      by (rule parting_swap [OF p(1,2,3,7) i'(2) j'(3) i'(5) j'(5) i'(4) j'(4)]) (use False j' p in auto)
    have perm: "seg_perm (l - 1) ir xs ?xs"
      by (rule seg_perm_swap) (use False d i' j' p in auto)
    have "l < i'" "i' < ir" "l + 2 \<le> j'" "j' \<le> ir" "ir \<le> length ?xs" using False i' j' p by auto
    from less.IH [OF j'(3) inv p(2) this] obtain ys i2 j2 where
      r: "part_loop ?xs a i' j' = Some (ys, i2, j2)" "seg_perm (l - 1) ir ?xs ys" "ys ! (l - 1) \<le> a" "ys ! l = a"
      "i' < i2" "i2 \<le> ir" "l < j2" "j2 < j'" "j2 < i2" "ys ! (j2 - 1) \<le> a"
      "\<forall>k. l < k \<longrightarrow> k < i2 - 1 \<longrightarrow> ys ! k \<le> a" "\<forall>k. j2 \<le> k \<longrightarrow> k < ir \<longrightarrow> a \<le> ys ! k" by blast
    have "part_loop xs a i j = Some (ys, i2, j2)"
      using False i' j' d r(1) by (subst part_loop.simps) (simp add: SWAP_in)
    moreover have "seg_perm (l - 1) ir xs ys" by (rule seg_perm_trans [OF perm r(2)])
    ultimately show ?thesis using r i'(2) j'(3) by auto
  qed
qed

lemma median_spec:
  assumes "1 \<le> l" "l + 10 \<le> ir" "ir \<le> length xs"
  shows "\<exists>ys. do { xs \<leftarrow> SWAP xs ((l + ir) div 2 - 1) l; xs \<leftarrow> SWAP_IF_GREATER xs (l - 1) (ir - 1);
      xs \<leftarrow> SWAP_IF_GREATER xs l (ir - 1); SWAP_IF_GREATER xs (l - 1) l } = Some ys \<and>
    seg_perm (l - 1) ir xs ys \<and> ys ! (l - 1) \<le> ys ! l \<and> ys ! l \<le> ys ! (ir - 1)"
proof -
  let ?m = "(l + ir) div 2 - 1"
  have m: "?m < ir" "l - 1 \<le> ?m" using assms by auto
  define x1 where "x1 = xs[?m := xs ! l, l := xs ! ?m]"
  define x2 where "x2 = (if x1 ! (l - 1) > x1 ! (ir - 1) then x1[l - 1 := x1 ! (ir - 1), ir - 1 := x1 ! (l - 1)] else x1)"
  define x3 where "x3 = (if x2 ! l > x2 ! (ir - 1) then x2[l := x2 ! (ir - 1), ir - 1 := x2 ! l] else x2)"
  define x4 where "x4 = (if x3 ! (l - 1) > x3 ! l then x3[l - 1 := x3 ! l, l := x3 ! (l - 1)] else x3)"
  have len: "length x1 = length xs" "length x2 = length xs" "length x3 = length xs" "length x4 = length xs"
    by (simp_all add: x1_def x2_def x3_def x4_def)
  have lt: "?m < length xs" "l < length xs" "l - 1 < length xs" "ir - 1 < length xs" using assms m by auto
  have ne: "l - 1 \<noteq> l" "l - 1 \<noteq> ir - 1" "l \<noteq> ir - 1" using assms by auto
  have r1: "SWAP xs ?m l = Some x1" unfolding x1_def by (rule SWAP_in [OF lt(1,2)])
  have r2: "SWAP_IF_GREATER x1 (l - 1) (ir - 1) = Some x2"
    unfolding x2_def by (rule SWAP_IF_GREATER_in) (use lt len in simp_all)
  have r3: "SWAP_IF_GREATER x2 l (ir - 1) = Some x3"
    unfolding x3_def by (rule SWAP_IF_GREATER_in) (use lt len in simp_all)
  have r4: "SWAP_IF_GREATER x3 (l - 1) l = Some x4"
    unfolding x4_def by (rule SWAP_IF_GREATER_in) (use lt len in simp_all)
  have run: "do { xs \<leftarrow> SWAP xs ?m l; xs \<leftarrow> SWAP_IF_GREATER xs (l - 1) (ir - 1);
      xs \<leftarrow> SWAP_IF_GREATER xs l (ir - 1); SWAP_IF_GREATER xs (l - 1) l } = Some x4"
    unfolding r1 Option.bind.bind_lunit r2 r3 r4 ..
  have p1: "seg_perm (l - 1) ir xs x1" unfolding x1_def by (rule seg_perm_swap) (use lt m assms in auto)
  have p2: "seg_perm (l - 1) ir x1 x2" unfolding x2_def
    using seg_perm_swap [of "l - 1" x1 "ir - 1" "l - 1" ir] lt len assms by auto
  have p3: "seg_perm (l - 1) ir x2 x3" unfolding x3_def
    using seg_perm_swap [of l x2 "ir - 1" "l - 1" ir] lt len assms by auto
  have p4: "seg_perm (l - 1) ir x3 x4" unfolding x4_def
    using seg_perm_swap [of "l - 1" x3 l "l - 1" ir] lt len assms by auto
  have o2: "x2 ! (l - 1) \<le> x2 ! (ir - 1)" using lt len ne by (auto simp: x2_def nth_list_update)
  have o3: "x3 ! l \<le> x3 ! (ir - 1)" "x3 ! (l - 1) \<le> x3 ! (ir - 1)"
    using lt len ne o2 by (auto simp: x3_def nth_list_update)
  have "x4 ! (l - 1) \<le> x4 ! l" "x4 ! l \<le> x4 ! (ir - 1)"
    using lt len ne o3 by (auto simp: x4_def nth_list_update)
  with run p1 p2 p3 p4 show ?thesis by (blast intro: seg_perm_trans)
qed

lemma partition_step_spec:
  assumes "1 \<le> l" "l + 10 \<le> ir" "ir \<le> length xs"
  shows "\<exists>ys i j a. partition_step xs l ir = Some (ys, i, j) \<and> seg_perm (l - 1) ir xs ys \<and>
    l + 1 < i \<and> i \<le> ir \<and> l < j \<and> j < i \<and> j < ir \<and>
    (\<forall>k. l - 1 \<le> k \<longrightarrow> k < i - 1 \<longrightarrow> ys ! k \<le> a) \<and> (\<forall>k. j - 1 \<le> k \<longrightarrow> k < ir \<longrightarrow> a \<le> ys ! k)"
proof -
  obtain x4 where m: "do { xs \<leftarrow> SWAP xs ((l + ir) div 2 - 1) l; xs \<leftarrow> SWAP_IF_GREATER xs (l - 1) (ir - 1);
      xs \<leftarrow> SWAP_IF_GREATER xs l (ir - 1); SWAP_IF_GREATER xs (l - 1) l } = Some x4"
    "seg_perm (l - 1) ir xs x4" "x4 ! (l - 1) \<le> x4 ! l" "x4 ! l \<le> x4 ! (ir - 1)"
    using median_spec [OF assms] by blast
  have len: "length x4 = length xs" by (rule seg_perm_length [OF m(2)])
  define a where "a = x4 ! l"
  have "parting l ir a (l + 1) ir x4" using m(3,4) assms by (auto simp: parting_def a_def le_less_Suc_eq dest: le_antisym)
  from part_loop_spec [OF this] assms len obtain zs i j where
    r: "part_loop x4 a (l + 1) ir = Some (zs, i, j)" "seg_perm (l - 1) ir x4 zs" "zs ! (l - 1) \<le> a" "zs ! l = a"
    "l + 1 < i" "i \<le> ir" "l < j" "j < ir" "j < i" "zs ! (j - 1) \<le> a"
    "\<forall>k. l < k \<longrightarrow> k < i - 1 \<longrightarrow> zs ! k \<le> a" "\<forall>k. j \<le> k \<longrightarrow> k < ir \<longrightarrow> a \<le> zs ! k" by auto
  have lz: "length zs = length xs" using seg_perm_length [OF r(2)] len by simp
  have lt: "l < length xs" "j - 1 < length xs" using assms r by auto
  let ?ys = "zs[l := zs ! (j - 1), j - 1 := zs ! l]"
  have perm: "seg_perm (l - 1) ir zs ?ys" by (rule seg_perm_swap) (use lt lz r assms in auto)
  have "partition_step xs l ir = do { a \<leftarrow> aget x4 l; (xs, i, j) \<leftarrow> part_loop x4 a (l + 1) ir; y \<leftarrow> aget xs (j - 1);
      xs \<leftarrow> aset xs l y; xs \<leftarrow> aset xs (j - 1) a; Some (xs, i, j) }"
    using m(1) unfolding partition_step_def by (auto simp: Option.bind_eq_Some_conv)
  also have "\<dots> = Some (?ys, i, j)" using r(1,4) lt lz len by (simp add: a_def)
  finally have run: "partition_step xs l ir = Some (?ys, i, j)" .
  have "?ys ! k \<le> a" if "l - 1 \<le> k" "k < i - 1" for k
    using r lt lz that assms by (cases "k = l - 1"; cases "k = l") (auto simp: nth_list_update)
  moreover have "a \<le> ?ys ! k" if "j - 1 \<le> k" "k < ir" for k
    using r lt lz that by (cases "k = j - 1") (auto simp: nth_list_update)
  moreover have "seg_perm (l - 1) ir xs ?ys" using m(2) r(2) perm by (blast intro: seg_perm_trans)
  ultimately show ?thesis using run r(5-9) by blast
qed

section \<open>The pending segments\<close>

type_synonym seg = "nat \<times> nat"

definition disj :: "seg \<Rightarrow> seg \<Rightarrow> bool" where
  "disj s t \<longleftrightarrow> snd s \<le> fst t \<or> snd t \<le> fst s"

definition in_order :: "int list \<Rightarrow> seg set \<Rightarrow> nat \<Rightarrow> bool" where
  "in_order xs S n \<longleftrightarrow> (\<forall>p q. p < q \<longrightarrow> q < n \<longrightarrow> xs ! p \<le> xs ! q \<or> (\<exists>(a, b) \<in> S. a \<le> p \<and> q < b))"

lemma disj_sym: "disj s t = disj t s"
  by (auto simp: disj_def)

lemma in_orderD: "in_order xs S n \<Longrightarrow> p < q \<Longrightarrow> q < n \<Longrightarrow> xs ! p \<le> xs ! q \<or> (\<exists>(a, b) \<in> S. a \<le> p \<and> q < b)"
  by (simp add: in_order_def)

text \<open>Permuting inside of a pending segment keeps the order of all other pairs.\<close>

lemma in_order_perm:
  assumes ord: "in_order xs (insert (a, b) S) n" and perm: "seg_perm a b xs ys" and n: "b \<le> n" "n \<le> length xs"
    and dj: "\<And>s. s \<in> S \<Longrightarrow> disj (a, b) s"
  shows "in_order ys (insert (a, b) S) n"
  unfolding in_order_def
proof (intro allI impI)
  fix p q assume pq: "p < q" "q < n"
  have same: "ys ! k = xs ! k" if "k < n" "\<not> (a \<le> k \<and> k < b)" for k
    by (rule seg_perm_outside [OF perm]) (use that n in auto)
  have cross: "xs ! p' \<le> xs ! q'" if "p' < q'" "q' < n" "a \<le> p' \<and> p' < b \<longleftrightarrow> \<not> (a \<le> q' \<and> q' < b)" for p' q'
    using in_orderD [OF ord that(1,2)] dj that(3,1) by (fastforce simp: disj_def)
  show "ys ! p \<le> ys ! q \<or> (\<exists>(a, b) \<in> insert (a, b) S. a \<le> p \<and> q < b)"
  proof (cases "a \<le> p \<and> p < b")
    case pin: True
    show ?thesis
    proof (cases "q < b")
      case False
      obtain p' where p': "a \<le> p'" "p' < b" "ys ! p = xs ! p'"
        using seg_perm_inside [OF perm _ conjunct1 [OF pin] conjunct2 [OF pin]] n by auto
      have "xs ! p' \<le> xs ! q" by (rule cross) (use p' False pq in auto)
      then show ?thesis using p'(3) same [of q] False pq by auto
    qed (use pin in auto)
  next
    case pout: False
    show ?thesis
    proof (cases "a \<le> q \<and> q < b")
      case qin: True
      obtain q' where q': "a \<le> q'" "q' < b" "ys ! q = xs ! q'"
        using seg_perm_inside [OF perm _ conjunct1 [OF qin] conjunct2 [OF qin]] n by auto
      have "xs ! p \<le> xs ! q'" by (rule cross) (use q' qin pout pq n in auto)
      then show ?thesis using q'(3) same [of p] pout pq by auto
    next
      case False
      then show ?thesis using in_orderD [OF ord pq] same [of p] same [of q] pout pq by auto
    qed
  qed
qed

lemma in_order_split:
  assumes "in_order ys (insert (a, b) S) n" "\<And>p. a \<le> p \<Longrightarrow> p < d \<Longrightarrow> ys ! p \<le> v" "\<And>q. c \<le> q \<Longrightarrow> q < b \<Longrightarrow> v \<le> ys ! q"
  shows "in_order ys (insert (a, c) (insert (d, b) S)) n"
  unfolding in_order_def
proof (intro allI impI)
  fix p q assume pq: "p < q" "q < n"
  consider "ys ! p \<le> ys ! q" | "a \<le> p" "q < b" | s where "s \<in> S" "fst s \<le> p" "q < snd s"
    using in_orderD [OF assms(1) pq] by fastforce
  then show "ys ! p \<le> ys ! q \<or> (\<exists>(a, b) \<in> insert (a, c) (insert (d, b) S). a \<le> p \<and> q < b)"
  proof cases
    case 2
    show ?thesis
    proof (cases "q < c \<or> d \<le> p")
      case True
      then show ?thesis using 2 pq by auto
    next
      case False
      then have "ys ! p \<le> v" "v \<le> ys ! q" using assms(2,3) 2 pq by auto
      then show ?thesis by simp
    qed
  qed (auto simp: case_prod_beta)
qed

lemma in_order_sorted:
  assumes "in_order ys (insert (a, b) S) n" "seg_sorted a b ys"
  shows "in_order ys S n"
  unfolding in_order_def
proof (intro allI impI)
  fix p q assume pq: "p < q" "q < n"
  from in_orderD [OF assms(1) pq] show "ys ! p \<le> ys ! q \<or> (\<exists>(a, b) \<in> S. a \<le> p \<and> q < b)"
    using assms(2) pq(1) by (auto simp: seg_sorted_def)
qed

definition seg_size :: "seg \<Rightarrow> nat" where
  "seg_size s = snd s - fst s"

definition stack_holds :: "nat list \<Rightarrow> seg list \<Rightarrow> bool" where
  "stack_holds stack ps \<longleftrightarrow> length stack = NSTACK \<and> 2 * length ps < NSTACK \<and>
     (\<forall>k < length ps. stack ! (2 * k + 1) = fst (ps ! k) + 1 \<and> stack ! (2 * k + 2) = snd (ps ! k))"

text \<open>The invariant of the main loop: the current segment is \<open>(a, b)\<close>, the stack holds the
  segments \<open>ps\<close>, the last one on top. The sizes halve with the depth.\<close>

definition qinv :: "nat \<Rightarrow> int list \<Rightarrow> seg \<Rightarrow> seg list \<Rightarrow> nat list \<Rightarrow> bool" where
  "qinv n xs c ps stack \<longleftrightarrow> n \<le> length xs \<and> (\<forall>s \<in> set (c # ps). fst s < snd s \<and> snd s \<le> n) \<and>
     sorted_wrt disj (c # ps) \<and> in_order xs (set (c # ps)) n \<and>
     seg_size c * 2 ^ length ps \<le> n \<and> (\<forall>k < length ps. seg_size (ps ! k) * 2 ^ k \<le> n) \<and> stack_holds stack ps"

lemma stack_holds_push:
  assumes "stack_holds stack ps" "2 * length ps + 2 < NSTACK"
  shows "stack_holds (stack[2 * length ps + 2 := snd s, 2 * length ps + 1 := fst s + 1]) (ps @ [s])"
  using assms by (auto simp: stack_holds_def nth_append nth_list_update less_Suc_eq)

lemma qinv_room:
  assumes "qinv n xs c ps stack" "11 \<le> seg_size c" "n < 11 * 2 ^ 24"
  shows "2 * length ps + 2 < NSTACK"
proof -
  have "11 * 2 ^ length ps \<le> seg_size c * 2 ^ length ps" using assms(2) by simp
  also have "\<dots> \<le> n" using assms(1) by (simp add: qinv_def)
  finally have "(2 :: nat) ^ length ps < 2 ^ 24" using assms(3) by simp
  then have "length ps < 24" by (rule power_less_imp_less_exp [rotated]) simp
  then show ?thesis by (simp add: NSTACK_def)
qed

lemma qinv_push:
  assumes inv: "qinv n xs c ps stack" and room: "2 * length ps + 2 < NSTACK"
    and perm: "length ys = length xs" "in_order ys (insert s (insert t (set ps))) n"
    and st: "fst c \<le> fst s" "snd s \<le> snd c" "fst c \<le> fst t" "snd t \<le> snd c" "fst s < snd s" "fst t < snd t" "disj s t"
    and size: "seg_size s \<le> seg_size t" "seg_size s + seg_size t < seg_size c"
  shows "qinv n ys s (ps @ [t]) (stack[2 * length ps + 2 := snd t, 2 * length ps + 1 := fst t + 1])"
proof -
  note i = inv [unfolded qinv_def]
  have dj: "disj s u \<and> disj t u" if "u \<in> set ps" for u
  proof -
    have "disj c u" "fst u < snd u" using i that by auto
    with st show ?thesis by (auto simp: disj_def)
  qed
  have "sorted_wrt disj (s # ps @ [t])"
    using i dj st(7) by (auto simp: sorted_wrt_append disj_sym)
  moreover have "seg_size s * 2 ^ length (ps @ [t]) \<le> n"
  proof -
    have "seg_size s * 2 ^ length (ps @ [t]) = (2 * seg_size s) * 2 ^ length ps" by simp
    also have "\<dots> \<le> seg_size c * 2 ^ length ps" using size by (intro mult_right_mono) auto
    also have "\<dots> \<le> n" using i by simp
    finally show ?thesis .
  qed
  moreover have "seg_size ((ps @ [t]) ! k) * 2 ^ k \<le> n" if "k < length (ps @ [t])" for k
  proof (cases "k < length ps")
    case False
    then have k: "k = length ps" using that by simp
    have "seg_size t * 2 ^ length ps \<le> seg_size c * 2 ^ length ps" using size by (intro mult_right_mono) auto
    also have "\<dots> \<le> n" using i by simp
    finally show ?thesis using k by (simp add: nth_append)
  qed (use i in \<open>auto simp: nth_append\<close>)
  moreover have "set (s # ps @ [t]) = insert s (insert t (set ps))" by auto
  moreover have "fst u < snd u \<and> snd u \<le> n" if "u \<in> set (s # ps @ [t])" for u
    using that i st by (auto intro: le_trans)
  ultimately show ?thesis
    using perm i stack_holds_push [OF _ room, of stack t] by (simp add: qinv_def)
qed

lemma qinv_pop:
  assumes inv: "qinv n xs c (ps @ [s]) stack" and "length ys = length xs" "in_order ys (insert s (set ps)) n"
  shows "qinv n ys s ps stack" "stack ! (2 * length ps + 2) = snd s" "stack ! (2 * length ps + 1) = fst s + 1"
proof -
  note i = inv [unfolded qinv_def]
  have h: "stack_holds stack (ps @ [s])" using i by simp
  have l: "length ps < length (ps @ [s])" by simp
  show "stack ! (2 * length ps + 2) = snd s" "stack ! (2 * length ps + 1) = fst s + 1"
    using h [unfolded stack_holds_def] l by (metis nth_append_length)+
  have "seg_size s * 2 ^ length ps \<le> n"
    using i l by (metis nth_append_length)
  moreover have "seg_size (ps ! k) * 2 ^ k \<le> n" if "k < length ps" for k
    using i that by (metis nth_append length_append_singleton less_SucI)
  moreover have "sorted_wrt disj (s # ps)" using i by (auto simp: sorted_wrt_append disj_sym)
  moreover have "stack_holds stack ps" using h by (auto simp: stack_holds_def nth_append)
  ultimately show "qinv n ys s ps stack" using i assms(2,3) by (auto simp: qinv_def)
qed

section \<open>The main loop\<close>

definition pending :: "seg \<Rightarrow> seg list \<Rightarrow> nat" where
  "pending c ps = seg_size c + sum_list (map seg_size ps)"

lemma sort_loop_small:
  assumes inv: "qinv n xs (a, b) ps stack" and small: "b - a \<le> 10"
  shows "\<exists>ys. insertion_sort (nat (int b - int (a + 1) + 1)) a xs = Some ys \<and> seg_perm a b xs ys \<and> in_order ys (set ps) n"
proof -
  note i = inv [unfolded qinv_def]
  have ab: "a < b" "b \<le> n" "n \<le> length xs" using i by auto
  have nb: "nat (int b - int (a + 1) + 1) = b - a" "a + (b - a) = b" using ab by auto
  obtain ys where ys: "insertion_sort (b - a) a xs = Some ys" "seg_perm a b xs ys" "seg_sorted a b ys"
    using insertion_sort_spec [of a "b - a" xs] ab nb(2) by auto
  have "in_order ys (insert (a, b) (set ps)) n"
    by (rule in_order_perm [OF _ ys(2) ab(2,3)]) (use i in auto)
  then have "in_order ys (set ps) n" by (rule in_order_sorted [OF _ ys(3)])
  with ys nb(1) show ?thesis by auto
qed

lemma sort_loop_large:
  assumes inv: "qinv n xs (a, b) ps stack" and large: "11 \<le> b - a" and n: "n < 11 * 2 ^ 24"
  shows "\<exists>ys i j. partition_step xs (a + 1) b = Some (ys, i, j) \<and> seg_perm a b xs ys \<and> 2 * length ps + 2 < NSTACK \<and>
    1 \<le> i \<and> 1 \<le> j \<and> length stack = NSTACK \<and>
    (if int b - int i + 1 \<ge> int j - int (a + 1)
     then qinv n ys (a, j - 1) (ps @ [(i - 1, b)]) (stack[2 * length ps + 2 := b, 2 * length ps + 1 := i]) \<and>
       pending (a, j - 1) (ps @ [(i - 1, b)]) < pending (a, b) ps
     else qinv n ys (i - 1, b) (ps @ [(a, j - 1)]) (stack[2 * length ps + 2 := j - 1, 2 * length ps + 1 := a + 1]) \<and>
       pending (i - 1, b) (ps @ [(a, j - 1)]) < pending (a, b) ps)"
proof -
  note i = inv [unfolded qinv_def]
  have ab: "b \<le> n" "n \<le> length xs" using i by auto
  have "a + 1 + 10 \<le> b" "b \<le> length xs" using large ab by auto
  from partition_step_spec [OF _ this] obtain ys i j v where
    r: "partition_step xs (a + 1) b = Some (ys, i, j)" "seg_perm a b xs ys" "a + 2 < i" "i \<le> b" "a + 1 < j" "j < i" "j < b"
    "\<forall>k. a \<le> k \<longrightarrow> k < i - 1 \<longrightarrow> ys ! k \<le> v" "\<forall>k. j - 1 \<le> k \<longrightarrow> k < b \<longrightarrow> v \<le> ys ! k" by auto
  have room: "2 * length ps + 2 < NSTACK" by (rule qinv_room [OF inv _ n]) (use large in \<open>simp add: seg_size_def\<close>)
  have "in_order ys (insert (a, b) (set ps)) n" by (rule in_order_perm [OF _ r(2) ab]) (use i in auto)
  then have ord: "in_order ys (insert (a, j - 1) (insert (i - 1, b) (set ps))) n"
    by (rule in_order_split [where v = v]) (use r in auto)
  have len: "length ys = length xs" by (rule seg_perm_length [OF r(2)])
  have s1: "Suc (i - 1) = i" using r by simp
  have A: "qinv n ys (a, j - 1) (ps @ [(i - 1, b)]) (stack[2 * length ps + 2 := b, 2 * length ps + 1 := i])"
    if "int b - int i + 1 \<ge> int j - int (a + 1)"
    using qinv_push [OF inv room len ord] that r s1 by (simp add: seg_size_def disj_def)
  have B: "qinv n ys (i - 1, b) (ps @ [(a, j - 1)]) (stack[2 * length ps + 2 := j - 1, 2 * length ps + 1 := a + 1])"
    if "\<not> int b - int i + 1 \<ge> int j - int (a + 1)"
    using qinv_push [OF inv room len, of "(i - 1, b)" "(a, j - 1)"] ord that r by (simp add: seg_size_def disj_def insert_commute)
  have "length stack = NSTACK" using i by (simp add: stack_holds_def)
  with A B r room show ?thesis by (auto simp: pending_def seg_size_def)
qed

lemma sort_loop_sorts:
  assumes "qinv n xs (a, b) ps stack" "n < 11 * 2 ^ 24"
  shows "\<exists>ys. sort_loop xs (a + 1) b stack (2 * length ps) = Some ys \<and> seg_perm 0 n xs ys \<and> in_order ys {} n"
  using assms(1)
proof (induction "pending (a, b) ps" arbitrary: xs a b ps stack rule: less_induct)
  case less
  note inv = less.prems
  have ab: "a < b" "b \<le> n" using inv by (auto simp: qinv_def)
  show ?case
  proof (cases "b - a \<le> 10")
    case True
    then have thr: "int b - int (a + 1) < INSERTION_THRESHOLD" by (simp add: INSERTION_THRESHOLD_def)
    obtain ys where ys: "insertion_sort (nat (int b - int (a + 1) + 1)) a xs = Some ys" "seg_perm a b xs ys"
        "in_order ys (set ps) n"
      using sort_loop_small [OF inv True] by blast
    have perm: "seg_perm 0 n xs ys" by (rule seg_perm_mono [OF ys(2)]) (use ab in auto)
    show ?thesis
    proof (cases ps rule: rev_cases)
      case Nil
      with ys perm thr show ?thesis by (subst sort_loop.simps) simp
    next
      case (snoc qs s)
      obtain c d where s: "s = (c, d)" by fastforce
      note pop = qinv_pop [OF inv [unfolded snoc] seg_perm_length [OF ys(2)]]
      have ord: "in_order ys (insert s (set qs)) n" using ys(3) snoc by simp
      have "pending (c, d) qs < pending (a, b) ps" using ab by (simp add: pending_def snoc s seg_size_def)
      from less.hyps [OF this pop(1) [OF ord, unfolded s]] obtain zs where
        zs: "sort_loop ys (c + 1) d stack (2 * length qs) = Some zs" "seg_perm 0 n ys zs" "in_order zs {} n" by blast
      have len: "length stack = NSTACK" "2 * length ps < NSTACK"
        using inv by (simp_all add: qinv_def stack_holds_def)
      have "sort_loop xs (a + 1) b stack (2 * length ps) = Some zs"
        using thr ys(1) zs(1) pop(2,3) [OF ord] len
        by (subst sort_loop.simps) (simp add: snoc s)
      with zs perm show ?thesis by (blast intro: seg_perm_trans)
    qed
  next
    case False
    then have thr: "\<not> int b - int (a + 1) < INSERTION_THRESHOLD" and "11 \<le> b - a"
      by (simp_all add: INSERTION_THRESHOLD_def)
    from sort_loop_large [OF inv this(2) assms(2)] obtain ys i j where
      r: "partition_step xs (a + 1) b = Some (ys, i, j)" "seg_perm a b xs ys" "2 * length ps + 2 < NSTACK" "1 \<le> i" "1 \<le> j"
        "length stack = NSTACK" and
      c: "if int b - int i + 1 \<ge> int j - int (a + 1)
       then qinv n ys (a, j - 1) (ps @ [(i - 1, b)]) (stack[2 * length ps + 2 := b, 2 * length ps + 1 := i]) \<and>
         pending (a, j - 1) (ps @ [(i - 1, b)]) < pending (a, b) ps
       else qinv n ys (i - 1, b) (ps @ [(a, j - 1)]) (stack[2 * length ps + 2 := j - 1, 2 * length ps + 1 := a + 1]) \<and>
         pending (i - 1, b) (ps @ [(a, j - 1)]) < pending (a, b) ps" by blast
    have perm: "seg_perm 0 n xs ys" by (rule seg_perm_mono [OF r(2)]) (use ab in auto)
    show ?thesis
    proof (cases "int b - int i + 1 \<ge> int j - int (a + 1)")
      case True
      then obtain zs where "sort_loop ys (a + 1) (j - 1) (stack[2 * length ps + 2 := b, 2 * length ps + 1 := i])
          (2 * length (ps @ [(i - 1, b)])) = Some zs" "seg_perm 0 n ys zs" "in_order zs {} n"
        using c less.hyps by (metis (no_types, lifting))
      then show ?thesis
        using r thr True seg_perm_trans [OF perm] by (subst sort_loop.simps) (auto simp: Let_def)
    next
      case False
      then obtain zs where "sort_loop ys (i - 1 + 1) b (stack[2 * length ps + 2 := j - 1, 2 * length ps + 1 := a + 1])
          (2 * length (ps @ [(a, j - 1)])) = Some zs" "seg_perm 0 n ys zs" "in_order zs {} n"
        using c less.hyps by (metis (no_types, lifting))
      then show ?thesis
        using r thr False seg_perm_trans [OF perm] by (subst sort_loop.simps) (auto simp: Let_def)
    qed
  qed
qed

lemma in_order_all: "in_order ys {} n \<Longrightarrow> n \<le> length ys \<Longrightarrow> sorted (take n ys)"
  by (auto simp: sorted_iff_nth_mono_less in_order_def)

lemma qsort_sorts_segment:
  assumes "n \<le> length xs" "n < 11 * 2 ^ 24"
  shows "\<exists>ys. qsort n xs = Some ys \<and> seg_perm 0 n xs ys \<and> in_order ys {} n"
proof (cases "n = 0")
  case True
  then show ?thesis
    by (simp add: qsort_def sort_loop.simps INSERTION_THRESHOLD_def insertion_sort_def in_order_def)
next
  case False
  then have "qinv n xs (0, n) [] (replicate NSTACK 0)"
    using assms(1) by (auto simp: qinv_def seg_size_def stack_holds_def in_order_def NSTACK_def)
  from sort_loop_sorts [OF this assms(2)] show ?thesis by (simp add: qsort_def)
qed

section \<open>Selection sort\<close>

lemma selection_inner_spec:
  assumes "n \<le> length xs" "i < k" "k \<le> n" "\<And>q. i < q \<Longrightarrow> q < k \<Longrightarrow> xs ! i \<le> xs ! q"
  shows "\<exists>ys. selection_inner xs i [k..<n] = Some ys \<and> seg_perm i n xs ys \<and> (\<forall>q. i < q \<longrightarrow> q < n \<longrightarrow> ys ! i \<le> ys ! q)"
  using assms
proof (induction "n - k" arbitrary: k xs)
  case (Suc m)
  have u: "[k..<n] = k # [Suc k..<n]" using Suc.hyps(2) by (simp add: upt_conv_Cons)
  have nk: "m = n - Suc k" "n \<le> length (if xs ! i > xs ! k then xs[i := xs ! k, k := xs ! i] else xs)"
    using Suc.hyps(2) Suc.prems by auto
  have lt: "k < n" "i < length xs" "k < length xs" using Suc.hyps(2) Suc.prems by auto
  let ?ys = "if xs ! i > xs ! k then xs[i := xs ! k, k := xs ! i] else xs"
  have s: "SWAP_IF_GREATER xs i k = Some ?ys" by (rule SWAP_IF_GREATER_in [OF lt(2,3)])
  have p: "seg_perm i n xs ?ys" using seg_perm_swap [of i xs k i n] lt Suc.prems(2) by auto
  have "?ys ! i \<le> ?ys ! q" if "i < q" "q < Suc k" for q
    using Suc.prems(4) [of q] that lt by (auto simp: nth_list_update less_Suc_eq)
  then obtain zs where
    "selection_inner ?ys i [Suc k..<n] = Some zs" "seg_perm i n ?ys zs" "\<forall>q. i < q \<longrightarrow> q < n \<longrightarrow> zs ! i \<le> zs ! q"
    using Suc.hyps(1) [of "Suc k" ?ys] nk Suc.prems lt by force
  then show ?case unfolding u using s seg_perm_trans [OF p] by auto
qed auto

lemma selection_outer_spec:
  assumes "n \<le> length xs" "i \<le> n - 1" "\<And>p q. p < q \<Longrightarrow> q < n \<Longrightarrow> p < i \<Longrightarrow> xs ! p \<le> xs ! q"
  shows "\<exists>ys. selection_outer n xs [i..<n - 1] = Some ys \<and> seg_perm 0 n xs ys \<and>
    (\<forall>p q. p < q \<longrightarrow> q < n \<longrightarrow> p < n - 1 \<longrightarrow> ys ! p \<le> ys ! q)"
  using assms
proof (induction "n - 1 - i" arbitrary: i xs)
  case 0
  then have "i = n - 1" by simp
  with 0 show ?case by auto
next
  case (Suc m)
  have m: "m = n - 1 - Suc i" "Suc i \<le> n - 1" "i + 1 \<le> n" using Suc.hyps(2) by simp_all
  have u: "[i..<n - 1] = i # [Suc i..<n - 1]" using m by (simp add: upt_conv_Cons)
  obtain ys where y: "selection_inner xs i [i + 1..<n] = Some ys" "seg_perm i n xs ys"
      "\<forall>q. i < q \<longrightarrow> q < n \<longrightarrow> ys ! i \<le> ys ! q"
    using selection_inner_spec [of n xs i "i + 1"] Suc.prems(1) m(3) by auto
  have len: "n \<le> length ys" using seg_perm_length [OF y(2)] Suc.prems(1) by simp
  have ord: "ys ! p \<le> ys ! q" if pq: "p < q" "q < n" "p < Suc i" for p q
  proof (cases "p = i")
    case False
    then have "p < i" using that by simp
    then have p: "ys ! p = xs ! p" using seg_perm_outside [OF y(2), of p] pq Suc.prems(1) by simp
    show ?thesis
    proof (cases "i \<le> q")
      case True
      obtain q' where "i \<le> q'" "q' < n" "ys ! q = xs ! q'"
        by (rule seg_perm_inside [OF y(2) Suc.prems(1) True pq(2)])
      with Suc.prems(3) [of p q'] \<open>p < i\<close> p show ?thesis by simp
    next
      case False
      then have "ys ! q = xs ! q" using seg_perm_outside [OF y(2), of q] pq Suc.prems(1) by simp
      with Suc.prems(3) [of p q] pq \<open>p < i\<close> p show ?thesis by simp
    qed
  qed (use y(3) pq in auto)
  obtain zs where "selection_outer n ys [Suc i..<n - 1] = Some zs" "seg_perm 0 n ys zs"
      "\<forall>p q. p < q \<longrightarrow> q < n \<longrightarrow> p < n - 1 \<longrightarrow> zs ! p \<le> zs ! q"
    using Suc.hyps(1) [OF m(1) len m(2) ord] by blast
  moreover have "seg_perm 0 n xs ys" by (rule seg_perm_mono [OF y(2)]) auto
  ultimately show ?case unfolding u using y(1) by (auto intro: seg_perm_trans)
qed

lemma selection_sort_sorts:
  assumes "n \<le> length xs"
  shows "\<exists>ys. selection_sort n xs = Some ys \<and> seg_perm 0 n xs ys \<and> in_order ys {} n"
  using selection_outer_spec [of n xs 0] assms by (auto simp: selection_sort_def in_order_def)

section \<open>Properties\<close>

lemma seg_perm_take_drop:
  assumes "seg_perm 0 n xs ys" "n \<le> length xs"
  shows "mset (take n ys) = mset (take n xs)" "drop n ys = drop n xs"
proof -
  show d: "drop n ys = drop n xs"
    by (rule nth_equalityI) (use assms seg_perm_length [OF assms(1)] in \<open>auto simp: seg_perm_def\<close>)
  have "mset ys = mset xs" using assms(1) by (simp add: seg_perm_def)
  then have "mset (take n ys) + mset (drop n ys) = mset (take n xs) + mset (drop n xs)"
    by (simp flip: mset_append)
  with d show "mset (take n ys) = mset (take n xs)" by simp
qed

lemma segment_sorted:
  assumes "seg_perm 0 n xs ys" "in_order ys {} n" "n \<le> length xs"
  shows "take n ys = sort (take n xs)" "drop n ys = drop n xs"
proof -
  have "n \<le> length ys" using seg_perm_length [OF assms(1)] assms(3) by simp
  then have "sorted (take n ys)" by (rule in_order_all [OF assms(2)])
  then show "take n ys = sort (take n xs)"
    using seg_perm_take_drop(1) [OF assms(1,3)] by (intro properties_for_sort [symmetric]) simp_all
  show "drop n ys = drop n xs" by (rule seg_perm_take_drop(2) [OF assms(1,3)])
qed

lemma qsort_sorts:
  assumes "n \<le> length xs" "n < 11 * 2 ^ 24"
  shows "\<exists>ys. qsort n xs = Some ys \<and> take n ys = sort (take n xs) \<and> drop n ys = drop n xs"
  using qsort_sorts_segment [OF assms] segment_sorted [OF _ _ assms(1)] by blast

lemma insertion_sort_sorts:
  assumes "b + m \<le> length xs"
  shows "insertion_sort m b xs = Some (take b xs @ sort (take m (drop b xs)) @ drop (b + m) xs)"
proof -
  obtain ys where ys: "insertion_sort m b xs = Some ys" "seg_perm b (b + m) xs ys" "seg_sorted b (b + m) ys"
    using insertion_sort_spec [OF assms] by blast
  have l: "length ys = length xs" by (rule seg_perm_length [OF ys(2)])
  have out: "take b ys = take b xs" "drop (b + m) ys = drop (b + m) xs"
    by (rule nth_equalityI; use ys(2) l assms in \<open>auto simp: seg_perm_def\<close>)+
  have split: "zs = take b zs @ take m (drop b zs) @ drop (b + m) zs" if "b + m \<le> length zs" for zs :: "int list"
    using seg_split [of b "b + m" zs] that by simp
  have "mset ys = mset xs" using ys(2) by (simp add: seg_perm_def)
  then have "mset (take m (drop b ys)) = mset (take m (drop b xs))"
    using arg_cong [OF split [OF assms], of mset] arg_cong [OF split [of ys], of mset] assms l out by simp
  moreover have "sorted (take m (drop b ys))"
    using ys(3) l assms by (auto simp: sorted_iff_nth_mono_less seg_sorted_def)
  ultimately have "take m (drop b ys) = sort (take m (drop b xs))" by (intro properties_for_sort [symmetric]) simp_all
  with split [of ys] ys(1) l assms out show ?thesis by simp
qed

text \<open>C4. For every array of fewer than \<open>11 * 2 ^ 24\<close> elements (a larger one takes more
  than 700 MB), \<open>sort\<close> ends without an access outside of the array and without
  overflow of the stack of 50 pointers; the elements are then a sorted permutation of the input,
  and what follows the array is untouched. The selection sort does the same, and the insertion
  sort sorts any part of the array in place and leaves the rest of it.\<close>

theorem qsort_correct:
  assumes "n \<le> length xs" "n < 11 * 2 ^ 24"
  shows "(\<exists>ys. qsort n xs = Some ys \<and> take n ys = sort (take n xs) \<and> drop n ys = drop n xs) \<and>
    (\<exists>ys. selection_sort n xs = Some ys \<and> take n ys = sort (take n xs) \<and> drop n ys = drop n xs) \<and>
    (\<forall>b m. b + m \<le> length xs \<longrightarrow>
      insertion_sort m b xs = Some (take b xs @ sort (take m (drop b xs)) @ drop (b + m) xs))"
  using qsort_sorts [OF assms] selection_sort_sorts [OF assms(1)] segment_sorted [OF _ _ assms(1)]
    insertion_sort_sorts by blast

theorem qsort_correct_witness:
  "\<exists>ys. qsort 12 [5, 3, 9, 1, 7, 7, 2, 8, 6, 4, 0, 11] = Some ys \<and> ys = [0, 1, 2, 3, 4, 5, 6, 7, 7, 8, 9, 11]"
proof -
  let ?xs = "[5, 3, 9, 1, 7, 7, 2, 8, 6, 4, 0, 11 :: int]"
  obtain ys where "qsort 12 ?xs = Some ys" "take 12 ys = sort (take 12 ?xs)" "drop 12 ys = []"
    using qsort_correct [of 12 ?xs] by auto
  moreover have "sort (take 12 ?xs) = [0, 1, 2, 3, 4, 5, 6, 7, 7, 8, 9, 11]" by simp
  ultimately show ?thesis by (metis append_Nil2 append_take_drop_id)
qed

end
