(* ===== verification/App_Rsort.thy ===== *)
theory App_Rsort
  imports App_Util
begin

text \<open>
  The radix sort benchmark \<open>sw/app/rsort/rsort.c\<close>: four passes of a counting sort on the
  bytes of 32-bit unsigned numbers, with the loops unrolled as in the source. Counters are
  32-bit words; the pointers into the arrays are indices, which may run to \<open>- 1\<close> in the
  backward loop.
\<close>

unbundle bit_operations_syntax

section \<open>The program\<close>

definition LOG_BASE :: nat where "LOG_BASE = 8"
definition BASE :: nat where "BASE = push_bit LOG_BASE 1"

lemma BASE_eq: "BASE = 256"
  by (simp add: BASE_def LOG_BASE_def push_bit_eq_mult)

definition bucket_of :: "nat \<Rightarrow> u32 \<Rightarrow> nat" where
  "bucket_of log_exp a = unat (drop_bit log_exp a mod of_nat BASE)"

lemma bucket_of_eq: "bucket_of log_exp a = unat (drop_bit log_exp a mod 256)"
  by (simp add: bucket_of_def BASE_eq)

definition fetch_add :: "u32 list \<Rightarrow> nat \<Rightarrow> u32 \<Rightarrow> (u32 \<times> u32 list) option" where
  "fetch_add bucket d inc =
     do { x \<leftarrow> aget bucket d; bucket \<leftarrow> aset bucket d (x + inc); Some ((x + inc) - inc, bucket) }"

function count4 :: "u32 list \<Rightarrow> nat \<Rightarrow> nat \<Rightarrow> nat \<Rightarrow> u32 list \<Rightarrow> (nat \<times> u32 list) option" where
  "count4 arr log_exp n p bucket =
     (if int p < int n - 3
      then do { a0 \<leftarrow> aget arr p; a1 \<leftarrow> aget arr (p + 1); a2 \<leftarrow> aget arr (p + 2); a3 \<leftarrow> aget arr (p + 3);
                (_, bucket) \<leftarrow> fetch_add bucket (bucket_of log_exp a0) 1;
                (_, bucket) \<leftarrow> fetch_add bucket (bucket_of log_exp a1) 1;
                (_, bucket) \<leftarrow> fetch_add bucket (bucket_of log_exp a2) 1;
                (_, bucket) \<leftarrow> fetch_add bucket (bucket_of log_exp a3) 1;
                count4 arr log_exp n (p + 4) bucket }
      else Some (p, bucket))"
  by pat_completeness auto
termination by (relation "measure (\<lambda>(arr, log_exp, n, p, bucket). n - p)") auto

function count1 :: "u32 list \<Rightarrow> nat \<Rightarrow> nat \<Rightarrow> nat \<Rightarrow> u32 list \<Rightarrow> u32 list option" where
  "count1 arr log_exp n p bucket =
     (if p < n
      then do { a \<leftarrow> aget arr p;
                x \<leftarrow> aget bucket (bucket_of log_exp a);
                bucket \<leftarrow> aset bucket (bucket_of log_exp a) (x + 1);
                count1 arr log_exp n (p + 1) bucket }
      else Some bucket)"
  by pat_completeness auto
termination by (relation "measure (\<lambda>(arr, log_exp, n, p, bucket). n - p)") auto

function prefix_loop :: "nat \<Rightarrow> u32 \<Rightarrow> u32 list \<Rightarrow> u32 list option" where
  "prefix_loop b prev bucket =
     (if b < BASE
      then do { (x, bucket) \<leftarrow> fetch_add bucket b prev;
                let prev = prev + x;
                (y, bucket) \<leftarrow> fetch_add bucket (b + 1) prev;
                let prev = prev + y;
                prefix_loop (b + 2) prev bucket }
      else Some bucket)"
  by pat_completeness auto
termination by (relation "measure (\<lambda>(b, prev, bucket). BASE - b)") auto

definition prefix_sums :: "u32 list \<Rightarrow> u32 list option" where
  "prefix_sums bucket =
     do { prev \<leftarrow> aget bucket 0;
          (x, bucket) \<leftarrow> fetch_add bucket 1 prev;
          prefix_loop 2 (prev + x) bucket }"

function place4 :: "u32 list \<Rightarrow> nat \<Rightarrow> int \<Rightarrow> u32 list \<Rightarrow> u32 list \<Rightarrow> (int \<times> u32 list \<times> u32 list) option" where
  "place4 arr log_exp p bucket scratch =
     (if p \<ge> 3
      then do { a0 \<leftarrow> aget arr (nat p); a1 \<leftarrow> aget arr (nat (p - 1)); a2 \<leftarrow> aget arr (nat (p - 2)); a3 \<leftarrow> aget arr (nat (p - 3));
                (s0, bucket) \<leftarrow> fetch_add bucket (bucket_of log_exp a0) (- 1);
                (s1, bucket) \<leftarrow> fetch_add bucket (bucket_of log_exp a1) (- 1);
                (s2, bucket) \<leftarrow> fetch_add bucket (bucket_of log_exp a2) (- 1);
                (s3, bucket) \<leftarrow> fetch_add bucket (bucket_of log_exp a3) (- 1);
                scratch \<leftarrow> aset scratch (unat (s0 - 1)) a0;
                scratch \<leftarrow> aset scratch (unat (s1 - 1)) a1;
                scratch \<leftarrow> aset scratch (unat (s2 - 1)) a2;
                scratch \<leftarrow> aset scratch (unat (s3 - 1)) a3;
                place4 arr log_exp (p - 4) bucket scratch }
      else Some (p, bucket, scratch))"
  by pat_completeness auto
termination by (relation "measure (\<lambda>(arr, log_exp, p, bucket, scratch). nat (p + 1))") auto

function place1 :: "u32 list \<Rightarrow> nat \<Rightarrow> int \<Rightarrow> u32 list \<Rightarrow> u32 list \<Rightarrow> u32 list option" where
  "place1 arr log_exp p bucket scratch =
     (if p \<ge> 0
      then do { a \<leftarrow> aget arr (nat p);
                x \<leftarrow> aget bucket (bucket_of log_exp a);
                bucket \<leftarrow> aset bucket (bucket_of log_exp a) (x - 1);
                scratch \<leftarrow> aset scratch (unat (x - 1)) a;
                place1 arr log_exp (p - 1) bucket scratch }
      else Some scratch)"
  by pat_completeness auto
termination by (relation "measure (\<lambda>(arr, log_exp, p, bucket, scratch). nat (p + 1))") auto

declare count4.simps [simp del] count1.simps [simp del] prefix_loop.simps [simp del]
  place4.simps [simp del] place1.simps [simp del]

text \<open>One round of the outer loop; the result is the new content of \<open>scratch\<close>.\<close>

definition rsort_pass :: "nat \<Rightarrow> nat \<Rightarrow> u32 list \<Rightarrow> u32 list \<Rightarrow> u32 list option" where
  "rsort_pass n log_exp arr scratch =
     do { let bucket = replicate BASE 0;
          (p, bucket) \<leftarrow> count4 arr log_exp n 0 bucket;
          bucket \<leftarrow> count1 arr log_exp n p bucket;
          bucket \<leftarrow> prefix_sums bucket;
          (p, bucket, scratch) \<leftarrow> place4 arr log_exp (int n - 1) bucket scratch;
          place1 arr log_exp p bucket scratch }"

text \<open>The loop swaps the roles of the two arrays; \<open>home\<close> says whether \<open>arr\<close> is the input array.\<close>

function rsort_loop :: "nat \<Rightarrow> nat \<Rightarrow> bool \<Rightarrow> u32 list \<Rightarrow> u32 list \<Rightarrow> (bool \<times> u32 list \<times> u32 list) option" where
  "rsort_loop n log_exp home arr scratch =
     (if log_exp < 8 * 4
      then do { scratch \<leftarrow> rsort_pass n log_exp arr scratch;
                rsort_loop n (log_exp + LOG_BASE) (\<not> home) scratch arr }
      else Some (home, arr, scratch))"
  by pat_completeness auto
termination by (relation "measure (\<lambda>(n, log_exp, home, arr, scratch). 32 - log_exp)") (auto simp: LOG_BASE_def)

declare rsort_loop.simps [simp del]

text \<open>The final \<open>memcpy (arr, scratch, n)\<close> when \<open>arr\<close> is not the input array. The result is
  the pair of the input array and the scratch array.\<close>

definition rsort :: "nat \<Rightarrow> u32 list \<Rightarrow> u32 list \<Rightarrow> (u32 list \<times> u32 list) option" where
  "rsort n arrIn scratchIn =
     do { (home, arr, scratch) \<leftarrow> rsort_loop n 0 True arrIn scratchIn;
          if home then Some (arr, scratch)
          else if n \<le> length arr \<and> n \<le> length scratch
               then Some (scratch, take n scratch @ drop n arr) else None }"

section \<open>Unrolled loops\<close>

lemma bucket_of_less: "bucket_of e a < 256"
proof -
  have "unat (drop_bit e a mod 256) < unat (256 :: u32)" by (rule unat_mono) (simp add: word_mod_less_divisor)
  then show ?thesis by (simp add: bucket_of_eq)
qed

lemma fetch_add_in: "d < length bucket \<Longrightarrow> fetch_add bucket d inc = Some (bucket ! d, bucket[d := bucket ! d + inc])"
  by (simp add: fetch_add_def)

text \<open>Counting one element.\<close>

definition bump :: "nat \<Rightarrow> u32 \<Rightarrow> u32 list \<Rightarrow> u32 list" where
  "bump e a bucket = bucket[bucket_of e a := bucket ! bucket_of e a + 1]"

lemma length_bump [simp]: "length (bump e a bucket) = length bucket"
  by (simp add: bump_def)

lemma fetch_add_bump:
  "length bucket = 256 \<Longrightarrow> fetch_add bucket (bucket_of e a) 1 = Some (bucket ! bucket_of e a, bump e a bucket)"
  by (simp add: fetch_add_in bucket_of_less bump_def)

lemma count1_fold:
  "n \<le> length arr \<Longrightarrow> p \<le> n \<Longrightarrow> length bucket = 256 \<Longrightarrow>
   count1 arr e n p bucket = Some (fold (bump e) (drop p (take n arr)) bucket)"
proof (induction "n - p" arbitrary: p bucket)
  case 0
  then show ?case by (subst count1.simps) simp
next
  case (Suc m)
  have lt: "p < n" "m = n - (p + 1)" "p + 1 \<le> n" using Suc.hyps(2) by simp_all
  have "count1 arr e n p bucket = count1 arr e n (p + 1) (bump e (arr ! p) bucket)"
    using lt Suc.prems by (subst count1.simps) (simp add: bucket_of_less bump_def)
  moreover have "drop p (take n arr) = arr ! p # drop (p + 1) (take n arr)"
    using lt Suc.prems Cons_nth_drop_Suc [of p "take n arr"] by simp
  ultimately show ?case using Suc.hyps(1) [OF lt(2) Suc.prems(1) lt(3)] Suc.prems(3) by simp
qed

lemma count4_fold:
  "n \<le> length arr \<Longrightarrow> p \<le> n \<Longrightarrow> length bucket = 256 \<Longrightarrow>
   \<exists>q. p \<le> q \<and> q \<le> n \<and> count4 arr e n p bucket = Some (q, fold (bump e) (drop p (take q arr)) bucket)"
proof (induction "n - p" arbitrary: p bucket rule: less_induct)
  case less
  show ?case
  proof (cases "int p < int n - 3")
    case True
    let ?b = "bump e (arr ! (p + 3)) (bump e (arr ! (p + 2)) (bump e (arr ! (p + 1)) (bump e (arr ! p) bucket)))"
    have lt: "p < length arr" "p + 1 < length arr" "p + 2 < length arr" "p + 3 < length arr" "p + 4 \<le> n"
      using True less.prems by auto
    have dec: "n - (p + 4) < n - p" using lt(5) by simp
    have c: "count4 arr e n p bucket = count4 arr e n (p + 4) ?b"
      using True lt less.prems(3) by (subst count4.simps) (simp add: fetch_add_bump)
    obtain q where q: "p + 4 \<le> q" "q \<le> n" "count4 arr e n (p + 4) ?b = Some (q, fold (bump e) (drop (p + 4) (take q arr)) ?b)"
      using less.hyps [of "p + 4" ?b, OF dec] lt less.prems by auto
    have l: "p < length (take q arr)" "Suc p < length (take q arr)" "Suc (Suc p) < length (take q arr)"
      "Suc (Suc (Suc p)) < length (take q arr)" using q lt by auto
    have "drop p (take q arr) = arr ! p # arr ! Suc p # arr ! Suc (Suc p) # arr ! Suc (Suc (Suc p)) # drop (p + 4) (take q arr)"
      using Cons_nth_drop_Suc [OF l(1)] Cons_nth_drop_Suc [OF l(2)] Cons_nth_drop_Suc [OF l(3)] Cons_nth_drop_Suc [OF l(4)] l q
      by (simp add: numeral_eq_Suc)
    with c q show ?thesis by (intro exI [of _ q]) (simp add: numeral_eq_Suc)
  next
    case False
    then show ?thesis by (subst count4.simps) (simp add: less.prems)
  qed
qed

lemma counting:
  assumes "n \<le> length arr" "length bucket = 256"
  shows "do { (p, bucket) \<leftarrow> count4 arr e n 0 bucket; count1 arr e n p bucket } = Some (fold (bump e) (take n arr) bucket)"
proof -
  obtain q where q: "q \<le> n" "count4 arr e n 0 bucket = Some (q, fold (bump e) (take q arr) bucket)"
    using count4_fold [of n arr 0 bucket e] assms by auto
  have "length (fold (bump e) xs bucket) = 256" for xs using assms(2) by (induction xs arbitrary: bucket) auto
  then have "count1 arr e n q (fold (bump e) (take q arr) bucket) =
      Some (fold (bump e) (drop q (take n arr)) (fold (bump e) (take q arr) bucket))"
    using count1_fold [OF assms(1) q(1)] by simp
  moreover have "take n arr = take q arr @ drop q (take n arr)"
    using q(1) by (metis append_take_drop_id min.absorb1 take_take)
  moreover from this have "fold (bump e) (take n arr) bucket = fold (bump e) (drop q (take n arr)) (fold (bump e) (take q arr) bucket)"
    by (metis comp_apply fold_append)
  ultimately show ?thesis using q(2) by simp
qed

text \<open>Placing one element.\<close>

definition place :: "nat \<Rightarrow> u32 \<Rightarrow> u32 list \<times> u32 list \<Rightarrow> u32 list \<times> u32 list" where
  "place e a = (\<lambda>(bucket, scratch).
     let x = bucket ! bucket_of e a - 1 in (bucket[bucket_of e a := x], scratch[unat x := a]))"

lemma place1_step:
  assumes "0 \<le> p" "nat p < length arr" "length bucket = 256"
    "unat (bucket ! bucket_of e (arr ! nat p) - 1) < length scratch"
  shows "place1 arr e p bucket scratch =
    place1 arr e (p - 1) (fst (place e (arr ! nat p) (bucket, scratch))) (snd (place e (arr ! nat p) (bucket, scratch)))"
  using assms by (subst place1.simps) (simp add: bucket_of_less place_def Let_def)

lemma fetch_add_place:
  assumes "length bucket = 256" "place e a (bucket, scratch) = (bucket', scratch')"
  shows "fetch_add bucket (bucket_of e a) (- 1) = Some (bucket ! bucket_of e a, bucket')" "length bucket' = 256"
    and "unat (bucket ! bucket_of e a - 1) < length scratch \<Longrightarrow>
      aset scratch (unat (bucket ! bucket_of e a - 1)) a = Some scratch'" "length scratch' = length scratch"
  using assms by (auto simp: place_def Let_def fetch_add_in bucket_of_less)

lemma place4_step:
  assumes p: "3 \<le> p" "nat p < length arr" and b: "length bucket = 256"
    and r0: "place e (arr ! nat p) (bucket, scratch) = (b0, s0)"
    and r1: "place e (arr ! nat (p - 1)) (b0, s0) = (b1, s1)"
    and r2: "place e (arr ! nat (p - 2)) (b1, s1) = (b2, s2)"
    and r3: "place e (arr ! nat (p - 3)) (b2, s2) = (b3, s3)"
    and s: "unat (bucket ! bucket_of e (arr ! nat p) - 1) < length scratch"
    "unat (b0 ! bucket_of e (arr ! nat (p - 1)) - 1) < length scratch"
    "unat (b1 ! bucket_of e (arr ! nat (p - 2)) - 1) < length scratch"
    "unat (b2 ! bucket_of e (arr ! nat (p - 3)) - 1) < length scratch"
  shows "place4 arr e p bucket scratch = place4 arr e (p - 4) b3 s3"
proof -
  note f0 = fetch_add_place [OF b r0]
  note f1 = fetch_add_place [OF f0(2) r1]
  note f2 = fetch_add_place [OF f1(2) r2]
  note f3 = fetch_add_place [OF f2(2) r3]
  have a: "aset scratch (unat (bucket ! bucket_of e (arr ! nat p) - 1)) (arr ! nat p) = Some s0"
    "aset s0 (unat (b0 ! bucket_of e (arr ! nat (p - 1)) - 1)) (arr ! nat (p - 1)) = Some s1"
    "aset s1 (unat (b1 ! bucket_of e (arr ! nat (p - 2)) - 1)) (arr ! nat (p - 2)) = Some s2"
    "aset s2 (unat (b2 ! bucket_of e (arr ! nat (p - 3)) - 1)) (arr ! nat (p - 3)) = Some s3"
    using f0(3) f1(3) f2(3) f3(3) s f0(4) f1(4) f2(4) by simp_all
  have g: "aget arr (nat p) = Some (arr ! nat p)" "aget arr (nat (p - 1)) = Some (arr ! nat (p - 1))"
    "aget arr (nat (p - 2)) = Some (arr ! nat (p - 2))" "aget arr (nat (p - 3)) = Some (arr ! nat (p - 3))"
    using p by simp_all
  show ?thesis
    by (subst place4.simps)
      (simp only: p(1) if_True g f0(1) f1(1) f2(1) f3(1) a Option.bind.bind_lunit prod.case)
qed

section \<open>Counting sort\<close>

definition cnt :: "('a \<Rightarrow> nat) \<Rightarrow> nat \<Rightarrow> 'a list \<Rightarrow> nat" where
  "cnt f d xs = length (filter (\<lambda>x. f x = d) xs)"

definition below :: "('a \<Rightarrow> nat) \<Rightarrow> nat \<Rightarrow> 'a list \<Rightarrow> nat" where
  "below f d xs = length (filter (\<lambda>x. f x < d) xs)"

definition csort :: "('a \<Rightarrow> nat) \<Rightarrow> nat \<Rightarrow> 'a list \<Rightarrow> 'a list" where
  "csort f D xs = concat (map (\<lambda>d. filter (\<lambda>x. f x = d) xs) [0..<D])"

lemma cnt_simps [simp]: "cnt f d [] = 0" "cnt f d (x # xs) = (if f x = d then Suc (cnt f d xs) else cnt f d xs)"
  "cnt f d (xs @ ys) = cnt f d xs + cnt f d ys"
  by (simp_all add: cnt_def)

lemma below_Suc: "below f (Suc d) xs = below f d xs + cnt f d xs"
  by (induction xs) (auto simp: below_def cnt_def)

lemma below_0 [simp]: "below f 0 xs = 0"
  by (simp add: below_def)

lemma below_mono: "d \<le> e \<Longrightarrow> below f d xs \<le> below f e xs"
  by (induction xs) (auto simp: below_def)

lemma below_le_length: "below f d xs \<le> length xs"
  by (simp add: below_def)

lemma below_cnt_le: "d < e \<Longrightarrow> below f d xs + cnt f d xs \<le> below f e xs"
  using below_mono [of "Suc d" e f xs] by (simp add: below_Suc)

lemma below_cnt_le_length: "below f d xs + cnt f d xs \<le> length xs"
  using below_le_length [of f "Suc d" xs] by (simp add: below_Suc)

text \<open>After counting, and after summing up.\<close>

lemma fold_bump:
  "length bucket = 256 \<Longrightarrow> d < 256 \<Longrightarrow>
   fold (bump e) xs bucket ! d = bucket ! d + of_nat (cnt (bucket_of e) d xs)"
proof (induction xs arbitrary: bucket)
  case (Cons x xs)
  then show ?case by (auto simp: bump_def nth_list_update)
qed simp

lemma length_fold_bump [simp]: "length (fold (bump e) xs bucket) = length bucket"
  by (induction xs arbitrary: bucket) auto

lemma prefix_loop_sums:
  assumes "length bucket = 256" "even b" "b \<le> 256" "prev = of_nat (below f b xs)"
    "\<And>d. d < b \<Longrightarrow> bucket ! d = of_nat (below f d xs + cnt f d xs)"
    "\<And>d. b \<le> d \<Longrightarrow> d < 256 \<Longrightarrow> bucket ! d = of_nat (cnt f d xs)"
  shows "\<exists>bucket'. prefix_loop b prev bucket = Some bucket' \<and> length bucket' = 256 \<and>
    (\<forall>d < 256. bucket' ! d = of_nat (below f d xs + cnt f d xs))"
  using assms
proof (induction "256 - b" arbitrary: b prev bucket rule: less_induct)
  case less
  show ?case
  proof (cases "b < 256")
    case False
    with less.prems show ?thesis by (subst prefix_loop.simps) (simp add: BASE_eq)
  next
    case True
    then have b1: "b + 1 < 256" using less.prems(2) by presburger
    let ?x = "bucket ! b" and ?y = "bucket ! (b + 1)"
    let ?b = "bucket[b := ?x + prev, b + 1 := ?y + (prev + ?x)]"
    have run: "prefix_loop b prev bucket = prefix_loop (b + 2) (prev + ?x + ?y) ?b"
      using True b1 less.prems(1) by (subst prefix_loop.simps) (simp add: BASE_eq fetch_add_in Let_def)
    have x: "?x = of_nat (cnt f b xs)" "?y = of_nat (cnt f (b + 1) xs)" using less.prems(6) True b1 by auto
    have "prev + ?x + ?y = of_nat (below f (b + 2) xs)"
      unfolding x less.prems(4) by (simp add: below_Suc numeral_2_eq_2)
    moreover have "?b ! d = of_nat (below f d xs + cnt f d xs)" if d: "d < b + 2" for d
    proof -
      consider "d < b" | "d = b" | "d = b + 1" using d by linarith
      then show ?thesis
        using less.prems(1) True b1 x less.prems(4,5) by cases (auto simp: nth_list_update below_Suc)
    qed
    moreover have "?b ! d = of_nat (cnt f d xs)" if "b + 2 \<le> d" "d < 256" for d
      using that less.prems(6) by (simp add: nth_list_update)
    ultimately show ?thesis
      unfolding run using less.hyps [of "b + 2" ?b "prev + ?x + ?y"] True b1 less.prems(1,2) by simp
  qed
qed

lemma prefix_sums_sums:
  assumes "length bucket = 256" "\<And>d. d < 256 \<Longrightarrow> bucket ! d = of_nat (cnt f d xs)"
  shows "\<exists>bucket'. prefix_sums bucket = Some bucket' \<and> length bucket' = 256 \<and>
    (\<forall>d < 256. bucket' ! d = of_nat (below f d xs + cnt f d xs))"
proof -
  let ?b = "bucket[1 := bucket ! 1 + bucket ! 0]"
  have run: "prefix_sums bucket = prefix_loop 2 (bucket ! 0 + bucket ! 1) ?b"
    using assms(1) by (simp add: prefix_sums_def fetch_add_in)
  have "bucket ! 0 + bucket ! 1 = of_nat (below f 2 xs)"
    using assms(2) [of 0] assms(2) [of 1] by (simp add: numeral_2_eq_2 below_Suc)
  moreover have "?b ! d = of_nat (below f d xs + cnt f d xs)" if "d < 2" for d
    using that assms by (auto simp: less_2_cases_iff below_Suc)
  ultimately show ?thesis
    unfolding run using assms by (intro prefix_loop_sums) (auto simp: nth_list_update)
qed

text \<open>The elements from \<open>q\<close> on are placed.\<close>

definition placed :: "(u32 \<Rightarrow> nat) \<Rightarrow> u32 list \<Rightarrow> nat \<Rightarrow> u32 list \<times> u32 list \<Rightarrow> bool" where
  "placed f xs q = (\<lambda>(bucket, scratch). length bucket = 256 \<and> length xs \<le> length scratch \<and>
     (\<forall>d < 256. bucket ! d = of_nat (below f d xs + cnt f d (take q xs))) \<and>
     (\<forall>d < 256. \<forall>m < cnt f d (drop q xs).
        scratch ! (below f d xs + cnt f d (take q xs) + m) = filter (\<lambda>x. f x = d) (drop q xs) ! m))"

lemma placed_step:
  assumes pl: "placed (bucket_of e) xs (Suc q) (bucket, scratch)" and q: "q < length xs" "length xs < 4294967296"
  defines "x \<equiv> xs ! q"
  shows "unat (bucket ! bucket_of e x - 1) < length xs" "placed (bucket_of e) xs q (place e x (bucket, scratch))"
proof -
  let ?f = "bucket_of e" and ?d = "bucket_of e x"
  note p = pl [unfolded placed_def prod.case]
  have tk: "take (Suc q) xs = take q xs @ [x]" using q(1) by (simp add: x_def take_Suc_conv_app_nth)
  have dr: "drop q xs = x # drop (Suc q) xs" using q(1) by (simp add: x_def Cons_nth_drop_Suc)
  have all: "cnt ?f d xs = cnt ?f d (take q xs) + cnt ?f d (drop q xs)" for d
    by (metis append_take_drop_id cnt_simps(3))
  define pos where "pos = below ?f ?d xs + cnt ?f ?d (take q xs)"
  have pos: "pos < length xs" "pos < below ?f ?d xs + cnt ?f ?d xs"
    using below_cnt_le_length [of ?f ?d xs] all [of ?d] dr by (simp_all add: pos_def)
  have "bucket ! ?d = of_nat (Suc pos)" using p bucket_of_less [of e x] tk by (simp add: pos_def)
  then have bd: "bucket ! ?d - 1 = of_nat pos" by simp
  have up: "unat (bucket ! ?d - 1) = pos" unfolding bd using pos(1) q(2) by (intro unat_of_nat_u32) simp
  with pos(1) show "unat (bucket ! ?d - 1) < length xs" by simp
  have res: "place e x (bucket, scratch) = (bucket[?d := of_nat pos], scratch[pos := x])"
    by (simp add: place_def Let_def up) (simp add: bd)
  have "bucket[?d := of_nat pos] ! d = of_nat (below ?f d xs + cnt ?f d (take q xs))" if "d < 256" for d
    using p that tk bucket_of_less [of e x] by (cases "d = ?d") (auto simp: pos_def nth_list_update)
  moreover have "scratch[pos := x] ! (below ?f d xs + cnt ?f d (take q xs) + m) = filter (\<lambda>y. ?f y = d) (drop q xs) ! m"
    if d: "d < 256" "m < cnt ?f d (drop q xs)" for d m
  proof (cases "d = ?d")
    case True
    show ?thesis
    proof (cases m)
      case 0
      then show ?thesis using True pos(1) p dr by (simp add: pos_def)
    next
      case (Suc k)
      then have "k < cnt ?f d (drop (Suc q) xs)" using d(2) dr True by simp
      with p d(1) have "scratch ! (below ?f d xs + cnt ?f d (take (Suc q) xs) + k) = filter (\<lambda>y. ?f y = d) (drop (Suc q) xs) ! k"
        by blast
      then show ?thesis using True Suc dr tk by (simp add: pos_def)
    qed
  next
    case False
    have m: "below ?f d xs + cnt ?f d (take q xs) + m < below ?f d xs + cnt ?f d xs" using d(2) all [of d] by simp
    have "below ?f d xs + cnt ?f d (take q xs) + m \<noteq> pos"
    proof (cases "d < ?d")
      case True
      then show ?thesis using below_cnt_le [of d ?d ?f xs] m by (simp add: pos_def)
    next
      case F: False
      then have "?d < d" using False by simp
      then show ?thesis using below_cnt_le [of ?d d ?f xs] pos(2) by simp
    qed
    moreover have m': "m < cnt ?f d (drop (Suc q) xs)" and "cnt ?f d (take (Suc q) xs) = cnt ?f d (take q xs)"
      using d(2) dr tk False by auto
    moreover have "scratch ! (below ?f d xs + cnt ?f d (take (Suc q) xs) + m) = filter (\<lambda>y. ?f y = d) (drop (Suc q) xs) ! m"
      using p d(1) m' by blast
    moreover have "filter (\<lambda>y. ?f y = d) (drop q xs) = filter (\<lambda>y. ?f y = d) (drop (Suc q) xs)" using dr False by simp
    ultimately show ?thesis by (simp only: nth_list_update_neq)
  qed
  ultimately show "placed ?f xs q (place e x (bucket, scratch))"
    unfolding res placed_def prod.case using p by simp
qed

lemma placed_next:
  assumes "placed (bucket_of e) (take n arr) (Suc k) (b, s)" "k < n" "n \<le> length arr" "n < 4294967296"
    and "place e (arr ! k) (b, s) = (b', s')"
  shows "unat (b ! bucket_of e (arr ! k) - 1) < length s" "placed (bucket_of e) (take n arr) k (b', s')"
    "length s' = length s" "\<forall>i \<ge> n. s' ! i = s ! i" "length b = 256"
proof -
  let ?xs = "take n arr"
  have q: "k < length ?xs" "length ?xs < 4294967296" "?xs ! k = arr ! k" "length ?xs = n" using assms(2-4) by auto
  note st = placed_step [OF assms(1) q(1,2), unfolded q(3) assms(5)]
  have l: "length ?xs \<le> length s" "length b = 256" using assms(1) by (auto simp: placed_def)
  show "unat (b ! bucket_of e (arr ! k) - 1) < length s" by (rule less_le_trans [OF st(1) l(1)])
  show "placed (bucket_of e) ?xs k (b', s')" by (rule st(2))
  show "length s' = length s" "\<forall>i \<ge> n. s' ! i = s ! i"
    using assms(5) st(1) q(4) by (auto simp: place_def Let_def)
  show "length b = 256" by (rule l(2))
qed

lemma place1_places:
  assumes "placed (bucket_of e) (take n arr) q (bucket, scratch)" "q \<le> n" "n \<le> length arr" "n < 4294967296"
  shows "\<exists>bucket' scratch'. place1 arr e (int q - 1) bucket scratch = Some scratch' \<and>
    placed (bucket_of e) (take n arr) 0 (bucket', scratch') \<and> length scratch' = length scratch \<and>
    (\<forall>k \<ge> n. scratch' ! k = scratch ! k)"
  using assms(1,2)
proof (induction q arbitrary: bucket scratch)
  case 0
  then show ?case by (subst place1.simps) auto
next
  case (Suc q)
  obtain b s where bs: "place e (arr ! q) (bucket, scratch) = (b, s)" by fastforce
  have q: "q < n" "nat (int q) < length arr" using Suc.prems(2) assms(3) by auto
  note st = placed_next [OF Suc.prems(1) q(1) assms(3,4) bs]
  have "place1 arr e (int (Suc q) - 1) bucket scratch = place1 arr e (int q - 1) b s"
    using place1_step [OF _ q(2), of bucket e scratch] st(1,5) bs by simp
  moreover obtain b' s' where "place1 arr e (int q - 1) b s = Some s'"
    "placed (bucket_of e) (take n arr) 0 (b', s')" "length s' = length s" "\<forall>k \<ge> n. s' ! k = s ! k"
    using Suc.IH [OF st(2)] Suc.prems(2) by auto
  ultimately show ?case using st(3,4) by auto
qed

lemma place4_places:
  assumes "placed (bucket_of e) (take n arr) q (bucket, scratch)" "q \<le> n" "n \<le> length arr" "n < 4294967296"
  shows "\<exists>q' bucket' scratch'. place4 arr e (int q - 1) bucket scratch = Some (int q' - 1, bucket', scratch') \<and>
    q' \<le> n \<and> placed (bucket_of e) (take n arr) q' (bucket', scratch') \<and> length scratch' = length scratch \<and>
    (\<forall>k \<ge> n. scratch' ! k = scratch ! k)"
  using assms(1,2)
proof (induction q arbitrary: bucket scratch rule: less_induct)
  case (less q)
  show ?case
  proof (cases "4 \<le> q")
    case False
    then have "\<not> 3 \<le> int q - 1" by simp
    with less.prems show ?thesis by (subst place4.simps) auto
  next
    case True
    then obtain m where m: "q = m + 4" by (metis le_add_diff_inverse2)
    have lt: "m + 3 < n" "m + 2 < n" "m + 1 < n" "m < n" using less.prems(2) m by auto
    have s4: "q = Suc (m + 3)" "m + 3 = Suc (m + 2)" "m + 2 = Suc (m + 1)" "m + 1 = Suc m" using m by simp_all
    obtain b0 s0 where r0: "place e (arr ! (m + 3)) (bucket, scratch) = (b0, s0)" by fastforce
    note p0 = placed_next [OF less.prems(1) [unfolded s4(1)] lt(1) assms(3,4) r0]
    obtain b1 s1 where r1: "place e (arr ! (m + 2)) (b0, s0) = (b1, s1)" by fastforce
    note p1 = placed_next [OF p0(2) [unfolded s4(2)] lt(2) assms(3,4) r1]
    obtain b2 s2 where r2: "place e (arr ! (m + 1)) (b1, s1) = (b2, s2)" by fastforce
    note p2 = placed_next [OF p1(2) [unfolded s4(3)] lt(3) assms(3,4) r2]
    obtain b3 s3 where r3: "place e (arr ! m) (b2, s2) = (b3, s3)" by fastforce
    note p3 = placed_next [OF p2(2) [unfolded s4(4)] lt(4) assms(3,4) r3]
    have ix: "nat (int q - 1) = m + 3" "nat (int q - 1 - 1) = m + 2" "nat (int q - 1 - 2) = m + 1" "nat (int q - 1 - 3) = m"
      "int q - 1 - 4 = int m - 1" "3 \<le> int q - 1" "m + 3 < length arr" using m lt(1) assms(3) by simp_all
    have run: "place4 arr e (int q - 1) bucket scratch = place4 arr e (int m - 1) b3 s3"
      using place4_step [OF ix(6), of arr bucket e scratch b0 s0 b1 s1 b2 s2 b3 s3, unfolded ix(1-5), OF ix(7) p0(5) r0 r1 r2 r3]
        p0(1) p1(1) p2(1) p3(1) p0(3) p1(3) p2(3) by simp
    have "m < q" "m \<le> n" using m lt by simp_all
    from less.IH [OF this(1) p3(2) this(2)] obtain q' b' s' where
      "place4 arr e (int m - 1) b3 s3 = Some (int q' - 1, b', s')" "q' \<le> n"
      "placed (bucket_of e) (take n arr) q' (b', s')" "length s' = length s3" "\<forall>k \<ge> n. s' ! k = s3 ! k" by blast
    with run show ?thesis using p0(3,4) p1(3,4) p2(3,4) p3(3,4) by auto
  qed
qed

lemma placed_start:
  assumes "length bucket = 256" "length xs \<le> length scratch"
    "\<forall>d < 256. bucket ! d = of_nat (below f d xs + cnt f d xs)"
  shows "placed f xs (length xs) (bucket, scratch)"
  using assms by (simp add: placed_def)

lemma placed_end:
  assumes pl: "placed f xs 0 (bucket, scratch)" and "D \<le> 256"
  shows "take (below f D xs) scratch = csort f D xs"
  using assms(2)
proof (induction D)
  case (Suc D)
  note p = pl [unfolded placed_def prod.case]
  have le: "below f D xs + cnt f D xs \<le> length scratch" using below_cnt_le_length [of f D xs] p by simp
  have "take (cnt f D xs) (drop (below f D xs) scratch) = filter (\<lambda>x. f x = D) xs"
    by (rule nth_equalityI) (use p Suc.prems le in \<open>auto simp: cnt_def\<close>)
  then have "take (below f (Suc D) xs) scratch = take (below f D xs) scratch @ filter (\<lambda>x. f x = D) xs"
    by (simp add: below_Suc take_add)
  with Suc show ?case by (simp add: csort_def)
qed (simp add: csort_def)

lemma below_all: "(\<And>x. x \<in> set xs \<Longrightarrow> f x < D) \<Longrightarrow> below f D xs = length xs"
  by (simp add: below_def filter_id_conv)

lemma rsort_pass_csort:
  assumes "n \<le> length arr" "n \<le> length scratch" "n < 4294967296"
  shows "\<exists>s. rsort_pass n e arr scratch = Some s \<and> length s = length scratch \<and> drop n s = drop n scratch \<and>
    take n s = csort (bucket_of e) 256 (take n arr)"
proof -
  let ?xs = "take n arr" and ?f = "bucket_of e"
  have lx: "length ?xs = n" using assms(1) by simp
  have cnt: "fold (bump e) ?xs (replicate BASE 0) ! d = of_nat (cnt ?f d ?xs)" if "d < 256" for d
    using fold_bump [of "replicate BASE 0" d e ?xs] that by (simp add: BASE_eq)
  obtain b1 where b1: "prefix_sums (fold (bump e) ?xs (replicate BASE 0)) = Some b1" "length b1 = 256"
      "\<forall>d < 256. b1 ! d = of_nat (below ?f d ?xs + cnt ?f d ?xs)"
    using prefix_sums_sums [OF _ cnt] by (auto simp: BASE_eq)
  have "placed ?f ?xs n (b1, scratch)" using placed_start [of b1 ?xs scratch ?f] b1 lx assms(2) by simp
  from place4_places [OF this le_refl assms(1,3)] obtain q b2 s2 where
    2: "place4 arr e (int n - 1) b1 scratch = Some (int q - 1, b2, s2)" "q \<le> n" "placed ?f ?xs q (b2, s2)"
      "length s2 = length scratch" "\<forall>k \<ge> n. s2 ! k = scratch ! k" by blast
  from place1_places [OF 2(3,2) assms(1,3)] obtain b3 s3 where
    3: "place1 arr e (int q - 1) b2 s2 = Some s3" "placed ?f ?xs 0 (b3, s3)" "length s3 = length s2" "\<forall>k \<ge> n. s3 ! k = s2 ! k"
    by blast
  obtain p c where pc: "count4 arr e n 0 (replicate BASE 0) = Some (p, c)"
      "count1 arr e n p c = Some (fold (bump e) ?xs (replicate BASE 0))"
    using counting [OF assms(1), of "replicate BASE 0" e] by (auto simp: BASE_eq Option.bind_eq_Some_conv)
  have "rsort_pass n e arr scratch = Some s3"
    unfolding rsort_pass_def Let_def pc(1) Option.bind.bind_lunit prod.case pc(2) b1(1) 2(1) 3(1) ..
  moreover have "drop n s3 = drop n scratch" by (rule nth_equalityI) (use 2 3 in auto)
  moreover have "take n s3 = csort ?f 256 ?xs"
    using placed_end [OF 3(2), of 256] below_all [of ?xs ?f 256] bucket_of_less lx by simp
  ultimately show ?thesis using 2(4) 3(3) by auto
qed

section \<open>Radix sort\<close>

lemma mset_csort: "(\<And>x. x \<in> set xs \<Longrightarrow> f x < D) \<Longrightarrow> mset (csort f D xs) = mset xs"
proof -
  have "mset (csort f D xs) = filter_mset (\<lambda>x. f x < D) (mset xs)" for D
  proof (induction D)
    case (Suc D)
    have "filter_mset (\<lambda>x. f x < Suc D) (mset xs) =
        filter_mset (\<lambda>x. f x < D) (mset xs) + filter_mset (\<lambda>x. f x = D) (mset xs)"
      by (induction xs) auto
    with Suc show ?case by (simp add: csort_def)
  qed (simp add: csort_def)
  moreover assume "\<And>x. x \<in> set xs \<Longrightarrow> f x < D"
  ultimately show ?thesis by (simp add: filter_mset_eq_conv)
qed

lemma sorted_wrt_csort:
  assumes "\<And>x y. f x < f y \<Longrightarrow> R x y" "\<And>d. sorted_wrt R (filter (\<lambda>x. f x = d) xs)"
  shows "sorted_wrt R (csort f D xs)"
proof (induction D)
  case (Suc D)
  have "f x < f y" if "x \<in> set (csort f D xs)" "f y = D" for x y using that by (auto simp: csort_def)
  with Suc assms show ?case by (auto simp: csort_def sorted_wrt_append)
qed (simp add: csort_def)

definition low_sorted :: "nat \<Rightarrow> u32 list \<Rightarrow> bool" where
  "low_sorted k xs \<longleftrightarrow> sorted_wrt (\<lambda>x y. unat x mod 256 ^ k \<le> unat y mod 256 ^ k) xs"

lemma bucket_of_digit: "bucket_of (8 * k) x = unat x div 256 ^ k mod 256"
proof -
  have "(2 :: nat) ^ (8 * k) = 256 ^ k" by (simp add: power_mult)
  then show ?thesis by (simp add: bucket_of_eq unat_mod_distrib unat_drop_bit_eq drop_bit_eq_div [of "8 * k" "unat x"])
qed

lemma csort_low_sorted:
  assumes "low_sorted k xs"
  shows "low_sorted (Suc k) (csort (bucket_of (8 * k)) 256 xs)"
proof -
  have m: "v mod 256 ^ Suc k = 256 ^ k * (v div 256 ^ k mod 256) + v mod 256 ^ k" for v :: nat
    using mod_mult2_eq [of v "256 ^ k" 256] by (simp add: mult.commute)
  have lt: "v mod 256 ^ k < 256 ^ k" for v :: nat by simp
  show ?thesis
    unfolding low_sorted_def
  proof (rule sorted_wrt_csort)
    fix x y :: u32 assume "bucket_of (8 * k) x < bucket_of (8 * k) y"
    then have "Suc (unat x div 256 ^ k mod 256) \<le> unat y div 256 ^ k mod 256" by (simp add: bucket_of_digit)
    then have "256 ^ k * Suc (unat x div 256 ^ k mod 256) \<le> 256 ^ k * (unat y div 256 ^ k mod 256)"
      by (intro mult_le_mono2)
    then have "256 ^ k * (unat x div 256 ^ k mod 256) + 256 ^ k \<le> 256 ^ k * (unat y div 256 ^ k mod 256)" by simp
    with lt [of "unat x"] show "unat x mod 256 ^ Suc k \<le> unat y mod 256 ^ Suc k" unfolding m by linarith
  next
    fix d
    have "sorted_wrt (\<lambda>x y. unat x mod 256 ^ k \<le> unat y mod 256 ^ k) (filter (\<lambda>x. bucket_of (8 * k) x = d) xs)"
      using assms by (simp add: low_sorted_def sorted_wrt_filter)
    then show "sorted_wrt (\<lambda>x y. unat x mod 256 ^ Suc k \<le> unat y mod 256 ^ Suc k) (filter (\<lambda>x. bucket_of (8 * k) x = d) xs)"
      by (rule sorted_wrt_mono_rel [rotated]) (auto simp: m bucket_of_digit simp del: power_Suc)
  qed
qed

lemma csort_low_sorted_pass:
  assumes "low_sorted k (take n arr)" "n \<le> length arr" "n \<le> length scratch" "n < 4294967296"
    and "e = 8 * k" "k' = Suc k"
  obtains s where "rsort_pass n e arr scratch = Some s" "length s = length scratch" "drop n s = drop n scratch"
    "low_sorted k' (take n s)" "mset (take n s) = mset (take n arr)"
  using rsort_pass_csort [OF assms(2-4), of "8 * k"] csort_low_sorted [OF assms(1)]
    mset_csort [of "take n arr" "bucket_of (8 * k)" 256] bucket_of_less that assms(5,6) by auto

lemma low_sorted_4: "low_sorted 4 xs \<Longrightarrow> sorted xs"
  using unat_u32_less
  by (auto simp: low_sorted_def sorted_wrt_iff_nth_less sorted_iff_nth_mono_less word_le_nat_alt)

section \<open>Properties\<close>

lemma rsort_sorts:
  assumes "n \<le> length arr" "n \<le> length scratch" "n < 2 ^ 32"
  shows "\<exists>a s. rsort n arr scratch = Some (a, s) \<and> take n a = sort (take n arr) \<and> drop n a = drop n arr \<and>
    n \<le> length a \<and> n \<le> length s"
proof -
  have n: "n < 4294967296" using assms(3) by simp
  have 0: "low_sorted 0 (take n arr)" by (simp add: low_sorted_def sorted_wrt_iff_nth_less)
  obtain s1 where 1: "rsort_pass n 0 arr scratch = Some s1" "length s1 = length scratch"
      "low_sorted 1 (take n s1)" "mset (take n s1) = mset (take n arr)"
    by (rule csort_low_sorted_pass [OF 0 assms(1,2) n, of 0 1]) simp_all
  have l1: "n \<le> length s1" using 1(2) assms(2) by simp
  obtain s2 where 2: "rsort_pass n 8 s1 arr = Some s2" "length s2 = length arr" "drop n s2 = drop n arr"
      "low_sorted 2 (take n s2)" "mset (take n s2) = mset (take n s1)"
    by (rule csort_low_sorted_pass [OF 1(3) l1 assms(1) n, of 8 2]) simp_all
  have l2: "n \<le> length s2" using 2(2) assms(1) by simp
  obtain s3 where 3: "rsort_pass n 16 s2 s1 = Some s3" "length s3 = length s1"
      "low_sorted 3 (take n s3)" "mset (take n s3) = mset (take n s2)"
    by (rule csort_low_sorted_pass [OF 2(4) l2 l1 n, of 16 3]) simp_all
  have l3: "n \<le> length s3" using 3(2) l1 by simp
  obtain s4 where 4: "rsort_pass n 24 s3 s2 = Some s4" "drop n s4 = drop n s2"
      "low_sorted 4 (take n s4)" "mset (take n s4) = mset (take n s3)"
    by (rule csort_low_sorted_pass [OF 3(3) l3 l2 n, of 24 4]) simp_all
  have "rsort n arr scratch = Some (s4, s3)"
    unfolding rsort_def using 1(1) 2(1) 3(1) 4(1) by (simp add: rsort_loop.simps LOG_BASE_def)
  moreover have "take n s4 = sort (take n arr)"
    using low_sorted_4 [OF 4(3)] 4(4) 3(4) 2(5) 1(4) by (intro properties_for_sort [symmetric]) simp_all
  moreover have "n \<le> length s4" "n \<le> length s3" using arg_cong [OF \<open>take n s4 = _\<close>, of length] 3(2) l1 assms(1) by auto
  ultimately show ?thesis using 4(2) 2(3) by auto
qed

text \<open>C8. The radix sort, for every array of fewer than \<open>2 ^ 32\<close> words and a scratch array of at
  least that size: it ends, all accesses to both arrays and to the buckets are inside, the input
  array then holds its elements in ascending unsigned order, and what follows it is untouched.\<close>

theorem rsort_correct:
  assumes "n \<le> length arr" "n \<le> length scratch" "n < 2 ^ 32"
  shows "\<exists>a s. rsort n arr scratch = Some (a, s) \<and> take n a = sort (take n arr) \<and> drop n a = drop n arr"
  using rsort_sorts [OF assms] by blast

theorem rsort_correct_witness:
  "\<exists>a s. rsort 5 [70000, 3, 4294967295, 256, 1] [0, 0, 0, 0, 0] = Some (a, s) \<and> take 5 a = [1, 3, 256, 70000, 4294967295]"
proof -
  have "sort (take 5 [70000, 3, 4294967295, 256, 1 :: u32]) = [1, 3, 256, 70000, 4294967295]" by code_simp
  then show ?thesis using rsort_correct [of 5 "[70000, 3, 4294967295, 256, 1]" "[0, 0, 0, 0, 0]"] by auto
qed

end
