(* ===== verification/App_Kernels.thy ===== *)
theory App_Kernels
  imports App_Util
begin

text \<open>
  The small numeric kernels of the benchmarks: the median filter (\<open>median/median.c\<close>), the
  software multiplication (\<open>multiply/multiply.c\<close>), the vector additions
  (\<open>vvadd/vvadd_main.c\<close>, \<open>mt-vvadd/vvadd.c\<close>), the matrix product by blocks of rows
  (\<open>mt-matmul/matmul.c\<close>) and the sparse matrix-vector product (\<open>spmv/spmv_main.c\<close>).
  \<open>int\<close> values whose arithmetic matters are 32-bit words; the operations on \<open>double\<close> are
  parameters of the model.
\<close>

unbundle bit_operations_syntax

section \<open>Median filter\<close>

definition median_of :: "int \<Rightarrow> int \<Rightarrow> int \<Rightarrow> int" where
  "median_of A B C =
     (if A < B then (if B < C then B else if C < A then A else C)
      else (if A < C then A else if C < B then B else C))"

fun median_loop :: "nat list \<Rightarrow> int list \<Rightarrow> int list \<Rightarrow> int list option" where
  "median_loop [] input results = Some results"
| "median_loop (i # is) input results =
     do { A \<leftarrow> aget input (i - 1); B \<leftarrow> aget input i; C \<leftarrow> aget input (i + 1);
          results \<leftarrow> aset results i (median_of A B C);
          median_loop is input results }"

text \<open>With \<open>n = 0\<close> the second statement would write in front of the array.\<close>

definition median :: "nat \<Rightarrow> int list \<Rightarrow> int list \<Rightarrow> int list option" where
  "median n input results =
     do { results \<leftarrow> aset results 0 0;
          results \<leftarrow> (if n = 0 then None else aset results (n - 1) 0);
          median_loop [1..<n - 1] input results }"

lemma median_of_sort: "median_of A B C = sort [A, B, C] ! 1"
  by (simp add: median_of_def)

lemma median_loop_upt:
  assumes "1 \<le> m" "m' < length input" "m' \<le> length results"
  shows "median_loop [m..<m'] input results =
    Some (map (\<lambda>i. if m \<le> i \<and> i < m' then median_of (input ! (i - 1)) (input ! i) (input ! (i + 1)) else results ! i)
      [0..<length results])"
  using assms
proof (induction "m' - m" arbitrary: m results)
  case 0
  then show ?case by (auto intro!: nth_equalityI)
next
  case (Suc d)
  let ?r = "results[m := median_of (input ! (m - 1)) (input ! m) (input ! (m + 1))]"
  have m: "m < m'" "[m..<m'] = m # [Suc m..<m']" using Suc.hyps(2) by (auto simp: upt_conv_Cons)
  have "median_loop [m..<m'] input results = median_loop [Suc m..<m'] input ?r"
    using m Suc.prems by (simp add: m(2))
  also have "\<dots> = Some (map (\<lambda>i. if Suc m \<le> i \<and> i < m' then median_of (input ! (i - 1)) (input ! i) (input ! (i + 1)) else ?r ! i)
      [0..<length ?r])"
    using Suc.hyps(2) Suc.prems by (intro Suc.hyps(1)) auto
  also have "\<dots> = Some (map (\<lambda>i. if m \<le> i \<and> i < m' then median_of (input ! (i - 1)) (input ! i) (input ! (i + 1)) else results ! i)
      [0..<length results])"
  proof -
    have "(if Suc m \<le> i \<and> i < m' then median_of (input ! (i - 1)) (input ! i) (input ! (i + 1)) else ?r ! i) =
        (if m \<le> i \<and> i < m' then median_of (input ! (i - 1)) (input ! i) (input ! (i + 1)) else results ! i)"
      if "i < length results" for i
      using that m by (cases "i = m") auto
    then show ?thesis by simp
  qed
  finally show ?case .
qed

text \<open>The median filter: for every array of at least one element it stays inside of the
  arrays, writes 0 at both ends, the middle one of the three neighbouring values at every inner
  index, and leaves everything behind the \<open>n\<close> results alone.\<close>

theorem median_filters:
  assumes "1 \<le> n" "n \<le> length input" "n \<le> length results"
  shows "\<exists>r. median n input results = Some r \<and> length r = length results \<and> r ! 0 = 0 \<and> r ! (n - 1) = 0 \<and>
    (\<forall>i. 0 < i \<and> i < n - 1 \<longrightarrow> r ! i = sort [input ! (i - 1), input ! i, input ! (i + 1)] ! 1) \<and>
    drop n r = drop n results"
proof -
  let ?ends = "results[0 := 0, n - 1 := 0]"
  let ?r = "map (\<lambda>i. if 1 \<le> i \<and> i < n - 1 then median_of (input ! (i - 1)) (input ! i) (input ! (i + 1)) else ?ends ! i)
      [0..<length ?ends]"
  have "median n input results = median_loop [1..<n - 1] input ?ends"
    using assms unfolding median_def by (subst aset_in) auto
  also have "\<dots> = Some ?r" using assms by (intro median_loop_upt) auto
  finally have run: "median n input results = Some ?r" .
  define r where "r = ?r"
  have l: "length r = length results" by (simp add: r_def)
  have nth: "r ! i = (if 1 \<le> i \<and> i < n - 1 then median_of (input ! (i - 1)) (input ! i) (input ! (i + 1)) else ?ends ! i)"
    if "i < length results" for i using that by (simp add: r_def)
  have n0: "0 < length results" "n - 1 < length results" using assms by linarith+
  have "r ! 0 = 0" using nth [OF n0(1)] n0 by (cases "n - 1 = 0") auto
  moreover have "r ! (n - 1) = 0" using nth [OF n0(2)] n0 by simp
  moreover have "r ! i = sort [input ! (i - 1), input ! i, input ! (i + 1)] ! 1" if "0 < i" "i < n - 1" for i
    unfolding median_of_sort [symmetric] using nth [of i] that assms by simp
  moreover have "drop n r = drop n results"
  proof (rule nth_equalityI)
    fix i assume "i < length (drop n r)"
    then have "n + i < length results" by (simp add: l)
    moreover have "\<not> n + i < n - 1" by simp
    ultimately show "drop n r ! i = drop n results ! i" using nth [of "n + i"] assms(1) by (simp add: l)
  qed (simp add: l)
  ultimately have "length r = length results \<and> r ! 0 = 0 \<and> r ! (n - 1) = 0 \<and>
    (\<forall>i. 0 < i \<and> i < n - 1 \<longrightarrow> r ! i = sort [input ! (i - 1), input ! i, input ! (i + 1)] ! 1) \<and>
    drop n r = drop n results" using l by blast
  with run show ?thesis unfolding r_def [symmetric] by blast
qed

theorem median_filters_witness:
  "\<exists>r. median 4 [5, 1, 9, 4] [7, 7, 7, 7, 7] = Some r \<and> r ! 1 = sort [5, 1, 9] ! 1"
proof -
  from median_filters [of 4 "[5, 1, 9, 4]" "[7, 7, 7, 7, 7]"]
  obtain r where "median 4 [5, 1, 9, 4] [7, 7, 7, 7, 7] = Some r"
      "\<forall>i. 0 < i \<and> i < 4 - 1 \<longrightarrow> r ! i = sort [[5, 1, 9, 4] ! (i - 1), [5, 1, 9, 4] ! i, [5, 1, 9, 4] ! (i + 1)] ! 1"
    by auto
  then show ?thesis by (auto dest: spec [of _ 1])
qed

section \<open>Software multiplication\<close>

text \<open>\<open>x\<close> is shifted arithmetically, since it is a signed \<open>int\<close>.\<close>

fun multiply_loop :: "nat \<Rightarrow> u32 \<Rightarrow> u32 \<Rightarrow> u32 \<Rightarrow> u32" where
  "multiply_loop 0 x y result = result"
| "multiply_loop (Suc r) x y result =
     (let result = (if x AND 1 = 1 then result + y else result);
          x = signed_drop_bit 1 x;
          y = push_bit 1 y
      in multiply_loop r x y result)"

definition multiply :: "u32 \<Rightarrow> u32 \<Rightarrow> u32" where
  "multiply x y = multiply_loop 32 x y 0"

lemma signed_half: "x = 2 * signed_drop_bit 1 x + (x AND 1)" for x :: u32
proof -
  have "x = word_of_int (2 * (sint x div 2) + sint x mod 2)" by simp
  also have "\<dots> = 2 * word_of_int (sint x div 2) + word_of_int (sint x mod 2)"
    by (simp only: of_int_add of_int_mult of_int_numeral)
  finally have "x = 2 * word_of_int (sint x div 2) + word_of_int (sint x mod 2)" .
  moreover have "signed_drop_bit 1 x = word_of_int (sint x div 2)"
  proof -
    have "signed_drop_bit 1 x = word_of_int (sint (signed_drop_bit 1 x))" by simp
    also have "sint (signed_drop_bit 1 x) = sint x div 2" by (simp add: sint_signed_drop_bit_eq drop_bit_eq_div)
    finally show ?thesis .
  qed
  moreover have "x AND 1 = word_of_int (sint x mod 2)"
  proof -
    have "odd (sint x) = odd x" by (metis bit_0 bit_sint_iff len_gt_0 linorder_not_le)
    then show ?thesis by (simp add: and_one_eq mod_2_eq_odd)
  qed
  ultimately show ?thesis by metis
qed

lemma multiply_loop_exact: "multiply_loop r x y res + (signed_drop_bit 1 ^^ r) x * (y * 2 ^ r) = res + x * y"
proof (induction r arbitrary: x y res)
  case (Suc r)
  let ?res = "if x AND 1 = 1 then res + y else res"
  have "x AND 1 = (if x AND 1 = 1 then 1 else 0)" by (simp add: and_one_eq)
  then have "x = 2 * signed_drop_bit 1 x + (if x AND 1 = 1 then 1 else 0)" using signed_half [of x] by simp
  then have "x * y = (2 * signed_drop_bit 1 x + (if x AND 1 = 1 then 1 else 0)) * y" by simp
  then have step: "res + x * y = ?res + signed_drop_bit 1 x * push_bit 1 y"
    by (simp add: push_bit_eq_mult algebra_simps)
  have "(signed_drop_bit 1 ^^ Suc r) x * (y * 2 ^ Suc r) = (signed_drop_bit 1 ^^ r) (signed_drop_bit 1 x) * (push_bit 1 y * 2 ^ r)"
    by (simp add: funpow_swap1 push_bit_eq_mult)
  with Suc.IH [of "signed_drop_bit 1 x" "push_bit 1 y" ?res] step show ?case
    by (simp only: multiply_loop.simps Let_def)
qed simp

text \<open>The shift-and-add multiplication of signed 32-bit numbers, with arithmetic right shifts
  of a possibly negative factor, gives the product of all pairs of factors modulo \<open>2 ^ 32\<close>.\<close>

theorem multiply_is_product: "multiply x y = x * y"
proof -
  have "(2 :: u32) ^ 32 = 0" by (simp add: exp_eq_zero_iff)
  with multiply_loop_exact [of 32 x y 0] show ?thesis unfolding multiply_def by (simp only: mult_zero_right add_0 add_0_right)
qed

section \<open>Vector addition\<close>

fun vvadd_loop :: "nat list \<Rightarrow> u32 list \<Rightarrow> u32 list \<Rightarrow> u32 list \<Rightarrow> u32 list option" where
  "vvadd_loop [] a b c = Some c"
| "vvadd_loop (i # is) a b c =
     do { x \<leftarrow> aget a i; y \<leftarrow> aget b i; c \<leftarrow> aset c i (x + y); vvadd_loop is a b c }"

definition vvadd :: "nat \<Rightarrow> u32 list \<Rightarrow> u32 list \<Rightarrow> u32 list \<Rightarrow> u32 list option" where
  "vvadd n a b c = vvadd_loop [0..<n] a b c"

lemma vvadd_loop_adds:
  assumes "k \<le> n" "n \<le> length a" "n \<le> length b" "n \<le> length c"
  shows "vvadd_loop [k..<n] a b c = Some (take k c @ map (\<lambda>i. a ! i + b ! i) [k..<n] @ drop n c)"
  using assms
proof (induction "n - k" arbitrary: k c)
  case (Suc d)
  have k: "k < n" "[k..<n] = k # [Suc k..<n]" using Suc.hyps(2) by (auto simp: upt_conv_Cons)
  with Suc.hyps(1) [of "Suc k" "c[k := a ! k + b ! k]"] Suc.hyps(2) Suc.prems show ?case
    by (auto simp: k(2) take_Suc_conv_app_nth)
qed auto

lemma vvadd_adds:
  assumes "n \<le> length a" "n \<le> length b" "n \<le> length c"
  shows "vvadd n a b c = Some (map (\<lambda>i. a ! i + b ! i) [0..<n] @ drop n c)"
  using vvadd_loop_adds [of 0 n a b c] assms by (simp add: vvadd_def)

section \<open>Vector addition by several cores\<close>

text \<open>
  The addition of doubles is the parameter \<open>fadd\<close>. The program runs the function twice: with a
  separate result array (\<open>x = Some xs\<close>) and in place, where the first operand is the result
  array itself (\<open>x = None\<close>).
\<close>

definition vvadd_elem :: "('d \<Rightarrow> 'd \<Rightarrow> 'd) \<Rightarrow> 'd list option \<Rightarrow> 'd list \<Rightarrow> nat \<Rightarrow> 'd list \<Rightarrow> 'd list option" where
  "vvadd_elem fadd x y i z =
     do { a \<leftarrow> (case x of Some xs \<Rightarrow> aget xs i | None \<Rightarrow> aget z i);
          b \<leftarrow> aget y i;
          aset z i (fadd a b) }"

partial_function (option) mt_vvadd_loop ::
  "('d \<Rightarrow> 'd \<Rightarrow> 'd) \<Rightarrow> nat \<Rightarrow> nat \<Rightarrow> 'd list option \<Rightarrow> 'd list \<Rightarrow> nat \<Rightarrow> 'd list \<Rightarrow> 'd list option" where
  "mt_vvadd_loop fadd ncores n x y i z =
     (if i < n then do { z \<leftarrow> vvadd_elem fadd x y i z; mt_vvadd_loop fadd ncores n x y (i + ncores) z }
      else Some z)"

definition mt_vvadd ::
  "('d \<Rightarrow> 'd \<Rightarrow> 'd) \<Rightarrow> nat \<Rightarrow> nat \<Rightarrow> nat \<Rightarrow> 'd list option \<Rightarrow> 'd list \<Rightarrow> 'd list \<Rightarrow> 'd list option" where
  "mt_vvadd fadd coreid ncores n x y z = mt_vvadd_loop fadd ncores n x y coreid z"

text \<open>All cores together: each of them has its own index, and a step is one element of one core.\<close>

record 'd vv_state =
  vz :: "'d list"
  vi :: "nat \<Rightarrow> nat"

inductive vv_run ::
  "('d \<Rightarrow> 'd \<Rightarrow> 'd) \<Rightarrow> nat \<Rightarrow> nat \<Rightarrow> 'd list option \<Rightarrow> 'd list \<Rightarrow> 'd list \<Rightarrow> 'd vv_state \<Rightarrow> bool"
  for fadd ncores n x y z0 where
  start: "vv_run fadd ncores n x y z0 \<lparr>vz = z0, vi = (\<lambda>c. c)\<rparr>"
| elem: "vv_run fadd ncores n x y z0 s \<Longrightarrow> c < ncores \<Longrightarrow> vi s c < n \<Longrightarrow>
    vvadd_elem fadd x y (vi s c) (vz s) = Some z' \<Longrightarrow>
    vv_run fadd ncores n x y z0 \<lparr>vz = z', vi = (vi s)(c := vi s c + ncores)\<rparr>"

text \<open>An element has been added once its core has passed it.\<close>

definition vv_inv :: "('d \<Rightarrow> 'd \<Rightarrow> 'd) \<Rightarrow> nat \<Rightarrow> nat \<Rightarrow> 'd list \<Rightarrow> 'd list \<Rightarrow> 'd list \<Rightarrow> 'd vv_state \<Rightarrow> bool" where
  "vv_inv fadd ncores n xs y z0 s \<longleftrightarrow>
     length (vz s) = length z0 \<and>
     (\<forall>c < ncores. vi s c mod ncores = c) \<and>
     (\<forall>k < length z0. vz s ! k = (if k < n \<and> k < vi s (k mod ncores) then fadd (xs ! k) (y ! k) else z0 ! k))"

definition operand :: "'d list option \<Rightarrow> 'd list \<Rightarrow> 'd list" where
  "operand x z0 = (case x of Some xs \<Rightarrow> xs | None \<Rightarrow> z0)"

lemma vv_elem_value:
  assumes "vv_inv fadd ncores n (operand x z0) y z0 s" "c < ncores" "vi s c < n"
    and "n \<le> length (operand x z0)" "n \<le> length y" "n \<le> length z0"
  shows "vvadd_elem fadd x y (vi s c) (vz s) = Some ((vz s)[vi s c := fadd (operand x z0 ! vi s c) (y ! vi s c)])"
proof -
  have l: "length (vz s) = length z0" and c: "vi s c mod ncores = c" using assms(1,2) by (auto simp: vv_inv_def)
  have "vz s ! vi s c = z0 ! vi s c" using assms(1,3,6) c by (auto simp: vv_inv_def)
  with assms l show ?thesis by (cases x) (auto simp: vvadd_elem_def operand_def)
qed

lemma vv_inv_step:
  assumes "vv_inv fadd ncores n xs y z0 s" "c < ncores" "vi s c < n" "n \<le> length z0"
  shows "vv_inv fadd ncores n xs y z0
    \<lparr>vz = (vz s)[vi s c := fadd (xs ! vi s c) (y ! vi s c)], vi = (vi s)(c := vi s c + ncores)\<rparr>"
proof -
  have l: "length (vz s) = length z0" and m: "\<forall>d < ncores. vi s d mod ncores = d"
    and v: "\<forall>k < length z0. vz s ! k = (if k < n \<and> k < vi s (k mod ncores) then fadd (xs ! k) (y ! k) else z0 ! k)"
    using assms(1) by (auto simp: vv_inv_def)
  have "(vz s)[vi s c := fadd (xs ! vi s c) (y ! vi s c)] ! k =
      (if k < n \<and> k < ((vi s)(c := vi s c + ncores)) (k mod ncores) then fadd (xs ! k) (y ! k) else z0 ! k)"
    if k: "k < length z0" for k
  proof (cases "k = vi s c")
    case True
    with m assms l show ?thesis by auto
  next
    case False
    have "k < vi s c + ncores \<longleftrightarrow> k < vi s c" if "k mod ncores = c"
    proof
      assume less: "k < vi s c + ncores"
      show "k < vi s c"
      proof (rule ccontr)
        assume ge: "\<not> k < vi s c"
        have "k mod ncores = vi s c mod ncores" using that m assms(2) by simp
        with ge have "ncores dvd k - vi s c" by (subst mod_eq_dvd_iff_nat [symmetric]) simp_all
        moreover have "0 < k - vi s c" "k - vi s c < ncores" using ge less False by arith+
        ultimately show False using nat_dvd_not_less by blast
      qed
    qed simp
    with False v k show ?thesis by auto
  qed
  moreover have "((vi s)(c := vi s c + ncores)) d mod ncores = d" if "d < ncores" for d using m that by auto
  ultimately show ?thesis using l by (simp add: vv_inv_def)
qed

lemma vv_run_inv:
  assumes "vv_run fadd ncores n x y z0 s" "n \<le> length (operand x z0)" "n \<le> length y" "n \<le> length z0"
  shows "vv_inv fadd ncores n (operand x z0) y z0 s"
  using assms(1)
proof induction
  case start
  then show ?case by (auto simp: vv_inv_def leD [OF mod_less_eq_dividend])
next
  case (elem s c z')
  with vv_elem_value [OF elem.IH elem.hyps(2,3) assms(2-4)] vv_inv_step [OF elem.IH elem.hyps(2,3) assms(4)]
  show ?case by simp
qed

lemma vv_run_final:
  assumes "vv_run fadd ncores n x y z0 s" "0 < ncores"
    and "n \<le> length (operand x z0)" "n \<le> length y" "n \<le> length z0" "\<forall>c < ncores. n \<le> vi s c"
  shows "vz s = map (\<lambda>i. fadd (operand x z0 ! i) (y ! i)) [0..<n] @ drop n z0" (is "_ = ?r")
proof (rule nth_equalityI)
  note inv = vv_run_inv [OF assms(1,3-5)]
  show "length (vz s) = length ?r" using inv assms(5) by (simp add: vv_inv_def)
  fix k assume "k < length (vz s)"
  then have k: "k < length z0" using inv by (simp add: vv_inv_def)
  have "n \<le> vi s (k mod ncores)" using assms(2,6) by simp
  with inv k assms(5) show "vz s ! k = ?r ! k" by (auto simp: vv_inv_def nth_append)
qed

text \<open>The parallel vector addition, out of place and in place: whatever the order in which the
  cores process their elements, no access leaves the arrays (a core that has not finished can always
  do its next element), and when all cores have finished every result is the sum of its operands
  and nothing behind them has changed.\<close>

theorem mt_vvadd_any_interleaving:
  assumes "vv_run fadd ncores n x y z0 s" "0 < ncores"
    and "n \<le> length (operand x z0)" "n \<le> length y" "n \<le> length z0"
  shows "(\<forall>c < ncores. vi s c < n \<longrightarrow> (\<exists>z'. vvadd_elem fadd x y (vi s c) (vz s) = Some z')) \<and>
    ((\<forall>c < ncores. n \<le> vi s c) \<longrightarrow> vz s = map (\<lambda>i. fadd (operand x z0 ! i) (y ! i)) [0..<n] @ drop n z0)"
  using vv_elem_value [OF vv_run_inv [OF assms(1,3-5)] _ _ assms(3-5)] vv_run_final [OF assms] by blast

text \<open>The sequential function is one core's sequence of steps.\<close>

lemma mt_vvadd_loop_end: "n \<le> i \<Longrightarrow> mt_vvadd_loop fadd ncores n x y i z = Some z"
  by (subst mt_vvadd_loop.simps) simp

lemma mt_vvadd_loop_run:
  assumes "vv_run fadd ncores n x y z0 s" "c < ncores"
    and "n \<le> length (operand x z0)" "n \<le> length y" "n \<le> length z0"
  shows "\<exists>s'. mt_vvadd_loop fadd ncores n x y (vi s c) (vz s) = Some (vz s') \<and> vv_run fadd ncores n x y z0 s' \<and>
    n \<le> vi s' c \<and> (\<forall>d. d \<noteq> c \<longrightarrow> vi s' d = vi s d)"
  using assms(1)
proof (induction "n - vi s c" arbitrary: s rule: less_induct)
  case less
  show ?case
  proof (cases "vi s c < n")
    case False
    with less.prems show ?thesis by (intro exI [of _ s]) (simp add: mt_vvadd_loop_end)
  next
    case True
    let ?z = "(vz s)[vi s c := fadd (operand x z0 ! vi s c) (y ! vi s c)]"
    let ?s = "\<lparr>vz = ?z, vi = (vi s)(c := vi s c + ncores)\<rparr>"
    have e: "vvadd_elem fadd x y (vi s c) (vz s) = Some ?z"
      by (rule vv_elem_value [OF vv_run_inv [OF less.prems assms(3-5)] assms(2) True assms(3-5)])
    have run: "vv_run fadd ncores n x y z0 ?s" by (rule vv_run.elem [OF less.prems assms(2) True e])
    have "n - vi ?s c < n - vi s c" using True assms(2) by simp
    from less.hyps [OF this run] obtain s' where s':
      "mt_vvadd_loop fadd ncores n x y (vi ?s c) (vz ?s) = Some (vz s')" "vv_run fadd ncores n x y z0 s'"
      "n \<le> vi s' c" "\<forall>d. d \<noteq> c \<longrightarrow> vi s' d = vi ?s d" by blast
    have "mt_vvadd_loop fadd ncores n x y (vi s c) (vz s) = Some (vz s')"
      using s'(1) e True by (subst mt_vvadd_loop.simps) simp
    with s' show ?thesis by auto
  qed
qed

theorem mt_vvadd_any_interleaving_witness:
  "\<exists>s. vv_run (+) 2 3 None [1, 2, 3] [10, 20, 30 :: int] s \<and> vz s = [11, 22, 33]"
proof -
  let ?z = "[10, 20, 30 :: int]"
  obtain s1 where 1: "vv_run (+) 2 3 None [1, 2, 3] ?z s1" "3 \<le> vi s1 1" "vi s1 0 = 0"
    using mt_vvadd_loop_run [OF vv_run.start [of "(+)" 2 3 None "[1, 2, 3]" ?z], of 1] by (auto simp: operand_def)
  obtain s2 where 2: "vv_run (+) 2 3 None [1, 2, 3] ?z s2" "3 \<le> vi s2 0" "vi s2 1 = vi s1 1"
    using mt_vvadd_loop_run [OF 1(1), of 0] by (auto simp: operand_def)
  have "\<forall>c < 2. 3 \<le> vi s2 c" using 1 2 by (auto simp: less_2_cases_iff)
  with mt_vvadd_any_interleaving [OF 2(1)] have "vz s2 = [11, 22, 33]"
    by (simp add: operand_def upt_rec numeral_3_eq_3)
  with 2(1) show ?thesis by blast
qed

section \<open>Matrix product by blocks of rows\<close>

fun matmul_k :: "nat list \<Rightarrow> nat \<Rightarrow> u32 list \<Rightarrow> u32 list \<Rightarrow> nat \<Rightarrow> nat \<Rightarrow> u32 \<Rightarrow> u32 option" where
  "matmul_k [] lda A B i j sm = Some sm"
| "matmul_k (k # ks) lda A B i j sm =
     do { a \<leftarrow> aget A (j * lda + k); b \<leftarrow> aget B (k * lda + i); matmul_k ks lda A B i j (sm + a * b) }"

fun matmul_j :: "nat list \<Rightarrow> nat \<Rightarrow> u32 list \<Rightarrow> u32 list \<Rightarrow> nat \<Rightarrow> u32 list \<Rightarrow> u32 list option" where
  "matmul_j [] lda A B i C = Some C"
| "matmul_j (j # js) lda A B i C =
     do { sm \<leftarrow> matmul_k [0..<lda] lda A B i j 0; C \<leftarrow> aset C (i + j * lda) sm; matmul_j js lda A B i C }"

fun matmul_i :: "nat list \<Rightarrow> nat list \<Rightarrow> nat \<Rightarrow> u32 list \<Rightarrow> u32 list \<Rightarrow> u32 list \<Rightarrow> u32 list option" where
  "matmul_i [] js lda A B C = Some C"
| "matmul_i (i # is) js lda A B C = do { C \<leftarrow> matmul_j js lda A B i C; matmul_i is js lda A B C }"

definition matmul :: "nat \<Rightarrow> nat \<Rightarrow> nat \<Rightarrow> u32 list \<Rightarrow> u32 list \<Rightarrow> u32 list \<Rightarrow> u32 list option" where
  "matmul coreid ncores lda A B C =
     (if ncores = 0 then None
      else let block = lda div ncores; start = block * coreid
           in matmul_i [0..<lda] [start..<start + block] lda A B C)"

text \<open>The cores share \<open>C\<close>; here they run one after the other, in the order of the list.\<close>

fun matmul_cores :: "nat list \<Rightarrow> nat \<Rightarrow> nat \<Rightarrow> u32 list \<Rightarrow> u32 list \<Rightarrow> u32 list \<Rightarrow> u32 list option" where
  "matmul_cores [] ncores lda A B C = Some C"
| "matmul_cores (c # cs) ncores lda A B C =
     do { C \<leftarrow> matmul c ncores lda A B C; matmul_cores cs ncores lda A B C }"

definition mprod :: "nat \<Rightarrow> u32 list \<Rightarrow> u32 list \<Rightarrow> nat \<Rightarrow> nat \<Rightarrow> u32" where
  "mprod lda A B j i = (\<Sum>k<lda. A ! (j * lda + k) * B ! (k * lda + i))"

lemma matmul_k_sum:
  assumes "\<forall>k \<in> set ks. j * lda + k < length A \<and> k * lda + i < length B"
  shows "matmul_k ks lda A B i j sm = Some (sm + (\<Sum>k\<leftarrow>ks. A ! (j * lda + k) * B ! (k * lda + i)))"
  using assms by (induction ks arbitrary: sm) (auto simp: add.assoc)

lemma index_less:
  assumes "i < lda" "j < m"
  shows "i + j * lda < m * (lda :: nat)" "j * lda + i < m * lda"
proof -
  have "i + j * lda < Suc j * lda" using assms(1) by simp
  also have "\<dots> \<le> m * lda" using assms(2) by (intro mult_le_mono1) simp
  finally show "i + j * lda < m * lda" .
  then show "j * lda + i < m * lda" by (simp add: add.commute)
qed

lemma matmul_k_mprod:
  assumes "lda * lda \<le> length A" "lda * lda \<le> length B" "i < lda" "j < lda"
  shows "matmul_k [0..<lda] lda A B i j 0 = Some (mprod lda A B j i)"
proof -
  have "\<forall>k \<in> set [0..<lda]. j * lda + k < length A \<and> k * lda + i < length B"
    using less_le_trans [OF index_less(2) assms(1)] less_le_trans [OF index_less(2) assms(2)] assms(3,4) by simp
  from matmul_k_sum [OF this] show ?thesis by (simp add: mprod_def interv_sum_list_conv_sum_set_nat atLeast0LessThan)
qed

definition put_row :: "nat \<Rightarrow> u32 list \<Rightarrow> u32 list \<Rightarrow> nat \<times> nat \<Rightarrow> u32 list \<Rightarrow> u32 list" where
  "put_row lda A B = (\<lambda>(i, j) C. C[i + j * lda := mprod lda A B j i])"

lemma length_fold_put [simp]: "length (fold (put_row lda A B) ps C) = length C"
  by (induction ps arbitrary: C) (auto simp: put_row_def)

lemma fold_put_nth:
  assumes "\<forall>(i, j) \<in> set ps. i < lda" "q < length C" "0 < lda"
  shows "fold (put_row lda A B) ps C ! q =
    (if (q mod lda, q div lda) \<in> set ps then mprod lda A B (q div lda) (q mod lda) else C ! q)"
  using assms
proof (induction ps arbitrary: C)
  case (Cons p ps)
  obtain i j where p: "p = (i, j)" "i < lda" using Cons.prems(1) by (cases p) auto
  have "i + j * lda = q \<longleftrightarrow> (q mod lda, q div lda) = (i, j)" using p(2) by auto
  with Cons p show ?case by (auto simp: put_row_def nth_list_update)
qed simp

lemma matmul_j_fold:
  assumes "lda * lda \<le> length A" "lda * lda \<le> length B" "lda * lda \<le> length C" "i < lda" "\<forall>j \<in> set js. j < lda"
  shows "matmul_j js lda A B i C = Some (fold (put_row lda A B) (map (Pair i) js) C)"
  using assms(3,5)
proof (induction js arbitrary: C)
  case (Cons j js)
  have "i + j * lda < length C" using index_less(1) [OF assms(4), of j lda] Cons.prems by simp
  with Cons matmul_k_mprod [OF assms(1,2,4)] show ?case by (simp add: put_row_def)
qed simp

lemma matmul_i_fold:
  assumes "lda * lda \<le> length A" "lda * lda \<le> length B" "lda * lda \<le> length C"
    and "\<forall>i \<in> set is. i < lda" "\<forall>j \<in> set js. j < lda"
  shows "matmul_i is js lda A B C = Some (fold (put_row lda A B) (List.product is js) C)"
  using assms(3,4)
proof (induction "is" arbitrary: C)
  case (Cons i "is")
  with matmul_j_fold [OF assms(1,2) _ _ assms(5), of C i] show ?case by simp
qed simp

lemma matmul_block:
  assumes "lda * lda \<le> length A" "lda * lda \<le> length B" "lda * lda \<le> length C" "c < ncores"
  shows "\<exists>C'. matmul c ncores lda A B C = Some C' \<and> length C' = length C \<and>
    (\<forall>q < length C. C' ! q = (if q div lda \<in> {lda div ncores * c..<lda div ncores * c + lda div ncores}
       then mprod lda A B (q div lda) (q mod lda) else C ! q))"
proof (cases "lda = 0")
  case True
  with assms show ?thesis by (simp add: matmul_def)
next
  case False
  let ?js = "[lda div ncores * c..<lda div ncores * c + lda div ncores]"
  have "lda div ncores * c + lda div ncores \<le> lda div ncores * ncores"
    using assms(4) by (metis Suc_leI mult_Suc_right mult_le_mono2 add.commute)
  also have "\<dots> \<le> lda" by simp
  finally have js: "\<forall>j \<in> set ?js. j < lda" by auto
  have "matmul c ncores lda A B C = Some (fold (put_row lda A B) (List.product [0..<lda] ?js) C)"
    using assms(4) matmul_i_fold [OF assms(1-3) _ js, of "[0..<lda]"] by (simp add: matmul_def Let_def)
  moreover have "fold (put_row lda A B) (List.product [0..<lda] ?js) C ! q =
      (if q div lda \<in> set ?js then mprod lda A B (q div lda) (q mod lda) else C ! q)" if "q < length C" for q
    using fold_put_nth [of "List.product [0..<lda] ?js" lda q C A B] that False by auto
  ultimately show ?thesis by auto
qed

lemma matmul_cores_rows:
  assumes "lda * lda \<le> length A" "lda * lda \<le> length B" "lda * lda \<le> length C" "\<forall>c \<in> set cs. c < ncores"
  shows "\<exists>C'. matmul_cores cs ncores lda A B C = Some C' \<and> length C' = length C \<and>
    (\<forall>q < length C. C' ! q =
       (if \<exists>c \<in> set cs. q div lda \<in> {lda div ncores * c..<lda div ncores * c + lda div ncores}
        then mprod lda A B (q div lda) (q mod lda) else C ! q))"
  using assms(3,4)
proof (induction cs arbitrary: C)
  case (Cons c cs)
  obtain C1 where C1: "matmul c ncores lda A B C = Some C1" "length C1 = length C"
    "\<forall>q < length C. C1 ! q = (if q div lda \<in> {lda div ncores * c..<lda div ncores * c + lda div ncores}
       then mprod lda A B (q div lda) (q mod lda) else C ! q)"
    using matmul_block [OF assms(1,2) Cons.prems(1), of c ncores] Cons.prems(2) by auto
  have "lda * lda \<le> length C1" "\<forall>c \<in> set cs. c < ncores" using Cons.prems C1(2) by auto
  from Cons.IH [OF this] obtain C2 where C2: "matmul_cores cs ncores lda A B C1 = Some C2" "length C2 = length C1"
    "\<forall>q < length C1. C2 ! q =
       (if \<exists>c \<in> set cs. q div lda \<in> {lda div ncores * c..<lda div ncores * c + lda div ncores}
        then mprod lda A B (q div lda) (q mod lda) else C1 ! q)" by blast
  from C1(3) C2(2,3) C1(2) have "\<forall>q < length C. C2 ! q =
       (if \<exists>c \<in> set (c # cs). q div lda \<in> {lda div ncores * c..<lda div ncores * c + lda div ncores}
        then mprod lda A B (q div lda) (q mod lda) else C ! q)" by (metis (no_types, lifting) list.set_intros set_ConsD)
  with C1(1,2) C2(1,2) show ?case by simp
qed simp

lemma in_some_block: "(\<exists>c < n. q \<in> {b * c..<b * c + b}) \<longleftrightarrow> q < b * n" for b n q :: nat
proof
  assume "\<exists>c < n. q \<in> {b * c..<b * c + b}"
  then obtain c where c: "c < n" "q < b * c + b" by auto
  then have "q < b * Suc c" by simp
  also have "\<dots> \<le> b * n" using c(1) by (intro mult_le_mono2) simp
  finally show "q < b * n" .
next
  assume q: "q < b * n"
  then have b: "0 < b" by (cases b) auto
  have "q div b < n" using q by (simp add: less_mult_imp_div_less mult.commute)
  moreover have "q \<in> {b * (q div b)..<b * (q div b) + b}"
    using b mult_div_mod_eq [of b q] mod_less_divisor [OF b, of q] by (metis atLeastLessThan_iff le_add1 nat_add_left_cancel_less)
  ultimately show "\<exists>c < n. q \<in> {b * c..<b * c + b}" by blast
qed

lemma matmul_cores_all:
  assumes "lda * lda \<le> length A" "lda * lda \<le> length B" "lda * lda \<le> length C" "set cs = {..<ncores}"
  shows "\<exists>C'. matmul_cores cs ncores lda A B C = Some C' \<and> length C' = length C \<and>
    (\<forall>q < length C. C' ! q = (if q div lda < lda div ncores * ncores
        then mprod lda A B (q div lda) (q mod lda) else C ! q))"
proof -
  have cs: "(\<exists>c \<in> set cs. P c) \<longleftrightarrow> (\<exists>c < ncores. P c)" for P using assms(4) by auto
  show ?thesis using matmul_cores_rows [OF assms(1-3), of cs ncores] assms(4) unfolding cs in_some_block by auto
qed

text \<open>C27. The matrix product: when every core has run its part, in any order, all accesses were
  inside of the arrays, and the entries of the first \<open>ncores * (lda div ncores)\<close> rows are those
  of the product modulo \<open>2 ^ 32\<close>; with a number of cores that divides the dimension this is the
  whole product. The remaining rows, if any, belong to no core and stay as they were.\<close>

theorem matmul_all_cores:
  assumes "lda * lda \<le> length A" "lda * lda \<le> length B" "lda * lda \<le> length C" "set cs = {..<ncores}"
  shows "\<exists>C'. matmul_cores cs ncores lda A B C = Some C' \<and> length C' = length C \<and>
    (\<forall>j < lda. \<forall>i < lda. C' ! (i + j * lda) =
       (if j < lda div ncores * ncores then \<Sum>k<lda. A ! (j * lda + k) * B ! (k * lda + i) else C ! (i + j * lda))) \<and>
    (ncores dvd lda \<longrightarrow> lda div ncores * ncores = lda)"
proof -
  obtain C' where C': "matmul_cores cs ncores lda A B C = Some C'" "length C' = length C"
    "\<forall>q < length C. C' ! q = (if q div lda < lda div ncores * ncores
        then mprod lda A B (q div lda) (q mod lda) else C ! q)"
    using matmul_cores_all [OF assms] by blast
  have "C' ! (i + j * lda) = (if j < lda div ncores * ncores then \<Sum>k<lda. A ! (j * lda + k) * B ! (k * lda + i) else C ! (i + j * lda))"
    if "j < lda" "i < lda" for i j
  proof -
    have "i + j * lda < length C" using index_less(1) [OF that(2,1)] assms(3) by simp
    moreover have "(i + j * lda) div lda = j" "(i + j * lda) mod lda = i" using that by auto
    ultimately show ?thesis using C'(3) by (simp add: mprod_def)
  qed
  with C' show ?thesis by auto
qed

lemma lessThan_3: "{..<3 :: nat} = {0, 1, 2}"
  by auto

theorem matmul_all_cores_witness:
  "\<exists>C'. matmul_cores [1, 0] 2 3 [1, 2, 3, 4, 5, 6, 7, 8, 9] [1, 0, 0, 0, 1, 0, 0, 0, 1] (replicate 9 0) = Some C' \<and>
    C' ! 5 = 6 \<and> C' ! 8 = 0"
proof -
  let ?A = "[1, 2, 3, 4, 5, 6, 7, 8, 9 :: u32]" and ?B = "[1, 0, 0, 0, 1, 0, 0, 0, 1 :: u32]"
  have "set [1, 0] = {..<2 :: nat}" by auto
  from matmul_all_cores [OF _ _ _ this, of 3 ?A ?B "replicate 9 0"]
  obtain C' where C': "matmul_cores [1, 0] 2 3 ?A ?B (replicate 9 0) = Some C'"
    "\<forall>j < 3. \<forall>i < 3. C' ! (i + j * 3) =
       (if j < 3 div 2 * 2 then \<Sum>k<3. ?A ! (j * 3 + k) * ?B ! (k * 3 + i) else replicate 9 0 ! (i + j * 3))"
    by auto
  have "C' ! 5 = 6" using C'(2) [rule_format, of 1 2] by (simp add: lessThan_3)
  moreover have "C' ! 8 = 0" using C'(2) [rule_format, of 2 2] by simp
  ultimately show ?thesis using C'(1) by blast
qed

section \<open>Sparse matrix-vector product\<close>

text \<open>The arithmetic of doubles is a parameter: addition, multiplication and zero.\<close>

definition spmv_elem :: "('d \<Rightarrow> 'd \<Rightarrow> 'd) \<Rightarrow> 'd list \<Rightarrow> nat list \<Rightarrow> 'd list \<Rightarrow> nat \<Rightarrow> 'd option" where
  "spmv_elem fmul vl idx x k = do { v \<leftarrow> aget vl k; i \<leftarrow> aget idx k; xi \<leftarrow> aget x i; Some (fmul v xi) }"

function spmv4 ::
  "('d \<Rightarrow> 'd \<Rightarrow> 'd) \<Rightarrow> (nat \<Rightarrow> 'd option) \<Rightarrow> nat \<Rightarrow> nat \<Rightarrow> 'd \<times> 'd \<times> 'd \<times> 'd \<Rightarrow> (nat \<times> 'd \<times> 'd \<times> 'd \<times> 'd) option" where
  "spmv4 fadd el e k (y0, y1, y2, y3) =
     (if int k < int e - 3
      then do { p0 \<leftarrow> el k; p1 \<leftarrow> el (k + 1); p2 \<leftarrow> el (k + 2); p3 \<leftarrow> el (k + 3);
                spmv4 fadd el e (k + 4) (fadd y0 p0, fadd y1 p1, fadd y2 p2, fadd y3 p3) }
      else Some (k, y0, y1, y2, y3))"
  by pat_completeness auto
termination by (relation "measure (\<lambda>(fadd, el, e, k, y). e - k)") auto

function spmv1 :: "('d \<Rightarrow> 'd \<Rightarrow> 'd) \<Rightarrow> (nat \<Rightarrow> 'd option) \<Rightarrow> nat \<Rightarrow> nat \<Rightarrow> 'd \<Rightarrow> 'd option" where
  "spmv1 fadd el e k y0 =
     (if k < e then do { p \<leftarrow> el k; spmv1 fadd el e (k + 1) (fadd y0 p) } else Some y0)"
  by pat_completeness auto
termination by (relation "measure (\<lambda>(fadd, el, e, k, y). e - k)") auto

declare spmv4.simps [simp del] spmv1.simps [simp del]

definition spmv_row ::
  "('d \<Rightarrow> 'd \<Rightarrow> 'd) \<Rightarrow> ('d \<Rightarrow> 'd \<Rightarrow> 'd) \<Rightarrow> 'd \<Rightarrow> 'd list \<Rightarrow> nat list \<Rightarrow> 'd list \<Rightarrow> nat list \<Rightarrow> nat \<Rightarrow> 'd option" where
  "spmv_row fadd fmul fzero vl idx x ptr i =
     do { b \<leftarrow> aget ptr i; e \<leftarrow> aget ptr (i + 1);
          (k, y0, y1, y2, y3) \<leftarrow> spmv4 fadd (spmv_elem fmul vl idx x) e b (fzero, fzero, fzero, fzero);
          y0 \<leftarrow> spmv1 fadd (spmv_elem fmul vl idx x) e k y0;
          Some (fadd (fadd y0 y1) (fadd y2 y3)) }"

fun spmv_rows ::
  "nat list \<Rightarrow> ('d \<Rightarrow> 'd \<Rightarrow> 'd) \<Rightarrow> ('d \<Rightarrow> 'd \<Rightarrow> 'd) \<Rightarrow> 'd \<Rightarrow> 'd list \<Rightarrow> nat list \<Rightarrow> 'd list \<Rightarrow> nat list \<Rightarrow> 'd list \<Rightarrow> 'd list option" where
  "spmv_rows [] fadd fmul fzero vl idx x ptr y = Some y"
| "spmv_rows (i # is) fadd fmul fzero vl idx x ptr y =
     do { yi \<leftarrow> spmv_row fadd fmul fzero vl idx x ptr i; y \<leftarrow> aset y i yi;
          spmv_rows is fadd fmul fzero vl idx x ptr y }"

definition spmv ::
  "('d \<Rightarrow> 'd \<Rightarrow> 'd) \<Rightarrow> ('d \<Rightarrow> 'd \<Rightarrow> 'd) \<Rightarrow> 'd \<Rightarrow> nat \<Rightarrow> 'd list \<Rightarrow> nat list \<Rightarrow> 'd list \<Rightarrow> nat list \<Rightarrow> 'd list \<Rightarrow> 'd list option" where
  "spmv fadd fmul fzero r vl idx x ptr y = spmv_rows [0..<r] fadd fmul fzero vl idx x ptr y"

text \<open>With exact arithmetic the four partial sums add up to the row's product.\<close>

lemma spmv4_sum:
  fixes f :: "nat \<Rightarrow> 'd::comm_semiring_1"
  assumes "\<And>k. b \<le> k \<Longrightarrow> k < e \<Longrightarrow> el k = Some (f k)" "b \<le> k" "k \<le> e"
  shows "\<exists>k' z0 z1 z2 z3. spmv4 (+) el e k (y0, y1, y2, y3) = Some (k', z0, z1, z2, z3) \<and> b \<le> k' \<and> k' \<le> e \<and>
    (z0 + z1) + (z2 + z3) + (\<Sum>i = k'..<e. f i) = (y0 + y1) + (y2 + y3) + (\<Sum>i = k..<e. f i)"
  using assms(2,3)
proof (induction "e - k" arbitrary: k y0 y1 y2 y3 rule: less_induct)
  case less
  show ?case
  proof (cases "k + 3 < e")
    case True
    have "(\<Sum>i = k..<e. f i) = f k + (f (k + 1) + (f (k + 2) + (f (k + 3) + (\<Sum>i = k + 4..<e. f i))))"
      using True by (simp add: sum.atLeast_Suc_lessThan eval_nat_numeral)
    moreover have "spmv4 (+) el e k (y0, y1, y2, y3) =
        spmv4 (+) el e (k + 4) (y0 + f k, y1 + f (k + 1), y2 + f (k + 2), y3 + f (k + 3))"
      using True less.prems assms(1) by (subst spmv4.simps) simp
    moreover have "e - (k + 4) < e - k" "b \<le> k + 4" "k + 4 \<le> e" using True less.prems by auto
    ultimately show ?thesis using less.hyps [of "k + 4" "y0 + f k" "y1 + f (k + 1)" "y2 + f (k + 2)" "y3 + f (k + 3)"]
      by (simp add: add.assoc add.left_commute)
  next
    case False
    then have "spmv4 (+) el e k (y0, y1, y2, y3) = Some (k, y0, y1, y2, y3)" by (subst spmv4.simps) simp
    with less.prems show ?thesis by auto
  qed
qed

lemma spmv1_sum:
  fixes f :: "nat \<Rightarrow> 'd::comm_semiring_1"
  assumes "\<And>k. b \<le> k \<Longrightarrow> k < e \<Longrightarrow> el k = Some (f k)" "b \<le> k" "k \<le> e"
  shows "spmv1 (+) el e k y0 = Some (y0 + (\<Sum>i = k..<e. f i))"
  using assms(2,3)
proof (induction "e - k" arbitrary: k y0)
  case 0
  then show ?case by (subst spmv1.simps) simp
next
  case (Suc d)
  then have k: "k < e" by simp
  have "spmv1 (+) el e k y0 = spmv1 (+) el e (Suc k) (y0 + f k)"
    using k Suc.prems assms(1) by (subst spmv1.simps) simp
  with Suc k show ?case by (simp add: sum.atLeast_Suc_lessThan add.assoc)
qed

lemma spmv_row_exact:
  fixes vl x :: "'d::comm_semiring_1 list"
  assumes "i + 1 < length ptr" "ptr ! i \<le> ptr ! (i + 1)" "ptr ! (i + 1) \<le> length vl" "ptr ! (i + 1) \<le> length idx"
    and "\<forall>k < ptr ! (i + 1). idx ! k < length x"
  shows "spmv_row (+) (*) 0 vl idx x ptr i = Some (\<Sum>k = ptr ! i..<ptr ! (i + 1). vl ! k * x ! (idx ! k))"
proof -
  let ?b = "ptr ! i" and ?e = "ptr ! (i + 1)" and ?el = "spmv_elem (*) vl idx x"
  have el: "?el k = Some (vl ! k * x ! (idx ! k))" if "?b \<le> k" "k < ?e" for k
    using that assms by (simp add: spmv_elem_def)
  obtain k z0 z1 z2 z3 where 4: "spmv4 (+) ?el ?e ?b (0, 0, 0, 0) = Some (k, z0, z1, z2, z3)" "?b \<le> k" "k \<le> ?e"
      "(z0 + z1) + (z2 + z3) + (\<Sum>i = k..<?e. vl ! i * x ! (idx ! i)) = (\<Sum>k = ?b..<?e. vl ! k * x ! (idx ! k))"
    using spmv4_sum [of ?b ?e ?el "\<lambda>k. vl ! k * x ! (idx ! k)" ?b 0 0 0 0] el assms(2) by auto
  with spmv1_sum [of ?b ?e ?el "\<lambda>k. vl ! k * x ! (idx ! k)" k z0] el assms(1) show ?thesis
    by (simp add: spmv_row_def add.assoc add.left_commute add.commute)
qed

lemma spmv_exact:
  fixes vl x :: "'d::comm_semiring_1 list"
  assumes "r < length ptr" "sorted ptr" "ptr ! r \<le> length vl" "ptr ! r \<le> length idx"
    and "\<forall>k < ptr ! r. idx ! k < length x" "r \<le> length y"
  shows "spmv (+) (*) 0 r vl idx x ptr y =
    Some (map (\<lambda>i. \<Sum>k = ptr ! i..<ptr ! (i + 1). vl ! k * x ! (idx ! k)) [0..<r] @ drop r y)"
proof -
  have row: "spmv_row (+) (*) 0 vl idx x ptr i = Some (\<Sum>k = ptr ! i..<ptr ! (i + 1). vl ! k * x ! (idx ! k))"
    if "i < r" for i
  proof -
    have "ptr ! i \<le> ptr ! (i + 1)" "ptr ! (i + 1) \<le> ptr ! r"
      using assms(1,2) that by (auto intro: sorted_nth_mono)
    with assms that show ?thesis by (intro spmv_row_exact) auto
  qed
  have "spmv_rows [j..<r] (+) (*) 0 vl idx x ptr y =
      Some (take j y @ map (\<lambda>i. \<Sum>k = ptr ! i..<ptr ! (i + 1). vl ! k * x ! (idx ! k)) [j..<r] @ drop r y)"
    if "j \<le> r" "r \<le> length y" for j y
    using that
  proof (induction "r - j" arbitrary: j y)
    case (Suc d)
    then have j: "j < r" "[j..<r] = j # [Suc j..<r]" by (auto simp: upt_conv_Cons)
    with Suc row [of j] show ?case by (auto simp: j(2) take_Suc_conv_app_nth)
  qed auto
  from this [of 0 y] assms(6) show ?thesis by (simp add: spmv_def)
qed

end
