(* ===== verification/App_Towers.thy ===== *)
theory App_Towers
  imports App_Util
begin

text \<open>
  The towers of Hanoi benchmark \<open>sw/app/towers/towers_main.c\<close>: linked lists of nodes from a
  pool of \<open>NUM_DISCS\<close> nodes with a free list, the recursive solver and the check of its result.
  A pointer is \<open>None\<close> (null) or the index of a node of the pool; an access through a null pointer
  gives \<open>None\<close>, and so does an arithmetic operation on \<open>int\<close> that leaves its 32 bits (sizes,
  move counter, number of discs). The solver recurses without end for \<open>n \<le> 0\<close>, so it is a
  partial function.
\<close>

section \<open>Lists of nodes\<close>

definition NUM_DISCS :: nat where "NUM_DISCS = 7"

record tnode =
  nval :: int
  nnext :: "nat option"

record tlist =
  lsize :: int
  lhead :: "nat option"

datatype peg = PegA | PegB | PegC

record tstate =
  g_nodeFreeList :: tlist
  g_nodePool :: "tnode list"
  numDiscs :: int
  numMoves :: int
  pegs :: "peg \<Rightarrow> tlist"

definition node_at :: "nat option \<Rightarrow> tstate \<Rightarrow> (nat \<times> tnode) option" where
  "node_at p s = do { i \<leftarrow> p; x \<leftarrow> aget (g_nodePool s) i; Some (i, x) }"

definition put_node :: "nat \<Rightarrow> tnode \<Rightarrow> tstate \<Rightarrow> tstate" where
  "put_node i x s = s\<lparr>g_nodePool := (g_nodePool s)[i := x]\<rparr>"

definition put_list :: "peg \<Rightarrow> tlist \<Rightarrow> tstate \<Rightarrow> tstate" where
  "put_list q l s = s\<lparr>pegs := (pegs s)(q := l)\<rparr>"

definition list_getSize :: "tlist \<Rightarrow> int" where
  "list_getSize l = lsize l"

definition list_init :: tlist where
  "list_init = \<lparr>lsize = 0, lhead = None\<rparr>"

definition list_push :: "peg \<Rightarrow> int \<Rightarrow> tstate \<Rightarrow> tstate option" where
  "list_push q v s =
     do { (newNode, x) \<leftarrow> node_at (lhead (g_nodeFreeList s)) s;
          let s = s\<lparr>g_nodeFreeList := (g_nodeFreeList s)\<lparr>lhead := nnext x\<rparr>\<rparr>;
          let s = put_node newNode (x\<lparr>nnext := lhead (pegs s q)\<rparr>) s;
          let s = put_list q ((pegs s q)\<lparr>lhead := Some newNode\<rparr>) s;
          (h, x) \<leftarrow> node_at (lhead (pegs s q)) s;
          let s = put_node h (x\<lparr>nval := v\<rparr>) s;
          z \<leftarrow> chk (lsize (pegs s q) + 1);
          Some (put_list q ((pegs s q)\<lparr>lsize := z\<rparr>) s) }"

definition list_pop :: "peg \<Rightarrow> tstate \<Rightarrow> (int \<times> tstate) option" where
  "list_pop q s =
     do { (freedNode, x) \<leftarrow> node_at (lhead (pegs s q)) s;
          let v = nval x;
          let s = put_list q ((pegs s q)\<lparr>lhead := nnext x\<rparr>) s;
          let s = put_node freedNode (x\<lparr>nnext := lhead (g_nodeFreeList s)\<rparr>) s;
          let s = s\<lparr>g_nodeFreeList := (g_nodeFreeList s)\<lparr>lhead := Some freedNode\<rparr>\<rparr>;
          z \<leftarrow> chk (lsize (pegs s q) - 1);
          Some (v, put_list q ((pegs s q)\<lparr>lsize := z\<rparr>) s) }"

partial_function (option) list_clear :: "peg \<Rightarrow> tstate \<Rightarrow> tstate option" where
  "list_clear q s =
     (if list_getSize (pegs s q) > 0 then do { (v, s) \<leftarrow> list_pop q s; list_clear q s } else Some s)"

section \<open>Towers\<close>

fun towers_init_loop :: "nat list \<Rightarrow> int \<Rightarrow> tstate \<Rightarrow> tstate option" where
  "towers_init_loop [] n s = Some s"
| "towers_init_loop (i # is) n s = do { s \<leftarrow> list_push PegA (n - int i) s; towers_init_loop is n s }"

definition towers_init :: "int \<Rightarrow> tstate \<Rightarrow> tstate option" where
  "towers_init n s =
     do { let s = s\<lparr>numDiscs := n, numMoves := 0\<rparr>;
          let s = put_list PegA list_init s;
          let s = put_list PegB list_init s;
          let s = put_list PegC list_init s;
          towers_init_loop [0..<nat n] n s }"

definition towers_clear :: "tstate \<Rightarrow> tstate option" where
  "towers_clear s =
     do { s \<leftarrow> list_clear PegA s; s \<leftarrow> list_clear PegB s; s \<leftarrow> list_clear PegC s;
          towers_init (numDiscs s) s }"

definition move_disc :: "peg \<times> peg \<Rightarrow> tstate \<Rightarrow> tstate option" where
  "move_disc m s =
     do { (v, s) \<leftarrow> list_pop (fst m) s; s \<leftarrow> list_push (snd m) v s;
          z \<leftarrow> chk (numMoves s + 1);
          Some (s\<lparr>numMoves := z\<rparr>) }"

partial_function (option) towers_solve_h :: "int \<Rightarrow> peg \<Rightarrow> peg \<Rightarrow> peg \<Rightarrow> tstate \<Rightarrow> tstate option" where
  "towers_solve_h n startPeg tempPeg destPeg s =
     (if n = 1 then move_disc (startPeg, destPeg) s
      else do { m \<leftarrow> chk (n - 1);
                s \<leftarrow> towers_solve_h m startPeg destPeg tempPeg s;
                s \<leftarrow> towers_solve_h 1 startPeg tempPeg destPeg s;
                towers_solve_h m tempPeg startPeg destPeg s })"

definition towers_solve :: "tstate \<Rightarrow> tstate option" where
  "towers_solve s = towers_solve_h (numDiscs s) PegA PegB PegC s"

text \<open>The loop over the discs of the last peg: \<open>Some d\<close> is the number of discs, \<open>None\<close> the
  early return of 5.\<close>

partial_function (option) verify_discs :: "nat option \<Rightarrow> int \<Rightarrow> tstate \<Rightarrow> int option option" where
  "verify_discs ptr d s =
     (if ptr \<noteq> None
      then do { (i, x) \<leftarrow> node_at ptr s;
                d \<leftarrow> chk (d + 1);
                if nval x \<noteq> d then Some None else verify_discs (nnext x) d s }
      else Some (Some d))"

definition towers_verify :: "tstate \<Rightarrow> int option" where
  "towers_verify s =
     (if list_getSize (pegs s PegA) \<noteq> 0 then Some 2
      else if list_getSize (pegs s PegB) \<noteq> 0 then Some 3
      else if list_getSize (pegs s PegC) \<noteq> numDiscs s then Some 4
      else do { r \<leftarrow> verify_discs (lhead (pegs s PegC)) 0 s;
                case r of None \<Rightarrow> Some 5
                | Some _ \<Rightarrow> if numDiscs s < 0 \<or> 30 < numDiscs s then None
                    else if numMoves s \<noteq> push_bit (nat (numDiscs s)) 1 - 1 then Some 6 else Some 0 })"

definition init_pool :: "tnode list \<Rightarrow> tnode list option" where
  "init_pool pool =
     do { x \<leftarrow> aget pool (NUM_DISCS - 1);
          pool \<leftarrow> aset pool (NUM_DISCS - 1) (x\<lparr>nnext := None, nval := 99\<rparr>);
          fold (\<lambda>i r. do { p \<leftarrow> r; aset p i \<lparr>nval = int i, nnext = Some (i + 1)\<rparr> }) [0..<NUM_DISCS - 1] (Some pool) }"

text \<open>\<open>preallocate\<close> is the build option \<open>PREALLOCATE\<close>; the calls of \<open>setStats\<close> change
  nothing that the program reads.\<close>

definition towers_main :: "bool \<Rightarrow> tstate \<Rightarrow> int option" where
  "towers_main preallocate s =
     do { let s = s\<lparr>g_nodeFreeList := \<lparr>lsize = int NUM_DISCS, lhead = Some 0\<rparr>\<rparr>;
          pool \<leftarrow> init_pool (g_nodePool s);
          s \<leftarrow> towers_init (int NUM_DISCS) (s\<lparr>g_nodePool := pool\<rparr>);
          s \<leftarrow> (if preallocate then towers_solve s else Some s);
          s \<leftarrow> towers_clear s;
          s \<leftarrow> towers_solve s;
          towers_verify s }"

section \<open>Chains of nodes\<close>

fun chain :: "tnode list \<Rightarrow> nat option \<Rightarrow> nat list \<Rightarrow> bool" where
  "chain pool p [] \<longleftrightarrow> p = None"
| "chain pool p (i # is) \<longleftrightarrow> p = Some i \<and> i < length pool \<and> chain pool (nnext (pool ! i)) is"

lemma chain_update [simp]: "i \<notin> set is \<Longrightarrow> chain (pool[i := x]) p is = chain pool p is"
  by (induction "is" arbitrary: p) auto

definition vals :: "tstate \<Rightarrow> nat list \<Rightarrow> int list" where
  "vals s is = map (\<lambda>i. nval (g_nodePool s ! i)) is"

text \<open>The abstract state: the discs on each peg, from the top, and the number of free nodes.\<close>

type_synonym puzzle = "peg \<Rightarrow> int list"

definition rep :: "tstate \<Rightarrow> nat list \<Rightarrow> (peg \<Rightarrow> nat list) \<Rightarrow> puzzle \<Rightarrow> bool" where
  "rep s fr cs f \<longleftrightarrow>
     length (g_nodePool s) \<le> 2147483647 \<and> chain (g_nodePool s) (lhead (g_nodeFreeList s)) fr \<and> distinct fr \<and>
     (\<forall>q. chain (g_nodePool s) (lhead (pegs s q)) (cs q) \<and> distinct (cs q) \<and> set fr \<inter> set (cs q) = {} \<and>
          lsize (pegs s q) = int (length (cs q)) \<and> vals s (cs q) = f q) \<and>
     (\<forall>q r. q \<noteq> r \<longrightarrow> set (cs q) \<inter> set (cs r) = {})"

lemma chain_inside: "chain pool p is \<Longrightarrow> set is \<subseteq> {..<length pool}"
  by (induction "is" arbitrary: p) auto

lemma chain_length:
  assumes "chain pool p is" "distinct is"
  shows "length is \<le> length pool"
  using card_mono [OF _ chain_inside [OF assms(1)]] distinct_card [OF assms(2)] by simp

definition holds :: "tstate \<Rightarrow> puzzle \<Rightarrow> nat \<Rightarrow> bool" where
  "holds s f k \<longleftrightarrow> (\<exists>fr cs. rep s fr cs f \<and> length fr = k)"

lemma rep_free: "rep s fr cs f \<Longrightarrow> chain (g_nodePool s) (lhead (g_nodeFreeList s)) fr \<and> distinct fr"
  by (simp add: rep_def)

lemma rep_pool: "rep s fr cs f \<Longrightarrow> length (g_nodePool s) \<le> 2147483647"
  by (simp add: rep_def)

text \<open>The sizes of the pegs do not overflow: a peg has at most as many nodes as the pool.\<close>

lemma rep_size:
  assumes "rep s fr cs f"
  shows "length (cs q) \<le> 2147483647"
  using chain_length [of "g_nodePool s" "lhead (pegs s q)" "cs q"] assms by (auto simp: rep_def)

lemma rep_peg:
  assumes "rep s fr cs f"
  shows "chain (g_nodePool s) (lhead (pegs s q)) (cs q)" "distinct (cs q)" "set fr \<inter> set (cs q) = {}"
    "lsize (pegs s q) = int (length (cs q))" "vals s (cs q) = f q" "q \<noteq> r \<Longrightarrow> set (cs q) \<inter> set (cs r) = {}"
  using assms by (auto simp: rep_def)

lemma vals_outside: "i \<notin> set is \<Longrightarrow> g_nodePool s' = (g_nodePool s)[i := x] \<Longrightarrow> vals s' is = vals s is"
  by (auto simp: vals_def nth_list_update_neq intro!: map_cong) (metis nth_list_update_neq)

lemma rep_update:
  assumes "chain (g_nodePool s) (lhead (g_nodeFreeList s)) fr" "distinct fr"
    and "chain (g_nodePool s) (lhead (pegs s q)) c" "distinct c" "set fr \<inter> set c = {}"
      "lsize (pegs s q) = int (length c)" "vals s c = w"
    and "\<And>r. r \<noteq> q \<Longrightarrow> chain (g_nodePool s) (lhead (pegs s r)) (cs r)" "\<And>r. distinct (cs r)"
      "\<And>r. r \<noteq> q \<Longrightarrow> set fr \<inter> set (cs r) = {}" "\<And>r. r \<noteq> q \<Longrightarrow> lsize (pegs s r) = int (length (cs r))"
      "\<And>r. r \<noteq> q \<Longrightarrow> vals s (cs r) = f r" "length (g_nodePool s) \<le> 2147483647"
    and "\<And>r t. r \<noteq> t \<Longrightarrow> set (cs r) \<inter> set (cs t) = {}" "\<And>r. r \<noteq> q \<Longrightarrow> set c \<inter> set (cs r) = {}"
  shows "rep s fr (cs(q := c)) (f(q := w))"
  unfolding rep_def
proof (intro conjI allI impI)
  fix r
  show "chain (g_nodePool s) (lhead (pegs s r)) ((cs(q := c)) r)" "distinct ((cs(q := c)) r)"
    "set fr \<inter> set ((cs(q := c)) r) = {}" "lsize (pegs s r) = int (length ((cs(q := c)) r))"
    "vals s ((cs(q := c)) r) = (f(q := w)) r"
    using assms(3-12) by (cases "r = q"; simp)+
  fix t assume "r \<noteq> t"
  then show "set ((cs(q := c)) r) \<inter> set ((cs(q := c)) t) = {}"
    using assms(14,15) by (cases "r = q"; cases "t = q") auto
qed (rule assms)+

text \<open>Moving one node between the free list and a peg.\<close>

lemma rep_push:
  assumes "rep s (i # fr) cs f"
  shows "\<exists>s'. list_push q v s = Some s' \<and> rep s' fr (cs(q := i # cs q)) (f(q := v # f q)) \<and>
    numDiscs s' = numDiscs s \<and> numMoves s' = numMoves s"
proof -
  note fr = rep_free [OF assms] and p = rep_peg [OF assms]
  let ?x = "g_nodePool s ! i"
  have i: "lhead (g_nodeFreeList s) = Some i" "i < length (g_nodePool s)" "chain (g_nodePool s) (nnext ?x) fr"
    "i \<notin> set fr" "distinct fr" using fr by auto
  have ic: "i \<notin> set (cs r)" for r using p(3) [of r] by auto
  define s' where "s' = s\<lparr>g_nodeFreeList := (g_nodeFreeList s)\<lparr>lhead := nnext ?x\<rparr>,
    g_nodePool := (g_nodePool s)[i := ?x\<lparr>nnext := lhead (pegs s q), nval := v\<rparr>],
    pegs := (pegs s)(q := (pegs s q)\<lparr>lhead := Some i, lsize := lsize (pegs s q) + 1\<rparr>)\<rparr>"
  have top: "chain (g_nodePool s') (lhead (pegs s' q)) (i # cs q)"
    using p(1) [of q] i(2) ic by (simp add: s'_def)
  have pool: "length (g_nodePool s') \<le> 2147483647" using rep_pool [OF assms] by (simp add: s'_def)
  with chain_length [OF top] ic p(2) [of q] have "Suc (length (cs q)) \<le> 2147483647" by simp
  then have "chk (lsize (pegs s q) + 1) = Some (lsize (pegs s q) + 1)" using p(4) [of q] by simp
  then have run: "list_push q v s = Some s'"
    using i by (simp add: list_push_def node_at_def put_node_def put_list_def s'_def Let_def)
  have v: "vals s' (cs r) = f r" for r
    using p(5) [of r] vals_outside [OF ic, of s' s] by (simp add: s'_def)
  have "vals s' (i # cs q) = v # f q" using v [of q] i(2) by (simp add: vals_def s'_def)
  moreover have "chain (g_nodePool s') (lhead (pegs s' r)) (cs r)" if "r \<noteq> q" for r
    using p(1) [of r] ic that by (simp add: s'_def)
  moreover have "lsize (pegs s' q) = int (length (i # cs q))" "r \<noteq> q \<Longrightarrow> lsize (pegs s' r) = int (length (cs r))" for r
    using p(4) by (simp_all add: s'_def)
  moreover have "chain (g_nodePool s') (lhead (g_nodeFreeList s')) fr" using i by (simp add: s'_def)
  moreover have "set fr \<inter> set (cs r) = {}" for r using p(3) [of r] by auto
  moreover have "set (cs r) \<inter> set (cs t) = {}" if "r \<noteq> t" for r t using p(6) [OF that] .
  moreover have "set (i # cs q) \<inter> set (cs r) = {}" if "r \<noteq> q" for r using p(6) [of q r] that ic by auto
  moreover have "set fr \<inter> set (i # cs q) = {}" using p(3) [of q] i(4) by auto
  moreover have "distinct (i # cs q)" using ic p(2) by simp
  ultimately have "rep s' fr (cs(q := i # cs q)) (f(q := v # f q))"
    using i(5) v p(2) top pool by (intro rep_update) simp_all
  with run show ?thesis by (auto simp: s'_def)
qed

lemma rep_pop:
  assumes "rep s fr cs f" "f q = v # vs"
  shows "\<exists>s' i. list_pop q s = Some (v, s') \<and> rep s' (i # fr) (cs(q := tl (cs q))) (f(q := vs)) \<and>
    numDiscs s' = numDiscs s \<and> numMoves s' = numMoves s"
proof -
  note fr = rep_free [OF assms(1)] and p = rep_peg [OF assms(1)]
  obtain i c where c: "cs q = i # c" using p(5) [of q] assms(2) by (cases "cs q") (auto simp: vals_def)
  let ?x = "g_nodePool s ! i"
  have i: "lhead (pegs s q) = Some i" "i < length (g_nodePool s)" "chain (g_nodePool s) (nnext ?x) c"
    "i \<notin> set c" "distinct c" "i \<notin> set fr" "nval ?x = v" "vals s c = vs"
    using p(1-3,5) [of q] assms(2) by (auto simp: c vals_def)
  have ic: "i \<notin> set (cs r)" if "r \<noteq> q" for r using p(6) [of q r] that c by auto
  define s' where "s' = s\<lparr>g_nodeFreeList := (g_nodeFreeList s)\<lparr>lhead := Some i\<rparr>,
    g_nodePool := (g_nodePool s)[i := ?x\<lparr>nnext := lhead (g_nodeFreeList s)\<rparr>],
    pegs := (pegs s)(q := (pegs s q)\<lparr>lhead := nnext ?x, lsize := lsize (pegs s q) - 1\<rparr>)\<rparr>"
  have pool: "length (g_nodePool s') \<le> 2147483647" using rep_pool [OF assms(1)] by (simp add: s'_def)
  have "chk (lsize (pegs s q) - 1) = Some (lsize (pegs s q) - 1)"
    using rep_size [OF assms(1), of q] p(4) [of q] c by simp
  then have run: "list_pop q s = Some (v, s')"
    using i by (simp add: list_pop_def node_at_def put_node_def put_list_def s'_def Let_def)
  have "vals s' (cs r) = f r" if "r \<noteq> q" for r
    using p(5) [of r] vals_outside [OF ic [OF that], of s' s] by (simp add: s'_def)
  moreover have "vals s' c = vs" using i(8) vals_outside [OF i(4), of s' s] by (simp add: s'_def)
  moreover have "chain (g_nodePool s') (lhead (pegs s' q)) c" using i by (simp add: s'_def)
  moreover have "chain (g_nodePool s') (lhead (pegs s' r)) (cs r)" if "r \<noteq> q" for r
    using p(1) [of r] ic that by (simp add: s'_def)
  moreover have "lsize (pegs s' q) = int (length c)" "r \<noteq> q \<Longrightarrow> lsize (pegs s' r) = int (length (cs r))" for r
    using p(4) c by (simp_all add: s'_def)
  moreover have "chain (g_nodePool s') (lhead (g_nodeFreeList s')) (i # fr)" using i fr by (simp add: s'_def)
  moreover have "set (i # fr) \<inter> set (cs r) = {}" if "r \<noteq> q" for r using p(3) [of r] ic [OF that] by auto
  moreover have "set (i # fr) \<inter> set c = {}" using p(3) [of q] i(4) c by auto
  moreover have "set (cs r) \<inter> set (cs t) = {}" if "r \<noteq> t" for r t using p(6) [OF that] .
  moreover have "set c \<inter> set (cs t) = {}" if "t \<noteq> q" for t using p(6) [of q t] that c by auto
  ultimately have "rep s' (i # fr) (cs(q := c)) (f(q := vs))"
    using i(5,6) fr p(2) pool by (intro rep_update) simp_all
  with run c show ?thesis by (auto simp: s'_def)
qed

text \<open>The two list operations refine pushing and popping on the abstract pegs.\<close>

lemma list_push_refines:
  assumes "holds s f (Suc k)"
  shows "\<exists>s'. list_push q v s = Some s' \<and> holds s' (f(q := v # f q)) k \<and> numDiscs s' = numDiscs s \<and> numMoves s' = numMoves s"
proof -
  obtain i fr cs where "rep s (i # fr) cs f" "length fr = k" using assms by (auto simp: holds_def length_Suc_conv)
  with rep_push [of s i fr cs f q v] show ?thesis by (auto simp: holds_def)
qed

lemma list_pop_refines:
  assumes "holds s f k" "f q = v # vs"
  shows "\<exists>s'. list_pop q s = Some (v, s') \<and> holds s' (f(q := vs)) (Suc k) \<and> numDiscs s' = numDiscs s \<and> numMoves s' = numMoves s"
proof -
  obtain fr cs where "rep s fr cs f" "length fr = k" using assms by (auto simp: holds_def)
  with rep_pop [of s fr cs f q v vs] assms(2) show ?thesis by (fastforce simp: holds_def)
qed

lemma holds_size: "holds s f k \<Longrightarrow> list_getSize (pegs s q) = int (length (f q))"
  by (auto simp: holds_def rep_def list_getSize_def vals_def) (metis length_map)

lemma list_clear_refines:
  assumes "holds s f k"
  shows "\<exists>s'. list_clear q s = Some s' \<and> holds s' (f(q := [])) (k + length (f q)) \<and>
    numDiscs s' = numDiscs s \<and> numMoves s' = numMoves s"
  using assms
proof (induction "f q" arbitrary: f s k)
  case Nil
  then have "f(q := []) = f" by auto
  with Nil holds_size [OF Nil.prems, of q] show ?case by (subst list_clear.simps) simp
next
  case (Cons v vs)
  obtain s1 where s1: "list_pop q s = Some (v, s1)" "holds s1 (f(q := vs)) (Suc k)"
      "numDiscs s1 = numDiscs s" "numMoves s1 = numMoves s"
    using list_pop_refines [OF Cons.prems, of q v vs] Cons.hyps(2) by auto
  have "0 < list_getSize (pegs s q)" using holds_size [OF Cons.prems, of q] Cons.hyps(2) by (metis length_greater_0_conv list.distinct(1) of_nat_0_less_iff)
  then have "list_clear q s = list_clear q s1" using s1(1) by (subst list_clear.simps) simp
  with Cons.hyps(1) [OF _ s1(2)] s1(3,4) Cons.hyps(2) [symmetric] show ?case by auto
qed

section \<open>The puzzle\<close>

text \<open>A legal move takes the top disc of a peg to a peg that is empty or has a larger disc on top.\<close>

definition legal :: "peg \<times> peg \<Rightarrow> puzzle \<Rightarrow> bool" where
  "legal m f \<longleftrightarrow> f (fst m) \<noteq> [] \<and> fst m \<noteq> snd m \<and> (f (snd m) = [] \<or> hd (f (fst m)) < hd (f (snd m)))"

definition play :: "peg \<times> peg \<Rightarrow> puzzle \<Rightarrow> puzzle" where
  "play m f = f(fst m := tl (f (fst m)), snd m := hd (f (fst m)) # f (snd m))"

fun legal_moves :: "(peg \<times> peg) list \<Rightarrow> puzzle \<Rightarrow> bool" where
  "legal_moves [] f \<longleftrightarrow> True"
| "legal_moves (m # ms) f \<longleftrightarrow> legal m f \<and> legal_moves ms (play m f)"

fun hanoi :: "nat \<Rightarrow> peg \<Rightarrow> peg \<Rightarrow> peg \<Rightarrow> (peg \<times> peg) list" where
  "hanoi 0 a b c = []"
| "hanoi (Suc n) a b c = hanoi n a c b @ (a, c) # hanoi n b a c"

lemma length_hanoi: "length (hanoi n a b c) = 2 ^ n - 1"
proof (induction n arbitrary: a b c)
  case (Suc n)
  have "0 < (2 :: nat) ^ n" by simp
  with Suc show ?case by (auto simp: Suc_diff_le)
qed simp

lemma legal_moves_append: "legal_moves (xs @ ys) f \<longleftrightarrow> legal_moves xs f \<and> legal_moves ys (fold play xs f)"
  by (induction xs arbitrary: f) auto

text \<open>The \<open>n\<close> smallest discs, from the top.\<close>

definition discs :: "nat \<Rightarrow> int list" where
  "discs n = map int [1..<Suc n]"

lemma discs_simps [simp]: "discs 0 = []" "discs (Suc n) = discs n @ [int (Suc n)]" "length (discs n) = n"
  by (simp_all add: discs_def)

lemma hanoi_legal:
  assumes "distinct [a, b, c]" "f a = discs n @ r" "\<forall>x \<in> set r \<union> set (f b) \<union> set (f c). int n < x"
  shows "legal_moves (hanoi n a b c) f \<and> fold play (hanoi n a b c) f = f(a := r, c := discs n @ f c)"
  using assms
proof (induction n arbitrary: a b c f r)
  case 0
  then show ?case by auto
next
  case (Suc n)
  let ?m = "int (Suc n)"
  have d: "a \<noteq> b" "a \<noteq> c" "b \<noteq> c" using Suc.prems(1) by auto
  have fa: "f a = discs n @ ?m # r" using Suc.prems(2) by simp
  have lt: "int n < x" if "x \<in> set r \<union> set (f b) \<union> set (f c)" for x
    using bspec [OF Suc.prems(3) that] by simp
  then have big: "\<forall>x \<in> set (?m # r) \<union> set (f c) \<union> set (f b). int n < x" by auto
  let ?f1 = "f(a := ?m # r, b := discs n @ f b)"
  have 1: "legal_moves (hanoi n a c b) f" "fold play (hanoi n a c b) f = ?f1"
    using Suc.IH [of a c b f "?m # r", OF _ fa big] d by auto
  let ?f2 = "f(a := r, b := discs n @ f b, c := ?m # f c)"
  have 2: "legal (a, c) ?f1" using Suc.prems(3) d by (cases "f c") (auto simp: legal_def)
  have f2: "play (a, c) ?f1 = ?f2" using d by (auto simp: play_def)
  have dist: "distinct [b, a, c]" using d by auto
  have f2b: "?f2 b = discs n @ f b" "\<forall>x \<in> set (f b) \<union> set (?f2 a) \<union> set (?f2 c). int n < x"
    using d lt by auto
  have 3: "legal_moves (hanoi n b a c) ?f2" "fold play (hanoi n b a c) ?f2 = ?f2(b := f b, c := discs n @ ?f2 c)"
    using Suc.IH [OF dist f2b] by blast+
  have "fold play (hanoi (Suc n) a b c) f = f(a := r, c := discs (Suc n) @ f c)"
    using d by (simp only: hanoi.simps fold_append fold_simps o_apply 1(2) f2 3(2)) auto
  moreover have "legal_moves (hanoi (Suc n) a b c) f"
    using 1 2 3(1) by (simp only: hanoi.simps legal_moves_append legal_moves.simps f2 1(2))
  ultimately show ?case by blast
qed

section \<open>The solver\<close>

fun run_moves :: "(peg \<times> peg \<Rightarrow> 's \<Rightarrow> 's option) \<Rightarrow> (peg \<times> peg) list \<Rightarrow> 's \<Rightarrow> 's option" where
  "run_moves mv [] s = Some s"
| "run_moves mv (m # ms) s = do { s \<leftarrow> mv m s; run_moves mv ms s }"

lemma run_moves_append: "run_moves mv (xs @ ys) s = do { s \<leftarrow> run_moves mv xs s; run_moves mv ys s }"
  by (induction xs arbitrary: s) (auto intro!: Option.bind_cong)

text \<open>The recursive solver performs the moves of \<open>hanoi\<close>, one after the other.\<close>

lemma towers_solve_h_moves:
  assumes "Suc n \<le> 2147483647"
  shows "towers_solve_h (int (Suc n)) a b c s = run_moves move_disc (hanoi (Suc n) a b c) s"
  using assms
proof (induction n arbitrary: a b c s)
  case 0
  have "run_moves move_disc [] = Some" by (simp add: fun_eq_iff)
  then show ?case by (subst towers_solve_h.simps) simp
next
  case (Suc n)
  have one: "towers_solve_h 1 a b c s = move_disc (a, c) s" for s by (subst towers_solve_h.simps) simp
  have IH: "towers_solve_h (1 + int n) a b c = run_moves move_disc (hanoi (Suc n) a b c)" for a b c
    using Suc.IH [of a b c] Suc.prems by (simp add: fun_eq_iff del: hanoi.simps)
  have "chk (int (Suc (Suc n)) - 1) = Some (1 + int n)" using Suc.prems by simp
  note u = this
  have "towers_solve_h (int (Suc (Suc n))) a b c s =
      do { s \<leftarrow> run_moves move_disc (hanoi (Suc n) a c b) s; s \<leftarrow> move_disc (a, c) s;
           run_moves move_disc (hanoi (Suc n) b a c) s }"
    by (subst towers_solve_h.simps) (simp add: one IH u [simplified] del: hanoi.simps)
  then show ?case by (simp only: hanoi.simps(2) [of "Suc n"] run_moves_append run_moves.simps)
qed

text \<open>The interface between the solver and the data structure: a state that represents a puzzle
  can perform every legal move and then represents the puzzle after the move.\<close>

locale peg_machine =
  fixes mv :: "peg \<times> peg \<Rightarrow> 's \<Rightarrow> 's option" and shows_puzzle :: "'s \<Rightarrow> puzzle \<Rightarrow> bool" and moves :: "'s \<Rightarrow> int"
  assumes move_law: "shows_puzzle s f \<Longrightarrow> legal m f \<Longrightarrow> 0 \<le> moves s \<Longrightarrow> moves s < 2147483647 \<Longrightarrow>
    \<exists>s'. mv m s = Some s' \<and> shows_puzzle s' (play m f) \<and> moves s' = moves s + 1"
    and overflow_law: "shows_puzzle s f \<Longrightarrow> legal m f \<Longrightarrow> moves s = 2147483647 \<Longrightarrow> mv m s = None"
begin

lemma run_legal:
  assumes "shows_puzzle s f" "legal_moves ms f" "0 \<le> moves s" "moves s + int (length ms) \<le> 2147483647"
  shows "\<exists>s'. run_moves mv ms s = Some s' \<and> shows_puzzle s' (fold play ms f) \<and> moves s' = moves s + int (length ms)"
  using assms
proof (induction ms arbitrary: s f)
  case (Cons m ms)
  obtain s1 where "mv m s = Some s1" "shows_puzzle s1 (play m f)" "moves s1 = moves s + 1"
    using move_law [of s f m] Cons.prems by auto
  with Cons.IH [of s1 "play m f"] Cons.prems(2-4) show ?case by auto
qed auto

lemma run_overflow:
  assumes "shows_puzzle s f" "legal_moves ms f" "0 \<le> moves s" "moves s \<le> 2147483647" "2147483647 < moves s + int (length ms)"
  shows "run_moves mv ms s = None"
  using assms
proof (induction ms arbitrary: s f)
  case (Cons m ms)
  show ?case
  proof (cases "moves s = 2147483647")
    case True
    with overflow_law [of s f m] Cons.prems show ?thesis by simp
  next
    case False
    then obtain s1 where "mv m s = Some s1" "shows_puzzle s1 (play m f)" "moves s1 = moves s + 1"
      using move_law [of s f m] Cons.prems by auto
    with Cons.IH [of s1 "play m f"] Cons.prems False show ?thesis by simp
  qed
qed simp

lemma run_hanoi:
  assumes "shows_puzzle s f" "distinct [a, b, c]" "f a = discs n @ r"
    "\<forall>x \<in> set r \<union> set (f b) \<union> set (f c). int n < x" "0 \<le> moves s" "moves s + 2 ^ n \<le> 2 ^ 31"
  shows "\<exists>s'. run_moves mv (hanoi n a b c) s = Some s' \<and>
    shows_puzzle s' (f(a := r, c := discs n @ f c)) \<and> moves s' = moves s + 2 ^ n - 1"
proof -
  have "int (2 ^ n - 1) = 2 ^ n - 1" by (simp add: of_nat_diff)
  with run_legal [OF assms(1), of "hanoi n a b c"] hanoi_legal [OF assms(2-4)] assms(5,6) show ?thesis
    by (simp add: length_hanoi add_diff_eq)
qed

end

definition displays :: "nat \<Rightarrow> int \<Rightarrow> tstate \<Rightarrow> puzzle \<Rightarrow> bool" where
  "displays k d s f \<longleftrightarrow> holds s f k \<and> numDiscs s = d"

lemma move_disc_refines:
  assumes "displays k d s f" "legal m f" "0 \<le> numMoves s" "numMoves s < 2147483647"
  shows "\<exists>s'. move_disc m s = Some s' \<and> displays k d s' (play m f) \<and> numMoves s' = numMoves s + 1"
proof -
  obtain p q where m: "m = (p, q)" by fastforce
  obtain v vs where f: "f p = v # vs" "p \<noteq> q" using assms(2) m by (cases "f p") (auto simp: legal_def)
  obtain s1 where 1: "list_pop p s = Some (v, s1)" "holds s1 (f(p := vs)) (Suc k)" "numDiscs s1 = d" "numMoves s1 = numMoves s"
    using list_pop_refines [of s f k p v vs] assms(1) f(1) by (auto simp: displays_def)
  obtain s2 where 2: "list_push q v s1 = Some s2" "holds s2 (play m f) k" "numDiscs s2 = d" "numMoves s2 = numMoves s"
    using list_push_refines [OF 1(2), of q v] 1(3,4) f by (auto simp: play_def m)
  have "holds (s2\<lparr>numMoves := x\<rparr>) g j = holds s2 g j" for x g j by (simp add: holds_def rep_def vals_def)
  with 1 2 m assms(3,4) show ?thesis by (simp add: move_disc_def displays_def)
qed

lemma move_disc_overflows:
  assumes "displays k d s f" "legal m f" "numMoves s = 2147483647"
  shows "move_disc m s = None"
proof -
  obtain p q where m: "m = (p, q)" by fastforce
  obtain v vs where f: "f p = v # vs" using assms(2) m by (cases "f p") (auto simp: legal_def)
  obtain s1 where 1: "list_pop p s = Some (v, s1)" "holds s1 (f(p := vs)) (Suc k)" "numMoves s1 = 2147483647"
    using list_pop_refines [of s f k p v vs] assms(1,3) f by (auto simp: displays_def)
  from list_push_refines [OF 1(2), of q v] 1 m show ?thesis by (auto simp: move_disc_def chk_def)
qed

interpretation tw: peg_machine move_disc "displays k d" numMoves for k d
  by unfold_locales (fact move_disc_refines, fact move_disc_overflows)

lemma moves_bound:
  assumes "0 \<le> m" "m + 2 ^ n \<le> (2 ^ 31 :: int)"
  shows "n \<le> 31"
proof -
  have "(2 :: int) ^ n \<le> 2 ^ 31" using assms by linarith
  then show ?thesis by (subst (asm) power_increasing_iff) simp_all
qed

lemma towers_solve_h_solves:
  assumes "holds s f k" "1 \<le> n" "distinct [a, b, c]" "f a = discs n @ r"
    "\<forall>x \<in> set r \<union> set (f b) \<union> set (f c). int n < x" "0 \<le> numMoves s" "numMoves s + 2 ^ n \<le> 2 ^ 31"
  shows "\<exists>s'. towers_solve_h (int n) a b c s = Some s' \<and> holds s' (f(a := r, c := discs n @ f c)) k \<and>
    numMoves s' = numMoves s + 2 ^ n - 1 \<and> numDiscs s' = numDiscs s"
proof -
  obtain m where n: "n = Suc m" using assms(2) by (cases n) auto
  have "displays k (numDiscs s) s f" using assms(1) by (simp add: displays_def)
  moreover have "Suc m \<le> 2147483647" using moves_bound [OF assms(6,7)] n by simp
  ultimately show ?thesis
    using tw.run_hanoi [of k "numDiscs s" s f a b c n r] assms(3-7)
    by (auto simp: displays_def n towers_solve_h_moves simp del: hanoi.simps of_nat_Suc)
qed

section \<open>The program\<close>

lemma rep_nodes_only: "g_nodePool s' = g_nodePool s \<Longrightarrow> g_nodeFreeList s' = g_nodeFreeList s \<Longrightarrow> pegs s' = pegs s \<Longrightarrow>
    holds s' f k = holds s f k"
  by (simp add: holds_def rep_def vals_def)

lemma towers_init_loop_refines:
  assumes "holds s f (length is + k)"
  shows "\<exists>s'. towers_init_loop is n s = Some s' \<and> holds s' (f(PegA := rev (map (\<lambda>i. n - int i) is) @ f PegA)) k \<and>
    numDiscs s' = numDiscs s \<and> numMoves s' = numMoves s"
  using assms
proof (induction "is" arbitrary: s f)
  case (Cons i "is")
  obtain s1 where 1: "list_push PegA (n - int i) s = Some s1" "holds s1 (f(PegA := (n - int i) # f PegA)) (length is + k)"
      "numDiscs s1 = numDiscs s" "numMoves s1 = numMoves s"
    using list_push_refines [of s f "length is + k" PegA "n - int i"] Cons.prems by auto
  from Cons.IH [OF 1(2)] 1(1,3,4) show ?case by (simp cong: if_cong)
qed auto

lemma rev_discs: "rev (map (\<lambda>i. int n - int i) [0..<n]) = discs n"
  by (rule nth_equalityI) (auto simp: discs_def rev_nth of_nat_diff simp del: upt_Suc)

definition start_puzzle :: "nat \<Rightarrow> puzzle" where
  "start_puzzle n = (\<lambda>q. if q = PegA then discs n else [])"

lemma towers_init_refines:
  assumes "chain (g_nodePool s) (lhead (g_nodeFreeList s)) fr" "distinct fr" "length fr = n + k"
    "length (g_nodePool s) \<le> 2147483647"
  shows "\<exists>s'. towers_init (int n) s = Some s' \<and> holds s' (start_puzzle n) k \<and> numDiscs s' = int n \<and> numMoves s' = 0"
proof -
  define s0 where "s0 = put_list PegC list_init (put_list PegB list_init (put_list PegA list_init (s\<lparr>numDiscs := int n, numMoves := 0\<rparr>)))"
  have pegs: "pegs s0 q = list_init" for q by (cases q) (simp_all add: s0_def put_list_def)
  have "rep s0 fr (\<lambda>_. []) (\<lambda>_. [])"
    using assms(1,2,4) pegs by (simp add: rep_def s0_def put_list_def vals_def list_init_def)
  then have "holds s0 (\<lambda>_. []) (length [0..<n] + k)" using assms(3) by (auto simp: holds_def)
  moreover have "towers_init (int n) s = towers_init_loop [0..<n] (int n) s0"
    unfolding towers_init_def s0_def Let_def by simp
  moreover have "(\<lambda>_. [])(PegA := discs n @ []) = start_puzzle n" by (auto simp: start_puzzle_def)
  moreover have "numDiscs s0 = int n" "numMoves s0 = 0" by (simp_all add: s0_def put_list_def)
  ultimately show ?thesis using towers_init_loop_refines [of s0 "\<lambda>_. []" "[0..<n]" k "int n"] by (simp add: rev_discs)
qed

lemma holds_free: "holds s (\<lambda>_. []) k \<Longrightarrow> \<exists>fr. chain (g_nodePool s) (lhead (g_nodeFreeList s)) fr \<and> distinct fr \<and> length fr = k \<and>
    length (g_nodePool s) \<le> 2147483647"
  by (auto simp: holds_def rep_def)

lemma towers_clear_refines:
  assumes "holds s f k" "numDiscs s = int n" "k + length (f PegA) + length (f PegB) + length (f PegC) = n + j"
  shows "\<exists>s'. towers_clear s = Some s' \<and> holds s' (start_puzzle n) j \<and> numDiscs s' = int n \<and> numMoves s' = 0"
proof -
  obtain s1 where 1: "list_clear PegA s = Some s1" "holds s1 (f(PegA := [])) (k + length (f PegA))" "numDiscs s1 = int n"
    using list_clear_refines [OF assms(1), of PegA] assms(2) by auto
  obtain s2 where 2: "list_clear PegB s1 = Some s2"
      "holds s2 (f(PegA := [], PegB := [])) (k + length (f PegA) + length (f PegB))" "numDiscs s2 = int n"
    using list_clear_refines [OF 1(2), of PegB] 1(3) by auto
  have e: "f(PegA := [], PegB := [], PegC := []) = (\<lambda>_. [])"
  proof
    show "(f(PegA := [], PegB := [], PegC := [])) q = []" for q by (cases q) simp_all
  qed
  obtain s3 where 3: "list_clear PegC s2 = Some s3" "holds s3 (\<lambda>_. []) (n + j)" "numDiscs s3 = int n"
    using list_clear_refines [OF 2(2), of PegC] 2(3) assms(3) by (auto simp: e)
  from holds_free [OF 3(2)] obtain fr where "chain (g_nodePool s3) (lhead (g_nodeFreeList s3)) fr" "distinct fr" "length fr = n + j"
      "length (g_nodePool s3) \<le> 2147483647"
    by blast
  from towers_init_refines [OF this] 1(1) 2(1) 3(1,3) show ?thesis by (auto simp: towers_clear_def)
qed

definition solved_puzzle :: "nat \<Rightarrow> puzzle" where
  "solved_puzzle n = (\<lambda>q. if q = PegC then discs n else [])"

lemma towers_solve_refines:
  assumes "holds s (start_puzzle n) k" "numDiscs s = int n" "1 \<le> n" "0 \<le> numMoves s"
    "numMoves s + 2 ^ n \<le> 2 ^ 31"
  shows "\<exists>s'. towers_solve s = Some s' \<and> holds s' (solved_puzzle n) k \<and> numDiscs s' = int n \<and> numMoves s' = numMoves s + 2 ^ n - 1"
proof -
  have e: "(start_puzzle n)(PegA := [], PegC := discs n @ start_puzzle n PegC) = solved_puzzle n"
    by (auto simp: start_puzzle_def solved_puzzle_def)
  show ?thesis
    using towers_solve_h_solves [OF assms(1,3), of PegA PegB PegC "[]"] assms(2,4,5)
    unfolding e towers_solve_def by (auto simp: start_puzzle_def)
qed

lemma verify_discs_chain:
  assumes "chain (g_nodePool s) p is" "vals s is = map int [Suc d..<Suc d + length is]" "d + length is \<le> 2147483647"
  shows "verify_discs p (int d) s = Some (Some (int (d + length is)))"
  using assms
proof (induction "is" arbitrary: p d)
  case Nil
  then show ?case by (subst verify_discs.simps) simp
next
  case (Cons i "is")
  have u: "[Suc d..<Suc d + length (i # is)] = Suc d # [Suc (Suc d)..<Suc (Suc d) + length is]" by (simp add: upt_rec)
  have n: "nval (g_nodePool s ! i) = 1 + int d" "vals s is = map int [Suc (Suc d)..<Suc (Suc d) + length is]"
    using Cons.prems(2) unfolding u by (simp_all add: vals_def)
  have "verify_discs p (int d) s = verify_discs (nnext (g_nodePool s ! i)) (int (Suc d)) s"
    using Cons.prems(1,3) n(1) by (subst verify_discs.simps) (simp add: node_at_def add.commute)
  with Cons.IH [of "nnext (g_nodePool s ! i)" "Suc d"] Cons.prems(1,3) n(2) show ?case by simp
qed

lemma towers_verify_solved:
  assumes "holds s (solved_puzzle n) k" "numDiscs s = int n" "numMoves s = 2 ^ n - 1" "n \<le> 30"
  shows "towers_verify s = Some 0"
proof -
  obtain fr cs where rep: "rep s fr cs (solved_puzzle n)" using assms(1) by (auto simp: holds_def)
  have cs: "chain (g_nodePool s) (lhead (pegs s PegC)) (cs PegC)" "vals s (cs PegC) = discs n"
    using rep_peg(1,5) [OF rep, of PegC] by (auto simp: solved_puzzle_def)
  then have l: "length (cs PegC) = n" by (metis discs_simps(3) length_map vals_def)
  then have "vals s (cs PegC) = map int [Suc 0..<Suc 0 + length (cs PegC)]" using cs(2) by (simp add: discs_def)
  from verify_discs_chain [OF cs(1) this]
  have "verify_discs (lhead (pegs s PegC)) 0 s = Some (Some (int n))" using l assms(4) by simp
  then show ?thesis
    using assms(2-4) holds_size [OF assms(1)]
    by (simp add: towers_verify_def solved_puzzle_def push_bit_eq_mult)
qed

lemma init_pool_chain:
  assumes "length pool = 7"
  shows "\<exists>pool'. init_pool pool = Some pool' \<and> chain pool' (Some 0) [0, 1, 2, 3, 4, 5, 6] \<and> length pool' = 7"
proof -
  have u: "[0..<6] = [0, 1, 2, 3, 4, 5 :: nat]" by code_simp
  moreover have "pool \<noteq> []" using assms by auto
  ultimately show ?thesis using assms by (simp add: init_pool_def NUM_DISCS_def)
qed

text \<open>C28. The towers of Hanoi program, with and without the preallocating run: whatever the initial
  content of the nodes, the program ends without following a null pointer and returns 0, that
  is, all checks of its result succeed.\<close>

theorem towers_main_succeeds:
  assumes "length (g_nodePool s) = NUM_DISCS"
  shows "towers_main preallocate s = Some 0"
proof -
  obtain pool where pool: "init_pool (g_nodePool s) = Some pool" "chain pool (Some 0) [0, 1, 2, 3, 4, 5, 6]" "length pool = 7"
    using init_pool_chain assms by (auto simp: NUM_DISCS_def)
  let ?s0 = "s\<lparr>g_nodeFreeList := \<lparr>lsize = int NUM_DISCS, lhead = Some 0\<rparr>, g_nodePool := pool\<rparr>"
  obtain s1 where 1: "towers_init (int NUM_DISCS) ?s0 = Some s1" "holds s1 (start_puzzle NUM_DISCS) 0"
      "numDiscs s1 = int NUM_DISCS" "numMoves s1 = 0"
    using towers_init_refines [of ?s0 "[0, 1, 2, 3, 4, 5, 6]" NUM_DISCS 0] pool(2) pool(3) by (auto simp: NUM_DISCS_def)
  have n: "1 \<le> NUM_DISCS" by (simp add: NUM_DISCS_def)
  obtain s2 f where 2: "(if preallocate then towers_solve s1 else Some s1) = Some s2" "holds s2 f 0" "numDiscs s2 = int NUM_DISCS"
      "length (f PegA) + length (f PegB) + length (f PegC) = NUM_DISCS"
  proof (cases preallocate)
    case True
    with towers_solve_refines [OF 1(2,3) n] 1(4) that show ?thesis by (auto simp: solved_puzzle_def NUM_DISCS_def)
  next
    case False
    with 1 that [of s1 "start_puzzle NUM_DISCS"] show ?thesis by (simp add: start_puzzle_def)
  qed
  obtain s3 where 3: "towers_clear s2 = Some s3" "holds s3 (start_puzzle NUM_DISCS) 0" "numDiscs s3 = int NUM_DISCS" "numMoves s3 = 0"
    using towers_clear_refines [OF 2(2,3), of 0] 2(4) by auto
  obtain s4 where 4: "towers_solve s3 = Some s4" "holds s4 (solved_puzzle NUM_DISCS) 0" "numDiscs s4 = int NUM_DISCS"
      "numMoves s4 = 2 ^ NUM_DISCS - 1"
    using towers_solve_refines [OF 3(2,3) n] 3(4) by (auto simp: NUM_DISCS_def)
  have "towers_verify s4 = Some 0" by (rule towers_verify_solved [OF 4(2-4)]) (simp add: NUM_DISCS_def)
  with pool(1) 1(1) 2(1) 3(1) 4(1) show ?thesis by (simp add: towers_main_def)
qed

theorem towers_main_succeeds_witness:
  "towers_main True \<lparr>g_nodeFreeList = list_init, g_nodePool = replicate 7 \<lparr>nval = 3, nnext = Some 1\<rparr>, numDiscs = 0, numMoves = 0,
     pegs = (\<lambda>_. list_init)\<rparr> = Some 0"
  by (rule towers_main_succeeds) (simp add: NUM_DISCS_def)

text \<open>C7. The recursive solver. As long as the move counter, an \<open>int\<close>, can count the moves: from a
  well-formed heap whose start peg carries the \<open>n\<close> smallest discs on top (all others are larger)
  it performs exactly the \<open>2 ^ n - 1\<close> moves of the recursive scheme, one disc at a time and never
  a larger disc onto a smaller one, without an overflow; it ends with these discs on the
  destination peg, everything else as before, and the move counter increased by \<open>2 ^ n - 1\<close>.
  Otherwise it runs into the overflow of the counter, which C leaves undefined (\<open>None\<close>).\<close>

theorem towers_solve_h_legal:
  assumes "holds s f k" "1 \<le> n" "distinct [a, b, c]" "f a = discs n @ r"
    "\<forall>x \<in> set r \<union> set (f b) \<union> set (f c). int n < x" "0 \<le> numMoves s" "numMoves s < 2 ^ 31" "int n < 2 ^ 31"
  shows "legal_moves (hanoi n a b c) f \<and> length (hanoi n a b c) = 2 ^ n - 1 \<and>
    towers_solve_h (int n) a b c s = run_moves move_disc (hanoi n a b c) s \<and>
    (if numMoves s + 2 ^ n \<le> 2 ^ 31
     then \<exists>s'. towers_solve_h (int n) a b c s = Some s' \<and> holds s' (f(a := r, c := discs n @ f c)) k \<and>
       numMoves s' = numMoves s + 2 ^ n - 1
     else towers_solve_h (int n) a b c s = None)"
proof -
  obtain m where n: "n = Suc m" using assms(2) by (cases n) auto
  have eq: "towers_solve_h (int n) a b c s = run_moves move_disc (hanoi n a b c) s"
    unfolding n by (rule towers_solve_h_moves) (use assms(8) n in simp)
  have l: "legal_moves (hanoi n a b c) f" using hanoi_legal [OF assms(3-5)] by blast
  show ?thesis
  proof (cases "numMoves s + 2 ^ n \<le> 2 ^ 31")
    case True
    with towers_solve_h_solves [OF assms(1-6)] eq l show ?thesis
      by (auto simp: length_hanoi simp del: hanoi.simps)
  next
    case False
    have "int (2 ^ n - 1) = 2 ^ n - 1" by (simp add: of_nat_diff)
    then have "run_moves move_disc (hanoi n a b c) s = None"
      using tw.run_overflow [of k "numDiscs s" s f "hanoi n a b c"] assms(1,6,7) l False
      by (simp add: displays_def length_hanoi)
    with False eq l show ?thesis by (simp add: length_hanoi)
  qed
qed

theorem towers_solve_h_legal_witness:
  "legal_moves (hanoi 3 PegA PegB PegC) (start_puzzle 3) \<and>
   (\<exists>s s'. towers_solve_h (int 3) PegA PegB PegC s = Some s' \<and> numMoves s' = numMoves s + 7)"
proof -
  let ?s = "\<lparr>g_nodeFreeList = \<lparr>lsize = 3, lhead = Some 0\<rparr>, g_nodePool = [\<lparr>nval = 0, nnext = Some 1\<rparr>, \<lparr>nval = 0, nnext = Some 2\<rparr>,
     \<lparr>nval = 0, nnext = None\<rparr>], numDiscs = 0, numMoves = 0, pegs = (\<lambda>_. list_init)\<rparr>"
  obtain s where s: "holds s (start_puzzle 3) 0"
    "numMoves s = 0"
    using towers_init_refines [of ?s "[0, 1, 2]" 3 0] by auto
  have p: "start_puzzle 3 PegA = discs 3 @ []"
    "\<forall>x \<in> set [] \<union> set (start_puzzle 3 PegB) \<union> set (start_puzzle 3 PegC). int 3 < x" by (auto simp: start_puzzle_def)
  have "legal_moves (hanoi 3 PegA PegB PegC) (start_puzzle 3)"
    "\<exists>s'. towers_solve_h (int 3) PegA PegB PegC s = Some s' \<and> numMoves s' = numMoves s + 7"
    using towers_solve_h_legal [OF s(1) _ _ p] s(2) by (simp_all del: hanoi.simps) metis
  then show ?thesis by blast
qed

end
