(* ===== verification/App_Mm.thy ===== *)
theory App_Mm
  imports App_Util
begin

text \<open>
  The matrix multiplication \<open>sw/app/mm/mm.c\<close> with its register-blocked kernel \<open>sw/app/mm/rb.h\<close>:
  \<open>c += a * b\<close> by a naive triple loop, by blocks of 4 by 5 registers, and by cache blocks that are
  copied to aligned scratch arrays. A pointer into an array is the array and an offset. The
  operations on floating-point numbers are parameters (\<open>fpu\<close>); the correctness theorem is about
  exact arithmetic. C loops with a fixed step are \<open>forM\<close> over the list of their indices.
\<close>

section \<open>Loops\<close>

fun forM :: "'i list \<Rightarrow> ('i \<Rightarrow> 's \<Rightarrow> 's option) \<Rightarrow> 's \<Rightarrow> 's option" where
  "forM [] body s = Some s"
| "forM (i # is) body s = do { s \<leftarrow> body i s; forM is body s }"

function steps :: "nat \<Rightarrow> nat \<Rightarrow> nat \<Rightarrow> nat list" where
  "steps lo hi d = (if lo < hi \<and> 0 < d then lo # steps (lo + d) hi d else [])"
  by pat_completeness auto
termination by (relation "measure (\<lambda>(lo, hi, d). hi - lo)") auto

declare steps.simps [simp del]

section \<open>The program\<close>

record 'd fpu =
  ffma :: "'d \<Rightarrow> 'd \<Rightarrow> 'd \<Rightarrow> 'd"
  fplus :: "'d \<Rightarrow> 'd \<Rightarrow> 'd"
  fzero :: 'd

definition RBM :: nat where "RBM = 4"
definition RBN :: nat where "RBN = 5"
definition RBK :: nat where "RBK = 6"
definition CBM :: nat where "CBM = 24"
definition CBN :: nat where "CBN = 25"
definition CBK :: nat where "CBK = 24"

definition naive4 ::
  "'d fpu \<Rightarrow> 'd list \<Rightarrow> nat \<Rightarrow> nat \<Rightarrow> 'd list \<Rightarrow> nat \<Rightarrow> nat \<Rightarrow> nat \<Rightarrow> nat \<Rightarrow> nat \<Rightarrow> 'd \<times> 'd \<times> 'd \<times> 'd \<Rightarrow> ('d \<times> 'd \<times> 'd \<times> 'd) option" where
  "naive4 F a ao lda b bo ldb i j k = (\<lambda>(s0, s1, s2, s3).
     do { a0 \<leftarrow> aget a (ao + i * lda + k); b0 \<leftarrow> aget b (bo + k * ldb + j);
          a1 \<leftarrow> aget a (ao + i * lda + k + 1); b1 \<leftarrow> aget b (bo + (k + 1) * ldb + j);
          a2 \<leftarrow> aget a (ao + i * lda + k + 2); b2 \<leftarrow> aget b (bo + (k + 2) * ldb + j);
          a3 \<leftarrow> aget a (ao + i * lda + k + 3); b3 \<leftarrow> aget b (bo + (k + 3) * ldb + j);
          Some (ffma F a0 b0 s0, ffma F a1 b1 s1, ffma F a2 b2 s2, ffma F a3 b3 s3) })"

definition naive1 ::
  "'d fpu \<Rightarrow> 'd list \<Rightarrow> nat \<Rightarrow> nat \<Rightarrow> 'd list \<Rightarrow> nat \<Rightarrow> nat \<Rightarrow> nat \<Rightarrow> nat \<Rightarrow> nat \<Rightarrow> 'd \<Rightarrow> 'd option" where
  "naive1 F a ao lda b bo ldb i j k s0 =
     do { x \<leftarrow> aget a (ao + i * lda + k); y \<leftarrow> aget b (bo + k * ldb + j); Some (ffma F x y s0) }"

definition mm_naive ::
  "'d fpu \<Rightarrow> nat \<Rightarrow> nat \<Rightarrow> nat \<Rightarrow> 'd list \<Rightarrow> nat \<Rightarrow> nat \<Rightarrow> 'd list \<Rightarrow> nat \<Rightarrow> nat \<Rightarrow> nat \<Rightarrow> nat \<Rightarrow> 'd list \<Rightarrow> 'd list option" where
  "mm_naive F m n p a ao lda b bo ldb co ldc =
     forM [0..<m] (\<lambda>i. forM [0..<n] (\<lambda>j c.
       do { s0 \<leftarrow> aget c (co + i * ldc + j);
            (s0, s1, s2, s3) \<leftarrow> forM (steps 0 (p div 4 * 4) 4) (naive4 F a ao lda b bo ldb i j) (s0, fzero F, fzero F, fzero F);
            s0 \<leftarrow> forM [p div 4 * 4..<p] (naive1 F a ao lda b bo ldb i j) s0;
            aset c (co + i * ldc + j) (fplus F (fplus F s0 s1) (fplus F s2 s3)) }))"

text \<open>
  The kernel keeps a block of 4 by 5 results in the variables \<open>c_i_j\<close>, here the entry
  \<open>5 * i + j\<close> of a list. \<open>fma_reg\<close> is the statement \<open>c_i_j = fma (a_i[l], b_l[j], c_i_j)\<close> with
  the pointers \<open>a\<close> and \<open>b\<close> advanced by \<open>k\<close> columns and rows; the unrolled loop body has it for
  all \<open>l\<close>, \<open>i\<close>, \<open>j\<close> in lexicographic order.
\<close>

definition fma_reg ::
  "'d fpu \<Rightarrow> 'd list \<Rightarrow> nat \<Rightarrow> nat \<Rightarrow> 'd list \<Rightarrow> nat \<Rightarrow> nat \<Rightarrow> nat \<Rightarrow> nat \<times> nat \<times> nat \<Rightarrow> 'd list \<Rightarrow> 'd list option" where
  "fma_reg F a ao lda b bo ldb k = (\<lambda>(l, i, j) r.
     do { x \<leftarrow> aget a (ao + k + lda * i + l); y \<leftarrow> aget b (bo + k * ldb + ldb * l + j);
          z \<leftarrow> aget r (5 * i + j);
          aset r (5 * i + j) (ffma F x y z) })"

definition unrolled :: "nat \<Rightarrow> (nat \<times> nat \<times> nat) list" where
  "unrolled L = List.product [0..<L] (List.product [0..<4] [0..<5])"

definition load_regs :: "'d list \<Rightarrow> nat \<Rightarrow> nat \<Rightarrow> 'd list \<Rightarrow> 'd list option" where
  "load_regs c co ldc = forM (List.product [0..<4] [0..<5]) (\<lambda>(i, j) r. do { x \<leftarrow> aget c (co + ldc * i + j); Some (r @ [x]) })"

definition store_regs :: "'d list \<Rightarrow> nat \<Rightarrow> nat \<Rightarrow> 'd list \<Rightarrow> 'd list option" where
  "store_regs r co ldc =
     forM (List.product [0..<4] [0..<5]) (\<lambda>(i, j) c. do { x \<leftarrow> aget r (5 * i + j); aset c (co + ldc * i + j) x })"

definition kloop ::
  "'d fpu \<Rightarrow> nat \<Rightarrow> 'd list \<Rightarrow> nat \<Rightarrow> nat \<Rightarrow> 'd list \<Rightarrow> nat \<Rightarrow> nat \<Rightarrow> nat \<Rightarrow> nat \<Rightarrow> 'd list \<Rightarrow> 'd list option" where
  "kloop F p a ao lda b bo ldb co ldc c =
     do { r \<leftarrow> load_regs c co ldc [];
          r \<leftarrow> forM (steps 0 (p div RBK * RBK) RBK) (\<lambda>k. forM (unrolled 6) (fma_reg F a ao lda b bo ldb k)) r;
          r \<leftarrow> forM [p div RBK * RBK..<p] (\<lambda>k. forM (unrolled 1) (fma_reg F a ao lda b bo ldb k)) r;
          store_regs r co ldc c }"

definition mm_rb ::
  "'d fpu \<Rightarrow> nat \<Rightarrow> nat \<Rightarrow> nat \<Rightarrow> 'd list \<Rightarrow> nat \<Rightarrow> nat \<Rightarrow> 'd list \<Rightarrow> nat \<Rightarrow> nat \<Rightarrow> nat \<Rightarrow> nat \<Rightarrow> 'd list \<Rightarrow> 'd list option" where
  "mm_rb F m n p a ao lda b bo ldb co ldc c =
     do { let mb = m div RBM * RBM; let nb = n div RBN * RBN;
          c \<leftarrow> forM (steps 0 mb RBM) (\<lambda>i c.
            do { c \<leftarrow> forM (steps 0 nb RBN) (\<lambda>j. kloop F p a (ao + i * lda) lda b (bo + j) ldb (co + i * ldc + j) ldc) c;
                 mm_naive F RBM (n - nb) p a (ao + i * lda) lda b (bo + nb) ldb (co + i * ldc + nb) ldc c }) c;
          mm_naive F (m - mb) n p a (ao + mb * lda) lda b bo ldb (co + mb * ldc) ldc c }"

text \<open>\<open>repack\<close> copies a block of rows; the inner loop is unrolled eight times, with all loads before
  the stores.\<close>

definition repack8 :: "nat \<Rightarrow> nat \<Rightarrow> 'd list \<Rightarrow> nat \<Rightarrow> nat \<Rightarrow> nat \<Rightarrow> nat \<Rightarrow> 'd list \<Rightarrow> 'd list option" where
  "repack8 ao lda a0 o0 lda0 i j a =
     do { ts \<leftarrow> forM [0..<8] (\<lambda>l ts. do { x \<leftarrow> aget a0 (o0 + i * lda0 + j + l); Some (ts @ [x]) }) [];
          forM [0..<8] (\<lambda>l a. do { x \<leftarrow> aget ts l; aset a (ao + i * lda + j + l) x }) a }"

definition repack :: "nat \<Rightarrow> nat \<Rightarrow> 'd list \<Rightarrow> nat \<Rightarrow> nat \<Rightarrow> nat \<Rightarrow> nat \<Rightarrow> 'd list \<Rightarrow> 'd list option" where
  "repack ao lda a0 o0 lda0 m p =
     forM [0..<m] (\<lambda>i a.
       do { a \<leftarrow> forM (steps 0 (p div 8 * 8) 8) (repack8 ao lda a0 o0 lda0 i) a;
            forM [p div 8 * 8..<p] (\<lambda>j a. do { x \<leftarrow> aget a0 (o0 + i * lda0 + j); aset a (ao + i * lda + j) x }) a })"

text \<open>The cache-blocked product. \<open>u\<close> stands for the unknown content of the scratch arrays.\<close>

definition pack_blocks :: "nat \<Rightarrow> nat \<Rightarrow> nat \<Rightarrow> nat \<Rightarrow> 'd list \<Rightarrow> nat \<Rightarrow> nat \<Rightarrow> 'd list \<Rightarrow> 'd list option" where
  "pack_blocks mb nb BM BN a ao lda =
     forM (steps 0 mb BM) (\<lambda>i. forM (steps 0 nb BN) (\<lambda>j.
       repack ((nb div BN * (i div BM) + j div BN) * (BM * BN)) BN a (ao + i * lda + j) lda BM BN))"

definition mm_cb ::
  "'d fpu \<Rightarrow> 'd \<Rightarrow> nat \<Rightarrow> nat \<Rightarrow> nat \<Rightarrow> 'd list \<Rightarrow> nat \<Rightarrow> nat \<Rightarrow> 'd list \<Rightarrow> nat \<Rightarrow> nat \<Rightarrow> nat \<Rightarrow> nat \<Rightarrow> 'd list \<Rightarrow> 'd list option" where
  "mm_cb F u m n p a ao lda b bo ldb co ldc c =
     do { let nmb = m div CBM; let nnb = n div CBN; let npb = p div CBK;
          let mb = nmb * CBM; let nb = nnb * CBN; let pb = npb * CBK;
          a1 \<leftarrow> pack_blocks mb pb CBM CBK a ao lda (replicate (mb * pb) u);
          b1 \<leftarrow> pack_blocks pb nb CBK CBN b bo ldb (replicate (pb * nb) u);
          c1 \<leftarrow> pack_blocks mb nb CBM CBN c co ldc (replicate (mb * nb) u);
          (c1, c) \<leftarrow> forM (steps 0 mb CBM) (\<lambda>i (c1, c).
            do { c1 \<leftarrow> forM (steps 0 nb CBN) (\<lambda>j c1.
                   do { c1 \<leftarrow> forM (steps 0 pb CBK) (\<lambda>k.
                          mm_rb F CBM CBN CBK a1 ((npb * (i div CBM) + k div CBK) * (CBM * CBK)) CBK
                            b1 ((nnb * (k div CBK) + j div CBN) * (CBK * CBN)) CBN
                            ((nnb * (i div CBM) + j div CBN) * (CBM * CBN)) CBN) c1;
                        if pb < p
                        then mm_rb F CBM CBN (p - pb) a (ao + i * lda + pb) lda b (bo + pb * ldb + j) ldb
                               ((nnb * (i div CBM) + j div CBN) * (CBM * CBN)) CBN c1
                        else Some c1 }) c1;
                 c \<leftarrow> (if nb < n
                   then forM (steps 0 p CBK) (\<lambda>k.
                          mm_rb F CBM (n - nb) (min (p - k) CBK) a (ao + i * lda + k) lda b (bo + k * ldb + nb) ldb
                            (co + i * ldc + nb) ldc) c
                   else Some c);
                 Some (c1, c) }) (c1, c);
          c \<leftarrow> (if mb < m
            then forM (steps 0 n CBN) (\<lambda>j. forM (steps 0 p CBK) (\<lambda>k.
                   mm_rb F (m - mb) (min (n - j) CBN) (min (p - k) CBK) a (ao + mb * lda + k) lda b (bo + k * ldb + j) ldb
                     (co + mb * ldc + j) ldc)) c
            else Some c);
          forM (steps 0 mb CBM) (\<lambda>i. forM (steps 0 nb CBN) (\<lambda>j.
            repack (co + i * ldc + j) ldc c1 ((nnb * (i div CBM) + j div CBN) * (CBM * CBN)) CBN CBM CBN)) c }"

definition mm ::
  "'d fpu \<Rightarrow> 'd \<Rightarrow> nat \<Rightarrow> nat \<Rightarrow> nat \<Rightarrow> 'd list \<Rightarrow> nat \<Rightarrow> nat \<Rightarrow> 'd list \<Rightarrow> nat \<Rightarrow> nat \<Rightarrow> nat \<Rightarrow> nat \<Rightarrow> 'd list \<Rightarrow> 'd list option" where
  "mm F u m n p a ao lda b bo ldb co ldc c =
     (if m \<le> 2 * CBM \<and> n \<le> 2 * CBN \<and> p \<le> 2 * CBK
      then mm_rb F m n p a ao lda b bo ldb co ldc c
      else mm_cb F u m n p a ao lda b bo ldb co ldc c)"

lemmas block_sizes = RBM_def RBN_def RBK_def CBM_def CBN_def CBK_def

section \<open>Loop lemmas\<close>

lemma steps_bound: "k \<in> set (steps lo hi d) \<Longrightarrow> lo \<le> k \<and> k < hi"
proof (induction lo hi d rule: steps.induct)
  case (1 lo hi d)
  from 1(2) have "lo < hi \<and> 0 < d \<and> (k = lo \<or> k \<in> set (steps (lo + d) hi d))"
    by (subst (asm) steps.simps) (auto split: if_splits)
  with 1(1) show ?case by auto
qed

lemma steps_block:
  assumes "k \<in> set (steps 0 (r * d) d)"
  shows "k + d \<le> r * d" "d dvd k"
proof -
  have "d dvd k" if "k \<in> set (steps lo hi d)" "d dvd lo" for lo hi
    using that
  proof (induction lo hi d rule: steps.induct)
    case (1 lo hi d)
    from 1(2) have "lo < hi \<and> 0 < d \<and> (k = lo \<or> k \<in> set (steps (lo + d) hi d))"
      by (subst (asm) steps.simps) (auto split: if_splits)
    with 1(1,3) show ?case by auto
  qed
  from this [OF assms] show "d dvd k" by simp
  then obtain q where q: "k = d * q" by auto
  have "d * q < r * d" using steps_bound [OF assms] q by simp
  then have "q < r" by (metis mult.commute mult_less_cancel1)
  then have "d * Suc q \<le> d * r" by (intro mult_le_mono2) simp
  then show "k + d \<le> r * d" by (simp add: q mult.commute)
qed

lemma sum_steps:
  fixes f :: "nat \<Rightarrow> 'd::comm_monoid_add"
  assumes "0 < d" "lo \<le> hi"
  shows "(\<Sum>k\<leftarrow>steps lo hi d. \<Sum>k'<min (hi - k) d. f (k + k')) = (\<Sum>k = lo..<hi. f k)"
  using assms(2)
proof (induction "hi - lo" arbitrary: lo rule: less_induct)
  case less
  show ?case
  proof (cases "lo < hi")
    case True
    have shift: "(\<Sum>k'<w. f (lo + k')) = (\<Sum>k = lo..<lo + w. f k)" for w
      by (rule sum.reindex_bij_witness [of _ "\<lambda>k. k - lo" "\<lambda>k. lo + k"]) auto
    show ?thesis
    proof (cases "lo + d \<le> hi")
      case c: True
      have "(\<Sum>k = lo..<hi. f k) = (\<Sum>k = lo..<lo + d. f k) + (\<Sum>k = lo + d..<hi. f k)"
        using c by (simp add: sum.atLeastLessThan_concat)
      moreover have "min (hi - lo) d = d" "hi - (lo + d) < hi - lo" using c True assms(1) by auto
      ultimately show ?thesis using less.hyps [of "lo + d"] True c assms(1) shift [of d]
        by (subst steps.simps) simp
    next
      case c: False
      have "steps (lo + d) hi d = []" using c by (subst steps.simps) simp
      with True c assms(1) shift [of "hi - lo"] show ?thesis by (subst steps.simps) (simp add: min_def)
    qed
  next
    case False
    with less.prems show ?thesis by (subst steps.simps) simp
  qed
qed

lemma sum_steps_blocks:
  fixes f :: "nat \<Rightarrow> 'd::comm_monoid_add"
  assumes "0 < d"
  shows "(\<Sum>k\<leftarrow>steps 0 (r * d) d. \<Sum>k'<d. f (k + k')) = (\<Sum>k<r * d. f k)"
proof -
  have "min (r * d - k) d = d" if "k \<in> set (steps 0 (r * d) d)" for k using steps_block(1) [OF that] by simp
  then have "(\<Sum>k\<leftarrow>steps 0 (r * d) d. \<Sum>k'<d. f (k + k')) = (\<Sum>k\<leftarrow>steps 0 (r * d) d. \<Sum>k'<min (r * d - k) d. f (k + k'))"
    by (intro arg_cong [of _ _ sum_list] map_cong) auto
  also have "\<dots> = (\<Sum>k = 0..<r * d. f k)" using assms by (intro sum_steps) auto
  finally show ?thesis by (simp add: atLeast0LessThan)
qed

text \<open>A loop whose body adds to a total.\<close>

lemma forM_total:
  fixes tot :: "'s \<Rightarrow> 'd::comm_monoid_add"
  assumes "\<And>i s. i \<in> set is \<Longrightarrow> \<exists>s'. body i s = Some s' \<and> tot s' = tot s + g i"
  shows "\<exists>s'. forM is body s = Some s' \<and> tot s' = tot s + (\<Sum>i\<leftarrow>is. g i)"
  using assms
proof (induction "is" arbitrary: s)
  case (Cons i "is")
  obtain s1 where "body i s = Some s1" "tot s1 = tot s + g i" using Cons.prems [of i s] by auto
  with Cons.IH [of s1] Cons.prems show ?case by (auto simp: add.assoc)
qed auto

text \<open>Arrays: entries to which something is added, entries that are set.\<close>

definition adds :: "'d::comm_monoid_add list \<Rightarrow> 'd list \<Rightarrow> (nat \<Rightarrow> 'd) \<Rightarrow> bool" where
  "adds c c' g \<longleftrightarrow> length c' = length c \<and> (\<forall>q < length c. c' ! q = c ! q + g q)"

lemma adds_trans: "adds c c1 g \<Longrightarrow> adds c1 c2 h \<Longrightarrow> adds c c2 (\<lambda>q. g q + h q)"
  by (auto simp: adds_def add.assoc)

lemma adds_0: "adds c c (\<lambda>q. 0)"
  by (simp add: adds_def)

lemma adds_cong: "adds c c' g \<Longrightarrow> (\<And>q. g q = h q) \<Longrightarrow> adds c c' h"
  by (simp add: adds_def)

lemma forM_adds:
  assumes "\<And>i c. i \<in> set is \<Longrightarrow> length c = N \<Longrightarrow> \<exists>c'. body i c = Some c' \<and> adds c c' (g i)" "length c = N"
  shows "\<exists>c'. forM is body c = Some c' \<and> adds c c' (\<lambda>q. \<Sum>i\<leftarrow>is. g i q)"
  using assms
proof (induction "is" arbitrary: c)
  case Nil
  then show ?case by (simp add: adds_0)
next
  case (Cons i "is")
  obtain c1 where 1: "body i c = Some c1" "adds c c1 (g i)" using Cons.prems by fastforce
  then have "length c1 = N" using Cons.prems(2) by (simp add: adds_def)
  with Cons.IH [of c1] Cons.prems(1) obtain c2 where "forM is body c1 = Some c2" "adds c1 c2 (\<lambda>q. \<Sum>i\<leftarrow>is. g i q)" by auto
  with 1 adds_trans [OF 1(2)] show ?case by auto
qed

lemma forM_addsE:
  assumes "\<And>i c. i \<in> set is \<Longrightarrow> length c = N \<Longrightarrow> \<exists>c'. body i c = Some c' \<and> adds c c' (g i)" "length c = N"
    and "\<And>q. (\<Sum>i\<leftarrow>is. g i q) = G q"
  obtains c' where "forM is body c = Some c'" "adds c c' G"
proof -
  obtain c' where "forM is body c = Some c'" "adds c c' (\<lambda>q. \<Sum>i\<leftarrow>is. g i q)"
    using forM_adds [of "is" N body g c] assms(1,2) by blast
  with that [of c'] adds_cong [of c c' "\<lambda>q. \<Sum>i\<leftarrow>is. g i q" G] assms(3) show thesis by blast
qed

section \<open>The naive product\<close>

definition exact :: "'d::comm_semiring_1 fpu" where
  "exact = \<lparr>ffma = (\<lambda>x y z. x * y + z), fplus = (+), fzero = 0\<rparr>"

text \<open>A block of \<open>m\<close> rows and \<open>n\<close> columns at an offset lies inside of an array of \<open>N\<close> elements.\<close>

definition inb :: "nat \<Rightarrow> nat \<Rightarrow> nat \<Rightarrow> nat \<Rightarrow> nat \<Rightarrow> bool" where
  "inb N off ld m n \<longleftrightarrow> (\<forall>i < m. \<forall>j < n. off + i * ld + j < N)"

lemma inbD: "inb N off ld m n \<Longrightarrow> i < m \<Longrightarrow> j < n \<Longrightarrow> off + i * ld + j < N"
  by (simp add: inb_def)

lemma inb_sub:
  assumes "inb N off ld m n" "i + m' \<le> m" "j + n' \<le> n"
  shows "inb N (off + i * ld + j) ld m' n'"
  unfolding inb_def
proof (intro allI impI)
  fix i' j' assume "i' < m'" "j' < n'"
  then have "off + (i + i') * ld + (j + j') < N" using assms by (intro inbD [OF assms(1)]) auto
  then show "off + i * ld + j + i' * ld + j' < N" by (simp add: algebra_simps)
qed

definition term_at :: "'d::comm_semiring_1 list \<Rightarrow> nat \<Rightarrow> nat \<Rightarrow> 'd list \<Rightarrow> nat \<Rightarrow> nat \<Rightarrow> nat \<Rightarrow> nat \<Rightarrow> nat \<Rightarrow> 'd" where
  "term_at a ao lda b bo ldb i j k = a ! (ao + i * lda + k) * b ! (bo + k * ldb + j)"

text \<open>What the product adds at index \<open>q\<close> of the result array.\<close>

definition prod_inc ::
  "'d::comm_semiring_1 list \<Rightarrow> nat \<Rightarrow> nat \<Rightarrow> 'd list \<Rightarrow> nat \<Rightarrow> nat \<Rightarrow> nat \<Rightarrow> nat \<Rightarrow> nat \<Rightarrow> nat \<Rightarrow> nat \<Rightarrow> nat \<Rightarrow> 'd" where
  "prod_inc a ao lda b bo ldb co ldc m n p q =
     (\<Sum>i<m. \<Sum>j<n. \<Sum>k<p. if q = co + i * ldc + j then term_at a ao lda b bo ldb i j k else 0)"

lemma sum_lessThan_4: "(\<Sum>k<4. f k) = f 0 + f 1 + f 2 + f (3 :: nat)" for f :: "nat \<Rightarrow> 'd::comm_monoid_add"
  by (simp add: eval_nat_numeral add.assoc)

lemma naive_dot:
  assumes "inb (length a) ao lda m p" "inb (length b) bo ldb p n" "i < m" "j < n"
  shows "\<exists>t0 s1 s2 s3 s0. forM (steps 0 (p div 4 * 4) 4) (naive4 exact a ao lda b bo ldb i j) (x, 0, 0, 0) = Some (t0, s1, s2, s3) \<and>
    forM [p div 4 * 4..<p] (naive1 exact a ao lda b bo ldb i j) t0 = Some s0 \<and>
    (s0 + s1) + (s2 + s3) = x + (\<Sum>k<p. term_at a ao lda b bo ldb i j k)"
proof -
  let ?t = "term_at a ao lda b bo ldb i j" and ?tot = "\<lambda>(s0, s1, s2, s3). (s0 + s1) + (s2 + s3)"
  have A: "ao + i * lda + k < length a" "bo + k * ldb + j < length b" if "k < p" for k
    using inbD [OF assms(1) assms(3) that] inbD [OF assms(2) that assms(4)] by auto
  have "\<exists>s'. naive4 exact a ao lda b bo ldb i j k s = Some s' \<and> ?tot s' = ?tot s + (\<Sum>k'<4. ?t (k + k'))"
    if "k \<in> set (steps 0 (p div 4 * 4) 4)" for k s
  proof -
    have "p div 4 * 4 \<le> p" by simp
    then have k: "k < p" "k + 1 < p" "k + 2 < p" "k + 3 < p" using steps_block(1) [OF that] by linarith+
    show ?thesis
      using A(1) [OF k(1)] A(1) [OF k(2)] A(1) [OF k(3)] A(1) [OF k(4)] A(2) [OF k(1)] A(2) [OF k(2)] A(2) [OF k(3)] A(2) [OF k(4)]
      by (cases s) (simp add: naive4_def exact_def term_at_def sum_lessThan_4 ac_simps)
  qed
  from forM_total [of "steps 0 (p div 4 * 4) 4" "naive4 exact a ao lda b bo ldb i j" ?tot "\<lambda>k. \<Sum>k'<4. ?t (k + k')" "(x, 0, 0, 0)", OF this]
  obtain t0 s1 s2 s3 where 1: "forM (steps 0 (p div 4 * 4) 4) (naive4 exact a ao lda b bo ldb i j) (x, 0, 0, 0) = Some (t0, s1, s2, s3)"
      "(t0 + s1) + (s2 + s3) = x + (\<Sum>k<p div 4 * 4. ?t k)"
    by (auto simp: sum_steps_blocks)
  have "\<exists>s'. naive1 exact a ao lda b bo ldb i j k s = Some s' \<and> s' = s + ?t k" if "k \<in> set [p div 4 * 4..<p]" for k s
    using A [of k] that by (simp add: naive1_def exact_def term_at_def add.commute)
  from forM_total [of "[p div 4 * 4..<p]" "naive1 exact a ao lda b bo ldb i j" "\<lambda>s. s" ?t t0, OF this]
  have 2: "forM [p div 4 * 4..<p] (naive1 exact a ao lda b bo ldb i j) t0 = Some (t0 + (\<Sum>k = p div 4 * 4..<p. ?t k))"
    by (simp add: interv_sum_list_conv_sum_set_nat)
  have "(\<Sum>k<p. ?t k) = (\<Sum>k<p div 4 * 4. ?t k) + (\<Sum>k = p div 4 * 4..<p. ?t k)"
    by (simp add: lessThan_atLeast0 sum.atLeastLessThan_concat)
  moreover have "(t0 + S + s1) + (s2 + s3) = (t0 + s1) + (s2 + s3) + S" for S by (simp add: ac_simps)
  ultimately have "(t0 + (\<Sum>k = p div 4 * 4..<p. ?t k) + s1) + (s2 + s3) = x + (\<Sum>k<p. ?t k)"
    by (metis 1(2) add.assoc)
  with 1(1) 2 show ?thesis by blast
qed

lemma mm_naive_adds:
  assumes "inb (length a) ao lda m p" "inb (length b) bo ldb p n" "inb (length c) co ldc m n"
  shows "\<exists>c'. mm_naive exact m n p a ao lda b bo ldb co ldc c = Some c' \<and> adds c c' (prod_inc a ao lda b bo ldb co ldc m n p)"
proof -
  let ?t = "term_at a ao lda b bo ldb"
  let ?g = "\<lambda>i j q. \<Sum>k<p. if q = co + i * ldc + j then ?t i j k else 0"
  define cell where "cell i j c = do { s0 \<leftarrow> aget c (co + i * ldc + j);
            (s0, s1, s2, s3) \<leftarrow> forM (steps 0 (p div 4 * 4) 4) (naive4 exact a ao lda b bo ldb i j) (s0, 0, 0, 0);
            s0 \<leftarrow> forM [p div 4 * 4..<p] (naive1 exact a ao lda b bo ldb i j) s0;
            aset c (co + i * ldc + j) ((s0 + s1) + (s2 + s3)) }" for i j and c :: "'a list"
  have cell: "\<exists>c'. cell i j d = Some c' \<and> adds d c' (?g i j)" if "i < m" "j < n" "length d = length c" for i j d
  proof -
    have q: "co + i * ldc + j < length d" using inbD [OF assms(3) that(1,2)] that(3) by simp
    with naive_dot [OF assms(1,2) that(1,2), of "d ! (co + i * ldc + j)"]
    have "cell i j d = Some (d[co + i * ldc + j := d ! (co + i * ldc + j) + (\<Sum>k<p. ?t i j k)])"
      by (auto simp: cell_def)
    with q show ?thesis by (auto simp: adds_def nth_list_update)
  qed
  have row: "\<exists>c'. forM [0..<n] (cell i) d = Some c' \<and> adds d c' (\<lambda>q. \<Sum>j<n. ?g i j q)" if "i < m" "length d = length c" for i d
    using forM_adds [of "[0..<n]" "length c" "cell i" "?g i" d] cell that
    by (simp add: interv_sum_list_conv_sum_set_nat atLeast0LessThan)
  have "\<exists>c'. forM [0..<m] (\<lambda>i. forM [0..<n] (cell i)) c = Some c' \<and> adds c c' (\<lambda>q. \<Sum>i<m. \<Sum>j<n. ?g i j q)"
    using forM_adds [of "[0..<m]" "length c" "\<lambda>i. forM [0..<n] (cell i)" "\<lambda>i q. \<Sum>j<n. ?g i j q" c] row
    by (simp add: interv_sum_list_conv_sum_set_nat atLeast0LessThan)
  then show ?thesis
    by (simp add: mm_naive_def cell_def [abs_def] exact_def prod_inc_def [abs_def])
qed

section \<open>The register-blocked kernel\<close>

lemma block_index_eq:
  assumes "j < ld" "j' < (ld :: nat)"
  shows "i * ld + j = i' * ld + j' \<longleftrightarrow> i = i' \<and> j = j'"
proof
  assume "i * ld + j = i' * ld + j'"
  then have "(i * ld + j) div ld = (i' * ld + j') div ld" "(i * ld + j) mod ld = (i' * ld + j') mod ld" by simp_all
  with assms show "i = i' \<and> j = j'" by simp
qed simp

lemma block_delta:
  fixes h :: "nat \<Rightarrow> nat \<Rightarrow> 'd::comm_monoid_add"
  assumes "n \<le> ld" "i < m" "j < n"
  shows "(\<Sum>i'<m. \<Sum>j'<n. if off + i * ld + j = off + i' * ld + j' then h i' j' else 0) = h i j"
proof -
  have e: "off + i * ld + j = off + i' * ld + j' \<longleftrightarrow> i' = i \<and> j' = j" if "j' < n" for i' j'
    using block_index_eq [of j ld j' i i'] assms that by auto
  have "(\<Sum>j'<n. if off + i * ld + j = off + i' * ld + j' then h i' j' else 0) = (if i' = i then h i' j else 0)" for i'
  proof -
    have "(\<Sum>j'<n. if off + i * ld + j = off + i' * ld + j' then h i' j' else 0) = (\<Sum>j'<n. if j' = j then (if i' = i then h i' j' else 0) else 0)"
      by (intro sum.cong) (use e in auto)
    then show ?thesis using assms(3) by simp
  qed
  then show ?thesis using assms(2) by simp
qed

lemma sum_if_const: "(\<Sum>k\<in>K. if P then f k else 0) = (if P then \<Sum>k\<in>K. f k else 0)" for f :: "'a \<Rightarrow> 'd::comm_monoid_add"
  by simp

lemma prod_inc_in:
  assumes "n \<le> ldc" "i < m" "j < n"
  shows "prod_inc a ao lda b bo ldb co ldc m n p (co + i * ldc + j) = (\<Sum>k<p. term_at a ao lda b bo ldb i j k)"
  unfolding prod_inc_def sum_if_const by (rule block_delta [OF assms])

lemma prod_inc_out:
  assumes "\<And>i j. i < m \<Longrightarrow> j < n \<Longrightarrow> q \<noteq> co + i * ldc + j"
  shows "prod_inc a ao lda b bo ldb co ldc m n p q = 0"
  unfolding prod_inc_def using assms by (intro sum.neutral ballI) simp

definition sets :: "'d list \<Rightarrow> 'd list \<Rightarrow> nat set \<Rightarrow> (nat \<Rightarrow> 'd) \<Rightarrow> bool" where
  "sets c c' S T \<longleftrightarrow> length c' = length c \<and> (\<forall>q < length c. c' ! q = (if q \<in> S then T q else c ! q))"

lemma sets_trans: "sets c c1 S T \<Longrightarrow> sets c1 c2 S' T \<Longrightarrow> sets c c2 (S \<union> S') T"
  by (auto simp: sets_def)

lemma forM_sets:
  assumes "\<And>i c. i \<in> set is \<Longrightarrow> length c = N \<Longrightarrow> \<exists>c'. body i c = Some c' \<and> sets c c' (S i) T" "length c = N"
  shows "\<exists>c'. forM is body c = Some c' \<and> sets c c' (\<Union>i \<in> set is. S i) T"
  using assms
proof (induction "is" arbitrary: c)
  case (Cons i "is")
  obtain c1 where 1: "body i c = Some c1" "sets c c1 (S i) T" using Cons.prems by fastforce
  then have "length c1 = N" using Cons.prems(2) by (simp add: sets_def)
  with Cons.IH [of c1] Cons.prems(1) obtain c2 where "forM is body c1 = Some c2" "sets c1 c2 (\<Union>i \<in> set is. S i) T" by auto
  with 1 sets_trans [OF 1(2)] show ?case by auto
qed (simp add: sets_def)

lemma aset_sets: "q < length c \<Longrightarrow> x = T q \<Longrightarrow> \<exists>c'. aset c q x = Some c' \<and> sets c c' {q} T"
  by (simp add: sets_def nth_list_update)

lemma forM_collect:
  assumes "\<And>p. p \<in> set ps \<Longrightarrow> get p = Some (f p)"
  shows "forM ps (\<lambda>p r. do { x \<leftarrow> get p; Some (r @ [x]) }) r = Some (r @ map f ps)"
  using assms by (induction ps arbitrary: r) auto

lemma sum_list_product: "(\<Sum>p\<leftarrow>List.product xs ys. f p) = (\<Sum>x\<leftarrow>xs. \<Sum>y\<leftarrow>ys. f (x, y))" for f :: "_ \<Rightarrow> 'd::comm_monoid_add"
  by (induction xs) (auto simp: o_def)

lemma load_regs_run:
  assumes "inb (length c) co ldc 4 5"
  shows "\<exists>r. load_regs c co ldc [] = Some r \<and> length r = 20 \<and> (\<forall>i < 4. \<forall>j < 5. r ! (5 * i + j) = c ! (co + i * ldc + j))"
proof -
  let ?ps = "List.product [0..<4] [0..<5]"
  have "aget c (co + ldc * fst p + snd p) = Some (c ! (co + fst p * ldc + snd p))" if "p \<in> set ?ps" for p
    using inbD [OF assms, of "fst p" "snd p"] that by (auto simp: mult.commute)
  from forM_collect [of ?ps "\<lambda>p. aget c (co + ldc * fst p + snd p)" "\<lambda>p. c ! (co + fst p * ldc + snd p)" "[]", OF this]
  have "load_regs c co ldc [] = Some (map (\<lambda>p. c ! (co + fst p * ldc + snd p)) ?ps)"
    by (simp add: load_regs_def case_prod_unfold)
  moreover have "map (\<lambda>p. c ! (co + fst p * ldc + snd p)) ?ps ! (5 * i + j) = c ! (co + i * ldc + j)" if "i < 4" "j < 5" for i j
  proof -
    have "5 * i + j < length ?ps" using that by simp
    moreover have "(5 * i + j) div 5 = i" "(5 * i + j) mod 5 = j" using that by auto
    ultimately show ?thesis using that by (simp add: product_nth)
  qed
  ultimately show ?thesis by simp
qed

lemma fma_reg_adds:
  assumes "inb (length a) ao lda 4 p" "inb (length b) bo ldb p 5" "k + l < p" "i < 4" "j < 5" "length r = 20"
  shows "\<exists>r'. fma_reg exact a ao lda b bo ldb k (l, i, j) r = Some r' \<and>
    adds r r' (\<lambda>q. if q = 0 + i * 5 + j then term_at a ao lda b bo ldb i j (k + l) else 0)"
proof -
  have e: "ao + k + lda * i + l = ao + i * lda + (k + l)" "bo + k * ldb + ldb * l + j = bo + (k + l) * ldb + j" "i * 5 = 5 * i"
    by (simp_all add: algebra_simps)
  have "ao + i * lda + (k + l) < length a" "bo + (k + l) * ldb + j < length b" "5 * i + j < length r"
    using inbD [OF assms(1,4,3)] inbD [OF assms(2,3,5)] assms(4-6) by auto
  then have "fma_reg exact a ao lda b bo ldb k (l, i, j) r = Some (r[5 * i + j := term_at a ao lda b bo ldb i j (k + l) + r ! (5 * i + j)])"
    unfolding fma_reg_def prod.case e by (simp add: exact_def term_at_def)
  with \<open>5 * i + j < length r\<close> show ?thesis unfolding e by (auto simp: adds_def nth_list_update add.commute)
qed

lemma unrolled_adds:
  assumes "inb (length a) ao lda 4 p" "inb (length b) bo ldb p 5" "k + L \<le> p" "length r = 20"
  shows "\<exists>r'. forM (unrolled L) (fma_reg exact a ao lda b bo ldb k) r = Some r' \<and>
    adds r r' (\<lambda>q. \<Sum>l<L. \<Sum>i<4. \<Sum>j<5. if q = 0 + i * 5 + j then term_at a ao lda b bo ldb i j (k + l) else 0)"
proof -
  let ?g = "\<lambda>(l, i, j) q. if q = 0 + i * 5 + j then term_at a ao lda b bo ldb i j (k + l) else 0"
  have "\<exists>r'. fma_reg exact a ao lda b bo ldb k x r = Some r' \<and> adds r r' (?g x)"
    if m: "x \<in> set (unrolled L)" and len: "length r = 20" for x r
  proof -
    obtain l i j where x: "x = (l, i, j)" "l < L" "i < 4" "j < 5" using m by (auto simp: unrolled_def)
    have "k + l < p" using x(2) assms(3) by simp
    from fma_reg_adds [OF assms(1,2) this x(3,4) len] show ?thesis by (simp add: x(1))
  qed
  from forM_adds [of "unrolled L" 20 "fma_reg exact a ao lda b bo ldb k" ?g r, OF this assms(4)] show ?thesis
    by (simp add: unrolled_def sum_list_product interv_sum_list_conv_sum_set_nat atLeast0LessThan del: upt_Suc)
qed

lemma regs_adds:
  assumes "inb (length a) ao lda 4 p" "inb (length b) bo ldb p 5" "length r = 20"
  shows "\<exists>r1 r2. forM (steps 0 (p div RBK * RBK) RBK) (\<lambda>k. forM (unrolled 6) (fma_reg exact a ao lda b bo ldb k)) r = Some r1 \<and>
    forM [p div RBK * RBK..<p] (\<lambda>k. forM (unrolled 1) (fma_reg exact a ao lda b bo ldb k)) r1 = Some r2 \<and>
    length r2 = 20 \<and>
    (\<forall>i < 4. \<forall>j < 5. r2 ! (5 * i + j) = r ! (5 * i + j) + (\<Sum>k<p. term_at a ao lda b bo ldb i j k))"
proof -
  let ?P = "p div 6 * 6"
  let ?g = "\<lambda>k q. \<Sum>i<4. \<Sum>j<5. if q = 0 + i * 5 + j then term_at a ao lda b bo ldb i j k else 0"
  have P: "?P \<le> p" by simp
  have s6: "(\<Sum>k\<leftarrow>steps 0 ?P 6. \<Sum>l<6. ?g (k + l) q) = (\<Sum>k<?P. ?g k q)" for q
    by (rule sum_steps_blocks [of 6 "\<lambda>k. ?g k q" "p div 6"]) (rule zero_less_numeral)
  have "\<exists>r'. forM (unrolled 6) (fma_reg exact a ao lda b bo ldb k) r = Some r' \<and> adds r r' (\<lambda>q. \<Sum>l<6. ?g (k + l) q)"
    if "k \<in> set (steps 0 ?P 6)" "length r = 20" for k r
  proof -
    have "k + 6 \<le> p" using steps_block(1) [OF that(1)] P by linarith
    from unrolled_adds [OF assms(1,2) this that(2)] show ?thesis .
  qed
  from this assms(3) s6
  obtain r1 where 1: "forM (steps 0 ?P 6) (\<lambda>k. forM (unrolled 6) (fma_reg exact a ao lda b bo ldb k)) r = Some r1"
      "adds r r1 (\<lambda>q. \<Sum>k<?P. ?g k q)"
    by (rule forM_addsE [of "steps 0 ?P 6" 20 "\<lambda>k. forM (unrolled 6) (fma_reg exact a ao lda b bo ldb k)" "\<lambda>k q. \<Sum>l<6. ?g (k + l) q" r])
  have l1: "length r1 = 20" using 1(2) assms(3) by (simp add: adds_def)
  have "\<exists>r'. forM (unrolled 1) (fma_reg exact a ao lda b bo ldb k) r = Some r' \<and> adds r r' (?g k)"
    if k: "k \<in> set [?P..<p]" and len: "length r = 20" for k r
  proof -
    have "k + 1 \<le> p" using k by simp
    have one: "(\<Sum>l<1. h (k + l)) = h k" for h :: "nat \<Rightarrow> 'a" by simp
    obtain r' where "forM (unrolled 1) (fma_reg exact a ao lda b bo ldb k) r = Some r'" "adds r r' (\<lambda>q. \<Sum>l<1. ?g (k + l) q)"
      using unrolled_adds [OF assms(1,2) \<open>k + 1 \<le> p\<close> len] by blast
    moreover have "adds r r' (?g k)" by (rule adds_cong [OF calculation(2)]) (rule one)
    ultimately show ?thesis by blast
  qed
  from this l1 interv_sum_list_conv_sum_set_nat [of "\<lambda>k. ?g k _" ?P p, unfolded set_upt]
  obtain r2 where 2: "forM [?P..<p] (\<lambda>k. forM (unrolled 1) (fma_reg exact a ao lda b bo ldb k)) r1 = Some r2"
      "adds r1 r2 (\<lambda>q. \<Sum>k = ?P..<p. ?g k q)"
    by (rule forM_addsE [of "[?P..<p]" 20 "\<lambda>k. forM (unrolled 1) (fma_reg exact a ao lda b bo ldb k)" ?g r1])
  have split: "(\<Sum>k<?P. h k) + (\<Sum>k = ?P..<p. h k) = (\<Sum>k<p. h k)" for h :: "nat \<Rightarrow> 'a"
    using P by (simp add: lessThan_atLeast0 sum.atLeastLessThan_concat)
  have 3: "adds r r2 (\<lambda>q. \<Sum>k<p. ?g k q)" by (rule adds_cong [OF adds_trans [OF 1(2) 2(2)] split])
  have "r2 ! (5 * i + j) = r ! (5 * i + j) + (\<Sum>k<p. term_at a ao lda b bo ldb i j k)" if "i < 4" "j < 5" for i j
  proof -
    have "?g k (0 + i * 5 + j) = term_at a ao lda b bo ldb i j k" for k by (rule block_delta) (use that in auto)
    moreover have "5 * i + j = 0 + i * 5 + j" by simp
    ultimately have "(\<Sum>k<p. ?g k (5 * i + j)) = (\<Sum>k<p. term_at a ao lda b bo ldb i j k)" by presburger
    moreover have "5 * i + j < length r" using that assms(3) by simp
    ultimately show ?thesis using 3 unfolding adds_def by presburger
  qed
  moreover have "length r2 = 20" using 3 assms(3) unfolding adds_def by presburger
  ultimately show ?thesis using 1(1) 2(1) unfolding RBK_def by blast
qed

lemma store_regs_sets:
  assumes "inb (length c) co ldc 4 5" "length r = 20" "5 \<le> ldc"
    and "\<And>i j. i < 4 \<Longrightarrow> j < 5 \<Longrightarrow> T (co + i * ldc + j) = r ! (5 * i + j)"
  shows "\<exists>c'. store_regs r co ldc c = Some c' \<and> sets c c' {co + i * ldc + j |i j. i < 4 \<and> j < 5} T"
proof -
  let ?ps = "List.product [0..<4] [0..<5]"
  have "\<exists>c'. (case x of (i, j) \<Rightarrow> \<lambda>c. do { y \<leftarrow> aget r (5 * i + j); aset c (co + ldc * i + j) y }) d = Some c' \<and>
      sets d c' {co + fst x * ldc + snd x} T" if x: "x \<in> set ?ps" and l: "length d = length c" for x d
  proof -
    obtain i j where ij: "x = (i, j)" "i < 4" "j < 5" using x by auto
    have "co + i * ldc + j < length d" using inbD [OF assms(1) ij(2,3)] l by simp
    from aset_sets [OF this, of "r ! (5 * i + j)" T] assms(2,4) ij show ?thesis by (simp add: mult.commute)
  qed
  from forM_sets [of ?ps "length c" "\<lambda>(i, j) c. do { y \<leftarrow> aget r (5 * i + j); aset c (co + ldc * i + j) y }"
      "\<lambda>x. {co + fst x * ldc + snd x}" T c, OF this]
  obtain c' where "store_regs r co ldc c = Some c'" "sets c c' (\<Union>x \<in> set ?ps. {co + fst x * ldc + snd x}) T"
    unfolding store_regs_def by auto
  moreover have "(\<Union>x \<in> set ?ps. {co + fst x * ldc + snd x}) = {co + i * ldc + j |i j. i < 4 \<and> j < 5}" by force
  ultimately show ?thesis by auto
qed

lemma kloop_adds:
  assumes "inb (length a) ao lda 4 p" "inb (length b) bo ldb p 5" "inb (length c) co ldc 4 5" "5 \<le> ldc"
  shows "\<exists>c'. kloop exact p a ao lda b bo ldb co ldc c = Some c' \<and> adds c c' (prod_inc a ao lda b bo ldb co ldc 4 5 p)"
proof -
  let ?S = "{co + i * ldc + j |i j. i < 4 \<and> j < 5}" and ?inc = "prod_inc a ao lda b bo ldb co ldc 4 5 p"
  obtain r where r: "load_regs c co ldc [] = Some r" "length r = 20" "\<forall>i < 4. \<forall>j < 5. r ! (5 * i + j) = c ! (co + i * ldc + j)"
    using load_regs_run [OF assms(3)] by blast
  obtain r1 r2 where 2: "forM (steps 0 (p div RBK * RBK) RBK) (\<lambda>k. forM (unrolled 6) (fma_reg exact a ao lda b bo ldb k)) r = Some r1"
      "forM [p div RBK * RBK..<p] (\<lambda>k. forM (unrolled 1) (fma_reg exact a ao lda b bo ldb k)) r1 = Some r2" "length r2 = 20"
      "\<forall>i < 4. \<forall>j < 5. r2 ! (5 * i + j) = r ! (5 * i + j) + (\<Sum>k<p. term_at a ao lda b bo ldb i j k)"
    using regs_adds [OF assms(1,2) r(2)] by blast
  have in_blk: "?inc (co + i * ldc + j) = (\<Sum>k<p. term_at a ao lda b bo ldb i j k)" if "i < 4" "j < 5" for i j
    by (rule prod_inc_in [OF assms(4) that])
  obtain c' where c': "store_regs r2 co ldc c = Some c'" "sets c c' ?S (\<lambda>q. c ! q + ?inc q)"
    using store_regs_sets [OF assms(3) 2(3) assms(4), of "\<lambda>q. c ! q + ?inc q"] 2(4) r(3) in_blk by auto
  have "?inc q = 0" if "q \<notin> ?S" for q by (rule prod_inc_out) (use that in blast)
  with c'(2) have "adds c c' ?inc" by (auto simp: adds_def sets_def)
  with r(1) 2(1,2) c'(1) show ?thesis by (auto simp: kloop_def)
qed

section \<open>Blocks of the product\<close>

lemma sum_list_swap: "(\<Sum>j\<leftarrow>js. \<Sum>i\<in>I. f j i) = (\<Sum>i\<in>I. \<Sum>j\<leftarrow>js. f j i)" for f :: "_ \<Rightarrow> _ \<Rightarrow> 'd::comm_monoid_add"
  by (induction js) (simp_all add: sum.distrib)

lemma sum_split_at:
  fixes f :: "nat \<Rightarrow> 'd::comm_monoid_add"
  assumes "k \<le> n"
  shows "(\<Sum>j<k. f j) + (\<Sum>j'<n - k. f (k + j')) = (\<Sum>j<n. f j)"
proof -
  have "(\<Sum>j'<n - k. f (k + j')) = (\<Sum>j = k..<n. f j)"
    by (rule sum.reindex_bij_witness [of _ "\<lambda>j. j - k" "\<lambda>j. k + j"]) (use assms in auto)
  then show ?thesis using assms by (simp add: lessThan_atLeast0 sum.atLeastLessThan_concat)
qed

text \<open>Row and column blocks, with what is left at the right and at the bottom.\<close>

lemma block_rows_sum:
  fixes H :: "nat \<Rightarrow> nat \<Rightarrow> 'd::comm_monoid_add"
  assumes "0 < dn" "rn * dn \<le> n"
  shows "(\<Sum>j\<leftarrow>steps 0 (rn * dn) dn. \<Sum>i'<dm. \<Sum>j'<dn. H (i + i') (j + j')) + (\<Sum>i'<dm. \<Sum>j'<n - rn * dn. H (i + i') (rn * dn + j')) =
    (\<Sum>i'<dm. \<Sum>j<n. H (i + i') j)"
proof -
  have "(\<Sum>j\<leftarrow>steps 0 (rn * dn) dn. \<Sum>i'<dm. \<Sum>j'<dn. H (i + i') (j + j')) = (\<Sum>i'<dm. \<Sum>j<rn * dn. H (i + i') j)"
    by (subst sum_list_swap) (rule sum.cong [OF refl], rule sum_steps_blocks [OF assms(1)])
  then show ?thesis
    by (simp only: sum.distrib [symmetric]) (rule sum.cong [OF refl], rule sum_split_at [OF assms(2)])
qed

lemma block_sum:
  fixes H :: "nat \<Rightarrow> nat \<Rightarrow> 'd::comm_monoid_add"
  assumes "0 < dm" "0 < dn" "rm * dm \<le> m" "rn * dn \<le> n"
  shows "(\<Sum>i\<leftarrow>steps 0 (rm * dm) dm.
      (\<Sum>j\<leftarrow>steps 0 (rn * dn) dn. \<Sum>i'<dm. \<Sum>j'<dn. H (i + i') (j + j')) + (\<Sum>i'<dm. \<Sum>j'<n - rn * dn. H (i + i') (rn * dn + j'))) +
    (\<Sum>i'<m - rm * dm. \<Sum>j<n. H (rm * dm + i') j) = (\<Sum>i<m. \<Sum>j<n. H i j)"
proof -
  have "(\<Sum>i\<leftarrow>steps 0 (rm * dm) dm. \<Sum>i'<dm. \<Sum>j<n. H (i + i') j) = (\<Sum>i<rm * dm. \<Sum>j<n. H i j)"
    by (rule sum_steps_blocks [OF assms(1), of "\<lambda>i. \<Sum>j<n. H i j"])
  then show ?thesis
    using sum_split_at [OF assms(3), of "\<lambda>i. \<Sum>j<n. H i j"] unfolding block_rows_sum [OF assms(2,4)] by simp
qed

text \<open>One term of the product at its place in the result.\<close>

definition term_inc ::
  "'d::comm_semiring_1 list \<Rightarrow> nat \<Rightarrow> nat \<Rightarrow> 'd list \<Rightarrow> nat \<Rightarrow> nat \<Rightarrow> nat \<Rightarrow> nat \<Rightarrow> nat \<Rightarrow> nat \<Rightarrow> nat \<Rightarrow> nat \<Rightarrow> 'd" where
  "term_inc a ao lda b bo ldb co ldc q i j k = (if q = co + i * ldc + j then term_at a ao lda b bo ldb i j k else 0)"

lemma prod_inc_terms: "prod_inc a ao lda b bo ldb co ldc m n p q = (\<Sum>i<m. \<Sum>j<n. \<Sum>k<p. term_inc a ao lda b bo ldb co ldc q i j k)"
  by (simp add: prod_inc_def term_inc_def)

lemma prod_inc_shift:
  "prod_inc a (ao + i * lda + k) lda b (bo + k * ldb + j) ldb (co + i * ldc + j) ldc m n p q =
    (\<Sum>i'<m. \<Sum>j'<n. \<Sum>k'<p. term_inc a ao lda b bo ldb co ldc q (i + i') (j + j') (k + k'))"
  unfolding prod_inc_def term_inc_def term_at_def
proof (intro sum.cong refl)
  fix i' j' k'
  have "co + i * ldc + j + i' * ldc + j' = co + (i + i') * ldc + (j + j')"
    "ao + i * lda + k + i' * lda + k' = ao + (i + i') * lda + (k + k')"
    "bo + k * ldb + j + k' * ldb + j' = bo + (k + k') * ldb + (j + j')" by (simp_all add: algebra_simps)
  then show "(if q = co + i * ldc + j + i' * ldc + j' then a ! (ao + i * lda + k + i' * lda + k') * b ! (bo + k * ldb + j + k' * ldb + j') else 0) =
    (if q = co + (i + i') * ldc + (j + j') then a ! (ao + (i + i') * lda + (k + k')) * b ! (bo + (k + k') * ldb + (j + j')) else 0)"
    by presburger
qed

lemma prod_inc_shift_fun:
  "prod_inc a (ao + i * lda + k) lda b (bo + k * ldb + j) ldb (co + i * ldc + j) ldc m n p =
    (\<lambda>q. \<Sum>i'<m. \<Sum>j'<n. \<Sum>k'<p. term_inc a ao lda b bo ldb co ldc q (i + i') (j + j') (k + k'))"
  by (rule ext) (rule prod_inc_shift)

lemma prod_inc_shift_rows:
  "prod_inc a (ao + i * lda) lda b (bo + j) ldb (co + i * ldc + j) ldc m n p =
    (\<lambda>q. \<Sum>i'<m. \<Sum>j'<n. \<Sum>k<p. term_inc a ao lda b bo ldb co ldc q (i + i') (j + j') k)"
  using prod_inc_shift [of a ao i lda 0 b bo ldb j co ldc m n p] by (simp add: fun_eq_iff)

lemma mm_rb_adds:
  assumes "inb (length a) ao lda m p" "inb (length b) bo ldb p n" "inb (length c) co ldc m n" "n \<le> ldc"
  shows "\<exists>c'. mm_rb exact m n p a ao lda b bo ldb co ldc c = Some c' \<and> adds c c' (prod_inc a ao lda b bo ldb co ldc m n p)"
proof -
  let ?rm = "m div 4" and ?rn = "n div 5"
  let ?H = "\<lambda>q i j. \<Sum>k<p. term_inc a ao lda b bo ldb co ldc q i j k"
  let ?G = "\<lambda>i q. (\<Sum>j\<leftarrow>steps 0 (?rn * 5) 5. \<Sum>i'<4. \<Sum>j'<5. ?H q (i + i') (j + j')) +
    (\<Sum>i'<4. \<Sum>j'<n - ?rn * 5. ?H q (i + i') (?rn * 5 + j'))"
  have mb: "?rm * 4 \<le> m" "?rn * 5 \<le> n" by simp_all
  have row: "\<exists>c'. (do { d \<leftarrow> forM (steps 0 (?rn * 5) 5) (\<lambda>j. kloop exact p a (ao + i * lda) lda b (bo + j) ldb (co + i * ldc + j) ldc) d;
        mm_naive exact 4 (n - ?rn * 5) p a (ao + i * lda) lda b (bo + ?rn * 5) ldb (co + i * ldc + ?rn * 5) ldc d }) = Some c' \<and> adds d c' (?G i)"
    if i: "i \<in> set (steps 0 (?rm * 4) 4)" and len: "length d = length c" for i d
  proof -
    have im: "i + 4 \<le> m" using steps_block(1) [OF i] mb by linarith
    have A: "inb (length a) (ao + i * lda) lda 4 p" using inb_sub [OF assms(1) im, of 0 p] by simp
    have K: "\<exists>c'. kloop exact p a (ao + i * lda) lda b (bo + j) ldb (co + i * ldc + j) ldc d = Some c' \<and>
        adds d c' (\<lambda>q. \<Sum>i'<4. \<Sum>j'<5. ?H q (i + i') (j + j'))"
      if j: "j \<in> set (steps 0 (?rn * 5) 5)" and len: "length d = length c" for j d
    proof -
      have jn: "j + 5 \<le> n" using steps_block(1) [OF j] mb by linarith
      have "inb (length b) (bo + j) ldb p 5" "inb (length d) (co + i * ldc + j) ldc 4 5" "5 \<le> ldc"
        using inb_sub [OF assms(2), of 0 p j 5] inb_sub [OF assms(3) im jn] jn len assms(4) by simp_all
      from kloop_adds [OF A this] show ?thesis unfolding prod_inc_shift_rows .
    qed
    from K len refl obtain d1 where 1: "forM (steps 0 (?rn * 5) 5) (\<lambda>j. kloop exact p a (ao + i * lda) lda b (bo + j) ldb (co + i * ldc + j) ldc) d = Some d1"
        "adds d d1 (\<lambda>q. \<Sum>j\<leftarrow>steps 0 (?rn * 5) 5. \<Sum>i'<4. \<Sum>j'<5. ?H q (i + i') (j + j'))"
      by (rule forM_addsE)
    have "inb (length b) (bo + ?rn * 5) ldb p (n - ?rn * 5)" "inb (length d1) (co + i * ldc + ?rn * 5) ldc 4 (n - ?rn * 5)"
      using inb_sub [OF assms(2), of 0 p "?rn * 5" "n - ?rn * 5"] inb_sub [OF assms(3) im, of "?rn * 5" "n - ?rn * 5"] 1(2) mb len
      by (simp_all add: adds_def)
    from mm_naive_adds [OF A this] obtain d2 where
      "mm_naive exact 4 (n - ?rn * 5) p a (ao + i * lda) lda b (bo + ?rn * 5) ldb (co + i * ldc + ?rn * 5) ldc d1 = Some d2"
      "adds d1 d2 (\<lambda>q. \<Sum>i'<4. \<Sum>j'<n - ?rn * 5. ?H q (i + i') (?rn * 5 + j'))"
      unfolding prod_inc_shift_rows by blast
    with 1 adds_trans [OF 1(2)] show ?thesis by auto
  qed
  from row refl refl obtain c1 where 1:
    "forM (steps 0 (?rm * 4) 4) (\<lambda>i d. do { d \<leftarrow> forM (steps 0 (?rn * 5) 5) (\<lambda>j. kloop exact p a (ao + i * lda) lda b (bo + j) ldb (co + i * ldc + j) ldc) d;
        mm_naive exact 4 (n - ?rn * 5) p a (ao + i * lda) lda b (bo + ?rn * 5) ldb (co + i * ldc + ?rn * 5) ldc d }) c = Some c1"
    "adds c c1 (\<lambda>q. \<Sum>i\<leftarrow>steps 0 (?rm * 4) 4. ?G i q)" by (rule forM_addsE)
  have "inb (length a) (ao + ?rm * 4 * lda) lda (m - ?rm * 4) p" "inb (length c1) (co + ?rm * 4 * ldc) ldc (m - ?rm * 4) n"
    using inb_sub [OF assms(1), of "?rm * 4" "m - ?rm * 4" 0 p] inb_sub [OF assms(3), of "?rm * 4" "m - ?rm * 4" 0 n] 1(2) mb
    by (simp_all add: adds_def)
  from mm_naive_adds [OF this(1) assms(2) this(2)] obtain c2 where 2:
    "mm_naive exact (m - ?rm * 4) n p a (ao + ?rm * 4 * lda) lda b bo ldb (co + ?rm * 4 * ldc) ldc c1 = Some c2"
    "adds c1 c2 (\<lambda>q. \<Sum>i'<m - ?rm * 4. \<Sum>j<n. ?H q (?rm * 4 + i') j)"
    using prod_inc_shift_rows [of a ao "?rm * 4" lda b bo 0 ldb co ldc "m - ?rm * 4" n p] by auto
  have "adds c c2 (prod_inc a ao lda b bo ldb co ldc m n p)"
    by (rule adds_cong [OF adds_trans [OF 1(2) 2(2)]]) (unfold prod_inc_terms, rule block_sum, simp_all)
  with 1(1) 2(1) show ?thesis by (simp add: mm_rb_def block_sizes)
qed

section \<open>Copying blocks\<close>

lemma repack8_sets:
  assumes "\<And>l. l < 8 \<Longrightarrow> o0 + i * lda0 + j + l < length a0" "\<And>l. l < 8 \<Longrightarrow> ao + i * lda + j + l < length a"
    and "\<And>l. l < 8 \<Longrightarrow> T (ao + i * lda + j + l) = a0 ! (o0 + i * lda0 + j + l)"
  shows "\<exists>a'. repack8 ao lda a0 o0 lda0 i j a = Some a' \<and> sets a a' ((\<lambda>l. ao + i * lda + j + l) ` {..<8}) T"
proof -
  define ts where "ts = map (\<lambda>l. a0 ! (o0 + i * lda0 + j + l)) [0..<8]"
  have ts: "forM [0..<8] (\<lambda>l ts. do { x \<leftarrow> aget a0 (o0 + i * lda0 + j + l); Some (ts @ [x]) }) [] = Some ts"
    using forM_collect [of "[0..<8]" "\<lambda>l. aget a0 (o0 + i * lda0 + j + l)" "\<lambda>l. a0 ! (o0 + i * lda0 + j + l)" "[]"] assms(1)
    unfolding ts_def by simp
  have "\<exists>a'. (do { x \<leftarrow> aget ts l; aset d (ao + i * lda + j + l) x }) = Some a' \<and> sets d a' {ao + i * lda + j + l} T"
    if l: "l \<in> set [0..<8]" and len: "length d = length a" for l d
    using aset_sets [of "ao + i * lda + j + l" d "ts ! l" T] assms(2,3) l len by (simp add: ts_def)
  from forM_sets [of "[0..<8]" "length a" "\<lambda>l d. do { x \<leftarrow> aget ts l; aset d (ao + i * lda + j + l) x }" "\<lambda>l. {ao + i * lda + j + l}" T a, OF this]
  obtain a' where "forM [0..<8] (\<lambda>l d. do { x \<leftarrow> aget ts l; aset d (ao + i * lda + j + l) x }) a = Some a'"
      "sets a a' (\<Union>l \<in> set [0..<8]. {ao + i * lda + j + l}) T" by blast
  moreover have "(\<Union>l \<in> set [0..<8]. {ao + i * lda + j + l}) = (\<lambda>l. ao + i * lda + j + l) ` {..<8}" by auto
  ultimately show ?thesis using ts by (simp add: repack8_def)
qed

lemma steps_cover:
  assumes "0 < d"
  shows "(\<Union>j \<in> set (steps 0 (r * d) d). (+) j ` {..<d}) = {..<r * d}"
proof (intro equalityI subsetI)
  fix x assume "x \<in> (\<Union>j \<in> set (steps 0 (r * d) d). (+) j ` {..<d})"
  then obtain j l where "j \<in> set (steps 0 (r * d) d)" "l < d" "x = j + l" by auto
  with steps_block(1) [of j r d] show "x \<in> {..<r * d}" by simp
next
  have mem: "k \<in> set (steps lo hi d)" if "lo \<le> k" "k < hi" "d dvd k - lo" for lo hi k
    using that
  proof (induction "k - lo" arbitrary: lo rule: less_induct)
    case less
    show ?case
    proof (cases "k = lo")
      case True
      with less.prems assms show ?thesis by (subst steps.simps) simp
    next
      case False
      then have "d \<le> k - lo" using less.prems by (intro dvd_imp_le) auto
      then have "k \<in> set (steps (lo + d) hi d)"
        using less.prems False assms dvd_diff_nat [OF less.prems(3) dvd_refl] by (intro less.hyps) (simp_all add: diff_diff_left)
      with less.prems assms show ?thesis by (subst steps.simps) simp
    qed
  qed
  fix x assume x: "x \<in> {..<r * d}"
  have "x div d * d < r * d" using le_less_trans [OF div_times_less_eq_dividend [of x d]] x unfolding lessThan_iff .
  then have "x div d * d \<in> set (steps 0 (r * d) d)" by (intro mem) simp_all
  moreover have "x \<in> (+) (x div d * d) ` {..<d}"
    by (rule image_eqI [of _ _ "x mod d"]) (use assms in simp_all)
  ultimately show "x \<in> (\<Union>j \<in> set (steps 0 (r * d) d). (+) j ` {..<d})" by (rule UN_I)
qed

lemma repack_sets:
  assumes "inb (length a0) o0 lda0 m p" "inb (length a) ao lda m p"
    and "\<And>i j. i < m \<Longrightarrow> j < p \<Longrightarrow> T (ao + i * lda + j) = a0 ! (o0 + i * lda0 + j)"
  shows "\<exists>a'. repack ao lda a0 o0 lda0 m p a = Some a' \<and> sets a a' {ao + i * lda + j |i j. i < m \<and> j < p} T"
proof -
  let ?P = "p div 8 * 8"
  define row where "row i a = do { a \<leftarrow> forM (steps 0 ?P 8) (repack8 ao lda a0 o0 lda0 i) a;
      forM [?P..<p] (\<lambda>j a. do { x \<leftarrow> aget a0 (o0 + i * lda0 + j); aset a (ao + i * lda + j) x }) a }" for i and a :: "'a list"
  have P: "?P \<le> p" by simp
  have "\<exists>a'. row i d = Some a' \<and> sets d a' {ao + i * lda + j |j. j < p} T" if i: "i \<in> set [0..<m]" and len: "length d = length a" for i d
  proof -
    have im: "i < m" using i by simp
    have in0: "o0 + i * lda0 + j < length a0" "ao + i * lda + j < length a" if "j < p" for j
      using inbD [OF assms(1) im that] inbD [OF assms(2) im that] by simp_all
    have "\<exists>a'. repack8 ao lda a0 o0 lda0 i j e = Some a' \<and> sets e a' ((\<lambda>l. ao + i * lda + j + l) ` {..<8}) T"
      if j: "j \<in> set (steps 0 ?P 8)" and "length e = length a" for j e
    proof (rule repack8_sets)
      fix l :: nat assume "l < 8"
      then have "j + l < p" using steps_block(1) [OF j] P by linarith
      from in0 [OF this] assms(3) [OF im this] that(2)
      show "o0 + i * lda0 + j + l < length a0" "ao + i * lda + j + l < length e" "T (ao + i * lda + j + l) = a0 ! (o0 + i * lda0 + j + l)"
        by (simp_all add: add.assoc)
    qed
    from forM_sets [of "steps 0 ?P 8" "length a" "repack8 ao lda a0 o0 lda0 i" "\<lambda>j. (\<lambda>l. ao + i * lda + j + l) ` {..<8}" T d, OF this len]
    obtain d1 where 1: "forM (steps 0 ?P 8) (repack8 ao lda a0 o0 lda0 i) d = Some d1"
        "sets d d1 (\<Union>j \<in> set (steps 0 ?P 8). (\<lambda>l. ao + i * lda + j + l) ` {..<8}) T" by blast
    have l1: "length d1 = length a" using 1(2) len by (simp add: sets_def)
    have "\<exists>a'. (do { x \<leftarrow> aget a0 (o0 + i * lda0 + j); aset e (ao + i * lda + j) x }) = Some a' \<and> sets e a' {ao + i * lda + j} T"
      if j: "j \<in> set [?P..<p]" and "length e = length a" for j e
      using aset_sets [of "ao + i * lda + j" e "a0 ! (o0 + i * lda0 + j)" T] in0 [of j] assms(3) [OF im, of j] that by simp
    from forM_sets [of "[?P..<p]" "length a" "\<lambda>j a. do { x \<leftarrow> aget a0 (o0 + i * lda0 + j); aset a (ao + i * lda + j) x }" "\<lambda>j. {ao + i * lda + j}" T d1, OF this l1]
    obtain d2 where 2: "forM [?P..<p] (\<lambda>j a. do { x \<leftarrow> aget a0 (o0 + i * lda0 + j); aset a (ao + i * lda + j) x }) d1 = Some d2"
        "sets d1 d2 (\<Union>j \<in> set [?P..<p]. {ao + i * lda + j}) T" by blast
    have "(\<Union>j \<in> set (steps 0 ?P 8). (\<lambda>l. ao + i * lda + j + l) ` {..<8}) = (+) (ao + i * lda) ` (\<Union>j \<in> set (steps 0 ?P 8). (+) j ` {..<8})"
      by (auto simp: image_UN image_image add.assoc)
    also have "\<dots> = (+) (ao + i * lda) ` {..<?P}" unfolding steps_cover [of 8 "p div 8", OF zero_less_numeral] ..
    finally have "(\<Union>j \<in> set (steps 0 ?P 8). (\<lambda>l. ao + i * lda + j + l) ` {..<8}) \<union> (\<Union>j \<in> set [?P..<p]. {ao + i * lda + j}) =
        {ao + i * lda + j |j. j < p}"
      using P by (auto simp: not_less)
    with sets_trans [OF 1(2) 2(2)] 1(1) 2(1) show ?thesis by (simp add: row_def)
  qed
  from forM_sets [of "[0..<m]" "length a" row "\<lambda>i. {ao + i * lda + j |j. j < p}" T a, OF this]
  obtain a' where "forM [0..<m] row a = Some a'" "sets a a' (\<Union>i \<in> set [0..<m]. {ao + i * lda + j |j. j < p}) T" by blast
  moreover have "(\<Union>i \<in> set [0..<m]. {ao + i * lda + j |j. j < p}) = {ao + i * lda + j |i j. i < m \<and> j < p}" by auto blast
  ultimately show ?thesis by (simp add: repack_def row_def [abs_def])
qed

section \<open>Packed blocks\<close>

text \<open>Where the entry of row \<open>I\<close> and column \<open>J\<close> is in an array of \<open>rn\<close> blocks per block row.\<close>

definition pidx :: "nat \<Rightarrow> nat \<Rightarrow> nat \<Rightarrow> nat \<Rightarrow> nat \<Rightarrow> nat" where
  "pidx rn BM BN I J = (rn * (I div BM) + J div BN) * (BM * BN) + I mod BM * BN + J mod BN"

definition prow :: "nat \<Rightarrow> nat \<Rightarrow> nat \<Rightarrow> nat \<Rightarrow> nat" where
  "prow rn BM BN q = q div (BM * BN) div rn * BM + q mod (BM * BN) div BN"

definition pcol :: "nat \<Rightarrow> nat \<Rightarrow> nat \<Rightarrow> nat \<Rightarrow> nat" where
  "pcol rn BM BN q = q div (BM * BN) mod rn * BN + q mod (BM * BN) mod BN"

lemma pidx_offset:
  assumes "BM dvd i" "BN dvd j" "i' < BM" "j' < BN"
  shows "(rn * (i div BM) + j div BN) * (BM * BN) + i' * BN + j' = pidx rn BM BN (i + i') (j + j')"
  using assms by (auto simp: pidx_def elim!: dvdE)

lemma pidx_less_block:
  assumes "0 < BM" "0 < BN"
  shows "I mod BM * BN + J mod BN < BM * (BN :: nat)"
proof -
  have "I mod BM * BN + J mod BN < Suc (I mod BM) * BN" using assms by simp
  also have "\<dots> \<le> BM * BN" using assms by (intro mult_le_mono1 Suc_leI) simp
  finally show ?thesis .
qed

lemma div_less_rows: "J < rn * BN \<Longrightarrow> J div BN < (rn :: nat)"
  by (simp add: less_mult_imp_div_less)

lemma div_mod_block: "r < w \<Longrightarrow> (x * w + r) div w = x \<and> (x * w + r) mod w = (r :: nat)"
  by simp

lemma pidx_inverse:
  assumes "0 < BM" "0 < BN" "J < rn * BN"
  shows "prow rn BM BN (pidx rn BM BN I J) = I" "pcol rn BM BN (pidx rn BM BN I J) = J"
proof -
  let ?r = "I mod BM * BN + J mod BN"
  have "pidx rn BM BN I J = (rn * (I div BM) + J div BN) * (BM * BN) + ?r" by (simp add: pidx_def)
  then have d: "pidx rn BM BN I J div (BM * BN) = rn * (I div BM) + J div BN" "pidx rn BM BN I J mod (BM * BN) = ?r"
    using div_mod_block [OF pidx_less_block [OF assms(1,2), of I J]] by simp_all
  have "(rn * (I div BM) + J div BN) div rn = I div BM" "(rn * (I div BM) + J div BN) mod rn = J div BN"
    "?r div BN = I mod BM" "?r mod BN = J mod BN"
    using div_less_rows [OF assms(3)] assms(2) by auto
  with d show "prow rn BM BN (pidx rn BM BN I J) = I" "pcol rn BM BN (pidx rn BM BN I J) = J"
    by (simp_all add: prow_def pcol_def)
qed

lemma pidx_eq_iff:
  assumes "0 < BM" "0 < BN" "J < rn * BN" "J' < rn * BN"
  shows "pidx rn BM BN I J = pidx rn BM BN I' J' \<longleftrightarrow> I' = I \<and> J' = J"
  using pidx_inverse [OF assms(1,2,3)] pidx_inverse [OF assms(1,2,4)] by metis

lemma pidx_less:
  assumes "0 < BM" "0 < BN" "I < rm * BM" "J < rn * BN"
  shows "pidx rn BM BN I J < rm * BM * (rn * BN)"
proof -
  have "I div BM < rm" "J div BN < rn" using div_less_rows assms(3,4) by auto
  then have "rn * (I div BM) + J div BN < rn * Suc (I div BM)" "rn * Suc (I div BM) \<le> rn * rm" by (simp, intro mult_le_mono2) simp
  then have "Suc (rn * (I div BM) + J div BN) \<le> rn * rm" by linarith
  then have "Suc (rn * (I div BM) + J div BN) * (BM * BN) \<le> rn * rm * (BM * BN)" by (rule mult_le_mono1)
  with pidx_less_block [OF assms(1,2), of I J] have "pidx rn BM BN I J < rn * rm * (BM * BN)" by (simp add: pidx_def)
  then show ?thesis by (simp add: ac_simps)
qed

text \<open>Both the packing loop and the loop that copies back go over all blocks.\<close>

lemma forM_blocks:
  assumes "0 < BM" "0 < BN" "length c = N"
    and "\<And>i j d. i \<in> set (steps 0 (rm * BM) BM) \<Longrightarrow> j \<in> set (steps 0 (rn * BN) BN) \<Longrightarrow> length d = N \<Longrightarrow>
      \<exists>d'. body i j d = Some d' \<and> sets d d' {f (i + i') (j + j') |i' j'. i' < BM \<and> j' < BN} T"
  obtains c' where "forM (steps 0 (rm * BM) BM) (\<lambda>i. forM (steps 0 (rn * BN) BN) (body i)) c = Some c'"
    "sets c c' {f I J |I J. I < rm * BM \<and> J < rn * BN} T"
proof -
  let ?is = "steps 0 (rm * BM) BM" and ?js = "steps 0 (rn * BN) BN"
  let ?B = "\<lambda>i j. {f (i + i') (j + j') |i' j'. i' < BM \<and> j' < BN}"
  have row: "\<exists>d'. forM ?js (body i) d = Some d' \<and> sets d d' (\<Union>j \<in> set ?js. ?B i j) T" if "i \<in> set ?is" "length d = N" for i d
    using forM_sets [of ?js N "body i" "?B i" T d] assms(4) that by blast
  obtain c' where c': "forM ?is (\<lambda>i. forM ?js (body i)) c = Some c'" "sets c c' (\<Union>i \<in> set ?is. \<Union>j \<in> set ?js. ?B i j) T"
    using forM_sets [of ?is N "\<lambda>i. forM ?js (body i)" "\<lambda>i. \<Union>j \<in> set ?js. ?B i j" T c] row assms(3) by blast
  have "(\<Union>i \<in> set ?is. \<Union>j \<in> set ?js. ?B i j) =
      (\<Union>I \<in> (\<Union>i \<in> set ?is. (+) i ` {..<BM}). \<Union>J \<in> (\<Union>j \<in> set ?js. (+) j ` {..<BN}). {f I J})"
    by (auto simp: image_iff)
  also have "\<dots> = {f I J |I J. I < rm * BM \<and> J < rn * BN}"
    unfolding steps_cover [OF assms(1)] steps_cover [OF assms(2)] by auto
  finally have "sets c c' {f I J |I J. I < rm * BM \<and> J < rn * BN} T" using c'(2) by simp
  with c'(1) show thesis by (rule that)
qed

lemma pack_blocks_run:
  assumes "0 < BM" "0 < BN" "inb (length a) ao lda (rm * BM) (rn * BN)" "length arr = rm * BM * (rn * BN)"
  shows "\<exists>arr'. pack_blocks (rm * BM) (rn * BN) BM BN a ao lda arr = Some arr' \<and> length arr' = length arr \<and>
    (\<forall>I < rm * BM. \<forall>J < rn * BN. arr' ! pidx rn BM BN I J = a ! (ao + I * lda + J))"
proof -
  let ?T = "\<lambda>q. a ! (ao + prow rn BM BN q * lda + pcol rn BM BN q)"
  have "\<exists>d'. repack ((rn * (i div BM) + j div BN) * (BM * BN)) BN a (ao + i * lda + j) lda BM BN d = Some d' \<and>
      sets d d' {pidx rn BM BN (i + i') (j + j') |i' j'. i' < BM \<and> j' < BN} ?T"
    if i: "i \<in> set (steps 0 (rm * BM) BM)" and j: "j \<in> set (steps 0 (rn * BN) BN)" and len: "length d = length arr" for i j d
  proof -
    let ?o = "(rn * (i div BM) + j div BN) * (BM * BN)"
    have off: "?o + i' * BN + j' = pidx rn BM BN (i + i') (j + j')" if "i' < BM" "j' < BN" for i' j'
      using pidx_offset [OF steps_block(2) [OF i] steps_block(2) [OF j] that] .
    have lt: "i + i' < rm * BM" "j + j' < rn * BN" if "i' < BM" "j' < BN" for i' j'
      using steps_block(1) [OF i] steps_block(1) [OF j] that by linarith+
    have 1: "inb (length a) (ao + i * lda + j) lda BM BN"
      using inb_sub [OF assms(3)] steps_block(1) [OF i] steps_block(1) [OF j] by blast
    have 2: "inb (length d) ?o BN BM BN"
      unfolding inb_def using off lt pidx_less [OF assms(1,2)] len assms(4) by simp
    have 3: "?T (?o + i' * BN + j') = a ! (ao + i * lda + j + i' * lda + j')" if "i' < BM" "j' < BN" for i' j'
      using pidx_inverse [OF assms(1,2) lt(2) [OF that], of "i + i'"] unfolding off [OF that] by (simp add: algebra_simps)
    have "{?o + i' * BN + j' |i' j'. i' < BM \<and> j' < BN} = {pidx rn BM BN (i + i') (j + j') |i' j'. i' < BM \<and> j' < BN}"
      using off by (intro Collect_cong) metis
    with repack_sets [OF 1 2, of ?T] 3 show ?thesis by auto
  qed
  from assms(1,2) refl this obtain arr' where
      "forM (steps 0 (rm * BM) BM) (\<lambda>i. forM (steps 0 (rn * BN) BN)
        (\<lambda>j. repack ((rn * (i div BM) + j div BN) * (BM * BN)) BN a (ao + i * lda + j) lda BM BN)) arr = Some arr'"
      and s: "sets arr arr' {pidx rn BM BN I J |I J. I < rm * BM \<and> J < rn * BN} ?T"
    by (rule forM_blocks)
  then have run: "pack_blocks (rm * BM) (rn * BN) BM BN a ao lda arr = Some arr'"
    using assms(2) by (simp add: pack_blocks_def)
  have "arr' ! pidx rn BM BN I J = a ! (ao + I * lda + J)" if "I < rm * BM" "J < rn * BN" for I J
  proof -
    have "pidx rn BM BN I J < length arr" using pidx_less [OF assms(1,2) that] assms(4) by simp
    with s that have "arr' ! pidx rn BM BN I J = ?T (pidx rn BM BN I J)" by (auto simp: sets_def)
    then show ?thesis by (simp add: pidx_inverse [OF assms(1,2) that(2)])
  qed
  with run s show ?thesis by (auto simp: sets_def)
qed

section \<open>The cache-blocked product\<close>

lemma block_sizes_pos: "0 < CBM" "0 < CBN" "0 < CBK"
  by (simp_all add: block_sizes)

lemma pidx_inb:
  assumes "0 < BM" "0 < BN" "i \<in> set (steps 0 (rm * BM) BM)" "j \<in> set (steps 0 (rn * BN) BN)"
  shows "inb (rm * BM * (rn * BN)) ((rn * (i div BM) + j div BN) * (BM * BN)) BN BM BN"
  unfolding inb_def
proof (intro allI impI)
  fix i' j' assume l: "i' < BM" "j' < BN"
  then have "i + i' < rm * BM" "j + j' < rn * BN" using steps_block(1) [OF assms(3)] steps_block(1) [OF assms(4)] by linarith+
  from pidx_less [OF assms(1,2) this] show "(rn * (i div BM) + j div BN) * (BM * BN) + i' * BN + j' < rm * BM * (rn * BN)"
    unfolding pidx_offset [OF steps_block(2) [OF assms(3)] steps_block(2) [OF assms(4)] l] .
qed

text \<open>One term of the product at its place in the packed result.\<close>

definition pterm ::
  "nat \<Rightarrow> 'd::comm_semiring_1 list \<Rightarrow> nat \<Rightarrow> nat \<Rightarrow> 'd list \<Rightarrow> nat \<Rightarrow> nat \<Rightarrow> nat \<Rightarrow> nat \<Rightarrow> nat \<Rightarrow> nat \<Rightarrow> 'd" where
  "pterm rn a ao lda b bo ldb q I J k = (if q = pidx rn CBM CBN I J then term_at a ao lda b bo ldb I J k else 0)"

lemma pblock_inc:
  assumes "i \<in> set (steps 0 (rm * CBM) CBM)" "j \<in> set (steps 0 (rn * CBN) CBN)"
    and "\<And>i' k'. i' < CBM \<Longrightarrow> k' < len \<Longrightarrow> x ! (xo + i' * ldx + k') = a ! (ao + (i + i') * lda + (k + k'))"
    and "\<And>k' j'. k' < len \<Longrightarrow> j' < CBN \<Longrightarrow> y ! (yo + k' * ldy + j') = b ! (bo + (k + k') * ldb + (j + j'))"
  shows "prod_inc x xo ldx y yo ldy ((rn * (i div CBM) + j div CBN) * (CBM * CBN)) CBN CBM CBN len q =
    (\<Sum>i'<CBM. \<Sum>j'<CBN. \<Sum>k'<len. pterm rn a ao lda b bo ldb q (i + i') (j + j') (k + k'))"
  unfolding prod_inc_def
proof (intro sum.cong refl)
  fix i' j' k' assume "i' \<in> {..<CBM}" "j' \<in> {..<CBN}" "k' \<in> {..<len}"
  then have l: "i' < CBM" "j' < CBN" "k' < len" by auto
  show "(if q = (rn * (i div CBM) + j div CBN) * (CBM * CBN) + i' * CBN + j' then term_at x xo ldx y yo ldy i' j' k' else 0) =
      pterm rn a ao lda b bo ldb q (i + i') (j + j') (k + k')"
    unfolding pidx_offset [OF steps_block(2) [OF assms(1)] steps_block(2) [OF assms(2)] l(1,2)] pterm_def term_at_def
      assms(3) [OF l(1,3)] assms(4) [OF l(3,2)] by (rule refl)
qed

lemma cb_block_adds:
  assumes "inb (length a) ao lda (rm * CBM) p" "inb (length b) bo ldb p (rn * CBN)" "rp * CBK \<le> p"
    and "length a1 = rm * CBM * (rp * CBK)" "\<forall>I < rm * CBM. \<forall>K < rp * CBK. a1 ! pidx rp CBM CBK I K = a ! (ao + I * lda + K)"
    and "length b1 = rp * CBK * (rn * CBN)" "\<forall>K < rp * CBK. \<forall>J < rn * CBN. b1 ! pidx rn CBK CBN K J = b ! (bo + K * ldb + J)"
    and "i \<in> set (steps 0 (rm * CBM) CBM)" "j \<in> set (steps 0 (rn * CBN) CBN)" "length d = rm * CBM * (rn * CBN)"
  shows "\<exists>d'. (do { d \<leftarrow> forM (steps 0 (rp * CBK) CBK) (\<lambda>k.
           mm_rb exact CBM CBN CBK a1 ((rp * (i div CBM) + k div CBK) * (CBM * CBK)) CBK
             b1 ((rn * (k div CBK) + j div CBN) * (CBK * CBN)) CBN ((rn * (i div CBM) + j div CBN) * (CBM * CBN)) CBN) d;
         if rp * CBK < p
         then mm_rb exact CBM CBN (p - rp * CBK) a (ao + i * lda + rp * CBK) lda b (bo + rp * CBK * ldb + j) ldb
                ((rn * (i div CBM) + j div CBN) * (CBM * CBN)) CBN d
         else Some d }) = Some d' \<and>
    adds d d' (\<lambda>q. \<Sum>i'<CBM. \<Sum>j'<CBN. \<Sum>k<p. pterm rn a ao lda b bo ldb q (i + i') (j + j') k)"
proof -
  let ?co = "(rn * (i div CBM) + j div CBN) * (CBM * CBN)" and ?pb = "rp * CBK"
  let ?t = "\<lambda>q i' j'. pterm rn a ao lda b bo ldb q (i + i') (j + j')"
  note pos = block_sizes_pos and di = steps_block [OF assms(8)] and dj = steps_block [OF assms(9)]
  have C: "inb (length e) ?co CBN CBM CBN" if "length e = length d" for e :: "'a list"
    using pidx_inb [OF pos(1,2) assms(8,9)] that assms(10) by simp
  have blk: "\<exists>e'. mm_rb exact CBM CBN CBK a1 ((rp * (i div CBM) + k div CBK) * (CBM * CBK)) CBK
             b1 ((rn * (k div CBK) + j div CBN) * (CBK * CBN)) CBN ?co CBN e = Some e' \<and>
      adds e e' (\<lambda>q. \<Sum>i'<CBM. \<Sum>j'<CBN. \<Sum>k'<CBK. ?t q i' j' (k + k'))"
    if k: "k \<in> set (steps 0 ?pb CBK)" and len: "length e = length d" for k e
  proof -
    let ?xo = "(rp * (i div CBM) + k div CBK) * (CBM * CBK)" and ?yo = "(rn * (k div CBK) + j div CBN) * (CBK * CBN)"
    note dk = steps_block [OF k]
    have x: "a1 ! (?xo + i' * CBK + k') = a ! (ao + (i + i') * lda + (k + k'))" if "i' < CBM" "k' < CBK" for i' k'
      using assms(5) di(1) dk(1) that unfolding pidx_offset [OF di(2) dk(2) that] by simp
    have y: "b1 ! (?yo + k' * CBN + j') = b ! (bo + (k + k') * ldb + (j + j'))" if "k' < CBK" "j' < CBN" for k' j'
      using assms(7) dj(1) dk(1) that unfolding pidx_offset [OF dk(2) dj(2) that] by simp
    have "inb (length a1) ?xo CBK CBM CBK" "inb (length b1) ?yo CBN CBK CBN"
      using pidx_inb [OF pos(1,3) assms(8) k] pidx_inb [OF pos(3,2) k assms(9)] assms(4,6) by simp_all
    from mm_rb_adds [OF this C [OF len] order_refl] obtain e' where
      "mm_rb exact CBM CBN CBK a1 ?xo CBK b1 ?yo CBN ?co CBN e = Some e'"
      "adds e e' (prod_inc a1 ?xo CBK b1 ?yo CBN ?co CBN CBM CBN CBK)" by blast
    moreover have "adds e e' (\<lambda>q. \<Sum>i'<CBM. \<Sum>j'<CBN. \<Sum>k'<CBK. ?t q i' j' (k + k'))"
      by (rule adds_cong [OF calculation(2) pblock_inc [OF assms(8,9) x y]])
    ultimately show ?thesis by blast
  qed
  have sumk: "(\<Sum>k\<leftarrow>steps 0 ?pb CBK. \<Sum>i'<CBM. \<Sum>j'<CBN. \<Sum>k'<CBK. ?t q i' j' (k + k')) = (\<Sum>i'<CBM. \<Sum>j'<CBN. \<Sum>k<?pb. ?t q i' j' k)" for q
    by (subst sum_list_swap, rule sum.cong [OF refl], subst sum_list_swap, rule sum.cong [OF refl], rule sum_steps_blocks [OF pos(3)])
  from blk refl sumk obtain d1 where 1: "forM (steps 0 ?pb CBK) (\<lambda>k. mm_rb exact CBM CBN CBK a1 ((rp * (i div CBM) + k div CBK) * (CBM * CBK)) CBK
             b1 ((rn * (k div CBK) + j div CBN) * (CBK * CBN)) CBN ?co CBN) d = Some d1"
      "adds d d1 (\<lambda>q. \<Sum>i'<CBM. \<Sum>j'<CBN. \<Sum>k<?pb. ?t q i' j' k)" by (rule forM_addsE)
  show ?thesis
  proof (cases "?pb < p")
    case True
    have A: "inb (length a) (ao + i * lda + ?pb) lda CBM (p - ?pb)" "inb (length b) (bo + ?pb * ldb + j) ldb (p - ?pb) CBN"
      using inb_sub [OF assms(1) di(1), of ?pb "p - ?pb"] inb_sub [OF assms(2) _ dj(1), of ?pb "p - ?pb"] assms(3) by simp_all
    have l1: "length d1 = length d" using 1(2) by (simp add: adds_def)
    from mm_rb_adds [OF A C [OF l1] order_refl] obtain d2 where 2:
      "mm_rb exact CBM CBN (p - ?pb) a (ao + i * lda + ?pb) lda b (bo + ?pb * ldb + j) ldb ?co CBN d1 = Some d2"
      "adds d1 d2 (prod_inc a (ao + i * lda + ?pb) lda b (bo + ?pb * ldb + j) ldb ?co CBN CBM CBN (p - ?pb))" by blast
    have x: "a ! (ao + i * lda + ?pb + i' * lda + k') = a ! (ao + (i + i') * lda + (?pb + k'))"
      "b ! (bo + ?pb * ldb + j + k' * ldb + j') = b ! (bo + (?pb + k') * ldb + (j + j'))" for i' j' k' by (simp_all add: algebra_simps)
    have "(\<Sum>i'<CBM. \<Sum>j'<CBN. \<Sum>k<?pb. ?t q i' j' k) + (\<Sum>i'<CBM. \<Sum>j'<CBN. \<Sum>k'<p - ?pb. ?t q i' j' (?pb + k')) =
        (\<Sum>i'<CBM. \<Sum>j'<CBN. \<Sum>k<p. ?t q i' j' k)" for q
      by (simp only: sum.distrib [symmetric]) (rule sum.cong [OF refl], rule sum.cong [OF refl], rule sum_split_at [OF assms(3)])
    then have "adds d d2 (\<lambda>q. \<Sum>i'<CBM. \<Sum>j'<CBN. \<Sum>k<p. ?t q i' j' k)"
      by (intro adds_cong [OF adds_trans [OF 1(2) 2(2)]]) (simp only: pblock_inc [OF assms(8,9) x])
    with 1(1) 2(1) True show ?thesis by auto
  next
    case False
    then have "?pb = p" using assms(3) by simp
    with 1 False show ?thesis by auto
  qed
qed

text \<open>The columns at the right of the blocks, and the rows below them.\<close>

lemma cb_right_adds:
  assumes "inb (length a) ao lda m p" "inb (length b) bo ldb p n" "inb (length c) co ldc m n" "n \<le> ldc"
    and "i + CBM \<le> m" "nb \<le> n" "length d = length c"
  shows "\<exists>d'. (if nb < n then forM (steps 0 p CBK) (\<lambda>k.
       mm_rb exact CBM (n - nb) (min (p - k) CBK) a (ao + i * lda + k) lda b (bo + k * ldb + nb) ldb (co + i * ldc + nb) ldc) d else Some d) = Some d' \<and>
    adds d d' (\<lambda>q. \<Sum>i'<CBM. \<Sum>j'<n - nb. \<Sum>k<p. term_inc a ao lda b bo ldb co ldc q (i + i') (nb + j') k)"
proof (cases "nb < n")
  case True
  let ?t = "\<lambda>q i' j'. term_inc a ao lda b bo ldb co ldc q (i + i') (nb + j')"
  have blk: "\<exists>e'. mm_rb exact CBM (n - nb) (min (p - k) CBK) a (ao + i * lda + k) lda b (bo + k * ldb + nb) ldb (co + i * ldc + nb) ldc e = Some e' \<and>
      adds e e' (\<lambda>q. \<Sum>i'<CBM. \<Sum>j'<n - nb. \<Sum>k'<min (p - k) CBK. ?t q i' j' (k + k'))"
    if k: "k \<in> set (steps 0 p CBK)" and len: "length e = length c" for k e
  proof -
    let ?w = "min (p - k) CBK"
    have kp: "k + ?w \<le> p" using steps_bound [OF k] by simp
    have "inb (length a) (ao + i * lda + k) lda CBM ?w" "inb (length b) (bo + k * ldb + nb) ldb ?w (n - nb)"
      "inb (length e) (co + i * ldc + nb) ldc CBM (n - nb)" "n - nb \<le> ldc"
      using inb_sub [OF assms(1,5) kp] inb_sub [OF assms(2) kp, of nb "n - nb"] inb_sub [OF assms(3,5), of nb "n - nb"] assms(4,6) len by simp_all
    from mm_rb_adds [OF this] show ?thesis unfolding prod_inc_shift_fun .
  qed
  have sumk: "(\<Sum>k\<leftarrow>steps 0 p CBK. \<Sum>i'<CBM. \<Sum>j'<n - nb. \<Sum>k'<min (p - k) CBK. ?t q i' j' (k + k')) = (\<Sum>i'<CBM. \<Sum>j'<n - nb. \<Sum>k<p. ?t q i' j' k)" for q
    unfolding lessThan_atLeast0 [of p]
    by (subst sum_list_swap, rule sum.cong [OF refl], subst sum_list_swap, rule sum.cong [OF refl], rule sum_steps [OF block_sizes_pos(3) le0])
  from blk assms(7) sumk obtain d' where "forM (steps 0 p CBK) (\<lambda>k. mm_rb exact CBM (n - nb) (min (p - k) CBK) a (ao + i * lda + k) lda
        b (bo + k * ldb + nb) ldb (co + i * ldc + nb) ldc) d = Some d'" "adds d d' (\<lambda>q. \<Sum>i'<CBM. \<Sum>j'<n - nb. \<Sum>k<p. ?t q i' j' k)"
    by (rule forM_addsE)
  with True show ?thesis by auto
next
  case False
  then have "n - nb = 0" by simp
  with False show ?thesis by (simp add: adds_0)
qed

lemma cb_bottom_adds:
  assumes "inb (length a) ao lda m p" "inb (length b) bo ldb p n" "inb (length c) co ldc m n" "n \<le> ldc" "mb \<le> m" "length d = length c"
  shows "\<exists>d'. (if mb < m then forM (steps 0 n CBN) (\<lambda>j. forM (steps 0 p CBK) (\<lambda>k.
       mm_rb exact (m - mb) (min (n - j) CBN) (min (p - k) CBK) a (ao + mb * lda + k) lda b (bo + k * ldb + j) ldb (co + mb * ldc + j) ldc)) d
     else Some d) = Some d' \<and>
    adds d d' (\<lambda>q. \<Sum>i'<m - mb. \<Sum>j<n. \<Sum>k<p. term_inc a ao lda b bo ldb co ldc q (mb + i') j k)"
proof (cases "mb < m")
  case True
  let ?t = "\<lambda>q i'. term_inc a ao lda b bo ldb co ldc q (mb + i')"
  let ?mm = "\<lambda>j k. mm_rb exact (m - mb) (min (n - j) CBN) (min (p - k) CBK) a (ao + mb * lda + k) lda b (bo + k * ldb + j) ldb (co + mb * ldc + j) ldc"
  have mb: "mb + (m - mb) \<le> m" using assms(5) by simp
  have blk: "\<exists>e'. ?mm j k e = Some e' \<and> adds e e' (\<lambda>q. \<Sum>i'<m - mb. \<Sum>j'<min (n - j) CBN. \<Sum>k'<min (p - k) CBK. ?t q i' (j + j') (k + k'))"
    if j: "j \<in> set (steps 0 n CBN)" and k: "k \<in> set (steps 0 p CBK)" and len: "length e = length c" for j k e
  proof -
    have kp: "k + min (p - k) CBK \<le> p" and jn: "j + min (n - j) CBN \<le> n" using steps_bound [OF k] steps_bound [OF j] by simp_all
    have "inb (length e) (co + mb * ldc + j) ldc (m - mb) (min (n - j) CBN)" "min (n - j) CBN \<le> ldc"
      using inb_sub [OF assms(3) mb jn] assms(4) jn len by simp_all
    from mm_rb_adds [OF inb_sub [OF assms(1) mb kp] inb_sub [OF assms(2) kp jn] this] show ?thesis unfolding prod_inc_shift_fun .
  qed
  have sumk: "(\<Sum>k\<leftarrow>steps 0 p CBK. \<Sum>i'<m - mb. \<Sum>j'<w. \<Sum>k'<min (p - k) CBK. ?t q i' (j + j') (k + k')) =
      (\<Sum>i'<m - mb. \<Sum>j'<w. \<Sum>k<p. ?t q i' (j + j') k)" for q j w
    unfolding lessThan_atLeast0 [of p]
    by (subst sum_list_swap, rule sum.cong [OF refl], subst sum_list_swap, rule sum.cong [OF refl], rule sum_steps [OF block_sizes_pos(3) le0])
  have row: "\<exists>e'. forM (steps 0 p CBK) (?mm j) e = Some e' \<and> adds e e' (\<lambda>q. \<Sum>i'<m - mb. \<Sum>j'<min (n - j) CBN. \<Sum>k<p. ?t q i' (j + j') k)"
    if j: "j \<in> set (steps 0 n CBN)" and len: "length e = length c" for j e
  proof -
    from blk [OF j] len sumk obtain e' where "forM (steps 0 p CBK) (?mm j) e = Some e'"
      "adds e e' (\<lambda>q. \<Sum>i'<m - mb. \<Sum>j'<min (n - j) CBN. \<Sum>k<p. ?t q i' (j + j') k)" by (rule forM_addsE)
    then show ?thesis by blast
  qed
  have sumj: "(\<Sum>j\<leftarrow>steps 0 n CBN. \<Sum>i'<m - mb. \<Sum>j'<min (n - j) CBN. \<Sum>k<p. ?t q i' (j + j') k) = (\<Sum>i'<m - mb. \<Sum>j<n. \<Sum>k<p. ?t q i' j k)" for q
    unfolding lessThan_atLeast0 [of n]
    by (subst sum_list_swap, rule sum.cong [OF refl], rule sum_steps [OF block_sizes_pos(2) le0])
  from row assms(6) sumj obtain d' where "forM (steps 0 n CBN) (\<lambda>j. forM (steps 0 p CBK) (?mm j)) d = Some d'"
      "adds d d' (\<lambda>q. \<Sum>i'<m - mb. \<Sum>j<n. \<Sum>k<p. ?t q i' j k)" by (rule forM_addsE)
  with True show ?thesis by auto
next
  case False
  then have "m - mb = 0" by simp
  with False show ?thesis by (simp add: adds_0)
qed

lemma forM_pair:
  assumes "forM is f x = Some x'" "forM is g y = Some y'"
  shows "forM is (\<lambda>i (x, y). do { x \<leftarrow> f i x; y \<leftarrow> g i y; Some (x, y) }) (x, y) = Some (x', y')"
  using assms
proof (induction "is" arbitrary: x y)
  case (Cons i "is")
  obtain x1 y1 where "f i x = Some x1" "forM is f x1 = Some x'" "g i y = Some y1" "forM is g y1 = Some y'"
    using Cons.prems by (auto simp: Option.bind_eq_Some_conv)
  with Cons.IH [of x1 y1] show ?case by simp
qed simp

lemma pair_delta:
  fixes h :: "nat \<Rightarrow> nat \<Rightarrow> 'd::comm_monoid_add"
  assumes "\<And>i' j'. i' < m \<Longrightarrow> j' < n \<Longrightarrow> P i' j' \<longleftrightarrow> i' = i \<and> j' = j" "i < m" "j < n"
  shows "(\<Sum>i'<m. \<Sum>j'<n. if P i' j' then h i' j' else 0) = h i j"
proof -
  have "(\<Sum>i'<m. \<Sum>j'<n. if P i' j' then h i' j' else 0) = (\<Sum>i'<m. \<Sum>j'<n. if j' = j then (if i' = i then h i' j' else 0) else 0)"
    by (intro sum.cong refl) (use assms(1) in auto)
  also have "\<dots> = h i j" using assms(2,3) by simp
  finally show ?thesis .
qed

lemma cb_packed_value:
  assumes "I < rm * CBM" "J < rn * CBN"
  shows "(\<Sum>i\<leftarrow>steps 0 (rm * CBM) CBM. \<Sum>j\<leftarrow>steps 0 (rn * CBN) CBN. \<Sum>i'<CBM. \<Sum>j'<CBN. \<Sum>k<p.
      pterm rn a ao lda b bo ldb (pidx rn CBM CBN I J) (i + i') (j + j') k) = (\<Sum>k<p. term_at a ao lda b bo ldb I J k)"
proof -
  let ?H = "\<lambda>I' J'. \<Sum>k<p. pterm rn a ao lda b bo ldb (pidx rn CBM CBN I J) I' J' k"
  have "(\<Sum>i\<leftarrow>steps 0 (rm * CBM) CBM. \<Sum>j\<leftarrow>steps 0 (rn * CBN) CBN. \<Sum>i'<CBM. \<Sum>j'<CBN. ?H (i + i') (j + j')) = (\<Sum>I'<rm * CBM. \<Sum>J'<rn * CBN. ?H I' J')"
    using block_sum [OF block_sizes_pos(1,2) order_refl order_refl, where rm = rm and rn = rn and H = ?H] by simp
  also have "\<dots> = (\<Sum>k<p. term_at a ao lda b bo ldb I J k)"
    unfolding pterm_def sum_if_const
    by (rule pair_delta) (use pidx_eq_iff [OF block_sizes_pos(1,2) assms(2)] assms in auto)
  finally show ?thesis .
qed

lemma mm_cb_adds:
  assumes A: "inb (length a) ao lda m p" and B: "inb (length b) bo ldb p n" and C: "inb (length c) co ldc m n" and ld: "n \<le> ldc"
  shows "\<exists>c'. mm_cb exact u m n p a ao lda b bo ldb co ldc c = Some c' \<and> adds c c' (prod_inc a ao lda b bo ldb co ldc m n p)"
proof -
  define rm rn rp where "rm = m div CBM" and "rn = n div CBN" and "rp = p div CBK"
  let ?mb = "rm * CBM" and ?nb = "rn * CBN" and ?pb = "rp * CBK"
  note pos = block_sizes_pos
  have le: "?mb \<le> m" "?nb \<le> n" "?pb \<le> p" by (simp_all add: rm_def rn_def rp_def)
  have sub: "inb N off lx M' N'" if "inb N off lx M N''" "M' \<le> M" "N' \<le> N''" for N off lx M M' N' N''
    using inb_sub [OF that(1), of 0 M' 0 N'] that by simp
  obtain a1 where a1: "pack_blocks ?mb ?pb CBM CBK a ao lda (replicate (?mb * ?pb) u) = Some a1" "length a1 = ?mb * ?pb"
      "\<forall>I < ?mb. \<forall>K < ?pb. a1 ! pidx rp CBM CBK I K = a ! (ao + I * lda + K)"
    using pack_blocks_run [OF pos(1,3) sub [OF A le(1,3)], of "replicate (?mb * ?pb) u"] by auto
  obtain b1 where b1: "pack_blocks ?pb ?nb CBK CBN b bo ldb (replicate (?pb * ?nb) u) = Some b1" "length b1 = ?pb * ?nb"
      "\<forall>K < ?pb. \<forall>J < ?nb. b1 ! pidx rn CBK CBN K J = b ! (bo + K * ldb + J)"
    using pack_blocks_run [OF pos(3,2) sub [OF B le(3,2)], of "replicate (?pb * ?nb) u"] by auto
  obtain c1 where c1: "pack_blocks ?mb ?nb CBM CBN c co ldc (replicate (?mb * ?nb) u) = Some c1" "length c1 = ?mb * ?nb"
      "\<forall>I < ?mb. \<forall>J < ?nb. c1 ! pidx rn CBM CBN I J = c ! (co + I * ldc + J)"
    using pack_blocks_run [OF pos(1,2) sub [OF C le(1,2)], of "replicate (?mb * ?nb) u"] by auto
  let ?is = "steps 0 ?mb CBM" and ?js = "steps 0 ?nb CBN"
  let ?pt = "\<lambda>q I J. \<Sum>k<p. pterm rn a ao lda b bo ldb q I J k" and ?H = "\<lambda>q I J. \<Sum>k<p. term_inc a ao lda b bo ldb co ldc q I J k"
  define fb where "fb i j d = (do { d \<leftarrow> forM (steps 0 ?pb CBK) (\<lambda>k.
           mm_rb exact CBM CBN CBK a1 ((rp * (i div CBM) + k div CBK) * (CBM * CBK)) CBK
             b1 ((rn * (k div CBK) + j div CBN) * (CBK * CBN)) CBN ((rn * (i div CBM) + j div CBN) * (CBM * CBN)) CBN) d;
         if ?pb < p
         then mm_rb exact CBM CBN (p - ?pb) a (ao + i * lda + ?pb) lda b (bo + ?pb * ldb + j) ldb
                ((rn * (i div CBM) + j div CBN) * (CBM * CBN)) CBN d
         else Some d })" for i j d
  define fr where "fr i d = (if ?nb < n then forM (steps 0 p CBK) (\<lambda>k.
       mm_rb exact CBM (n - ?nb) (min (p - k) CBK) a (ao + i * lda + k) lda b (bo + k * ldb + ?nb) ldb (co + i * ldc + ?nb) ldc) d else Some d)" for i d
  have blk: "\<exists>d'. fb i j d = Some d' \<and> adds d d' (\<lambda>q. \<Sum>i'<CBM. \<Sum>j'<CBN. ?pt q (i + i') (j + j'))"
    if "i \<in> set ?is" "j \<in> set ?js" "length d = length c1" for i j d
    unfolding fb_def
    by (rule cb_block_adds [OF sub [OF A le(1) order_refl] sub [OF B order_refl le(2)] le(3) a1(2,3) b1(2,3) that(1,2)])
      (use that(3) c1(2) in simp)
  have brow: "\<exists>d'. forM ?js (fb i) d = Some d' \<and> adds d d' (\<lambda>q. \<Sum>j\<leftarrow>?js. \<Sum>i'<CBM. \<Sum>j'<CBN. ?pt q (i + i') (j + j'))"
    if i: "i \<in> set ?is" and len: "length d = length c1" for i d
  proof -
    from blk [OF i] len refl obtain d' where "forM ?js (fb i) d = Some d'"
      "adds d d' (\<lambda>q. \<Sum>j\<leftarrow>?js. \<Sum>i'<CBM. \<Sum>j'<CBN. ?pt q (i + i') (j + j'))" by (rule forM_addsE)
    then show ?thesis by blast
  qed
  from brow refl refl obtain c1' where 1: "forM ?is (\<lambda>i. forM ?js (fb i)) c1 = Some c1'"
      "adds c1 c1' (\<lambda>q. \<Sum>i\<leftarrow>?is. \<Sum>j\<leftarrow>?js. \<Sum>i'<CBM. \<Sum>j'<CBN. ?pt q (i + i') (j + j'))" by (rule forM_addsE)
  have right: "\<exists>d'. fr i d = Some d' \<and> adds d d' (\<lambda>q. \<Sum>i'<CBM. \<Sum>j'<n - ?nb. ?H q (i + i') (?nb + j'))"
    if "i \<in> set ?is" "length d = length c" for i d
    unfolding fr_def using steps_block(1) [OF that(1)] le by (intro cb_right_adds [OF A B C ld _ le(2) that(2)]) simp
  from right refl refl obtain c2 where 2: "forM ?is fr c = Some c2"
      "adds c c2 (\<lambda>q. \<Sum>i\<leftarrow>?is. \<Sum>i'<CBM. \<Sum>j'<n - ?nb. ?H q (i + i') (?nb + j'))" by (rule forM_addsE)
  have l2: "length c2 = length c" using 2(2) by (simp add: adds_def)
  from cb_bottom_adds [OF A B C ld le(1) l2] obtain c3 where 3: "(if ?mb < m then forM (steps 0 n CBN) (\<lambda>j. forM (steps 0 p CBK) (\<lambda>k.
       mm_rb exact (m - ?mb) (min (n - j) CBN) (min (p - k) CBK) a (ao + ?mb * lda + k) lda b (bo + k * ldb + j) ldb (co + ?mb * ldc + j) ldc)) c2
     else Some c2) = Some c3" "adds c2 c3 (\<lambda>q. \<Sum>i'<m - ?mb. \<Sum>j<n. ?H q (?mb + i') j)" by blast
  let ?inc = "prod_inc a ao lda b bo ldb co ldc m n p" and ?R = "{co + I * ldc + J |I J. I < ?mb \<and> J < ?nb}"
  have l3: "length c3 = length c" using 3(2) l2 by (simp add: adds_def)
  have out: "c3 ! q = c ! q + ?inc q" if "q < length c" "q \<notin> ?R" for q
  proof -
    let ?S = "\<lambda>i. \<Sum>i'<CBM. \<Sum>j'<n - ?nb. ?H q (i + i') (?nb + j')"
    have z: "?H q I J = 0" if "I < ?mb" "J < ?nb" for I J using \<open>q \<notin> ?R\<close> that by (intro sum.neutral) (auto simp: term_inc_def)
    have "(\<Sum>j\<leftarrow>?js. \<Sum>i'<CBM. \<Sum>j'<CBN. ?H q (i + i') (j + j')) = 0" if "i \<in> set ?is" for i
    proof -
      have "(\<Sum>j\<leftarrow>?js. \<Sum>i'<CBM. \<Sum>j'<CBN. ?H q (i + i') (j + j')) = (\<Sum>i'<CBM. \<Sum>J<?nb. ?H q (i + i') J)"
        using block_rows_sum [OF pos(2) order_refl, where rn = rn and H = "\<lambda>i j. ?H q i j" and dm = CBM and i = i] by simp
      also have "\<dots> = 0"
        by (rule sum.neutral, rule ballI, rule sum.neutral, rule ballI, rule z) (use steps_block(1) [OF that] in auto)
      finally show ?thesis .
    qed
    then have "(\<Sum>i\<leftarrow>?is. ?S i) = (\<Sum>i\<leftarrow>?is. (\<Sum>j\<leftarrow>?js. \<Sum>i'<CBM. \<Sum>j'<CBN. ?H q (i + i') (j + j')) + ?S i)"
      by (intro arg_cong [of _ _ sum_list] map_cong refl) simp
    then have "(\<Sum>i\<leftarrow>?is. ?S i) + (\<Sum>i'<m - ?mb. \<Sum>j<n. ?H q (?mb + i') j) = ?inc q"
      unfolding prod_inc_terms using block_sum [OF pos(1,2) le(1,2), of "?H q"] by presburger
    then show ?thesis using 2(2) 3(2) l2 that(1) by (simp add: adds_def add.assoc)
  qed
  have ins: "c1' ! pidx rn CBM CBN I J = c ! (co + I * ldc + J) + ?inc (co + I * ldc + J)" if "I < ?mb" "J < ?nb" for I J
  proof -
    have "pidx rn CBM CBN I J < length c1" using pidx_less [OF pos(1,2) that] c1(2) by simp
    moreover have "?inc (co + I * ldc + J) = (\<Sum>k<p. term_at a ao lda b bo ldb I J k)"
      using that le by (intro prod_inc_in [OF ld]) auto
    ultimately show ?thesis using 1(2) c1(3) cb_packed_value [OF that, of a ao lda b bo ldb p] that unfolding adds_def by simp
  qed
  have copied: "\<exists>d'. repack (co + i * ldc + j) ldc c1' ((rn * (i div CBM) + j div CBN) * (CBM * CBN)) CBN CBM CBN d = Some d' \<and>
      sets d d' {co + (i + i') * ldc + (j + j') |i' j'. i' < CBM \<and> j' < CBN} (\<lambda>q. c ! q + ?inc q)"
    if i: "i \<in> set ?is" and j: "j \<in> set ?js" and len: "length d = length c3" for i j d
  proof -
    let ?o = "(rn * (i div CBM) + j div CBN) * (CBM * CBN)"
    have l1: "length c1' = ?mb * ?nb" using 1(2) c1(2) by (simp add: adds_def)
    have I1: "inb (length c1') ?o CBN CBM CBN" using pidx_inb [OF pos(1,2) i j] l1 by simp
    have "i + CBM \<le> m" "j + CBN \<le> n" using steps_block(1) [OF i] steps_block(1) [OF j] le by linarith+
    then have I2: "inb (length d) (co + i * ldc + j) ldc CBM CBN" using inb_sub [OF C] len l3 by simp
    have e: "co + i * ldc + j + i' * ldc + j' = co + (i + i') * ldc + (j + j')" for i' j' by (simp add: algebra_simps)
    have T: "c ! (co + i * ldc + j + i' * ldc + j') + ?inc (co + i * ldc + j + i' * ldc + j') = c1' ! (?o + i' * CBN + j')"
      if l: "i' < CBM" "j' < CBN" for i' j'
      unfolding pidx_offset [OF steps_block(2) [OF i] steps_block(2) [OF j] l] e
      by (rule ins [symmetric]) (use steps_block(1) [OF i] steps_block(1) [OF j] l in linarith)+
    from repack_sets [OF I1 I2, of "\<lambda>q. c ! q + ?inc q", OF T] show ?thesis unfolding e .
  qed
  from pos(1,2) refl copied obtain c4 where 4: "forM ?is (\<lambda>i. forM ?js (\<lambda>j. repack (co + i * ldc + j) ldc c1'
        ((rn * (i div CBM) + j div CBN) * (CBM * CBN)) CBN CBM CBN)) c3 = Some c4"
      "sets c3 c4 ?R (\<lambda>q. c ! q + ?inc q)" by (rule forM_blocks)
  have "adds c c4 ?inc" using 4(2) l3 out unfolding adds_def sets_def by auto
  moreover have "mm_cb exact u m n p a ao lda b bo ldb co ldc c = Some c4"
    using a1(1) b1(1) c1(1) forM_pair [OF 1(1) 2(1)] 3(1) 4(1)
    unfolding mm_cb_def Let_def rm_def [symmetric] rn_def [symmetric] rp_def [symmetric] fb_def fr_def by simp
  ultimately show ?thesis by blast
qed

section \<open>Properties\<close>

lemma mm_adds:
  fixes a b c :: "'d::comm_semiring_1 list"
  assumes "inb (length a) ao lda m p" "inb (length b) bo ldb p n" "inb (length c) co ldc m n" "n \<le> ldc"
  shows "\<exists>c'. mm exact u m n p a ao lda b bo ldb co ldc c = Some c' \<and> length c' = length c \<and>
    (\<forall>i < m. \<forall>j < n. c' ! (co + i * ldc + j) = c ! (co + i * ldc + j) + (\<Sum>k<p. a ! (ao + i * lda + k) * b ! (bo + k * ldb + j))) \<and>
    (\<forall>q < length c. (\<forall>i < m. \<forall>j < n. q \<noteq> co + i * ldc + j) \<longrightarrow> c' ! q = c ! q)"
proof -
  obtain c' where c': "mm exact u m n p a ao lda b bo ldb co ldc c = Some c'" "adds c c' (prod_inc a ao lda b bo ldb co ldc m n p)"
    using mm_rb_adds [OF assms] mm_cb_adds [OF assms, of u] unfolding mm_def by (cases "m \<le> 2 * CBM \<and> n \<le> 2 * CBN \<and> p \<le> 2 * CBK") auto
  have "c' ! (co + i * ldc + j) = c ! (co + i * ldc + j) + (\<Sum>k<p. a ! (ao + i * lda + k) * b ! (bo + k * ldb + j))" if "i < m" "j < n" for i j
    using c'(2) inbD [OF assms(3) that] prod_inc_in [OF assms(4) that, of a ao lda b bo ldb co p] by (simp add: adds_def term_at_def)
  moreover have "c' ! q = c ! q" if "q < length c" "\<forall>i < m. \<forall>j < n. q \<noteq> co + i * ldc + j" for q
    using c'(2) that prod_inc_out [of m n q co ldc a ao lda b bo ldb p] by (simp add: adds_def)
  ultimately show ?thesis using c' by (auto simp: adds_def)
qed

text \<open>C1. The matrix multiplication with register and cache blocking, over exact arithmetic and for
  all sizes, row strides and positions of the matrices: it ends, all accesses to the three arrays and
  to the scratch arrays are inside, every entry of the result block has the scalar product of its
  row and column added, and nothing else of the result array changes.\<close>

theorem mm_adds_product:
  fixes a b c :: "'d::comm_semiring_1 list"
  assumes "inb (length a) ao lda m p" "inb (length b) bo ldb p n" "inb (length c) co ldc m n" "n \<le> ldc"
  shows "\<exists>c'. mm exact u m n p a ao lda b bo ldb co ldc c = Some c' \<and> length c' = length c \<and>
    (\<forall>i < m. \<forall>j < n. c' ! (co + i * ldc + j) = c ! (co + i * ldc + j) + (\<Sum>k<p. a ! (ao + i * lda + k) * b ! (bo + k * ldb + j))) \<and>
    (\<forall>q < length c. (\<forall>i < m. \<forall>j < n. q \<noteq> co + i * ldc + j) \<longrightarrow> c' ! q = c ! q)"
  by (rule mm_adds [OF assms])

theorem mm_adds_product_witness:
  "\<exists>c'. mm exact 0 2 2 2 [1, 2, 3, 4] 0 2 [1, 0, 0, 1] 0 2 0 2 [10, 10, 10, 10 :: int] = Some c' \<and> c' ! 1 = 12"
proof -
  have two: "i < 2 \<longleftrightarrow> i = 0 \<or> i = (1 :: nat)" for i by auto
  have in2: "inb (length [w, x, y, z]) 0 2 2 2" for w x y z :: int by (auto simp: inb_def two)
  from mm_adds_product [OF in2 [of 1 2 3 4] in2 [of 1 0 0 1] in2 [of 10 10 10 10] order_refl, of 0]
  obtain c' where c': "mm exact 0 2 2 2 [1, 2, 3, 4] 0 2 [1, 0, 0, 1] 0 2 0 2 [10, 10, 10, 10 :: int] = Some c'"
    "\<forall>i < 2. \<forall>j < 2. c' ! (0 + i * 2 + j) = [10, 10, 10, 10] ! (0 + i * 2 + j) + (\<Sum>k<2. [1, 2, 3, 4] ! (0 + i * 2 + k) * [1, 0, 0, 1] ! (0 + k * 2 + j))"
    by blast
  from c'(2) [rule_format, of 0 1] have "c' ! 1 = 12" by (simp add: numeral_2_eq_2)
  with c'(1) show ?thesis by blast
qed

end
