(* ===== verification/App_Mains.thy ===== *)
theory App_Mains
  imports App_Qsort App_Rsort App_Kernels App_Mm
begin

text \<open>
  The entry functions of the benchmark programs under \<open>sw/app\<close>: the warm-up run of the
  \<open>PREALLOCATE\<close> build, the run between two calls of \<open>setStats\<close>, and the comparison with the reference
  data. Input and reference data are arguments, as are the readings of the two counters before and
  after the run. The result is the exit code with the final statistics; the text that the
  multi-core programs print is left out.
\<close>

section \<open>Single-core programs\<close>

definition measured :: "u32 \<times> u32 \<Rightarrow> u32 \<times> u32 \<Rightarrow> 'a option \<Rightarrow> stats \<Rightarrow> ('a \<times> stats) option" where
  "measured r0 r1 body k =
     do { k \<leftarrow> setStats True (fst r0) (snd r0) k;
          x \<leftarrow> body;
          k \<leftarrow> setStats False (fst r1) (snd r1) k;
          Some (x, k) }"

definition median_main ::
  "bool \<Rightarrow> u32 \<times> u32 \<Rightarrow> u32 \<times> u32 \<Rightarrow> nat \<Rightarrow> int list \<Rightarrow> int list \<Rightarrow> int list \<Rightarrow> stats \<Rightarrow> (nat \<times> stats) option" where
  "median_main preallocate r0 r1 n input_data verify_data results_data k =
     do { results_data \<leftarrow> (if preallocate then median n input_data results_data else Some results_data);
          (results_data, k) \<leftarrow> measured r0 r1 (median n input_data results_data) k;
          r \<leftarrow> verify n results_data verify_data;
          Some (r, k) }"

fun multiply_fill :: "nat list \<Rightarrow> u32 list \<Rightarrow> u32 list \<Rightarrow> u32 list \<Rightarrow> u32 list option" where
  "multiply_fill [] a b results = Some results"
| "multiply_fill (i # is) a b results =
     do { x \<leftarrow> aget a i; y \<leftarrow> aget b i; results \<leftarrow> aset results i (multiply x y); multiply_fill is a b results }"

definition multiply_main ::
  "bool \<Rightarrow> u32 \<times> u32 \<Rightarrow> u32 \<times> u32 \<Rightarrow> nat \<Rightarrow> u32 list \<Rightarrow> u32 list \<Rightarrow> u32 list \<Rightarrow> u32 list \<Rightarrow> stats \<Rightarrow> (nat \<times> stats) option" where
  "multiply_main preallocate r0 r1 n input_data1 input_data2 verify_data results_data k =
     do { results_data \<leftarrow> (if preallocate then multiply_fill [0..<n] input_data1 input_data2 results_data else Some results_data);
          (results_data, k) \<leftarrow> measured r0 r1 (multiply_fill [0..<n] input_data1 input_data2 results_data) k;
          r \<leftarrow> verify n (map sint results_data) (map sint verify_data);
          Some (r, k) }"

definition vvadd_main ::
  "bool \<Rightarrow> u32 \<times> u32 \<Rightarrow> u32 \<times> u32 \<Rightarrow> nat \<Rightarrow> u32 list \<Rightarrow> u32 list \<Rightarrow> u32 list \<Rightarrow> u32 list \<Rightarrow> stats \<Rightarrow> (nat \<times> stats) option" where
  "vvadd_main preallocate r0 r1 n input1_data input2_data verify_data results_data k =
     do { results_data \<leftarrow> (if preallocate then vvadd n input1_data input2_data results_data else Some results_data);
          (results_data, k) \<leftarrow> measured r0 r1 (vvadd n input1_data input2_data results_data) k;
          r \<leftarrow> verify n (map sint results_data) (map sint verify_data);
          Some (r, k) }"

text \<open>The doubles and their operations are parameters.\<close>

definition spmv_main ::
  "('d \<Rightarrow> 'd \<Rightarrow> 'd) \<Rightarrow> ('d \<Rightarrow> 'd \<Rightarrow> 'd) \<Rightarrow> 'd \<Rightarrow> ('d \<Rightarrow> 'd \<Rightarrow> bool) \<Rightarrow> bool \<Rightarrow> u32 \<times> u32 \<Rightarrow> u32 \<times> u32 \<Rightarrow> nat \<Rightarrow> 'd list \<Rightarrow>
   nat list \<Rightarrow> 'd list \<Rightarrow> nat list \<Rightarrow> 'd list \<Rightarrow> 'd list \<Rightarrow> stats \<Rightarrow> (nat \<times> stats) option" where
  "spmv_main fadd fmul zero feq preallocate r0 r1 r vl idx x ptr verify_data y k =
     do { y \<leftarrow> (if preallocate then spmv fadd fmul zero r vl idx x ptr y else Some y);
          (y, k) \<leftarrow> measured r0 r1 (spmv fadd fmul zero r vl idx x ptr y) k;
          e \<leftarrow> verifyDouble feq r y verify_data;
          Some (e, k) }"

text \<open>The sorting programs warm up on the reference data, which are sorted already, and touch the
  input by comparing it with itself.\<close>

definition qsort_main ::
  "bool \<Rightarrow> u32 \<times> u32 \<Rightarrow> u32 \<times> u32 \<Rightarrow> nat \<Rightarrow> int list \<Rightarrow> int list \<Rightarrow> stats \<Rightarrow> (nat \<times> stats) option" where
  "qsort_main preallocate r0 r1 n input_data verify_data k =
     do { (verify_data, e) \<leftarrow>
            (if preallocate
             then do { verify_data \<leftarrow> qsort n verify_data; e \<leftarrow> verify n input_data input_data; Some (verify_data, e) }
             else Some (verify_data, 0));
          if e \<noteq> 0 then Some (1, k)
          else do { (input_data, k) \<leftarrow> measured r0 r1 (qsort n input_data) k;
                    r \<leftarrow> verify n input_data verify_data;
                    Some (r, k) } }"

definition rsort_main ::
  "bool \<Rightarrow> u32 \<times> u32 \<Rightarrow> u32 \<times> u32 \<Rightarrow> nat \<Rightarrow> u32 list \<Rightarrow> u32 list \<Rightarrow> u32 list \<Rightarrow> stats \<Rightarrow> (nat \<times> stats) option" where
  "rsort_main preallocate r0 r1 n input_data verify_data scratch k =
     do { (verify_data, scratch, e) \<leftarrow>
            (if preallocate
             then do { (verify_data, scratch) \<leftarrow> rsort n verify_data scratch;
                       e \<leftarrow> verify n (map sint input_data) (map sint input_data);
                       Some (verify_data, scratch, e) }
             else Some (verify_data, scratch, 0));
          if e \<noteq> 0 then Some (1, k)
          else do { ((input_data, scratch), k) \<leftarrow> measured r0 r1 (rsort n input_data scratch) k;
                    r \<leftarrow> verify n (map sint input_data) (map sint verify_data);
                    Some (r, k) } }"

section \<open>Multi-core programs\<close>

text \<open>
  The programs for several cores, as phases between barriers (\<open>App_Barrier\<close>): in a phase every core
  runs its part, interleaved in any way; then core 0 compares the result. \<open>mt_vvadd_exits\<close> relates the
  data to the exit codes of all schedules.
\<close>

fun copy_input :: "nat list \<Rightarrow> 'd list \<Rightarrow> 'd list \<Rightarrow> 'd list option" where
  "copy_input [] xs z = Some z"
| "copy_input (i # is) xs z = do { x \<leftarrow> aget xs i; z \<leftarrow> aset z i x; copy_input is xs z }"

definition vv_phase :: "('d \<Rightarrow> 'd \<Rightarrow> 'd) \<Rightarrow> nat \<Rightarrow> nat \<Rightarrow> 'd list option \<Rightarrow> 'd list \<Rightarrow> 'd list \<Rightarrow> 'd list \<Rightarrow> bool" where
  "vv_phase fadd nc n x y z z' \<longleftrightarrow> (\<exists>s. vv_run fadd nc n x y z s \<and> (\<forall>c < nc. n \<le> vi s c) \<and> z' = vz s)"

inductive mt_vvadd_exits ::
  "('d \<Rightarrow> 'd \<Rightarrow> 'd) \<Rightarrow> ('d \<Rightarrow> 'd \<Rightarrow> bool) \<Rightarrow> nat \<Rightarrow> nat \<Rightarrow> 'd list \<Rightarrow> 'd list \<Rightarrow> 'd list \<Rightarrow> 'd list \<Rightarrow> nat \<Rightarrow> bool"
  for fadd feq nc n input1 input2 vrf results where
  first_differs: "vv_phase fadd nc n (Some input1) input2 results z \<Longrightarrow> verifyDouble feq n z vrf = Some r \<Longrightarrow> r \<noteq> 0 \<Longrightarrow>
    mt_vvadd_exits fadd feq nc n input1 input2 vrf results r"
| second: "vv_phase fadd nc n (Some input1) input2 results z \<Longrightarrow> verifyDouble feq n z vrf = Some 0 \<Longrightarrow>
    copy_input [0..<n] input1 z = Some z1 \<Longrightarrow> vv_phase fadd nc n None input2 z1 z2 \<Longrightarrow> verifyDouble feq n z2 vrf = Some r \<Longrightarrow>
    mt_vvadd_exits fadd feq nc n input1 input2 vrf results r"

definition mt_matmul_entry :: "nat list \<Rightarrow> nat \<Rightarrow> nat \<Rightarrow> u32 list \<Rightarrow> u32 list \<Rightarrow> u32 list \<Rightarrow> u32 list \<Rightarrow> nat option" where
  "mt_matmul_entry cs nc dim input1_data input2_data verify_data results_data =
     do { results_data \<leftarrow> matmul_cores cs nc dim input1_data input2_data results_data;
          verify (dim * dim) (map sint results_data) (map sint verify_data) }"

text \<open>The driver of the blocked product. \<open>fx\<close> holds what its check needs besides the operations of
  \<open>mm\<close>; \<open>u\<close> is the unknown content of the stack.\<close>

record 'd check_ops =
  cmul :: "'d \<Rightarrow> 'd \<Rightarrow> 'd"
  cadd :: "'d \<Rightarrow> 'd \<Rightarrow> 'd"
  csub :: "'d \<Rightarrow> 'd \<Rightarrow> 'd"
  cabs :: "'d \<Rightarrow> 'd"
  cgreater :: "'d \<Rightarrow> 'd \<Rightarrow> bool"
  c1em6 :: 'd
  cint :: "int \<Rightarrow> 'd"
  cu64 :: "u64 \<Rightarrow> 'd"

definition mm_fill :: "(u64 \<Rightarrow> 'd) \<Rightarrow> nat \<Rightarrow> nat \<Rightarrow> u64 \<times> 'd list \<Rightarrow> (u64 \<times> 'd list) option" where
  "mm_fill cv m p =
     forM [0..<m] (\<lambda>i. forM [0..<p] (\<lambda>j (s, a).
       do { let s = lfsr s; a \<leftarrow> aset a (i * p + j) (cv s); Some (s, a) }))"

definition mm_dot :: "'d check_ops \<Rightarrow> nat \<Rightarrow> nat \<Rightarrow> 'd list \<Rightarrow> 'd list \<Rightarrow> nat \<Rightarrow> nat \<Rightarrow> 'd option" where
  "mm_dot fx n p a b i j =
     forM [0..<p] (\<lambda>k s. do { x \<leftarrow> aget a (i * p + k); y \<leftarrow> aget b (k * n + j); Some (cadd fx s (cmul fx x y)) }) (cint fx 0)"

definition mm_check :: "'d check_ops \<Rightarrow> nat \<Rightarrow> nat \<Rightarrow> nat \<Rightarrow> nat \<Rightarrow> 'd list \<Rightarrow> 'd list \<Rightarrow> 'd list \<Rightarrow> bool option" where
  "mm_check fx R m n p a b c =
     forM [0..<m] (\<lambda>i. forM [0..<n] (\<lambda>j bad.
       if bad then Some True
       else do { s \<leftarrow> mm_dot fx n p a b i j;
                 let s = cmul fx s (cint fx (int R));
                 x \<leftarrow> aget c (i * n + j);
                 Some (cgreater fx (cabs fx (csub fx x s)) (cabs fx (cmul fx (c1em6 fx) s))) })) False"

definition mm_runs :: "'d fpu \<Rightarrow> 'd \<Rightarrow> nat \<Rightarrow> nat \<Rightarrow> nat \<Rightarrow> nat \<Rightarrow> 'd list \<Rightarrow> 'd list \<Rightarrow> 'd list \<Rightarrow> 'd list option" where
  "mm_runs F u R m n p a b = forM [0..<R] (\<lambda>_. mm F u m n p a 0 p b 0 n 0 n)"

definition mm_main :: "'d fpu \<Rightarrow> 'd check_ops \<Rightarrow> 'd \<Rightarrow> nat option" where
  "mm_main F fx u =
     (let R = 8; m = CBM; n = CBN; p = CBK in
      do { (s, a) \<leftarrow> mm_fill (cu64 fx) m p (0xdeadbeef, replicate (m * p) u);
           (s, b) \<leftarrow> mm_fill (cu64 fx) p n (s, replicate (p * n) u);
           c \<leftarrow> mm_runs F u R m n p a b (replicate (m * n) (cint fx 0));
           bad \<leftarrow> mm_check fx R m n p a b c;
           Some (if bad then 1 else 0) })"

section \<open>Exit codes of the single-core programs\<close>

lemma verify_result: "n \<le> length xs \<Longrightarrow> n \<le> length ys \<Longrightarrow> verify n xs ys = Some (first_diff (=) xs ys n)"
  unfolding verify_def by (rule verify_generic)

lemma first_diff_0: "n \<le> length xs \<Longrightarrow> n \<le> length ys \<Longrightarrow> first_diff (=) xs ys n = 0 \<longleftrightarrow> take n xs = take n ys"
  by (auto simp: first_diff_def list_eq_iff_nth_eq)

lemma first_diff_cong:
  assumes "\<And>i. i < n \<Longrightarrow> eq (xs ! i) (ys ! i) = eq' (xs' ! i) (ys' ! i)"
  shows "first_diff eq xs ys n = first_diff eq' xs' ys' n"
proof -
  have "(LEAST i. i < n \<and> \<not> eq (xs ! i) (ys ! i)) = (LEAST i. i < n \<and> \<not> eq' (xs' ! i) (ys' ! i))"
    using assms by (intro arg_cong [of _ _ Least] ext) auto
  with assms show ?thesis by (simp add: first_diff_def)
qed

text \<open>What every program leaves in its statistics: the differences of the readings.\<close>

definition stats_ok :: "stats \<Rightarrow> bool" where
  "stats_ok k \<longleftrightarrow> length (counters k) = 2 \<and> length (counter_names k) = 2"

definition measures :: "u32 \<times> u32 \<Rightarrow> u32 \<times> u32 \<Rightarrow> stats \<Rightarrow> bool" where
  "measures r0 r1 k \<longleftrightarrow> counters k = [fst r1 - fst r0, snd r1 - snd r0] \<and> counter_names k = [''mcycle'', ''minstret'']"

lemma measured_run:
  assumes "stats_ok k"
  obtains k' where "\<And>x. measured r0 r1 (Some x) k = Some (x, k')" "measures r0 r1 k'"
  using setStats_measures [of k "fst r0" "snd r0" "fst r1" "snd r1"] assms
  by (auto simp: measured_def stats_ok_def measures_def)

text \<open>
  The contract of a kernel that writes its result into an array: on inputs in its domain it fills the
  first elements with what is wanted, whatever was there before. Then a warm-up run does not matter.
\<close>

locale result_kernel =
  fixes kernel :: "'i \<Rightarrow> 'a list \<Rightarrow> 'a list option" and domain :: "'i \<Rightarrow> bool" and count :: "'i \<Rightarrow> nat"
    and want :: "'i \<Rightarrow> 'a list"
  assumes kernel_run: "domain i \<Longrightarrow> count i \<le> length z \<Longrightarrow>
      \<exists>z'. kernel i z = Some z' \<and> length z' = length z \<and> take (count i) z' = want i"
begin

lemma warm_run:
  assumes "domain i" "count i \<le> length z" "stats_ok k"
  shows "\<exists>z1 z2 k'. (if preallocate then kernel i z else Some z) = Some z1 \<and>
    measured r0 r1 (kernel i z1) k = Some (z2, k') \<and> measures r0 r1 k' \<and> count i \<le> length z2 \<and> take (count i) z2 = want i"
proof -
  obtain z1 where 1: "(if preallocate then kernel i z else Some z) = Some z1" "length z1 = length z"
    using kernel_run [OF assms(1,2)] by (cases preallocate) auto
  obtain z2 where 2: "kernel i z1 = Some z2" "length z2 = length z1" "take (count i) z2 = want i"
    using kernel_run [OF assms(1), of z1] assms(2) 1(2) by auto
  obtain k' where "measured r0 r1 (Some z2) k = Some (z2, k')" "measures r0 r1 k'"
    using measured_run [OF assms(3), of r0 r1] by metis
  with 1 2 assms(2) show ?thesis by auto
qed

end

text \<open>The median of every three neighbours.\<close>

fun medians :: "int list \<Rightarrow> int list" where
  "medians (a # b # c # xs) = median_of a b c # medians (b # c # xs)"
| "medians _ = []"

lemma length_medians: "length (medians xs) = length xs - 2"
  by (induction xs rule: medians.induct) auto

lemma nth_medians: "i + 2 < length xs \<Longrightarrow> medians xs ! i = median_of (xs ! i) (xs ! (i + 1)) (xs ! (i + 2))"
proof (induction xs arbitrary: i rule: medians.induct)
  case (1 a b c xs)
  then show ?case by (cases i) auto
qed auto

definition median_want :: "int list \<Rightarrow> int list" where
  "median_want xs = (if length xs = 1 then [0] else 0 # medians xs @ [0])"

lemma median_fills:
  assumes "1 \<le> n" "n \<le> length input" "n \<le> length z"
  shows "\<exists>z'. median n input z = Some z' \<and> length z' = length z \<and> take n z' = median_want (take n input)"
proof -
  obtain r where r: "median n input z = Some r" "length r = length z" "r ! 0 = 0" "r ! (n - 1) = 0"
    "\<forall>i. 0 < i \<and> i < n - 1 \<longrightarrow> r ! i = median_of (input ! (i - 1)) (input ! i) (input ! (i + 1))"
    using median_filters [OF assms] unfolding median_of_sort by blast
  have "take n r = median_want (take n input)"
  proof (rule nth_equalityI)
    show "length (take n r) = length (median_want (take n input))"
      using assms r(2) by (auto simp: median_want_def length_medians)
    fix i assume "i < length (take n r)"
    then have i: "i < n" by simp
    consider "i = 0" | "i = n - 1" "0 < i" | "0 < i" "i < n - 1" using i by linarith
    then show "take n r ! i = median_want (take n input) ! i"
      by cases (use i r assms in \<open>auto simp: median_want_def nth_append length_medians nth_medians nth_Cons'\<close>)
  qed
  with r(1,2) show ?thesis by blast
qed

interpretation med: result_kernel "\<lambda>(n, inp). median n inp" "\<lambda>(n, inp). 1 \<le> n \<and> n \<le> length inp" fst "\<lambda>(n, inp). median_want (take n inp)"
  by unfold_locales (use median_fills in auto)

lemma multiply_fill_products:
  assumes "k \<le> n" "n \<le> length a" "n \<le> length b" "n \<le> length z"
  shows "multiply_fill [k..<n] a b z = Some (take k z @ map (\<lambda>i. a ! i * b ! i) [k..<n] @ drop n z)"
  using assms
proof (induction "n - k" arbitrary: k z)
  case (Suc d)
  have k: "k < n" "[k..<n] = k # [Suc k..<n]" using Suc.hyps(2) by (auto simp: upt_conv_Cons)
  with Suc.hyps(1) [of "Suc k" "z[k := a ! k * b ! k]"] Suc.hyps(2) Suc.prems show ?case
    by (auto simp: k(2) take_Suc_conv_app_nth multiply_is_product)
qed auto

lemma map2_nth: "n \<le> length a \<Longrightarrow> n \<le> length b \<Longrightarrow> map (\<lambda>i. f (a ! i) (b ! i)) [0..<n] = map2 f (take n a) (take n b)"
  by (rule nth_equalityI) auto

interpretation mul: result_kernel "\<lambda>(n, a, b). multiply_fill [0..<n] a b" "\<lambda>(n, a, b). n \<le> length a \<and> n \<le> length b" fst
    "\<lambda>(n, a, b). map2 (*) (take n a) (take n b)"
  by unfold_locales (use multiply_fill_products [of 0] map2_nth [of _ _ _ "(*)"] in auto)

interpretation vva: result_kernel "\<lambda>(n, a, b). vvadd n a b" "\<lambda>(n, a, b). n \<le> length a \<and> n \<le> length b" fst
    "\<lambda>(n, a, b). map2 (+) (take n a) (take n b)"
  by unfold_locales (use vvadd_adds map2_nth [of _ _ _ "(+)"] in auto)

interpretation spm: result_kernel "\<lambda>(r, vl, idx, x, ptr). spmv (+) (*) 0 r vl idx x ptr"
    "\<lambda>(r, vl, idx, x, ptr). r < length ptr \<and> sorted ptr \<and> ptr ! r \<le> length vl \<and> ptr ! r \<le> length idx \<and> (\<forall>k < ptr ! r. idx ! k < length x)" fst
    "\<lambda>(r, vl, idx, x, ptr). map (\<lambda>i. \<Sum>k = ptr ! i..<ptr ! (i + 1). vl ! k * x ! (idx ! k :: nat) :: 'd::comm_semiring_1) [0..<r]"
  by unfold_locales (auto simp: spmv_exact)

lemma first_diff_take: "take n xs = ws \<Longrightarrow> n \<le> length xs \<Longrightarrow> first_diff eq xs ys n = first_diff eq ws ys n"
  by (rule first_diff_cong) auto

lemma first_diff_take_right: "take n ys = ws \<Longrightarrow> n \<le> length ys \<Longrightarrow> first_diff eq xs ys n = first_diff eq xs ws n"
  by (rule first_diff_cong) auto

lemma first_diff_sint:
  fixes xs ys :: "u32 list"
  shows "n \<le> length xs \<Longrightarrow> n \<le> length ys \<Longrightarrow> first_diff (=) (map sint xs) (map sint ys) n = first_diff (=) xs ys n"
  by (rule first_diff_cong) (auto dest: signed_word_eqI)

lemma verify_wanted:
  assumes "take n z = ws" "n \<le> length z" "n \<le> length vrf"
  shows "verify n z vrf = Some (first_diff (=) ws vrf n)"
  using verify_result [OF assms(2,3)] first_diff_take [OF assms(1,2)] by metis

lemma verify_wanted_sint:
  fixes z :: "u32 list"
  assumes "take n z = ws" "n \<le> length z" "n \<le> length vrf"
  shows "verify n (map sint z) (map sint vrf) = Some (first_diff (=) ws vrf n)"
  using verify_result [of n "map sint z" "map sint vrf"] first_diff_sint [OF assms(2,3)] first_diff_take [OF assms(1,2), of "(=)" vrf]
    assms(2,3) by simp

lemma median_main_exit:
  assumes "1 \<le> n" "n \<le> length input" "n \<le> length vrf" "n \<le> length z" "stats_ok k"
  shows "\<exists>k'. median_main pre r0 r1 n input vrf z k = Some (first_diff (=) (median_want (take n input)) vrf n, k') \<and> measures r0 r1 k'"
  using med.warm_run [of "(n, input)" z k pre r0 r1] assms verify_wanted [of n _ "median_want (take n input)" vrf]
  by (auto simp: median_main_def)

lemma multiply_main_exit:
  assumes "n \<le> length a" "n \<le> length b" "n \<le> length vrf" "n \<le> length z" "stats_ok k"
  shows "\<exists>k'. multiply_main pre r0 r1 n a b vrf z k = Some (first_diff (=) (map2 (*) (take n a) (take n b)) vrf n, k') \<and> measures r0 r1 k'"
  using mul.warm_run [of "(n, a, b)" z k pre r0 r1] assms verify_wanted_sint [of n _ "map2 (*) (take n a) (take n b)" vrf]
  by (auto simp: multiply_main_def)

lemma vvadd_main_exit:
  assumes "n \<le> length a" "n \<le> length b" "n \<le> length vrf" "n \<le> length z" "stats_ok k"
  shows "\<exists>k'. vvadd_main pre r0 r1 n a b vrf z k = Some (first_diff (=) (map2 (+) (take n a) (take n b)) vrf n, k') \<and> measures r0 r1 k'"
  using vva.warm_run [of "(n, a, b)" z k pre r0 r1] assms verify_wanted_sint [of n _ "map2 (+) (take n a) (take n b)" vrf]
  by (auto simp: vvadd_main_def)

lemma verifyDouble_result: "n \<le> length xs \<Longrightarrow> n \<le> length ys \<Longrightarrow> verifyDouble feq n xs ys = Some (first_diff feq xs ys n)"
  unfolding verifyDouble_def verifyDouble_loop_eq by (rule verify_generic)

lemma spmv_main_exit:
  fixes vl x :: "'d::comm_semiring_1 list"
  assumes "r < length ptr" "sorted ptr" "ptr ! r \<le> length vl" "ptr ! r \<le> length idx" "\<forall>k < ptr ! r. idx ! k < length x"
    and "r \<le> length y" "r \<le> length vrf" "stats_ok k"
  shows "\<exists>k'. spmv_main (+) (*) 0 feq pre r0 r1 r vl idx x ptr vrf y k =
      Some (first_diff feq (map (\<lambda>i. \<Sum>k = ptr ! i..<ptr ! (i + 1). vl ! k * x ! (idx ! k)) [0..<r]) vrf r, k') \<and> measures r0 r1 k'"
proof -
  obtain y1 y2 k' where "(if pre then spmv (+) (*) 0 r vl idx x ptr y else Some y) = Some y1"
      "measured r0 r1 (spmv (+) (*) 0 r vl idx x ptr y1) k = Some (y2, k')" "measures r0 r1 k'" and y2: "r \<le> length y2"
      "take r y2 = map (\<lambda>i. \<Sum>k = ptr ! i..<ptr ! (i + 1). vl ! k * x ! (idx ! k)) [0..<r]"
    using spm.warm_run [of "(r, vl, idx, x, ptr)" y k pre r0 r1] assms by auto
  with verifyDouble_result [OF y2(1) assms(7), of feq] first_diff_take [OF y2(2,1), of feq vrf] show ?thesis
    by (simp add: spmv_main_def)
qed

lemma qsort_main_exit:
  assumes "n \<le> length input" "n \<le> length vrf" "n < 11 * 2 ^ 24" "stats_ok k"
  shows "\<exists>k'. qsort_main pre r0 r1 n input vrf k =
      Some (first_diff (=) (sort (take n input)) (if pre then sort (take n vrf) else vrf) n, k') \<and> measures r0 r1 k'"
proof -
  obtain xs where xs: "qsort n input = Some xs" "take n xs = sort (take n input)" using qsort_sorts [OF assms(1,3)] by blast
  obtain vs where vs: "qsort n vrf = Some vs" "take n vs = sort (take n vrf)" using qsort_sorts [OF assms(2,3)] by blast
  have l: "n \<le> length xs" "n \<le> length vs" using arg_cong [OF xs(2), of length] arg_cong [OF vs(2), of length] assms(1,2) by auto
  obtain k' where k': "\<And>x. measured r0 r1 (Some x) k = Some (x :: int list, k')" "measures r0 r1 k'"
    using measured_run [OF assms(4), of r0 r1] by metis
  have same: "verify n input input = Some 0" using verify_result [OF assms(1,1)] first_diff_0 [OF assms(1,1)] by simp
  show ?thesis
  proof (cases pre)
    case True
    have "first_diff (=) (sort (take n input)) vs n = first_diff (=) (sort (take n input)) (sort (take n vrf)) n"
      by (rule first_diff_take_right [OF vs(2) l(2)])
    with True xs vs l k' same verify_wanted [OF xs(2) l(1,2)] show ?thesis by (simp add: qsort_main_def)
  next
    case False
    with xs l k' verify_wanted [OF xs(2) l(1) assms(2)] show ?thesis by (simp add: qsort_main_def)
  qed
qed

lemma rsort_main_exit:
  assumes "n \<le> length input" "n \<le> length vrf" "n \<le> length scratch" "n < 2 ^ 32" "stats_ok k"
  shows "\<exists>k'. rsort_main pre r0 r1 n input vrf scratch k =
      Some (first_diff (=) (sort (take n input)) (if pre then sort (take n vrf) else vrf) n, k') \<and> measures r0 r1 k'"
proof -
  obtain vs s1 where vs: "rsort n vrf scratch = Some (vs, s1)" "take n vs = sort (take n vrf)" "n \<le> length vs" "n \<le> length s1"
    using rsort_sorts [OF assms(2,3,4)] by blast
  obtain k' where k': "\<And>x. measured r0 r1 (Some x) k = Some (x :: u32 list \<times> u32 list, k')" "measures r0 r1 k'"
    using measured_run [OF assms(5), of r0 r1] by metis
  have same: "verify n (map sint input) (map sint input) = Some 0"
    using verify_result [of n "map sint input" "map sint input"] first_diff_0 [of n "map sint input" "map sint input"] assms(1) by simp
  show ?thesis
  proof (cases pre)
    case True
    obtain xs s2 where xs: "rsort n input s1 = Some (xs, s2)" "take n xs = sort (take n input)" "n \<le> length xs"
      using rsort_sorts [OF assms(1) vs(4) assms(4)] by blast
    with True vs k' same verify_wanted_sint [OF xs(2,3) vs(3)] first_diff_take_right [OF vs(2,3), of "(=)" "sort (take n input)"]
    show ?thesis by (simp add: rsort_main_def)
  next
    case False
    obtain xs s2 where xs: "rsort n input scratch = Some (xs, s2)" "take n xs = sort (take n input)" "n \<le> length xs"
      using rsort_sorts [OF assms(1,3,4)] by blast
    with False k' verify_wanted_sint [OF xs(2,3) assms(2)] show ?thesis by (simp add: rsort_main_def)
  qed
qed

section \<open>Exit codes of the multi-core programs\<close>

lemma vv_run_finishes:
  assumes "n \<le> length (operand x z)" "n \<le> length y" "n \<le> length z" "m \<le> nc"
  shows "\<exists>s. vv_run fadd nc n x y z s \<and> (\<forall>c < m. n \<le> vi s c)"
  using assms(4)
proof (induction m)
  case 0
  show ?case using vv_run.start by fastforce
next
  case (Suc m)
  then obtain s where s: "vv_run fadd nc n x y z s" "\<forall>c < m. n \<le> vi s c" by auto
  obtain s' where "vv_run fadd nc n x y z s'" "n \<le> vi s' m" "\<forall>d. d \<noteq> m \<longrightarrow> vi s' d = vi s d"
    using mt_vvadd_loop_run [OF s(1) _ assms(1-3), of m] Suc.prems by auto
  with s(2) show ?case by (metis less_Suc_eq)
qed

lemma vv_phase_result:
  assumes "0 < nc" "n \<le> length (operand x z)" "n \<le> length y" "n \<le> length z"
  shows "vv_phase fadd nc n x y z z' \<longleftrightarrow> z' = map2 fadd (take n (operand x z)) (take n y) @ drop n z"
proof -
  have "vz s = map2 fadd (take n (operand x z)) (take n y) @ drop n z"
    if "vv_run fadd nc n x y z s" "\<forall>c < nc. n \<le> vi s c" for s
    using vv_run_final [OF that(1) assms(1-4) that(2)] by (simp add: map2_nth [OF assms(2,3)])
  with vv_run_finishes [OF assms(2-4), of nc nc fadd] show ?thesis by (auto simp: vv_phase_def)
qed

lemma copy_input_copies:
  assumes "k \<le> n" "n \<le> length xs" "n \<le> length z"
  shows "copy_input [k..<n] xs z = Some (take k z @ drop k (take n xs) @ drop n z)"
  using assms
proof (induction "n - k" arbitrary: k z)
  case (Suc d)
  have k: "k < n" "[k..<n] = k # [Suc k..<n]" using Suc.hyps(2) by (auto simp: upt_conv_Cons)
  then have "drop k (take n xs) = xs ! k # drop (Suc k) (take n xs)"
    using Suc.prems by (subst Cons_nth_drop_Suc [symmetric]) auto
  with Suc.hyps(1) [of "Suc k" "z[k := xs ! k]"] Suc.hyps(2) Suc.prems k show ?case
    by (auto simp: k(2) take_Suc_conv_app_nth)
qed auto

lemma mt_vvadd_exit:
  assumes "0 < nc" "n \<le> length input1" "n \<le> length input2" "n \<le> length results" "n \<le> length vrf"
  shows "mt_vvadd_exits fadd feq nc n input1 input2 vrf results r \<longleftrightarrow>
    r = first_diff feq (map2 fadd (take n input1) (take n input2)) vrf n"
proof -
  let ?w = "map2 fadd (take n input1) (take n input2)"
  let ?z = "?w @ drop n results" and ?d = "first_diff feq ?w vrf n"
  let ?z1 = "take n input1 @ drop n results"
  have lw: "length ?w = n" using assms(2,3) by simp
  have p1: "vv_phase fadd nc n (Some input1) input2 results z \<longleftrightarrow> z = ?z" for z
    using vv_phase_result [of nc n "Some input1" results input2 fadd] assms by (simp add: operand_def)
  have p2: "vv_phase fadd nc n None input2 ?z1 z \<longleftrightarrow> z = ?z" for z
    using vv_phase_result [of nc n None ?z1 input2 fadd] assms by (simp add: operand_def)
  have copy: "copy_input [0..<n] input1 ?z = Some ?z1" using copy_input_copies [of 0 n input1 ?z] assms(2) lw by simp
  have "take n ?z = ?w" "n \<le> length ?z" using lw by (simp_all only: append_eq_conv_conj length_append) simp_all
  then have v: "verifyDouble feq n ?z vrf = Some ?d"
    using verifyDouble_result [of n ?z vrf feq] first_diff_take [of n ?z ?w feq vrf] assms(5) by metis
  show ?thesis
  proof
    assume "mt_vvadd_exits fadd feq nc n input1 input2 vrf results r"
    then show "r = ?d" by cases (use p1 p2 copy v in auto)
  next
    assume r: "r = ?d"
    show "mt_vvadd_exits fadd feq nc n input1 input2 vrf results r"
    proof (cases "?d = 0")
      case True
      with v have "verifyDouble feq n ?z vrf = Some 0" by metis
      with mt_vvadd_exits.second [of fadd nc n input1 input2 results ?z feq vrf ?z1 ?z r] p1 p2 copy v r show ?thesis by blast
    next
      case False
      with mt_vvadd_exits.first_differs [of fadd nc n input1 input2 results ?z feq vrf r] p1 v r show ?thesis by blast
    qed
  qed
qed

lemma mt_matmul_exit:
  assumes "dim * dim \<le> length A" "dim * dim \<le> length B" "dim * dim \<le> length C" "dim * dim \<le> length vrf"
    and "set cs = {..<nc}" "nc dvd dim"
  shows "mt_matmul_entry cs nc dim A B vrf C =
    Some (first_diff (=) (map (\<lambda>q. mprod dim A B (q div dim) (q mod dim)) [0..<dim * dim]) vrf (dim * dim))"
proof -
  obtain C' where C': "matmul_cores cs nc dim A B C = Some C'" "length C' = length C"
    "\<forall>q < length C. C' ! q = (if q div dim < dim div nc * nc then mprod dim A B (q div dim) (q mod dim) else C ! q)"
    using matmul_cores_all [OF assms(1-3,5)] by blast
  have "take (dim * dim) C' = map (\<lambda>q. mprod dim A B (q div dim) (q mod dim)) [0..<dim * dim]"
    using C'(2,3) assms(3,6) by (intro nth_equalityI) (auto simp: less_mult_imp_div_less)
  then show ?thesis
    using C'(1,2) assms(3,4) verify_wanted_sint [of "dim * dim" C'] by (simp add: mt_matmul_entry_def)
qed

text \<open>The operations of an ordered field, for the driver of the blocked product.\<close>

definition exact_ops :: "(u64 \<Rightarrow> 'd) \<Rightarrow> 'd::linordered_field check_ops" where
  "exact_ops cv = \<lparr>cmul = (*), cadd = (+), csub = (-), cabs = abs, cgreater = (\<lambda>x y. x > y), c1em6 = 1 / 1000000, cint = of_int, cu64 = cv\<rparr>"

lemma forM_invariant:
  assumes "\<And>i s. i \<in> set is \<Longrightarrow> I s \<Longrightarrow> \<exists>s'. body i s = Some s' \<and> I s'" "I s"
  shows "\<exists>s'. forM is body s = Some s' \<and> I s'"
  using assms
proof (induction "is" arbitrary: s)
  case (Cons i "is")
  obtain s1 where "body i s = Some s1" "I s1" using Cons.prems by force
  with Cons.IH [of s1] Cons.prems(1) show ?case by auto
qed simp

lemma mm_fill_runs:
  assumes "m * p \<le> length a"
  shows "\<exists>s' a'. mm_fill cv m p (s, a) = Some (s', a') \<and> length a' = length a"
proof -
  let ?step = "\<lambda>i j (s, a). do { let s = lfsr s; a \<leftarrow> aset a (i * p + j) (cv s); Some (s, a) }"
  have row: "\<exists>r'. forM [0..<p] (?step i) r = Some r' \<and> length (snd r') = length a"
    if i: "i \<in> set [0..<m]" and r: "length (snd r) = length a" for i r
  proof (rule forM_invariant)
    fix j and r :: "u64 \<times> 'a list" assume j: "j \<in> set [0..<p]" and r: "length (snd r) = length a"
    have "i * p + j < m * p" using index_less(2) [of j p i m] i j by simp
    with assms r show "\<exists>r'. ?step i j r = Some r' \<and> length (snd r') = length a" by (cases r) (auto simp: Let_def)
  qed (rule r)
  have "\<exists>r. forM [0..<m] (\<lambda>i. forM [0..<p] (?step i)) (s, a) = Some r \<and> length (snd r) = length a"
    by (rule forM_invariant) (use row in auto)
  then show ?thesis by (auto simp: mm_fill_def)
qed

lemma mm_dot_exact:
  assumes "i < m" "j < n" "length a = m * p" "length b = p * n"
  shows "mm_dot (exact_ops cv) n p a b i j = Some (\<Sum>k<p. a ! (i * p + k) * b ! (k * n + j))"
proof -
  let ?t = "\<lambda>k. a ! (i * p + k) * b ! (k * n + j)"
  let ?step = "\<lambda>k s. do { x \<leftarrow> aget a (i * p + k); y \<leftarrow> aget b (k * n + j); Some (s + x * y) }"
  have step: "\<exists>s'. ?step k s = Some s' \<and> s' = s + ?t k" if "k \<in> set [0..<p]" for k s
  proof -
    have "i * p + k < m * p" "k * n + j < p * n" using index_less(2) [of k p i m] index_less(2) [of j n k p] assms(1,2) that by simp_all
    then show ?thesis using assms(3,4) by simp
  qed
  have "\<exists>s'. forM [0..<p] ?step 0 = Some s' \<and> s' = 0 + (\<Sum>k\<leftarrow>[0..<p]. ?t k)"
    by (rule forM_total) (use step in blast)
  moreover have "(\<Sum>k\<leftarrow>[0..<p]. ?t k) = (\<Sum>k<p. ?t k)" by (simp add: sum_list_distinct_conv_sum_set lessThan_atLeast0)
  ultimately show ?thesis by (simp add: mm_dot_def exact_ops_def)
qed

lemma mm_runs_exact:
  fixes a b c :: "'d::comm_semiring_1 list"
  assumes "length a = m * p" "length b = p * n" "length c = m * n"
  shows "\<exists>c'. forM rs (\<lambda>_. mm exact u m n p a 0 p b 0 n 0 n) c = Some c' \<and> length c' = m * n \<and>
    (\<forall>i < m. \<forall>j < n. c' ! (i * n + j) = c ! (i * n + j) + of_nat (length rs) * (\<Sum>k<p. a ! (i * p + k) * b ! (k * n + j)))"
  using assms(3)
proof (induction rs arbitrary: c)
  case (Cons r rs)
  have inb: "inb (length xs) 0 w h w" if "length xs = h * w" for xs :: "'d list" and h w
    using index_less(2) [of _ w _ h] that by (simp add: inb_def)
  obtain c1 where c1: "mm exact u m n p a 0 p b 0 n 0 n c = Some c1" "length c1 = m * n"
    "\<forall>i < m. \<forall>j < n. c1 ! (i * n + j) = c ! (i * n + j) + (\<Sum>k<p. a ! (i * p + k) * b ! (k * n + j))"
    using mm_adds [OF inb [OF assms(1)] inb [OF assms(2)] inb [OF Cons.prems] order_refl, of u] Cons.prems by auto
  with Cons.IH [OF c1(2)] show ?case by (auto simp: algebra_simps)
qed auto

lemma mm_check_exact:
  fixes a b c :: "'d::linordered_field list"
  assumes "length a = m * p" "length b = p * n" "length c = m * n"
    and "\<forall>i < m. \<forall>j < n. c ! (i * n + j) = of_nat R * (\<Sum>k<p. a ! (i * p + k) * b ! (k * n + j))"
  shows "mm_check (exact_ops cv) R m n p a b c = Some False"
proof -
  let ?step = "\<lambda>i j bad. if bad then Some True
       else do { s \<leftarrow> mm_dot (exact_ops cv) n p a b i j;
                 let s = cmul (exact_ops cv) s (cint (exact_ops cv) (int R));
                 x \<leftarrow> aget c (i * n + j);
                 Some (cgreater (exact_ops cv) (cabs (exact_ops cv) (csub (exact_ops cv) x s))
                   (cabs (exact_ops cv) (cmul (exact_ops cv) (c1em6 (exact_ops cv)) s))) }"
  have row: "\<exists>bad'. forM [0..<n] (?step i) bad = Some bad' \<and> \<not> bad'" if i: "i \<in> set [0..<m]" and bad: "\<not> bad" for i bad
  proof (rule forM_invariant)
    fix j bad assume j: "j \<in> set [0..<n]" and bad: "\<not> bad"
    have "i * n + j < m * n" using index_less(2) [of j n i m] i j by simp
    moreover have "mm_dot (exact_ops cv) n p a b i j = Some (\<Sum>k<p. a ! (i * p + k) * b ! (k * n + j))"
      using mm_dot_exact [OF _ _ assms(1,2), of i j cv] i j by simp
    ultimately show "\<exists>bad'. ?step i j bad = Some bad' \<and> \<not> bad'"
      using bad assms(3,4) i j by (auto simp: exact_ops_def mult.commute)
  qed (rule bad)
  have "\<exists>bad'. forM [0..<m] (\<lambda>i. forM [0..<n] (?step i)) False = Some bad' \<and> bad' = False"
    by (rule forM_invariant) (use row in auto)
  then show ?thesis unfolding mm_check_def by blast
qed

lemma mm_main_exit: "mm_main exact (exact_ops cv) u = Some 0"
proof -
  obtain s a where a: "mm_fill cv CBM CBK (0xdeadbeef, replicate (CBM * CBK) u) = Some (s, a)" "length a = CBM * CBK"
    using mm_fill_runs [of CBM CBK "replicate (CBM * CBK) u" cv "0xdeadbeef"] by auto
  obtain s' b where b: "mm_fill cv CBK CBN (s, replicate (CBK * CBN) u) = Some (s', b)" "length b = CBK * CBN"
    using mm_fill_runs [of CBK CBN "replicate (CBK * CBN) u" cv s] by auto
  obtain c where c: "mm_runs exact u 8 CBM CBN CBK a b (replicate (CBM * CBN) 0) = Some c" "length c = CBM * CBN"
    "\<forall>i < CBM. \<forall>j < CBN. c ! (i * CBN + j) = replicate (CBM * CBN) 0 ! (i * CBN + j) + of_nat 8 * (\<Sum>k<CBK. a ! (i * CBK + k) * b ! (k * CBN + j))"
    using mm_runs_exact [OF a(2) b(2), of "replicate (CBM * CBN) 0" "[0..<8]" u] by (auto simp: mm_runs_def)
  have "c ! (i * CBN + j) = of_nat 8 * (\<Sum>k<CBK. a ! (i * CBK + k) * b ! (k * CBN + j))" if "i < CBM" "j < CBN" for i j
    using c(3) that index_less(2) [of j CBN i CBM] by simp
  with mm_check_exact [OF a(2) b(2) c(2), of 8 cv] a(1) b(1) c(1) show ?thesis
    by (simp add: mm_main_def Let_def exact_ops_def)
qed

section \<open>Properties\<close>

lemma sort_eq_iff_mset: "sort xs = sort ys \<longleftrightarrow> mset xs = mset ys"
  by (metis mset_sort properties_for_sort sorted_sort)

text \<open>C23. The sorting programs: with arrays of at least \<open>n\<close> elements both run to the end and return one
  more than the index of the first difference between the sorted input and the reference data, 0 when
  there is none, and the counters hold the differences of their readings. In the build with
  \<open>PREALLOCATE\<close> the reference data are themselves sorted first, so that the result is 0 exactly when they are a
  permutation of the input.\<close>

theorem sort_programs_exit:
  assumes "n \<le> length input" "n \<le> length vrf" "n < 11 * 2 ^ 24" "stats_ok k"
    and "n \<le> length rinput" "n \<le> length rvrf" "n \<le> length scratch"
  shows "(\<exists>k'. qsort_main pre r0 r1 n input vrf k =
      Some (first_diff (=) (sort (take n input)) (if pre then sort (take n vrf) else vrf) n, k') \<and> measures r0 r1 k') \<and>
    (\<exists>k'. rsort_main pre r0 r1 n rinput rvrf scratch k =
      Some (first_diff (=) (sort (take n rinput)) (if pre then sort (take n rvrf) else rvrf) n, k') \<and> measures r0 r1 k') \<and>
    (first_diff (=) (sort (take n input)) (sort (take n vrf)) n = 0 \<longleftrightarrow> mset (take n input) = mset (take n vrf))"
proof (intro conjI)
  show "\<exists>k'. qsort_main pre r0 r1 n input vrf k =
      Some (first_diff (=) (sort (take n input)) (if pre then sort (take n vrf) else vrf) n, k') \<and> measures r0 r1 k'"
    by (rule qsort_main_exit [OF assms(1-4)])
  show "\<exists>k'. rsort_main pre r0 r1 n rinput rvrf scratch k =
      Some (first_diff (=) (sort (take n rinput)) (if pre then sort (take n rvrf) else rvrf) n, k') \<and> measures r0 r1 k'"
    using rsort_main_exit [OF assms(5-7) _ assms(4)] assms(3) by simp
  show "first_diff (=) (sort (take n input)) (sort (take n vrf)) n = 0 \<longleftrightarrow> mset (take n input) = mset (take n vrf)"
    using assms(1,2) by (subst first_diff_0) (auto simp: sort_eq_iff_mset)
qed

text \<open>Statistics before the first call of \<open>setStats\<close>: static data, all zero.\<close>

definition stats_init :: stats where
  "stats_init = \<lparr>counters = [0, 0], counter_names = [[], []]\<rparr>"

lemma stats_init_ok: "stats_ok stats_init"
  by (simp add: stats_ok_def stats_init_def)

theorem sort_programs_exit_witness:
  "\<exists>k'. qsort_main True (5, 6) (15, 26) 3 [9, 4, 7] [4, 7, 9] stats_init = Some (0, k') \<and> counters k' = [10, 20]"
proof -
  have "mset (take 3 [9, 4, 7 :: int]) = mset (take 3 [4, 7, 9])" by simp
  with sort_programs_exit [of 3 "[9, 4, 7]" "[4, 7, 9]" stats_init "[9, 4, 7]" "[4, 7, 9]" "[0, 0, 0]" True "(5, 6)" "(15, 26)"]
  show ?thesis using stats_init_ok by (auto simp: measures_def)
qed

text \<open>C25. The vector addition on several cores: whatever the number of cores and however their steps
  interleave between the barriers, the program exits, with one more than the index of the first difference
  between the sums and the reference data; the two passes, one with a separate result array and one in
  place, can not lead to different exit codes.\<close>

theorem mt_vvadd_all_schedules:
  assumes "0 < nc" "n \<le> length input1" "n \<le> length input2" "n \<le> length results" "n \<le> length vrf"
  shows "mt_vvadd_exits fadd feq nc n input1 input2 vrf results r \<longleftrightarrow>
    r = first_diff feq (map2 fadd (take n input1) (take n input2)) vrf n"
  by (rule mt_vvadd_exit [OF assms])

theorem mt_vvadd_all_schedules_witness:
  "mt_vvadd_exits (+) (=) 2 3 [1, 2, 3] [10, 20, 30] [11, 22, 34] [0, 0, 0 :: int] 3"
proof -
  have "first_diff (=) [11, 22, 33] [11, 22, 34 :: int] 3 = Suc 2"
    by (rule first_diff_at) (auto simp: less_Suc_eq numeral_eq_Suc)
  then show ?thesis
    using mt_vvadd_all_schedules [of 2 3 "[1, 2, 3]" "[10, 20, 30]" "[0, 0, 0]" "[11, 22, 34 :: int]" "(+)" "(=)" 3] by simp
qed

text \<open>C26. The driver of the blocked product succeeds: over every ordered field and for every conversion of
  the generated numbers, both matrices are filled, the eight products stay inside of the arrays, every
  entry passes the comparison with eight times the product that the driver computes itself, and the exit
  code is 0.\<close>

theorem mm_main_succeeds: "mm_main exact (exact_ops cv) u = Some 0"
  by (rule mm_main_exit)

end
