(* ===== verification/App_Data.thy ===== *)
theory App_Data
  imports App_Mains
begin

text \<open>
  The data sets that the benchmark programs are built with (\<open>dataset1.h\<close> of the median filter, the
  multiplication and the vector addition), and the run of the three programs on them.
\<close>

section \<open>The data\<close>

definition median_input :: "int list" where
  "median_input =
    [41, 454, 833, 335, 564, 1, 187, 989, 749, 365, 350, 572, 132, 64, 949, 153, 584, 216, 805, 140, 621, 210, 6, 572,
     931, 339, 890, 593, 392, 898, 694, 228, 961, 12, 110, 883, 116, 750, 296, 646, 426, 500, 314, 436, 659, 701, 774, 812,
     319, 981, 678, 150, 875, 696, 376, 564, 474, 272, 938, 258, 539, 647, 569, 509, 203, 88, 280, 703, 759, 669, 606, 375,
     511, 551, 657, 936, 195, 592, 81, 569, 267, 952, 229, 800, 337, 584, 944, 643, 902, 368, 241, 489, 913, 328, 826, 313,
     933, 592, 985, 388, 195, 543, 960, 649, 566, 979, 350, 997, 649, 814, 657, 79, 181, 208, 111, 998, 859, 629, 65, 847,
     288, 704, 349, 997, 141, 253, 905, 715, 886, 430, 264, 415, 576, 538, 979, 700, 761, 4, 241, 494, 478, 100, 499, 864,
     403, 693, 222, 416, 444, 296, 721, 285, 676, 620, 317, 78, 224, 351, 937, 540, 288, 646, 119, 169, 615, 527, 606, 289,
     389, 796, 351, 801, 455, 720, 278, 758, 367, 745, 358, 92, 584, 989, 62, 271, 985, 853, 403, 788, 346, 531, 517, 222,
     559, 461, 908, 241, 775, 358, 255, 332, 778, 684, 598, 740, 143, 446, 33, 311, 125, 743, 941, 557, 933, 479, 799, 557,
     553, 925, 431, 796, 648, 357, 952, 891, 287, 666, 19, 514, 49, 557, 86, 870, 95, 853, 441, 440, 587, 61, 614, 678,
     382, 396, 280, 9, 808, 17, 971, 170, 819, 291, 344, 380, 450, 536, 512, 185, 965, 917, 347, 539, 808, 983, 882, 887,
     537, 54, 946, 612, 701, 951, 356, 479, 567, 151, 891, 7, 22, 641, 568, 335, 665, 730, 423, 95, 434, 728, 158, 280,
     2, 395, 84, 688, 247, 911, 49, 476, 435, 815, 792, 729, 869, 265, 486, 127, 414, 236, 369, 214, 548, 180, 518, 6,
     888, 503, 682, 596, 284, 173, 264, 643, 499, 346, 290, 599, 897, 68, 215, 849, 731, 658, 688, 619, 251, 121, 786, 131,
     555, 828, 302, 667, 528, 433, 544, 487, 322, 753, 947, 125, 287, 626, 824, 14, 304, 10, 788, 403, 733, 106, 959, 703,
     366, 818, 722, 964, 294, 406, 975, 874, 653, 856, 748, 86, 91, 60, 378, 660, 105, 667, 102, 153, 381, 121, 651, 98,
     825, 412, 840, 236, 356, 12, 148, 423, 54, 965, 140, 216, 955, 621, 343, 361]"

definition median_verify :: "int list" where
  "median_verify =
    [0, 454, 454, 564, 335, 187, 187, 749, 749, 365, 365, 350, 132, 132, 153, 584, 216, 584, 216, 621, 210, 210, 210, 572,
     572, 890, 593, 593, 593, 694, 694, 694, 228, 110, 110, 116, 750, 296, 646, 426, 500, 426, 436, 436, 659, 701, 774, 774,
     812, 678, 678, 678, 696, 696, 564, 474, 474, 474, 272, 539, 539, 569, 569, 509, 203, 203, 280, 703, 703, 669, 606, 511,
     511, 551, 657, 657, 592, 195, 569, 267, 569, 267, 800, 337, 584, 584, 643, 902, 643, 368, 368, 489, 489, 826, 328, 826,
     592, 933, 592, 388, 388, 543, 649, 649, 649, 566, 979, 649, 814, 657, 657, 181, 181, 181, 208, 859, 859, 629, 629, 288,
     704, 349, 704, 349, 253, 253, 715, 886, 715, 430, 415, 415, 538, 576, 700, 761, 700, 241, 241, 478, 478, 478, 499, 499,
     693, 403, 416, 416, 416, 444, 296, 676, 620, 620, 317, 224, 224, 351, 540, 540, 540, 288, 169, 169, 527, 606, 527, 389,
     389, 389, 796, 455, 720, 455, 720, 367, 745, 367, 358, 358, 584, 584, 271, 271, 853, 853, 788, 403, 531, 517, 517, 517,
     461, 559, 461, 775, 358, 358, 332, 332, 684, 684, 684, 598, 446, 143, 311, 125, 311, 743, 743, 933, 557, 799, 557, 557,
     557, 553, 796, 648, 648, 648, 891, 891, 666, 287, 514, 49, 514, 86, 557, 95, 853, 441, 441, 441, 440, 587, 614, 614,
     396, 382, 280, 280, 17, 808, 170, 819, 291, 344, 344, 380, 450, 512, 512, 512, 917, 917, 539, 539, 808, 882, 887, 882,
     537, 537, 612, 701, 701, 701, 479, 479, 479, 567, 151, 22, 22, 568, 568, 568, 665, 665, 423, 423, 434, 434, 280, 158,
     280, 84, 395, 247, 688, 247, 476, 435, 476, 792, 792, 792, 729, 486, 265, 414, 236, 369, 236, 369, 214, 518, 180, 518,
     503, 682, 596, 596, 284, 264, 264, 499, 499, 346, 346, 599, 599, 215, 215, 731, 731, 688, 658, 619, 251, 251, 131, 555,
     555, 555, 667, 528, 528, 528, 487, 487, 487, 753, 753, 287, 287, 626, 626, 304, 14, 304, 403, 733, 403, 733, 703, 703,
     703, 722, 818, 722, 406, 406, 874, 874, 856, 748, 748, 91, 86, 91, 378, 378, 660, 105, 153, 153, 153, 381, 121, 651,
     412, 825, 412, 356, 236, 148, 148, 148, 423, 140, 216, 216, 621, 621, 361, 0]"

definition multiply_input1 :: "u32 list" where
  "multiply_input1 =
    [41, 454, 833, 335, 564, 1, 187, 989, 749, 365, 350, 572, 132, 64, 949, 153, 584, 216, 805, 140, 621, 210, 6, 572,
     931, 339, 890, 593, 392, 898, 694, 228, 961, 12, 110, 883, 116, 750, 296, 646, 426, 500, 314, 436, 659, 701, 774, 812,
     319, 981, 678, 150, 875, 696, 376, 564, 474, 272, 938, 258, 539, 647, 569, 509, 203, 88, 280, 703, 759, 669, 606, 375,
     511, 551, 657, 936, 195, 592, 81, 569, 267, 952, 229, 800, 337, 584, 944, 643, 902, 368, 241, 489, 913, 328, 826, 313,
     933, 592, 985, 388]"

definition multiply_input2 :: "u32 list" where
  "multiply_input2 =
    [195, 543, 960, 649, 566, 979, 350, 997, 649, 814, 657, 79, 181, 208, 111, 998, 859, 629, 65, 847, 288, 704, 349, 997,
     141, 253, 905, 715, 886, 430, 264, 415, 576, 538, 979, 700, 761, 4, 241, 494, 478, 100, 499, 864, 403, 693, 222, 416,
     444, 296, 721, 285, 676, 620, 317, 78, 224, 351, 937, 540, 288, 646, 119, 169, 615, 527, 606, 289, 389, 796, 351, 801,
     455, 720, 278, 758, 367, 745, 358, 92, 584, 989, 62, 271, 985, 853, 403, 788, 346, 531, 517, 222, 559, 461, 908, 241,
     775, 358, 255, 332]"

definition multiply_verify :: "u32 list" where
  "multiply_verify =
    [7995, 246522, 799680, 217415, 319224, 979, 65450, 986033, 486101, 297110, 229950, 45188, 23892, 13312, 105339, 152694, 501656, 135864, 52325, 118580, 178848, 147840, 2094, 570284,
     131271, 85767, 805450, 423995, 347312, 386140, 183216, 94620, 553536, 6456, 107690, 618100, 88276, 3000, 71336, 319124, 203628, 50000, 156686, 376704, 265577, 485793, 171828, 337792,
     141636, 290376, 488838, 42750, 591500, 431520, 119192, 43992, 106176, 95472, 878906, 139320, 155232, 417962, 67711, 86021, 124845, 46376, 169680, 203167, 295251, 532524, 212706, 300375,
     232505, 396720, 182646, 709488, 71565, 441040, 28998, 52348, 155928, 941528, 14198, 216800, 331945, 498152, 380432, 506684, 312092, 195408, 124597, 108558, 510367, 151208, 750008, 75433,
     723075, 211936, 251175, 128816]"

definition vvadd_input1 :: "u32 list" where
  "vvadd_input1 =
    [41, 833, 564, 187, 749, 350, 132, 949, 584, 805, 621, 6, 931, 890, 392, 694, 961, 110, 116, 296, 426, 314, 659, 774,
     319, 678, 875, 376, 474, 938, 539, 569, 203, 280, 759, 606, 511, 657, 195, 81, 267, 229, 337, 944, 902, 241, 913, 826,
     933, 985, 195, 960, 566, 350, 649, 657, 181, 111, 859, 65, 288, 349, 141, 905, 886, 264, 576, 979, 761, 241, 478, 499,
     403, 222, 444, 721, 676, 317, 224, 937, 288, 119, 615, 606, 389, 351, 455, 278, 367, 358, 584, 62, 985, 403, 346, 517,
     559, 908, 775, 255, 778, 598, 143, 33, 125, 941, 933, 799, 553, 431, 648, 952, 287, 19, 49, 86, 95, 441, 587, 614,
     382, 280, 808, 971, 819, 344, 450, 512, 965, 347, 808, 882, 537, 946, 701, 356, 567, 891, 22, 568, 665, 423, 434, 158,
     2, 84, 247, 49, 435, 792, 869, 486, 414, 369, 548, 518, 888, 682, 284, 264, 499, 290, 897, 215, 731, 688, 251, 786,
     555, 302, 528, 544, 322, 947, 287, 824, 304, 788, 733, 959, 366, 722, 294, 975, 653, 748, 91, 378, 105, 102, 381, 651,
     825, 840, 356, 148, 54, 140, 955, 343, 533, 757, 521, 837, 592, 13, 173, 63, 121, 133, 758, 372, 951, 39, 129, 110,
     847, 437, 255, 269, 409, 628, 399, 549, 753, 564, 171, 19, 727, 501, 777, 43, 753, 81, 202, 853, 153, 760, 357, 943,
     922, 328, 496, 442, 516, 641, 276, 786, 113, 842, 907, 275, 237, 32, 784, 565, 357, 803, 819, 751, 280, 85, 458, 454,
     710, 459, 41, 253, 377, 508, 700, 860, 480, 741, 499, 709, 49, 371, 873, 945, 992, 526, 721, 435, 232, 497, 697, 30,
     348, 250, 350, 250, 573, 784, 749, 502, 823, 826, 170, 160]"

definition vvadd_input2 :: "u32 list" where
  "vvadd_input2 =
    [454, 335, 1, 989, 365, 572, 64, 153, 216, 140, 210, 572, 339, 593, 898, 228, 12, 883, 750, 646, 500, 436, 701, 812,
     981, 150, 696, 564, 272, 258, 647, 509, 88, 703, 669, 375, 551, 936, 592, 569, 952, 800, 584, 643, 368, 489, 328, 313,
     592, 388, 543, 649, 979, 997, 814, 79, 208, 998, 629, 847, 704, 997, 253, 715, 430, 415, 538, 700, 4, 494, 100, 864,
     693, 416, 296, 285, 620, 78, 351, 540, 646, 169, 527, 289, 796, 801, 720, 758, 745, 92, 989, 271, 853, 788, 531, 222,
     461, 241, 358, 332, 684, 740, 446, 311, 743, 557, 479, 557, 925, 796, 357, 891, 666, 514, 557, 870, 853, 440, 61, 678,
     396, 9, 17, 170, 291, 380, 536, 185, 917, 539, 983, 887, 54, 612, 951, 479, 151, 7, 641, 335, 730, 95, 728, 280,
     395, 688, 911, 476, 815, 729, 265, 127, 236, 214, 180, 6, 503, 596, 173, 643, 346, 599, 68, 849, 658, 619, 121, 131,
     828, 667, 433, 487, 753, 125, 626, 14, 10, 403, 106, 703, 818, 964, 406, 874, 856, 86, 60, 660, 667, 153, 121, 98,
     412, 236, 12, 423, 965, 216, 621, 361, 921, 715, 647, 299, 886, 682, 36, 493, 551, 537, 969, 643, 434, 415, 303, 438,
     860, 203, 478, 988, 675, 719, 990, 338, 450, 633, 155, 646, 452, 427, 509, 988, 426, 12, 483, 142, 339, 390, 50, 171,
     601, 105, 968, 121, 879, 81, 870, 600, 603, 871, 887, 610, 404, 234, 745, 526, 275, 441, 226, 752, 943, 726, 709, 201,
     54, 758, 53, 397, 41, 141, 416, 747, 219, 478, 770, 180, 482, 691, 725, 173, 186, 914, 1, 963, 247, 464, 362, 521,
     233, 120, 40, 779, 195, 161, 743, 439, 355, 403, 141, 633]"

definition vvadd_verify :: "u32 list" where
  "vvadd_verify =
    [495, 1168, 565, 1176, 1114, 922, 196, 1102, 800, 945, 831, 578, 1270, 1483, 1290, 922, 973, 993, 866, 942, 926, 750, 1360, 1586,
     1300, 828, 1571, 940, 746, 1196, 1186, 1078, 291, 983, 1428, 981, 1062, 1593, 787, 650, 1219, 1029, 921, 1587, 1270, 730, 1241, 1139,
     1525, 1373, 738, 1609, 1545, 1347, 1463, 736, 389, 1109, 1488, 912, 992, 1346, 394, 1620, 1316, 679, 1114, 1679, 765, 735, 578, 1363,
     1096, 638, 740, 1006, 1296, 395, 575, 1477, 934, 288, 1142, 895, 1185, 1152, 1175, 1036, 1112, 450, 1573, 333, 1838, 1191, 877, 739,
     1020, 1149, 1133, 587, 1462, 1338, 589, 344, 868, 1498, 1412, 1356, 1478, 1227, 1005, 1843, 953, 533, 606, 956, 948, 881, 648, 1292,
     778, 289, 825, 1141, 1110, 724, 986, 697, 1882, 886, 1791, 1769, 591, 1558, 1652, 835, 718, 898, 663, 903, 1395, 518, 1162, 438,
     397, 772, 1158, 525, 1250, 1521, 1134, 613, 650, 583, 728, 524, 1391, 1278, 457, 907, 845, 889, 965, 1064, 1389, 1307, 372, 917,
     1383, 969, 961, 1031, 1075, 1072, 913, 838, 314, 1191, 839, 1662, 1184, 1686, 700, 1849, 1509, 834, 151, 1038, 772, 255, 502, 749,
     1237, 1076, 368, 571, 1019, 356, 1576, 704, 1454, 1472, 1168, 1136, 1478, 695, 209, 556, 672, 670, 1727, 1015, 1385, 454, 432, 548,
     1707, 640, 733, 1257, 1084, 1347, 1389, 887, 1203, 1197, 326, 665, 1179, 928, 1286, 1031, 1179, 93, 685, 995, 492, 1150, 407, 1114,
     1523, 433, 1464, 563, 1395, 722, 1146, 1386, 716, 1713, 1794, 885, 641, 266, 1529, 1091, 632, 1244, 1045, 1503, 1223, 811, 1167, 655,
     764, 1217, 94, 650, 418, 649, 1116, 1607, 699, 1219, 1269, 889, 531, 1062, 1598, 1118, 1178, 1440, 722, 1398, 479, 961, 1059, 551,
     581, 370, 390, 1029, 768, 945, 1492, 941, 1178, 1229, 311, 793]"

text \<open>The doubles of the multi-core addition are whole numbers.\<close>

definition mt_vvadd_input1 :: "int list" where
  "mt_vvadd_input1 =
    [0, 15, 10, 3, 14, 6, 2, 18, 11, 15, 11, 0, 17, 16, 7, 13, 18, 2, 2, 5, 8, 5, 12, 14,
     6, 12, 16, 7, 9, 17, 10, 10, 3, 5, 14, 11, 9, 12, 3, 1, 5, 4, 6, 17, 17, 4, 17, 15,
     17, 18, 3, 18, 10, 6, 12, 12, 3, 2, 16, 1, 5, 6, 2, 17, 16, 5, 10, 18, 14, 4, 9, 9,
     7, 4, 8, 13, 12, 6, 4, 17, 5, 2, 11, 11, 7, 6, 8, 5, 6, 6, 11, 1, 18, 7, 6, 9,
     10, 17, 14, 4, 14, 11, 2, 0, 2, 17, 17, 15, 10, 8, 12, 18, 5, 0, 0, 1, 1, 8, 11, 11,
     7, 5, 15, 18, 15, 6, 8, 9, 18, 6, 15, 16, 10, 18, 13, 6, 10, 16, 0, 10, 12, 8, 8, 3,
     0, 1, 4, 0, 8, 15, 16, 9, 7, 7, 10, 9, 16, 12, 5, 5, 9, 5, 17, 4, 13, 13, 4, 14,
     10, 5, 10, 10, 6, 18, 5, 15, 5, 15, 13, 18, 6, 13, 5, 18, 12, 14, 1, 7, 2, 1, 7, 12,
     15, 15, 6, 2, 1, 2, 18, 6, 10, 14, 9, 15, 11, 0, 3, 1, 2, 2, 14, 7, 18, 0, 2, 2,
     16, 8, 4, 5, 7, 11, 7, 10, 14, 10, 3, 0, 13, 9, 14, 0, 14, 1, 3, 16, 2, 14, 6, 17,
     17, 6, 9, 8, 9, 12, 5, 14, 2, 16, 17, 5, 4, 0, 14, 10, 6, 15, 15, 14, 5, 1, 8, 8,
     13, 8, 0, 4, 7, 9, 13, 16, 9, 14, 9, 13, 0, 7, 16, 17, 18, 10, 13, 8, 4, 9, 13, 0,
     6, 4, 6, 4, 10, 14, 14, 9, 15, 15, 3, 3, 12, 0, 3, 2, 16, 1, 7, 2, 16, 2, 2, 0,
     14, 3, 3, 10, 4, 10, 3, 4, 13, 14, 13, 0, 1, 15, 16, 9, 7, 9, 0, 11, 1, 1, 15, 17,
     12, 16, 15, 4, 8, 2, 10, 10, 0, 18, 17, 7, 7, 2, 10, 17, 9, 7, 5, 3, 8, 11, 6, 9,
     13, 0, 3, 5, 2, 5, 7, 4, 9, 2, 13, 17, 14, 12, 1, 3, 7, 17, 0, 14, 16, 2, 2, 1,
     2, 15, 16, 8, 2, 4, 15, 15, 10, 6, 11, 9, 15, 17, 3, 8, 15, 3, 10, 15, 8, 14, 16, 15,
     15, 14, 1, 7, 4, 18, 2, 13, 11, 15, 7, 10, 13, 10, 7, 14, 18, 4, 18, 4, 3, 9, 1, 13,
     15, 2, 5, 15, 12, 10, 2, 0, 10, 15, 0, 11, 14, 11, 14, 9, 1, 18, 14, 18, 15, 5, 1, 15,
     18, 14, 3, 15, 11, 2, 15, 0, 13, 1, 4, 14, 14, 5, 2, 13, 17, 8, 7, 6, 5, 10, 14, 14,
     17, 0, 0, 17, 18, 15, 10, 16, 18, 5, 9, 10, 18, 7, 11, 5, 4, 16, 2, 8, 13, 1, 12, 3,
     4, 6, 15, 12, 0, 6, 18, 12, 14, 18, 3, 2, 3, 5, 3, 14, 18, 12, 10, 11, 8, 4, 10, 10,
     9, 18, 14, 3, 7, 17, 12, 0, 10, 9, 17, 3, 0, 4, 6, 16, 14, 12, 13, 13, 18, 7, 0, 1,
     9, 7, 12, 6, 18, 8, 9, 13, 13, 17, 10, 16, 1, 10, 17, 16, 2, 18, 4, 2, 6, 1, 1, 1,
     8, 14, 6, 6, 13, 14, 13, 6, 5, 10, 11, 11, 16, 1, 5, 9, 13, 8, 10, 2, 12, 15, 5, 14,
     3, 7, 9, 18, 2, 11, 16, 4, 5, 10, 17, 10, 3, 4, 14, 18, 13, 6, 8, 11, 14, 3, 5, 6,
     6, 5, 13, 0, 9, 9, 1, 7, 5, 5, 1, 6, 18, 11, 17, 7, 1, 10, 5, 12, 6, 16, 16, 5,
     1, 10, 10, 15, 7, 18, 8, 17, 3, 5, 3, 14, 0, 16, 12, 0, 14, 17, 16, 2, 18, 13, 10, 13,
     4, 14, 2, 3, 4, 8, 17, 0, 6, 11, 5, 3, 3, 2, 15, 13, 10, 4, 1, 11, 6, 17, 1, 0,
     18, 3, 3, 11, 7, 7, 11, 14, 7, 16, 11, 10, 8, 6, 11, 5, 17, 10, 7, 8, 14, 2, 9, 17,
     15, 13, 10, 6, 0, 15, 11, 10, 11, 18, 2, 5, 17, 18, 11, 15, 3, 17, 9, 17, 8, 6, 2, 4,
     2, 11, 15, 2, 18, 3, 9, 7, 15, 9, 14, 10, 9, 6, 13, 8, 15, 14, 0, 11, 5, 2, 12, 14,
     10, 16, 9, 7, 9, 17, 4, 4, 7, 8, 4, 4, 9, 7, 3, 5, 11, 11, 10, 13, 3, 14, 15, 8,
     1, 1, 3, 0, 16, 9, 6, 1, 0, 2, 0, 6, 13, 12, 5, 18, 1, 11, 17, 11, 16, 14, 14, 9,
     11, 9, 17, 15, 5, 18, 2, 11, 10, 16, 18, 5, 11, 12, 11, 18, 7, 6, 8, 3, 4, 3, 16, 4,
     6, 2, 15, 6, 7, 16, 0, 7, 11, 10, 3, 0, 14, 16, 15, 15, 12, 7, 1, 4, 8, 4, 12, 0,
     7, 8, 1, 1, 14, 15, 9, 8, 6, 6, 4, 7, 8, 13, 10, 5, 8, 11, 2, 16, 7, 17, 5, 2,
     17, 0, 18, 6, 7, 4, 4, 12, 0, 18, 8, 4, 7, 0, 11, 1, 11, 17, 18, 15, 8, 11, 15, 9,
     12, 1, 5, 6, 1, 18, 14, 7, 16, 16, 10, 3, 13, 0, 12, 9, 18, 14, 15, 4, 11, 15, 15, 8,
     16, 11, 13, 12, 1, 13, 14, 2, 11, 0, 17, 11, 12, 6, 4, 4, 11, 13, 10, 2, 10, 14, 0, 6,
     18, 10, 7, 14, 12, 9, 4, 16, 17, 8, 14, 9, 0, 4, 15, 13, 8, 13, 13, 8, 15, 6, 11, 4,
     2, 6, 5, 14, 5, 17, 12, 11, 17, 4, 13, 7, 16, 12, 7, 18]"

definition mt_vvadd_input2 :: "int list" where
  "mt_vvadd_input2 =
    [8, 6, 0, 18, 6, 10, 1, 2, 4, 2, 4, 10, 6, 11, 17, 4, 0, 16, 14, 12, 9, 8, 13, 15,
     18, 2, 13, 10, 5, 4, 12, 9, 1, 13, 12, 7, 10, 17, 11, 10, 18, 15, 11, 12, 7, 9, 6, 5,
     11, 7, 10, 12, 18, 18, 15, 1, 3, 18, 11, 16, 13, 18, 4, 13, 8, 7, 10, 13, 0, 9, 1, 16,
     13, 7, 5, 5, 11, 1, 6, 10, 12, 3, 10, 5, 15, 15, 13, 14, 14, 1, 18, 5, 16, 14, 10, 4,
     8, 4, 6, 6, 13, 14, 8, 5, 14, 10, 9, 10, 17, 15, 6, 16, 12, 9, 10, 16, 16, 8, 1, 12,
     7, 0, 0, 3, 5, 7, 10, 3, 17, 10, 18, 16, 1, 11, 18, 9, 2, 0, 12, 6, 13, 1, 13, 5,
     7, 13, 17, 9, 15, 13, 5, 2, 4, 4, 3, 0, 9, 11, 3, 12, 6, 11, 1, 16, 12, 11, 2, 2,
     15, 12, 8, 9, 14, 2, 11, 0, 0, 7, 2, 13, 15, 18, 7, 16, 16, 1, 1, 12, 12, 2, 2, 1,
     7, 4, 0, 8, 18, 4, 11, 6, 17, 13, 12, 5, 16, 12, 0, 9, 10, 10, 18, 12, 8, 7, 5, 8,
     16, 3, 9, 18, 12, 13, 18, 6, 8, 12, 2, 12, 8, 8, 9, 18, 8, 0, 9, 2, 6, 7, 0, 3,
     11, 2, 18, 2, 16, 1, 16, 11, 11, 16, 16, 11, 7, 4, 14, 10, 5, 8, 4, 14, 17, 13, 13, 3,
     1, 14, 1, 7, 0, 2, 7, 14, 4, 9, 14, 3, 9, 13, 13, 3, 3, 17, 0, 18, 4, 8, 6, 9,
     4, 2, 0, 14, 3, 3, 14, 8, 6, 7, 2, 12, 5, 14, 6, 12, 2, 16, 1, 15, 7, 18, 0, 0,
     13, 13, 12, 11, 16, 15, 14, 8, 9, 10, 8, 8, 13, 13, 13, 10, 1, 15, 4, 0, 12, 1, 8, 12,
     1, 18, 12, 18, 9, 1, 11, 5, 13, 7, 1, 13, 5, 8, 17, 11, 13, 15, 9, 3, 17, 18, 9, 3,
     15, 11, 12, 0, 2, 15, 3, 0, 13, 1, 14, 14, 15, 8, 6, 0, 0, 11, 17, 0, 1, 8, 6, 6,
     10, 6, 18, 12, 7, 18, 4, 6, 15, 18, 7, 5, 8, 6, 6, 7, 4, 4, 10, 17, 12, 13, 11, 15,
     12, 18, 7, 12, 17, 10, 14, 12, 2, 7, 17, 3, 8, 6, 3, 9, 3, 7, 7, 15, 18, 5, 13, 13,
     15, 10, 0, 11, 10, 1, 5, 16, 2, 7, 14, 12, 7, 17, 17, 11, 0, 5, 16, 14, 1, 9, 8, 8,
     3, 17, 0, 8, 6, 5, 7, 6, 17, 3, 3, 8, 3, 12, 17, 5, 14, 3, 11, 5, 17, 2, 15, 1,
     18, 11, 12, 0, 0, 14, 7, 17, 15, 10, 18, 10, 11, 7, 12, 10, 17, 2, 18, 9, 11, 4, 17, 10,
     15, 12, 4, 1, 5, 10, 4, 2, 11, 3, 4, 15, 16, 10, 2, 2, 15, 16, 0, 13, 16, 9, 1, 7,
     3, 10, 7, 2, 12, 8, 1, 5, 0, 16, 4, 14, 13, 16, 3, 0, 10, 6, 3, 9, 1, 3, 0, 13,
     12, 17, 11, 4, 15, 15, 12, 4, 4, 2, 16, 6, 11, 17, 14, 7, 4, 14, 8, 8, 3, 18, 17, 17,
     12, 10, 11, 1, 8, 13, 1, 14, 0, 9, 0, 7, 9, 0, 7, 12, 0, 18, 10, 1, 5, 13, 13, 2,
     10, 4, 2, 6, 0, 16, 2, 15, 13, 6, 8, 5, 6, 15, 12, 6, 6, 7, 8, 1, 11, 9, 7, 18,
     14, 4, 9, 6, 4, 2, 10, 13, 6, 17, 2, 11, 7, 3, 8, 9, 2, 6, 18, 12, 18, 13, 8, 1,
     11, 4, 13, 14, 16, 8, 6, 18, 14, 15, 9, 11, 2, 13, 4, 3, 3, 15, 14, 3, 13, 12, 14, 16,
     18, 12, 5, 11, 2, 3, 15, 1, 12, 1, 15, 13, 12, 18, 4, 17, 13, 7, 11, 13, 7, 10, 1, 3,
     18, 6, 10, 3, 9, 16, 12, 10, 6, 6, 7, 16, 16, 16, 17, 18, 8, 18, 0, 6, 17, 13, 14, 8,
     0, 7, 5, 13, 8, 12, 14, 9, 10, 10, 9, 9, 8, 6, 0, 14, 16, 8, 7, 16, 10, 3, 1, 9,
     11, 2, 6, 18, 5, 4, 2, 11, 10, 17, 16, 2, 12, 15, 14, 6, 6, 17, 3, 10, 9, 18, 18, 6,
     11, 16, 18, 17, 7, 14, 1, 16, 7, 9, 11, 12, 10, 6, 1, 16, 9, 18, 0, 9, 16, 10, 14, 6,
     9, 14, 15, 7, 12, 8, 1, 1, 1, 17, 17, 17, 18, 1, 15, 18, 16, 16, 11, 7, 4, 15, 3, 14,
     13, 14, 9, 2, 4, 8, 14, 7, 0, 12, 14, 15, 8, 2, 11, 5, 6, 16, 6, 4, 16, 7, 9, 5,
     1, 0, 16, 10, 9, 6, 5, 8, 15, 13, 7, 18, 18, 8, 0, 15, 4, 6, 14, 3, 3, 2, 9, 14,
     18, 13, 10, 15, 0, 11, 16, 7, 16, 18, 0, 12, 6, 13, 12, 12, 5, 3, 5, 16, 13, 16, 8, 5,
     12, 8, 8, 0, 2, 9, 18, 11, 8, 4, 14, 6, 17, 2, 6, 8, 11, 13, 6, 18, 17, 6, 8, 0,
     1, 14, 18, 4, 0, 4, 3, 3, 16, 8, 16, 1, 2, 0, 15, 14, 10, 9, 15, 3, 5, 18, 5, 6,
     7, 3, 7, 2, 6, 12, 10, 10, 18, 16, 0, 9, 17, 10, 9, 14, 15, 5, 8, 15, 3, 15, 14, 11,
     6, 6, 14, 0, 14, 0, 7, 12, 8, 7, 1, 3, 6, 10, 12, 1, 16, 5, 5, 6, 17, 15, 15, 9,
     4, 18, 17, 13, 12, 9, 7, 10, 2, 5, 8, 18, 1, 15, 8, 0]"

definition mt_vvadd_verify :: "int list" where
  "mt_vvadd_verify =
    [8, 21, 10, 21, 20, 16, 3, 20, 15, 17, 15, 10, 23, 27, 24, 17, 18, 18, 16, 17, 17, 13, 25, 29,
     24, 14, 29, 17, 14, 21, 22, 19, 4, 18, 26, 18, 19, 29, 14, 11, 23, 19, 17, 29, 24, 13, 23, 20,
     28, 25, 13, 30, 28, 24, 27, 13, 6, 20, 27, 17, 18, 24, 6, 30, 24, 12, 20, 31, 14, 13, 10, 25,
     20, 11, 13, 18, 23, 7, 10, 27, 17, 5, 21, 16, 22, 21, 21, 19, 20, 7, 29, 6, 34, 21, 16, 13,
     18, 21, 20, 10, 27, 25, 10, 5, 16, 27, 26, 25, 27, 23, 18, 34, 17, 9, 10, 17, 17, 16, 12, 23,
     14, 5, 15, 21, 20, 13, 18, 12, 35, 16, 33, 32, 11, 29, 31, 15, 12, 16, 12, 16, 25, 9, 21, 8,
     7, 14, 21, 9, 23, 28, 21, 11, 11, 11, 13, 9, 25, 23, 8, 17, 15, 16, 18, 20, 25, 24, 6, 16,
     25, 17, 18, 19, 20, 20, 16, 15, 5, 22, 15, 31, 21, 31, 12, 34, 28, 15, 2, 19, 14, 3, 9, 13,
     22, 19, 6, 10, 19, 6, 29, 12, 27, 27, 21, 20, 27, 12, 3, 10, 12, 12, 32, 19, 26, 7, 7, 10,
     32, 11, 13, 23, 19, 24, 25, 16, 22, 22, 5, 12, 21, 17, 23, 18, 22, 1, 12, 18, 8, 21, 6, 20,
     28, 8, 27, 10, 25, 13, 21, 25, 13, 32, 33, 16, 11, 4, 28, 20, 11, 23, 19, 28, 22, 14, 21, 11,
     14, 22, 1, 11, 7, 11, 20, 30, 13, 23, 23, 16, 9, 20, 29, 20, 21, 27, 13, 26, 8, 17, 19, 9,
     10, 6, 6, 18, 13, 17, 28, 17, 21, 22, 5, 15, 17, 14, 9, 14, 18, 17, 8, 17, 23, 20, 2, 0,
     27, 16, 15, 21, 20, 25, 17, 12, 22, 24, 21, 8, 14, 28, 29, 19, 8, 24, 4, 11, 13, 2, 23, 29,
     13, 34, 27, 22, 17, 3, 21, 15, 13, 25, 18, 20, 12, 10, 27, 28, 22, 22, 14, 6, 25, 29, 15, 12,
     28, 11, 15, 5, 4, 20, 10, 4, 22, 3, 27, 31, 29, 20, 7, 3, 7, 28, 17, 14, 17, 10, 8, 7,
     12, 21, 34, 20, 9, 22, 19, 21, 25, 24, 18, 14, 23, 23, 9, 15, 19, 7, 20, 32, 20, 27, 27, 30,
     27, 32, 8, 19, 21, 28, 16, 25, 13, 22, 24, 13, 21, 16, 10, 23, 21, 11, 25, 19, 21, 14, 14, 26,
     30, 12, 5, 26, 22, 11, 7, 16, 12, 22, 14, 23, 21, 28, 31, 20, 1, 23, 30, 32, 16, 14, 9, 23,
     21, 31, 3, 23, 17, 7, 22, 6, 30, 4, 7, 22, 17, 17, 19, 18, 31, 11, 18, 11, 22, 12, 29, 15,
     35, 11, 12, 17, 18, 29, 17, 33, 33, 15, 27, 20, 29, 14, 23, 15, 21, 18, 20, 17, 24, 5, 29, 13,
     19, 18, 19, 13, 5, 16, 22, 14, 25, 21, 7, 17, 19, 15, 5, 16, 33, 28, 10, 24, 24, 13, 11, 17,
     12, 28, 21, 5, 19, 25, 13, 5, 10, 25, 21, 17, 13, 20, 9, 16, 24, 18, 16, 22, 19, 10, 0, 14,
     21, 24, 23, 10, 33, 23, 21, 17, 17, 19, 26, 22, 12, 27, 31, 23, 6, 32, 12, 10, 9, 19, 18, 18,
     20, 24, 17, 7, 21, 27, 14, 20, 5, 19, 11, 18, 25, 1, 12, 21, 13, 26, 20, 3, 17, 28, 18, 16,
     13, 11, 11, 24, 2, 27, 18, 19, 18, 16, 25, 15, 9, 19, 26, 24, 19, 13, 16, 12, 25, 12, 12, 24,
     20, 9, 22, 6, 13, 11, 11, 20, 11, 22, 3, 17, 25, 14, 25, 16, 3, 16, 23, 24, 24, 29, 24, 6,
     12, 14, 23, 29, 23, 26, 14, 35, 17, 20, 12, 25, 2, 29, 16, 3, 17, 32, 30, 5, 31, 25, 24, 29,
     22, 26, 7, 14, 6, 11, 32, 1, 18, 12, 20, 16, 15, 20, 19, 30, 23, 11, 12, 24, 13, 27, 2, 3,
     36, 9, 13, 14, 16, 23, 23, 24, 13, 22, 18, 26, 24, 22, 28, 23, 25, 28, 7, 14, 31, 15, 23, 25,
     15, 20, 15, 19, 8, 27, 25, 19, 21, 28, 11, 14, 25, 24, 11, 29, 19, 25, 16, 33, 18, 9, 3, 13,
     13, 13, 21, 20, 23, 7, 11, 18, 25, 26, 30, 12, 21, 21, 27, 14, 21, 31, 3, 21, 14, 20, 30, 20,
     21, 32, 27, 24, 16, 31, 5, 20, 14, 17, 15, 16, 19, 13, 4, 21, 20, 29, 10, 22, 19, 24, 29, 14,
     10, 15, 18, 7, 28, 17, 7, 2, 1, 19, 17, 23, 31, 13, 20, 36, 17, 27, 28, 18, 20, 29, 17, 23,
     24, 23, 26, 17, 9, 26, 16, 18, 10, 28, 32, 20, 19, 14, 22, 23, 13, 22, 14, 7, 20, 10, 25, 9,
     7, 2, 31, 16, 16, 22, 5, 15, 26, 23, 10, 18, 32, 24, 15, 30, 16, 13, 15, 7, 11, 6, 21, 14,
     25, 21, 11, 16, 14, 26, 25, 15, 22, 24, 4, 19, 14, 26, 22, 17, 13, 14, 7, 32, 20, 33, 13, 7,
     29, 8, 26, 6, 9, 13, 22, 23, 8, 22, 22, 10, 24, 2, 17, 9, 22, 30, 24, 33, 25, 17, 23, 9,
     13, 15, 23, 10, 1, 22, 17, 10, 32, 24, 26, 4, 15, 0, 27, 23, 28, 23, 30, 7, 16, 33, 20, 14,
     23, 14, 20, 14, 7, 25, 24, 12, 29, 16, 17, 20, 29, 16, 13, 18, 26, 18, 18, 17, 13, 29, 14, 17,
     24, 16, 21, 14, 26, 9, 11, 28, 25, 15, 15, 12, 6, 14, 27, 14, 24, 18, 18, 14, 32, 21, 26, 13,
     6, 24, 22, 27, 17, 26, 19, 21, 19, 9, 21, 25, 17, 27, 15, 18]"

section \<open>The reference data are right\<close>

lemma median_data:
  "length median_input = 400" "length median_verify = 400" "median_want median_input = median_verify"
  by (simp_all add: median_input_def median_verify_def median_want_def median_of_def)

lemma multiply_data:
  "length multiply_input1 = 100" "length multiply_input2 = 100" "length multiply_verify = 100"
  "map2 (*) multiply_input1 multiply_input2 = multiply_verify"
  by (simp_all add: multiply_input1_def multiply_input2_def multiply_verify_def)

lemma vvadd_data:
  "length vvadd_input1 = 300" "length vvadd_input2 = 300" "length vvadd_verify = 300"
  "map2 (+) vvadd_input1 vvadd_input2 = vvadd_verify"
  by (simp_all add: vvadd_input1_def vvadd_input2_def vvadd_verify_def)

lemma mt_vvadd_data:
  "length mt_vvadd_input1 = 1000" "length mt_vvadd_input2 = 1000" "length mt_vvadd_verify = 1000"
  "map2 (+) mt_vvadd_input1 mt_vvadd_input2 = mt_vvadd_verify"
  by (simp_all add: mt_vvadd_input1_def mt_vvadd_input2_def mt_vvadd_verify_def)

section \<open>Property\<close>

lemma first_diff_refl: "first_diff (=) xs xs n = 0"
  by (simp add: first_diff_def)

text \<open>C21. The programs of the repository return 0 on the data that they are built with, in the
  \<open>PREALLOCATE\<close> build and without it, for all readings of the counters and every content of the result
  arrays: the median filter on 400 values, the multiplication on 100 pairs, the vector addition on 300
  pairs, and the addition of 1000 pairs by any number of cores in every schedule. The counters then
  hold the differences of the readings.\<close>

theorem shipped_programs_succeed:
  assumes "stats_ok k" "400 \<le> length mz" "100 \<le> length pz" "300 \<le> length az" "0 < nc" "1000 \<le> length tz"
  shows "(\<exists>k'. median_main pre r0 r1 400 median_input median_verify mz k = Some (0, k') \<and> measures r0 r1 k') \<and>
    (\<exists>k'. multiply_main pre r0 r1 100 multiply_input1 multiply_input2 multiply_verify pz k = Some (0, k') \<and> measures r0 r1 k') \<and>
    (\<exists>k'. vvadd_main pre r0 r1 300 vvadd_input1 vvadd_input2 vvadd_verify az k = Some (0, k') \<and> measures r0 r1 k') \<and>
    (mt_vvadd_exits (+) (=) nc 1000 mt_vvadd_input1 mt_vvadd_input2 mt_vvadd_verify tz r \<longleftrightarrow> r = 0)"
proof (intro conjI)
  show "\<exists>k'. median_main pre r0 r1 400 median_input median_verify mz k = Some (0, k') \<and> measures r0 r1 k'"
    using median_main_exit [of 400 median_input median_verify mz k pre r0 r1] assms(1,2) by (simp add: median_data first_diff_refl)
  show "\<exists>k'. multiply_main pre r0 r1 100 multiply_input1 multiply_input2 multiply_verify pz k = Some (0, k') \<and> measures r0 r1 k'"
    using multiply_main_exit [of 100 multiply_input1 multiply_input2 multiply_verify pz k pre r0 r1] assms(1,3)
    by (simp add: multiply_data first_diff_refl)
  show "\<exists>k'. vvadd_main pre r0 r1 300 vvadd_input1 vvadd_input2 vvadd_verify az k = Some (0, k') \<and> measures r0 r1 k'"
    using vvadd_main_exit [of 300 vvadd_input1 vvadd_input2 vvadd_verify az k pre r0 r1] assms(1,4) by (simp add: vvadd_data first_diff_refl)
  show "mt_vvadd_exits (+) (=) nc 1000 mt_vvadd_input1 mt_vvadd_input2 mt_vvadd_verify tz r \<longleftrightarrow> r = 0"
    using mt_vvadd_exit [of nc 1000 mt_vvadd_input1 mt_vvadd_input2 tz mt_vvadd_verify "(+)" "(=)" r] assms(5,6)
    by (simp add: mt_vvadd_data first_diff_refl)
qed

theorem shipped_programs_succeed_witness:
  "\<exists>k'. median_main True (0, 0) (9000, 5000) 400 median_input median_verify (replicate 400 7) stats_init = Some (0, k') \<and>
     counters k' = [9000, 5000]"
  using shipped_programs_succeed [of stats_init "replicate 400 7" "replicate 100 0" "replicate 300 0" 1 "replicate 1000 0" True "(0, 0)" "(9000, 5000)"]
  by (auto simp: stats_init_ok measures_def)

end
