(* ===== verification/App_Hello.thy ===== *)
theory App_Hello
  imports Bsp_Board
begin

text \<open>
  The demonstration program \<open>sw/app/helloworld/helloworld.c\<close> on top of the serial driver: the
  message is built on the stack, sent, and the program waits until the transmitter is empty.
\<close>

unbundle bit_operations_syntax

section \<open>The program\<close>

definition UART_115200_BAUD :: u32 where "UART_115200_BAUD = 115200"

definition hello_message :: "u8 list" where
  "hello_message = cstr ''Hello World'' @ [0]"

fun store_array :: "'s bus \<Rightarrow> u32 \<Rightarrow> u8 list \<Rightarrow> 's \<Rightarrow> 's" where
  "store_array b p [] s = s"
| "store_array b p (c # cs) s = store_array b (p + 1) cs (st8 b p c s)"

text \<open>\<open>while(UART_tx_complete(&g_uart_0)==0);\<close>\<close>

partial_function (option) wait_complete :: "'s bus \<Rightarrow> uart_instance \<Rightarrow> 's \<Rightarrow> (uart_instance \<times> 's) option" where
  "wait_complete b u s =
     (let r = UART_tx_complete b u s
      in if fst r = 0 then wait_complete b (fst (snd r)) (snd (snd r)) else Some (snd r))"

text \<open>\<open>p\<close> is the address of the local array.\<close>

definition hello_main :: "'s bus \<Rightarrow> uart_instance \<Rightarrow> u32 \<Rightarrow> 's \<Rightarrow> (nat \<times> uart_instance \<times> 's) option" where
  "hello_main b u p s =
     do { let s = store_array b p hello_message s;
          (u, s) \<leftarrow> UART_init b u UART_115200_BAUD UART_8N1 s;
          s \<leftarrow> UART_polled_tx_string b u p s;
          (u, s) \<leftarrow> wait_complete b u s;
          Some (0, u, s) }"

section \<open>A transmitter that empties\<close>

text \<open>The contract of \<open>board\<close> speaks about the holding register; here each read of the line status
  that finds the transmitter not empty brings it closer to being so.\<close>

locale draining_board = board b P on_claim on_complete ip W room busy arr is_ram idle
  for b :: "'s bus" and P on_claim on_complete ip and W :: "'s \<Rightarrow> 'z board_view_scheme" and room busy arr is_ram idle +
  fixes drain :: "'s \<Rightarrow> nat"
  assumes temt: "rd8 b 0x10000014 s = (x, s') \<Longrightarrow> x AND 0x40 = 0 \<Longrightarrow> drain s' < drain s"
begin

lemma wait_complete_returns:
  assumes "hw_reg u = FPGA_UART_0_BASE" "tx_buff_size u = 0"
  shows "\<exists>u' s'. wait_complete b u s = Some (u', s') \<and> W s' = W s \<and> P s' = P s"
  using assms
proof (induction "drain s" arbitrary: s u rule: less_induct)
  case less
  obtain x u1 s1 where r: "read_lsr b u s = (x, u1, s1)" by (cases "read_lsr b u s") auto
  note l = read_lsr_0 [OF less.prems(1) r]
  have d: "x AND 0x40 = 0 \<Longrightarrow> drain s1 < drain s"
    using r less.prems(1) temt by (auto simp: read_lsr_def ld8_def uart_0_registers split: prod.splits)
  show ?case
  proof (cases "x AND 0x40 = 0")
    case True
    have "wait_complete b u s = wait_complete b u1 s1"
      using r True by (subst wait_complete.simps) (simp add: UART_tx_complete_def UART_TEMT_def)
    moreover obtain u' s' where "wait_complete b u1 s1 = Some (u', s')" "W s' = W s1" "P s' = P s1"
      using less.hyps [OF d [OF True], of u1] l(1) less.prems by auto
    ultimately show ?thesis using l(2,4) by auto
  next
    case False
    then have "wait_complete b u s = Some (u1, s1)"
      using r l(1) less.prems(2) by (subst wait_complete.simps) (simp add: UART_tx_complete_def UART_TEMT_def)
    with l(2,4) show ?thesis by auto
  qed
qed

lemma store_array_stores:
  assumes "\<And>j. j < length cs \<Longrightarrow> is_ram (p + of_nat j)" "length cs < 4294967296"
  shows "W (store_array b p cs s) = (W s)\<lparr>d_mem := store_bytes (d_mem (W s)) p cs\<rparr> \<and> P (store_array b p cs s) = P s"
  using assms
proof (induction cs arbitrary: p s)
  case (Cons c cs)
  have "is_ram p" using Cons.prems(1) [of 0] by simp
  then have 1: "W (st8 b p c s) = (W s)\<lparr>d_mem := (d_mem (W s))(p := c)\<rparr>" "P (st8 b p c s) = P s"
    using ram_wr [of p c s] by (simp_all add: st8_def P_wr8)
  have "is_ram (p + 1 + of_nat j)" if "j < length cs" for j using Cons.prems(1) [of "Suc j"] that by (simp add: algebra_simps)
  with Cons.IH [of "p + 1" "st8 b p c s"] Cons.prems(2) 1 show ?case
    using store_bytes_Cons [of cs "d_mem (W s)" p c] by (simp add: fun_upd_def)
qed simp

lemma hello_main_sends:
  assumes "hw_reg u = FPGA_UART_0_BASE" "\<not> dlab (W s)" "p \<noteq> 0" "\<And>j. j < 12 \<Longrightarrow> is_ram (p + of_nat j)"
  shows "\<exists>u' s'. hello_main b u p s = Some (0, u', s') \<and> u_out (W s') = u_out (W s) @ cstr ''Hello World'' \<and> P s' = P s"
proof -
  let ?m = "hello_message" and ?s1 = "store_array b p hello_message s"
  have len: "length ?m = 12" by (simp add: hello_message_def)
  have 1: "W ?s1 = (W s)\<lparr>d_mem := store_bytes (d_mem (W s)) p ?m\<rparr>" "P ?s1 = P s"
    using store_array_stores [of ?m p s] assms(4) len by auto
  obtain u2 s2 where 2: "UART_init b u UART_115200_BAUD UART_8N1 ?s1 = Some (u2, s2)" "P s2 = P ?s1" "hw_reg u2 = FPGA_UART_0_BASE"
      "tx_buff_size u2 = 0" "u_out (W s2) = u_out (W ?s1)" "u_lcr (W s2) = UART_8N1" "d_mem (W s2) = d_mem (W ?s1)"
    using UART_init_programs [OF assms(1), of ?s1 UART_115200_BAUD UART_8N1] assms(1,2) 1(1)
    by (auto simp: UART_115200_BAUD_def dlab_def)
  have bytes: "ram_bytes (d_mem (W s2)) p 12 = cstr ''Hello World'' @ [0]"
  proof (rule nth_equalityI)
    fix j assume "j < length (ram_bytes (d_mem (W s2)) p 12)"
    then have "j < 12" by simp
    then show "ram_bytes (d_mem (W s2)) p 12 ! j = (cstr ''Hello World'' @ [0]) ! j"
      using unat_of_nat_u32 [of j] by (simp add: ram_bytes_def 2(7) 1(1) store_bytes_def len hello_message_def [symmetric])
  qed simp
  have lc: "Suc (length (cstr ''Hello World'')) = 12" "0 \<notin> set (cstr ''Hello World'')" by (simp_all add: cstr_def)
  have dl: "\<not> dlab (W s2)" using 2(6) by (simp add: dlab_def UART_8N1_def)
  obtain s3 where 3: "UART_polled_tx_string b u2 p s2 = Some s3" "P s3 = P s2" "W s3 = sent (cstr ''Hello World'') (W s2)"
    using UART_polled_tx_string_sends [OF 2(3) dl assms(3) lc(2)] assms(4) bytes unfolding lc(1)
    by (auto simp: less_Suc_eq_le [symmetric] lc(1))
  obtain u4 s4 where 4: "wait_complete b u2 s3 = Some (u4, s4)" "W s4 = W s3" "P s4 = P s3"
    using wait_complete_returns [OF 2(3,4)] by blast
  show ?thesis using 1 2 3 4 by (simp add: hello_main_def Let_def sent_def)
qed

end

interpretation sim_draining: draining_board sb_bus sb_plic "\<lambda>_ h. h" "\<lambda>_ _ h. h" "\<lambda>_. 0" sb_v sb_room sb_busy sb_arr sb_ram sb_idle sb_unsent
  by unfold_locales (auto simp: sb_bus_def sb_rd8_def sb_unsent_def split: if_splits)

section \<open>Property\<close>

text \<open>C29. On every board that keeps the contract of the serial interface and whose transmitter empties,
  the program ends with 0 and has sent exactly the characters of its message, without the final zero
  byte, whatever the instance and the memory held before.\<close>

theorem hello_world_sent:
  assumes "draining_board b P on_claim on_complete ip W room busy arr is_ram idle drain"
    and "hw_reg u = FPGA_UART_0_BASE" "\<not> dlab (W s)" "p \<noteq> 0" "\<And>j. j < 12 \<Longrightarrow> is_ram (p + of_nat j)"
  shows "\<exists>u' s'. hello_main b u p s = Some (0, u', s') \<and> u_out (W s') = u_out (W s) @ cstr ''Hello World'' \<and> P s' = P s"
  by (rule draining_board.hello_main_sends [OF assms])

theorem hello_world_sent_witness:
  "\<exists>u' s'. hello_main sb_bus g_uart_0 0x80000000 (sb_start ''CVA6'' []) = Some (0, u', s') \<and> u_out (sb_v s') = cstr ''Hello World''"
proof -
  have "sb_ram (0x80000000 + of_nat j)" if "j < 12" for j using sb_ram_low [of j] that by simp
  with hello_world_sent [OF sim_draining.draining_board_axioms g_uart_0_base sb_start_dlab [of "''CVA6''" "[]"], of "0x80000000"]
  show ?thesis by auto
qed

end
