(* ===== verification/App_Dhrystone.thy ===== *)
theory App_Dhrystone
  imports App_Util "HOL-Library.Signed_Division"
begin

text \<open>
  The Dhrystone benchmark, \<open>sw/app/dhrystone\<close>: the procedures of \<open>dhrystone.c\<close> and
  \<open>dhrystone_main.c\<close>, with the records behind pointers, the arrays, the strings and the retry
  loop of \<open>main\<close>. An \<open>int\<close> and a \<open>long\<close> have 32 bits. What C leaves undefined gives \<open>None\<close>:
  an overflow, a division by zero, an access outside of an array, a null pointer, a local
  variable that is read before it is written, and a loop that never ends.
\<close>

unbundle bit_operations_syntax

section \<open>Integers and strings\<close>

definition cdiv :: "int \<Rightarrow> int \<Rightarrow> int option" where
  "cdiv a b = (if b = 0 then None else chk (a sdiv b))"

definition iget :: "'a list \<Rightarrow> int \<Rightarrow> 'a option" where
  "iget xs i = (if i < 0 then None else aget xs (nat i))"

definition iset :: "'a list \<Rightarrow> int \<Rightarrow> 'a \<Rightarrow> 'a list option" where
  "iset xs i v = (if i < 0 then None else aset xs (nat i) v)"

text \<open>\<open>strcpy\<close> of a literal into an array, and the sign of \<open>strcmp\<close>.\<close>

definition strcpy :: "u8 list \<Rightarrow> string \<Rightarrow> u8 list option" where
  "strcpy dst lit =
     (if length lit < length dst then Some (cstr lit @ 0 # drop (Suc (length lit)) dst) else None)"

fun strcmp :: "u8 list \<Rightarrow> u8 list \<Rightarrow> int option" where
  "strcmp (x # xs) (y # ys) =
     (if x \<noteq> y then Some (uint x - uint y) else if x = 0 then Some 0 else strcmp xs ys)"
| "strcmp _ _ = None"

section \<open>Types and globals\<close>

datatype Enumeration = Ident_1 | Ident_2 | Ident_3 | Ident_4 | Ident_5

text \<open>A pointer is null or the index of a record. Of the union only the first variant is used.\<close>

type_synonym Rec_Pointer = "nat option"

record Rec_Type =
  Ptr_Comp :: Rec_Pointer
  Discr :: Enumeration
  Enum_Comp :: Enumeration
  Int_Comp :: int
  Str_Comp :: "u8 list"

record globals =
  Ptr_Glob :: Rec_Pointer
  Next_Ptr_Glob :: Rec_Pointer
  Int_Glob :: int
  Bool_Glob :: int
  Ch_1_Glob :: u8
  Ch_2_Glob :: u8
  Arr_1_Glob :: "int list"
  Arr_2_Glob :: "int list list"
  recs :: "Rec_Type list"
  stat :: stats

record locals =
  Int_1_Loc :: int
  Int_2_Loc :: int
  Int_3_Loc :: int
  Enum_Loc :: Enumeration
  Str_1_Loc :: "u8 list"
  Str_2_Loc :: "u8 list"

definition deref :: "globals \<Rightarrow> Rec_Pointer \<Rightarrow> Rec_Type option" where
  "deref g p = do { i \<leftarrow> p; aget (recs g) i }"

definition update_rec :: "Rec_Pointer \<Rightarrow> (Rec_Type \<Rightarrow> Rec_Type) \<Rightarrow> globals \<Rightarrow> globals option" where
  "update_rec p f g =
     do { i \<leftarrow> p; r \<leftarrow> aget (recs g) i; rs \<leftarrow> aset (recs g) i (f r); Some (g\<lparr>recs := rs\<rparr>) }"

section \<open>Procedures of \<open>dhrystone.c\<close>\<close>

definition Func_3 :: "Enumeration \<Rightarrow> bool" where
  "Func_3 Enum_Par_Val = (let Enum_Loc = Enum_Par_Val in if Enum_Loc = Ident_3 then True else False)"

text \<open>Output parameters are results.\<close>

definition Proc_6 :: "int \<Rightarrow> Enumeration \<Rightarrow> Enumeration" where
  "Proc_6 int_glob Enum_Val_Par =
     (let r = Enum_Val_Par; r = (if \<not> Func_3 Enum_Val_Par then Ident_4 else r) in
      case Enum_Val_Par of
        Ident_1 \<Rightarrow> Ident_1
      | Ident_2 \<Rightarrow> if int_glob > 100 then Ident_1 else Ident_4
      | Ident_3 \<Rightarrow> Ident_2
      | Ident_4 \<Rightarrow> r
      | Ident_5 \<Rightarrow> Ident_3)"

definition Proc_7 :: "int \<Rightarrow> int \<Rightarrow> int option" where
  "Proc_7 Int_1_Par_Val Int_2_Par_Val =
     do { Int_Loc \<leftarrow> chk (Int_1_Par_Val + 2); chk (Int_2_Par_Val + Int_Loc) }"

definition arr2_get :: "int list list \<Rightarrow> int \<Rightarrow> int \<Rightarrow> int option" where
  "arr2_get a i j = do { row \<leftarrow> iget a i; iget row j }"

definition arr2_set :: "int list list \<Rightarrow> int \<Rightarrow> int \<Rightarrow> int \<Rightarrow> int list list option" where
  "arr2_set a i j v = do { row \<leftarrow> iget a i; row \<leftarrow> iset row j v; iset a i row }"

text \<open>The loop of \<open>Proc_8\<close> over \<open>Int_Index\<close>, from \<open>Int_Loc\<close> to \<open>Int_Loc + 1\<close>.\<close>

function Proc_8_loop :: "int \<Rightarrow> int \<Rightarrow> int list list \<Rightarrow> int list list option" where
  "Proc_8_loop Int_Loc Int_Index a2 =
     (if Int_Index \<le> Int_Loc + 1
      then do { a2 \<leftarrow> arr2_set a2 Int_Loc Int_Index Int_Loc; Proc_8_loop Int_Loc (Int_Index + 1) a2 }
      else Some a2)"
  by pat_completeness auto
termination by (relation "measure (\<lambda>(l, i, a). nat (l + 2 - i))") auto

declare Proc_8_loop.simps [simp del]

definition Proc_8 :: "int list \<Rightarrow> int list list \<Rightarrow> int \<Rightarrow> int \<Rightarrow> globals \<Rightarrow> (int list \<times> int list list \<times> globals) option" where
  "Proc_8 a1 a2 Int_1_Par_Val Int_2_Par_Val g =
     do { Int_Loc \<leftarrow> chk (Int_1_Par_Val + 5);
          a1 \<leftarrow> iset a1 Int_Loc Int_2_Par_Val;
          v \<leftarrow> iget a1 Int_Loc;
          a1 \<leftarrow> iset a1 (Int_Loc + 1) v;
          a1 \<leftarrow> iset a1 (Int_Loc + 30) Int_Loc;
          a2 \<leftarrow> Proc_8_loop Int_Loc Int_Loc a2;
          v \<leftarrow> arr2_get a2 Int_Loc (Int_Loc - 1);
          v \<leftarrow> chk (v + 1);
          a2 \<leftarrow> arr2_set a2 Int_Loc (Int_Loc - 1) v;
          v \<leftarrow> iget a1 Int_Loc;
          a2 \<leftarrow> arr2_set a2 (Int_Loc + 20) Int_Loc v;
          Some (a1, a2, g\<lparr>Int_Glob := 5\<rparr>) }"

definition Func_1 :: "u8 \<Rightarrow> u8 \<Rightarrow> globals \<Rightarrow> Enumeration \<times> globals" where
  "Func_1 Ch_1_Par_Val Ch_2_Par_Val g =
     (let Ch_1_Loc = Ch_1_Par_Val; Ch_2_Loc = Ch_1_Loc in
      if Ch_2_Loc \<noteq> Ch_2_Par_Val then (Ident_1, g) else (Ident_2, g\<lparr>Ch_1_Glob := Ch_1_Loc\<rparr>))"

text \<open>The loop of \<open>Func_2\<close>; \<open>Ch_Loc\<close> is \<open>None\<close> until it is written.\<close>

partial_function (option) Func_2_loop ::
  "u8 list \<Rightarrow> u8 list \<Rightarrow> int \<Rightarrow> u8 option \<Rightarrow> globals \<Rightarrow> (int \<times> u8 option \<times> globals) option" where
  "Func_2_loop s1 s2 Int_Loc Ch_Loc g =
     (if Int_Loc \<le> 2
      then do { c1 \<leftarrow> iget s1 Int_Loc; c2 \<leftarrow> iget s2 (Int_Loc + 1);
                let (e, g) = Func_1 c1 c2 g;
                if e = Ident_1 then Func_2_loop s1 s2 (Int_Loc + 1) (Some (chr8 CHR ''A'')) g
                else Func_2_loop s1 s2 Int_Loc Ch_Loc g }
      else Some (Int_Loc, Ch_Loc, g))"

definition Func_2 :: "u8 list \<Rightarrow> u8 list \<Rightarrow> globals \<Rightarrow> (bool \<times> globals) option" where
  "Func_2 s1 s2 g =
     do { (Int_Loc, Ch_Loc, g) \<leftarrow> Func_2_loop s1 s2 2 None g;
          Ch_Loc \<leftarrow> Ch_Loc;
          let Int_Loc = (if Ch_Loc \<ge> chr8 CHR ''W'' \<and> Ch_Loc < chr8 CHR ''Z'' then 7 else Int_Loc);
          if Ch_Loc = chr8 CHR ''R'' then Some (True, g)
          else do { c \<leftarrow> strcmp s1 s2;
                    if c > 0
                    then do { Int_Loc \<leftarrow> chk (Int_Loc + 7); Some (True, g\<lparr>Int_Glob := Int_Loc\<rparr>) }
                    else Some (False, g) } }"

section \<open>Procedures of \<open>dhrystone_main.c\<close>\<close>

definition Proc_5 :: "globals \<Rightarrow> globals" where
  "Proc_5 g = g\<lparr>Ch_1_Glob := chr8 CHR ''A'', Bool_Glob := 0\<rparr>"

definition Proc_4 :: "globals \<Rightarrow> globals" where
  "Proc_4 g =
     (let Bool_Loc = (if Ch_1_Glob g = chr8 CHR ''A'' then 1 else 0) :: int
      in g\<lparr>Bool_Glob := Bool_Loc OR Bool_Glob g, Ch_2_Glob := chr8 CHR ''B''\<rparr>)"

text \<open>The parameter of \<open>Proc_3\<close> is the address of the component \<open>Ptr_Comp\<close> of a record.\<close>

definition Proc_3 :: "Rec_Pointer \<Rightarrow> globals \<Rightarrow> globals option" where
  "Proc_3 Ptr_Ref_Par g =
     do { g \<leftarrow> (if Ptr_Glob g \<noteq> None
                then do { r \<leftarrow> deref g (Ptr_Glob g); update_rec Ptr_Ref_Par (Ptr_Comp_update (\<lambda>_. Ptr_Comp r)) g }
                else Some g);
          v \<leftarrow> Proc_7 10 (Int_Glob g);
          update_rec (Ptr_Glob g) (Int_Comp_update (\<lambda>_. v)) g }"

definition Proc_1 :: "Rec_Pointer \<Rightarrow> globals \<Rightarrow> globals option" where
  "Proc_1 Ptr_Val_Par g =
     do { par \<leftarrow> deref g Ptr_Val_Par;
          let Next_Record = Ptr_Comp par;
          glob \<leftarrow> deref g (Ptr_Glob g);
          g \<leftarrow> update_rec (Ptr_Comp par) (\<lambda>_. glob) g;
          g \<leftarrow> update_rec Ptr_Val_Par (Int_Comp_update (\<lambda>_. 5)) g;
          par \<leftarrow> deref g Ptr_Val_Par;
          g \<leftarrow> update_rec Next_Record (Int_Comp_update (\<lambda>_. Int_Comp par)) g;
          par \<leftarrow> deref g Ptr_Val_Par;
          g \<leftarrow> update_rec Next_Record (Ptr_Comp_update (\<lambda>_. Ptr_Comp par)) g;
          g \<leftarrow> Proc_3 Next_Record g;
          nxt \<leftarrow> deref g Next_Record;
          if Discr nxt = Ident_1
          then do { g \<leftarrow> update_rec Next_Record (Int_Comp_update (\<lambda>_. 6)) g;
                    par \<leftarrow> deref g Ptr_Val_Par;
                    g \<leftarrow> update_rec Next_Record (Enum_Comp_update (\<lambda>_. Proc_6 (Int_Glob g) (Enum_Comp par))) g;
                    glob \<leftarrow> deref g (Ptr_Glob g);
                    g \<leftarrow> update_rec Next_Record (Ptr_Comp_update (\<lambda>_. Ptr_Comp glob)) g;
                    nxt \<leftarrow> deref g Next_Record;
                    v \<leftarrow> Proc_7 (Int_Comp nxt) 10;
                    update_rec Next_Record (Int_Comp_update (\<lambda>_. v)) g }
          else do { par \<leftarrow> deref g Ptr_Val_Par;
                    nxt \<leftarrow> deref g (Ptr_Comp par);
                    update_rec Ptr_Val_Par (\<lambda>_. nxt) g } }"

text \<open>The loop of \<open>Proc_2\<close>; its local \<open>enum_loc\<close> is \<open>None\<close> until it is written.\<close>

partial_function (option) Proc_2_loop :: "globals \<Rightarrow> int \<Rightarrow> int \<Rightarrow> Enumeration option \<Rightarrow> int option" where
  "Proc_2_loop g Int_Loc Int_Par enum_loc =
     do { (Int_Loc, Int_Par, enum_loc) \<leftarrow>
            (if Ch_1_Glob g = chr8 CHR ''A''
             then do { Int_Loc \<leftarrow> chk (Int_Loc - 1); v \<leftarrow> chk (Int_Loc - Int_Glob g); Some (Int_Loc, v, Some Ident_1) }
             else Some (Int_Loc, Int_Par, enum_loc));
          e \<leftarrow> enum_loc;
          if e \<noteq> Ident_1 then Proc_2_loop g Int_Loc Int_Par enum_loc else Some Int_Par }"

definition Proc_2 :: "globals \<Rightarrow> int \<Rightarrow> int option" where
  "Proc_2 g Int_Par = do { Int_Loc \<leftarrow> chk (Int_Par + 10); Proc_2_loop g Int_Loc Int_Par None }"

section \<open>The main program\<close>

definition NUMBER_OF_RUNS :: int where "NUMBER_OF_RUNS = 500"
definition HZ :: int where "HZ = 1000000"
definition Too_Small_Time :: int where "Too_Small_Time = 1"
definition Mic_secs_Per_Second :: int where "Mic_secs_Per_Second = 1000000"

partial_function (option) int_3_loop :: "locals \<Rightarrow> locals option" where
  "int_3_loop l =
     (if Int_1_Loc l < Int_2_Loc l
      then do { v \<leftarrow> chk (5 * Int_1_Loc l); v \<leftarrow> chk (v - Int_2_Loc l);
                let l = l\<lparr>Int_3_Loc := v\<rparr>;
                v \<leftarrow> Proc_7 (Int_1_Loc l) (Int_2_Loc l);
                let l = l\<lparr>Int_3_Loc := v\<rparr>;
                v \<leftarrow> chk (Int_1_Loc l + 1);
                int_3_loop (l\<lparr>Int_1_Loc := v\<rparr>) }
      else Some l)"

partial_function (option) ch_loop :: "int \<Rightarrow> u8 \<Rightarrow> globals \<Rightarrow> locals \<Rightarrow> (globals \<times> locals) option" where
  "ch_loop Run_Index Ch_Index g l =
     (if Ch_Index \<le> Ch_2_Glob g
      then let (e, g) = Func_1 Ch_Index (chr8 CHR ''C'') g in
           if Enum_Loc l = e
           then do { s2 \<leftarrow> strcpy (Str_2_Loc l) ''DHRYSTONE PROGRAM, 3'RD STRING'';
                     ch_loop Run_Index (Ch_Index + 1) (g\<lparr>Int_Glob := Run_Index\<rparr>)
                       (l\<lparr>Enum_Loc := Proc_6 (Int_Glob g) Ident_1, Str_2_Loc := s2, Int_2_Loc := Run_Index\<rparr>) }
           else ch_loop Run_Index (Ch_Index + 1) g l
      else Some (g, l))"

text \<open>One run through the body of the loop over \<open>Run_Index\<close>.\<close>

definition dhry_run :: "int \<Rightarrow> globals \<Rightarrow> locals \<Rightarrow> (globals \<times> locals) option" where
  "dhry_run Run_Index g l =
     do { let g = Proc_4 (Proc_5 g);
          let l = l\<lparr>Int_1_Loc := 2, Int_2_Loc := 3\<rparr>;
          s2 \<leftarrow> strcpy (Str_2_Loc l) ''DHRYSTONE PROGRAM, 2'ND STRING'';
          let l = l\<lparr>Str_2_Loc := s2, Enum_Loc := Ident_2\<rparr>;
          (b, g) \<leftarrow> Func_2 (Str_1_Loc l) (Str_2_Loc l) g;
          let g = g\<lparr>Bool_Glob := (if \<not> b then 1 else 0)\<rparr>;
          l \<leftarrow> int_3_loop l;
          (a1, a2, g) \<leftarrow> Proc_8 (Arr_1_Glob g) (Arr_2_Glob g) (Int_1_Loc l) (Int_3_Loc l) g;
          let g = g\<lparr>Arr_1_Glob := a1, Arr_2_Glob := a2\<rparr>;
          g \<leftarrow> Proc_1 (Ptr_Glob g) g;
          (g, l) \<leftarrow> ch_loop Run_Index (chr8 CHR ''A'') g l;
          v \<leftarrow> chk (Int_2_Loc l * Int_1_Loc l);
          let l = l\<lparr>Int_2_Loc := v\<rparr>;
          v \<leftarrow> cdiv (Int_2_Loc l) (Int_3_Loc l);
          let l = l\<lparr>Int_1_Loc := v\<rparr>;
          v \<leftarrow> chk (Int_2_Loc l - Int_3_Loc l); v \<leftarrow> chk (7 * v); v \<leftarrow> chk (v - Int_1_Loc l);
          let l = l\<lparr>Int_2_Loc := v\<rparr>;
          v \<leftarrow> Proc_2 g (Int_1_Loc l);
          Some (g, l\<lparr>Int_1_Loc := v\<rparr>) }"

function dhry_runs :: "int \<Rightarrow> int \<Rightarrow> globals \<Rightarrow> locals \<Rightarrow> (globals \<times> locals) option" where
  "dhry_runs Run_Index Number_Of_Runs g l =
     (if Run_Index \<le> Number_Of_Runs
      then do { (g, l) \<leftarrow> dhry_run Run_Index g l;
                if chk (Run_Index + 1) = None then None else dhry_runs (Run_Index + 1) Number_Of_Runs g l }
      else Some (g, l))"
  by pat_completeness auto
termination by (relation "measure (\<lambda>(i, n, g, l). nat (n + 1 - i))") auto

declare dhry_runs.simps [simp del]

text \<open>
  The loop that tries more runs while the measured time is too small; \<open>csr k j\<close> is the value of
  the \<open>j\<close>-th read of a counter in the \<open>k\<close>-th try.
\<close>

partial_function (option) measure_loop ::
  "(nat \<Rightarrow> nat \<Rightarrow> u32) \<Rightarrow> nat \<Rightarrow> int \<Rightarrow> globals \<Rightarrow> locals \<Rightarrow> (int \<times> int \<times> globals \<times> locals) option" where
  "measure_loop csr k Number_Of_Runs g l =
     do { st \<leftarrow> setStats True (csr k 0) (csr k 1) (stat g);
          let g = g\<lparr>stat := st\<rparr>;
          let Begin_Time = sint (csr k 2);
          (g, l) \<leftarrow> dhry_runs 1 Number_Of_Runs g l;
          let End_Time = sint (csr k 3);
          st \<leftarrow> setStats False (csr k 4) (csr k 5) (stat g);
          let g = g\<lparr>stat := st\<rparr>;
          User_Time \<leftarrow> chk (End_Time - Begin_Time);
          if User_Time < Too_Small_Time
          then do { n \<leftarrow> chk (Number_Of_Runs * 10); measure_loop csr (k + 1) n g l }
          else Some (User_Time, Number_Of_Runs, g, l) }"

text \<open>The two records that \<open>alloca\<close> returns have unknown contents.\<close>

definition dhry_init :: "Rec_Type \<Rightarrow> Rec_Type \<Rightarrow> globals \<Rightarrow> locals \<Rightarrow> (globals \<times> locals) option" where
  "dhry_init u1 u2 g l =
     do { let g = g\<lparr>Next_Ptr_Glob := Some (length (recs g)), recs := recs g @ [u1]\<rparr>;
          let g = g\<lparr>Ptr_Glob := Some (length (recs g)), recs := recs g @ [u2]\<rparr>;
          g \<leftarrow> update_rec (Ptr_Glob g) (Ptr_Comp_update (\<lambda>_. Next_Ptr_Glob g)) g;
          g \<leftarrow> update_rec (Ptr_Glob g) (Discr_update (\<lambda>_. Ident_1)) g;
          g \<leftarrow> update_rec (Ptr_Glob g) (Enum_Comp_update (\<lambda>_. Ident_3)) g;
          g \<leftarrow> update_rec (Ptr_Glob g) (Int_Comp_update (\<lambda>_. 40)) g;
          r \<leftarrow> deref g (Ptr_Glob g);
          s \<leftarrow> strcpy (Str_Comp r) ''DHRYSTONE PROGRAM, SOME STRING'';
          g \<leftarrow> update_rec (Ptr_Glob g) (Str_Comp_update (\<lambda>_. s)) g;
          s1 \<leftarrow> strcpy (Str_1_Loc l) ''DHRYSTONE PROGRAM, 1'ST STRING'';
          a2 \<leftarrow> arr2_set (Arr_2_Glob g) 8 7 10;
          Some (g\<lparr>Arr_2_Glob := a2\<rparr>, l\<lparr>Str_1_Loc := s1\<rparr>) }"

text \<open>The results are the two numbers that the program prints, with the final values of the variables.\<close>

definition dhry_main ::
  "Rec_Type \<Rightarrow> Rec_Type \<Rightarrow> (nat \<Rightarrow> nat \<Rightarrow> u32) \<Rightarrow> globals \<Rightarrow> locals \<Rightarrow> (int \<times> int \<times> globals \<times> locals) option" where
  "dhry_main u1 u2 csr g l =
     do { (g, l) \<leftarrow> dhry_init u1 u2 g l;
          (User_Time, Number_Of_Runs, g, l) \<leftarrow> measure_loop csr 0 NUMBER_OF_RUNS g l;
          v \<leftarrow> cdiv User_Time Number_Of_Runs;
          v \<leftarrow> chk (v * Mic_secs_Per_Second);
          Microseconds \<leftarrow> cdiv v HZ;
          v \<leftarrow> chk (HZ * Number_Of_Runs);
          Dhrystones_Per_Second \<leftarrow> cdiv v User_Time;
          Some (Microseconds, Dhrystones_Per_Second, g, l) }"

section \<open>Lemmas on the procedures\<close>

lemma cdiv_nonneg: "0 \<le> a \<Longrightarrow> 0 < b \<Longrightarrow> a div b \<le> 2147483647 \<Longrightarrow> cdiv a b = Some (a div b)"
  using pos_imp_zdiv_nonneg_iff [of b a]
  by (cases "a = 0") (auto simp: cdiv_def signed_divide_int_def chk_def)

lemma iget_in [simp]: "0 \<le> i \<Longrightarrow> nat i < length xs \<Longrightarrow> iget xs i = Some (xs ! nat i)"
  by (simp add: iget_def)

lemma iset_in [simp]: "0 \<le> i \<Longrightarrow> nat i < length xs \<Longrightarrow> iset xs i v = Some (xs[nat i := v])"
  by (simp add: iset_def)

lemma chr8_eval [simp]:
  "chr8 CHR ''A'' = 0x41" "chr8 CHR ''B'' = 0x42" "chr8 CHR ''C'' = 0x43" "chr8 CHR ''R'' = 0x52"
  "chr8 CHR ''W'' = 0x57" "chr8 CHR ''Z'' = 0x5A"
  by code_simp+

text \<open>A string of 30 characters fills its array.\<close>

definition str30 :: "string \<Rightarrow> u8 list" where
  "str30 lit = cstr lit @ [0]"

lemma strcpy_str30: "length lit = 30 \<Longrightarrow> length dst = 31 \<Longrightarrow> strcpy dst lit = Some (str30 lit)"
  by (simp add: strcpy_def str30_def)

lemma length_str30 [simp]: "length (str30 lit) = Suc (length lit)"
  by (simp add: str30_def)

lemma literals:
  "iget (str30 ''DHRYSTONE PROGRAM, 1'ST STRING'') 2 = Some 0x52"
  "iget (str30 ''DHRYSTONE PROGRAM, 2'ND STRING'') 3 = Some 0x59"
  "strcmp (str30 ''DHRYSTONE PROGRAM, 1'ST STRING'') (str30 ''DHRYSTONE PROGRAM, 2'ND STRING'') = Some (-1)"
  by code_simp+

lemma Func_2_strings:
  "Func_2 (str30 ''DHRYSTONE PROGRAM, 1'ST STRING'') (str30 ''DHRYSTONE PROGRAM, 2'ND STRING'') g = Some (False, g)"
proof -
  let ?a = "str30 ''DHRYSTONE PROGRAM, 1'ST STRING''" and ?b = "str30 ''DHRYSTONE PROGRAM, 2'ND STRING''"
  have "Func_2_loop ?a ?b 3 (Some 0x41) g = Some (3, Some 0x41, g)"
    by (subst Func_2_loop.simps) simp
  then have "Func_2_loop ?a ?b 2 None g = Some (3, Some 0x41, g)"
    by (subst Func_2_loop.simps) (simp add: literals Func_1_def)
  then show ?thesis by (simp add: Func_2_def literals)
qed

lemma int_3_loop_run:
  assumes "Int_1_Loc l = 2" "Int_2_Loc l = 3"
  shows "int_3_loop l = Some (l\<lparr>Int_1_Loc := 3, Int_3_Loc := 7\<rparr>)"
proof -
  have "int_3_loop (l\<lparr>Int_3_Loc := 7, Int_1_Loc := 3\<rparr>) = Some (l\<lparr>Int_3_Loc := 7, Int_1_Loc := 3\<rparr>)"
    using assms by (subst int_3_loop.simps) simp
  with assms show ?thesis by (subst int_3_loop.simps) (simp add: Proc_7_def)
qed

lemma ch_loop_run:
  assumes "Ch_2_Glob g = 0x42" "Enum_Loc l = Ident_2"
  shows "ch_loop i 0x41 g l = Some (g, l)"
proof -
  have "ch_loop i 0x43 g l = Some (g, l)" using assms by (subst ch_loop.simps) simp
  then have "ch_loop i 0x42 g l = Some (g, l)" using assms by (subst ch_loop.simps) (simp add: Func_1_def)
  then show ?thesis using assms by (subst ch_loop.simps) (simp add: Func_1_def)
qed

lemma Proc_2_run: "Ch_1_Glob g = 0x41 \<Longrightarrow> Int_Glob g = 5 \<Longrightarrow> Proc_2 g 1 = Some 5"
  unfolding Proc_2_def by (subst Proc_2_loop.simps) simp

text \<open>A matrix of 50 rows of 50 elements.\<close>

definition mat50 :: "int list list \<Rightarrow> bool" where
  "mat50 a \<longleftrightarrow> length a = 50 \<and> (\<forall>i < 50. length (a ! i) = 50)"

lemma arr2_set_mat50:
  assumes "mat50 a" "0 \<le> i" "i < 50" "0 \<le> j" "j < 50"
  shows "\<exists>b. arr2_set a i j v = Some b \<and> mat50 b \<and>
    (\<forall>m < 50. \<forall>n < 50. b ! m ! n = (if m = nat i \<and> n = nat j then v else a ! m ! n))"
  using assms by (auto simp: arr2_set_def mat50_def nth_list_update)

lemma arr2_get_mat50:
  "mat50 a \<Longrightarrow> 0 \<le> i \<Longrightarrow> i < 50 \<Longrightarrow> 0 \<le> j \<Longrightarrow> j < 50 \<Longrightarrow> arr2_get a i j = Some (a ! nat i ! nat j)"
  by (simp add: arr2_get_def mat50_def)

lemma Proc_8_run:
  assumes "length a1 = 50" "mat50 a2" "a2 ! 8 ! 7 = m" "-2147483648 \<le> m" "m < 2147483647"
  shows "\<exists>b1 b2. Proc_8 a1 a2 3 7 g = Some (b1, b2, g\<lparr>Int_Glob := 5\<rparr>) \<and> length b1 = 50 \<and> b1 ! 8 = 7 \<and>
    mat50 b2 \<and> b2 ! 8 ! 7 = m + 1"
proof -
  obtain b where b: "arr2_set a2 8 8 8 = Some b" "mat50 b" "b ! 8 ! 7 = m"
    using arr2_set_mat50 [OF assms(2), of 8 8 8] assms(3) by auto
  obtain c where c: "arr2_set b 8 9 8 = Some c" "mat50 c" "c ! 8 ! 7 = m"
    using arr2_set_mat50 [OF b(2), of 8 9 8] b(3) by auto
  obtain d where d: "arr2_set c 8 7 (m + 1) = Some d" "mat50 d" "d ! 8 ! 7 = m + 1"
    using arr2_set_mat50 [OF c(2), of 8 7 "m + 1"] by auto
  obtain e where e: "arr2_set d 28 8 7 = Some e" "mat50 e" "e ! 8 ! 7 = m + 1"
    using arr2_set_mat50 [OF d(2), of 28 8 7] d(3) by auto
  have "Proc_8_loop 8 8 a2 = Some c"
    using b(1) c(1) by (simp add: Proc_8_loop.simps [of 8 8] Proc_8_loop.simps [of 8 9] Proc_8_loop.simps [of 8 10])
  with assms c d e show ?thesis by (simp add: Proc_8_def arr2_get_mat50 nth_list_update)
qed

lemma Proc_1_run:
  assumes "Ptr_Glob g = Some p" "p \<noteq> q" "p < length (recs g)" "q < length (recs g)"
    "recs g ! p = r" "Ptr_Comp r = Some q" "Discr r = Ident_1" "Enum_Comp r = Ident_3" "Int_Glob g = 5"
  shows "Proc_1 (Ptr_Glob g) g =
    Some (g\<lparr>recs := (recs g)[p := r\<lparr>Int_Comp := 17\<rparr>, q := r\<lparr>Int_Comp := 18, Enum_Comp := Ident_2\<rparr>]\<rparr>)"
  using assms
  by (cases r) (simp add: Proc_1_def Proc_3_def Proc_6_def Proc_7_def deref_def update_rec_def nth_list_update list_update_swap Let_def)

lemma setStats_returns: "\<exists>k'. setStats e c i k = Some k'"
  by (auto simp: setStats_def read_ctr_def NUM_COUNTERS_def)

section \<open>Invariant of the runs\<close>

text \<open>What holds before and after each run; \<open>m\<close> is the element that counts the runs.\<close>

definition ready :: "int \<Rightarrow> globals \<Rightarrow> locals \<Rightarrow> bool" where
  "ready m g l \<longleftrightarrow>
     (\<exists>p q. Ptr_Glob g = Some p \<and> Next_Ptr_Glob g = Some q \<and> p \<noteq> q \<and> p < length (recs g) \<and> q < length (recs g) \<and>
       Ptr_Comp (recs g ! p) = Some q \<and> Discr (recs g ! p) = Ident_1 \<and> Enum_Comp (recs g ! p) = Ident_3 \<and>
       Str_Comp (recs g ! p) = str30 ''DHRYSTONE PROGRAM, SOME STRING'') \<and>
     length (Arr_1_Glob g) = 50 \<and> mat50 (Arr_2_Glob g) \<and> Arr_2_Glob g ! 8 ! 7 = m \<and>
     Str_1_Loc l = str30 ''DHRYSTONE PROGRAM, 1'ST STRING'' \<and> length (Str_2_Loc l) = 31"

text \<open>The values that the program says its variables should have at the end.\<close>

definition final_values :: "int \<Rightarrow> globals \<Rightarrow> locals \<Rightarrow> bool" where
  "final_values n g l \<longleftrightarrow>
     Int_Glob g = 5 \<and> Bool_Glob g = 1 \<and> Ch_1_Glob g = chr8 CHR ''A'' \<and> Ch_2_Glob g = chr8 CHR ''B'' \<and>
     Arr_1_Glob g ! 8 = 7 \<and> Arr_2_Glob g ! 8 ! 7 = n + 10 \<and>
     deref g (Ptr_Glob g) = Some \<lparr>Ptr_Comp = Next_Ptr_Glob g, Discr = Ident_1, Enum_Comp = Ident_3, Int_Comp = 17,
       Str_Comp = str30 ''DHRYSTONE PROGRAM, SOME STRING''\<rparr> \<and>
     deref g (Next_Ptr_Glob g) = Some \<lparr>Ptr_Comp = Next_Ptr_Glob g, Discr = Ident_1, Enum_Comp = Ident_2, Int_Comp = 18,
       Str_Comp = str30 ''DHRYSTONE PROGRAM, SOME STRING''\<rparr> \<and>
     Int_1_Loc l = 5 \<and> Int_2_Loc l = 13 \<and> Int_3_Loc l = 7 \<and> Enum_Loc l = Ident_2 \<and>
     Str_1_Loc l = str30 ''DHRYSTONE PROGRAM, 1'ST STRING'' \<and> Str_2_Loc l = str30 ''DHRYSTONE PROGRAM, 2'ND STRING''"

lemma stat_irrelevant [simp]:
  "ready m (g\<lparr>stat := k\<rparr>) l = ready m g l" "final_values n (g\<lparr>stat := k\<rparr>) l = final_values n g l"
  by (simp_all add: ready_def final_values_def deref_def)

lemma dhry_run_ready:
  assumes "ready m g l" "-2147483648 \<le> m" "m < 2147483647"
  shows "\<exists>g' l'. dhry_run i g l = Some (g', l') \<and> ready (m + 1) g' l' \<and> final_values (m - 9) g' l'"
proof -
  obtain p q where pq: "Ptr_Glob g = Some p" "Next_Ptr_Glob g = Some q" "p \<noteq> q" "p < length (recs g)" "q < length (recs g)"
    "Ptr_Comp (recs g ! p) = Some q" "Discr (recs g ! p) = Ident_1" "Enum_Comp (recs g ! p) = Ident_3"
    "Str_Comp (recs g ! p) = str30 ''DHRYSTONE PROGRAM, SOME STRING''"
    and arr: "length (Arr_1_Glob g) = 50" "mat50 (Arr_2_Glob g)" "Arr_2_Glob g ! 8 ! 7 = m"
    and str: "Str_1_Loc l = str30 ''DHRYSTONE PROGRAM, 1'ST STRING''" "length (Str_2_Loc l) = 31"
    using assms(1) unfolding ready_def by blast
  define g1 where "g1 = g\<lparr>Ch_1_Glob := 0x41, Ch_2_Glob := 0x42, Bool_Glob := 1\<rparr>"
  obtain b1 b2 where b: "Proc_8 (Arr_1_Glob g) (Arr_2_Glob g) 3 7 g1 = Some (b1, b2, g1\<lparr>Int_Glob := 5\<rparr>)"
    "length b1 = 50" "b1 ! 8 = 7" "mat50 b2" "b2 ! 8 ! 7 = m + 1"
    using Proc_8_run [OF arr assms(2,3)] by blast
  define g2 where "g2 = g1\<lparr>Int_Glob := 5, Arr_1_Glob := b1, Arr_2_Glob := b2\<rparr>"
  define r where "r = recs g ! p"
  define g3 where "g3 = g2\<lparr>recs := (recs g)[p := r\<lparr>Int_Comp := 17\<rparr>, q := r\<lparr>Int_Comp := 18, Enum_Comp := Ident_2\<rparr>]\<rparr>"
  have p1: "Proc_1 (Some p) g2 = Some g3"
    using Proc_1_run [of g2 p q r] pq by (simp add: g3_def g2_def g1_def r_def)
  define l' where "l' = l\<lparr>Int_1_Loc := 5, Int_2_Loc := 13, Int_3_Loc := 7, Str_2_Loc := str30 ''DHRYSTONE PROGRAM, 2'ND STRING'', Enum_Loc := Ident_2\<rparr>"
  have "dhry_run i g l = Some (g3, l')"
    using str pq b p1
    by (simp add: dhry_run_def Proc_5_def Proc_4_def strcpy_str30 Func_2_strings int_3_loop_run
        g1_def g2_def g3_def ch_loop_run cdiv_def signed_divide_int_def Proc_2_run l'_def)
  moreover have "ready (m + 1) g3 l'"
    using pq b str by (auto simp: ready_def g3_def g2_def g1_def r_def l'_def)
  moreover have "final_values (m - 9) g3 l'"
    using pq b str by (cases r) (auto simp: final_values_def deref_def g3_def g2_def g1_def r_def l'_def)
  ultimately show ?thesis by blast
qed

lemma dhry_runs_ready:
  assumes "ready m g l" "-2147483648 \<le> m" "m + (n - i + 1) \<le> 2147483647" "i \<le> n" "-2147483648 \<le> i" "n < 2147483647"
  shows "\<exists>g' l'. dhry_runs i n g l = Some (g', l') \<and> ready (m + (n - i + 1)) g' l' \<and> final_values (m + (n - i + 1) - 10) g' l'"
  using assms
proof (induction "nat (n - i)" arbitrary: i m g l)
  case 0
  then have "i = n" by simp
  with 0 dhry_run_ready [of m g l n] show ?case
    by (auto simp: dhry_runs.simps [of n n] dhry_runs.simps [of "n + 1" n])
next
  case (Suc k)
  obtain g1 l1 where 1: "dhry_run i g l = Some (g1, l1)" "ready (m + 1) g1 l1"
    using dhry_run_ready [of m g l i] Suc.prems Suc.hyps(2) by auto
  then have "dhry_runs i n g l = dhry_runs (i + 1) n g1 l1"
    using Suc.prems Suc.hyps(2) by (simp add: dhry_runs.simps [of i n])
  moreover have "m + 1 + (n - (i + 1) + 1) = m + (n - i + 1)" "k = nat (n - (i + 1))" "i + 1 \<le> n"
    using Suc.hyps(2) by auto
  moreover from this have "\<exists>g' l'. dhry_runs (i + 1) n g1 l1 = Some (g', l') \<and> ready (m + 1 + (n - (i + 1) + 1)) g' l' \<and>
      final_values (m + 1 + (n - (i + 1) + 1) - 10) g' l'"
    using 1(2) Suc.prems by (intro Suc.hyps(1)) linarith+
  ultimately show ?case by metis
qed

text \<open>One try, and the tries after measurements that were too small.\<close>

lemma measure_loop_try:
  assumes "ready m g l" "-2147483648 \<le> m" "m + n \<le> 2147483647" "1 \<le> n" "n < 2147483647"
    "t = sint (csr k 3) - sint (csr k 2)" "-2147483648 \<le> t" "t \<le> 2147483647"
  shows "\<exists>g' l'. ready (m + n) g' l' \<and> final_values (m + n - 10) g' l' \<and>
    measure_loop csr k n g l =
      (if t < 1 then do { n \<leftarrow> chk (n * 10); measure_loop csr (k + 1) n g' l' } else Some (t, n, g', l'))"
proof -
  obtain st where st: "setStats True (csr k 0) (csr k 1) (stat g) = Some st" using setStats_returns by blast
  obtain g1 l1 where r: "dhry_runs 1 n (g\<lparr>stat := st\<rparr>) l = Some (g1, l1)" "ready (m + n) g1 l1" "final_values (m + n - 10) g1 l1"
    using dhry_runs_ready [of m "g\<lparr>stat := st\<rparr>" l n 1] assms by auto
  obtain st' where "setStats False (csr k 4) (csr k 5) (stat g1) = Some st'" using setStats_returns by blast
  with st r(1) assms(6-8) have "measure_loop csr k n g l =
      (if t < 1 then do { n \<leftarrow> chk (n * 10); measure_loop csr (k + 1) n (g1\<lparr>stat := st'\<rparr>) l1 } else Some (t, n, g1\<lparr>stat := st'\<rparr>, l1))"
    by (subst measure_loop.simps) (simp add: Too_Small_Time_def Let_def)
  with r(2,3) show ?thesis by (intro exI [of _ "g1\<lparr>stat := st'\<rparr>"] exI [of _ l1]) simp
qed

lemma dhry_init_ready:
  assumes "mat50 (Arr_2_Glob g)" "length (Arr_1_Glob g) = 50" "length (Str_Comp u2) = 31"
    "length (Str_1_Loc l) = 31" "length (Str_2_Loc l) = 31"
  shows "\<exists>g' l'. dhry_init u1 u2 g l = Some (g', l') \<and> ready 10 g' l'"
proof -
  obtain a2 where "arr2_set (Arr_2_Glob g) 8 7 10 = Some a2" "mat50 a2" "a2 ! 8 ! 7 = 10"
    using arr2_set_mat50 [OF assms(1), of 8 7 10] by auto
  with assms show ?thesis
    by (simp add: dhry_init_def update_rec_def deref_def strcpy_str30 ready_def Let_def nth_append)
qed

text \<open>C24. The benchmark, for every content of the memory that it allocates and every reading of the
  counters: when the measured time is positive and a run takes less than 2148 cycles on average, the program
  ends without undefined behaviour; its globals, the two linked records, its local variables and
  strings have exactly the final values that the program prints as the expected ones, after 500
  runs; and it reports the time of a run and the number of runs per second.\<close>

theorem dhrystone_final_values:
  assumes "mat50 (Arr_2_Glob g)" "length (Arr_1_Glob g) = 50" "length (Str_Comp u2) = 31"
    "length (Str_1_Loc l) = 31" "length (Str_2_Loc l) = 31"
    and t: "t = sint (csr 0 3) - sint (csr 0 2)" "1 \<le> t" "t div 500 < 2148"
  shows "\<exists>g' l'. dhry_main u1 u2 csr g l = Some (t div 500, 500000000 div t, g', l') \<and> final_values NUMBER_OF_RUNS g' l'"
proof -
  obtain g0 l0 where i: "dhry_init u1 u2 g l = Some (g0, l0)" "ready 10 g0 l0"
    using dhry_init_ready assms(1-5) by blast
  have tt: "-2147483648 \<le> t" "t \<le> 2147483647" using t(2,3) pos_mod_bound [of 500 t] mult_div_mod_eq [of 500 t] by linarith+
  have "\<exists>g' l'. ready (10 + 500) g' l' \<and> final_values (10 + 500 - 10) g' l' \<and> measure_loop csr 0 500 g0 l0 =
      (if t < 1 then do { n \<leftarrow> chk (500 * 10); measure_loop csr (0 + 1) n g' l' } else Some (t, 500, g', l'))"
    by (rule measure_loop_try [of 10 g0 l0 500 t csr 0]) (fact i(2), simp, simp, simp, simp, fact t(1), fact tt(1), fact tt(2))
  moreover have "\<not> t < 1" using t(2) by simp
  ultimately obtain g' l' where m: "measure_loop csr 0 500 g0 l0 = Some (t, 500, g', l')" "final_values (10 + 500 - 10) g' l'"
    by metis
  have div: "0 \<le> t div 500" "0 \<le> 500000000 div t" "500000000 div t \<le> 500000000"
    using t(2) zdiv_mono2 [of 500000000 1 t] by (simp_all add: pos_imp_zdiv_nonneg_iff)
  have "cdiv t 500 = Some (t div 500)" using t(2,3) by (intro cdiv_nonneg) auto
  moreover have "cdiv (t div 500 * 1000000) 1000000 = Some (t div 500)"
    using cdiv_nonneg [of "t div 500 * 1000000" 1000000] t(3) div(1) by simp
  moreover have "cdiv 500000000 t = Some (500000000 div t)"
    using t(2) div(3) by (intro cdiv_nonneg) auto
  ultimately show ?thesis using m i(1) t(3) div(1)
    by (simp add: dhry_main_def NUMBER_OF_RUNS_def HZ_def Mic_secs_Per_Second_def)
qed

definition dhry_memory :: globals where
  "dhry_memory = \<lparr>Ptr_Glob = None, Next_Ptr_Glob = None, Int_Glob = 0, Bool_Glob = 0, Ch_1_Glob = 0, Ch_2_Glob = 0,
     Arr_1_Glob = replicate 50 0, Arr_2_Glob = replicate 50 (replicate 50 0), recs = [], stat = \<lparr>counters = [0, 0], counter_names = [[], []]\<rparr>\<rparr>"

theorem dhrystone_final_values_witness:
  "\<exists>g' l'. dhry_main \<lparr>Ptr_Comp = None, Discr = Ident_5, Enum_Comp = Ident_5, Int_Comp = -1, Str_Comp = replicate 31 0\<rparr>
      \<lparr>Ptr_Comp = None, Discr = Ident_5, Enum_Comp = Ident_5, Int_Comp = -1, Str_Comp = replicate 31 0\<rparr>
      (\<lambda>k j. if j = 3 then 200000 else 0) dhry_memory
      \<lparr>Int_1_Loc = 0, Int_2_Loc = 0, Int_3_Loc = 0, Enum_Loc = Ident_1, Str_1_Loc = replicate 31 1, Str_2_Loc = replicate 31 1\<rparr>
    = Some (400, 2500, g', l') \<and> final_values NUMBER_OF_RUNS g' l'"
proof -
  have "sint (200000 :: u32) = 200000" by (simp add: sint_numeral)
  then show ?thesis
    using dhrystone_final_values [of dhry_memory
        "\<lparr>Ptr_Comp = None, Discr = Ident_5, Enum_Comp = Ident_5, Int_Comp = -1, Str_Comp = replicate 31 0\<rparr>"
        "\<lparr>Int_1_Loc = 0, Int_2_Loc = 0, Int_3_Loc = 0, Enum_Loc = Ident_1, Str_1_Loc = replicate 31 1, Str_2_Loc = replicate 31 1\<rparr>"
        200000 "\<lambda>k j. if j = 3 then 200000 else 0"]
    by (simp add: dhry_memory_def mat50_def)
qed

text \<open>The measurement of a second try starts from the counter of the first, and its
  number of runs overflows the computation of the rate.\<close>

lemma second_try_overflows:
  assumes "ready 10 g l" "sint (csr 0 3 :: u32) = sint (csr 0 2)" "sint (csr 1 3) = sint (csr 1 2) + 1"
  shows "\<exists>g' l'. measure_loop csr 0 500 g l = Some (1, 5000, g', l') \<and> Arr_2_Glob g' ! 8 ! 7 = 5510 \<and> chk (HZ * 5000) = None"
proof -
  obtain g1 l1 where 1: "ready 510 g1 l1" "measure_loop csr 0 500 g l = measure_loop csr 1 5000 g1 l1"
    using measure_loop_try [OF assms(1), of 500 0 csr 0] assms(2) by auto
  obtain g2 l2 where "ready 5510 g2 l2" "measure_loop csr 1 5000 g1 l1 = Some (1, 5000, g2, l2)"
    using measure_loop_try [OF 1(1), of 5000 1 csr 1] assms(3) by auto
  with 1 show ?thesis by (auto simp: ready_def HZ_def chk_def)
qed

end
