(* ===== verification/App_Pmp.thy ===== *)
theory App_Pmp
  imports App_Util
begin

text \<open>
  The test of the physical memory protection, \<open>sw/app/pmp/pmp.c\<close>. The word length is that of
  the core, 32 or 64 bits, as in the source. Virtual addresses of the test, sizes and loop counters
  are small and are natural numbers; physical addresses and registers are words. Leaving the program
  by \<open>exit\<close> gives \<open>Inl\<close> with the exit code. The outcome of a load is a parameter: the
  exception that the core raises in its present state, if any.
\<close>

unbundle bit_operations_syntax

section \<open>Constants and state\<close>

definition PMP_R :: "'w::len word" where "PMP_R = 0x01"
definition PMP_A :: "'w::len word" where "PMP_A = 0x18"
definition PMP_TOR :: "'w::len word" where "PMP_TOR = 0x08"
definition PMP_NA4 :: "'w::len word" where "PMP_NA4 = 0x10"
definition PMP_NAPOT :: "'w::len word" where "PMP_NAPOT = 0x18"
definition PMP_SHIFT :: nat where "PMP_SHIFT = 2"
definition RISCV_PGSHIFT :: nat where "RISCV_PGSHIFT = 12"
definition RISCV_PGSIZE :: nat where "RISCV_PGSIZE = 2 ^ RISCV_PGSHIFT"
definition SCRATCH :: nat where "SCRATCH = RISCV_PGSIZE"
definition GRANULE :: nat where "GRANULE = 2 ^ PMP_SHIFT"
definition PTE_PPN_SHIFT :: nat where "PTE_PPN_SHIFT = 10"
definition PTE_V :: "'w::len word" where "PTE_V = 0x001"
definition PTE_R :: "'w::len word" where "PTE_R = 0x002"
definition PTE_W :: "'w::len word" where "PTE_W = 0x004"
definition PTE_A :: "'w::len word" where "PTE_A = 0x040"
definition PTE_D :: "'w::len word" where "PTE_D = 0x080"
definition MSTATUS_MPP :: "'w::len word" where "MSTATUS_MPP = 0x00001800"
definition MSTATUS_MPRV :: "'w::len word" where "MSTATUS_MPRV = 0x00020000"
definition SATP_MODE_SV32 :: "'w::len word" where "SATP_MODE_SV32 = 1"
definition SATP_MODE_SV39 :: "'w::len word" where "SATP_MODE_SV39 = 8"
definition SATP_MODE :: "'w::len word" where
  "SATP_MODE = (if LENGTH('w) = 64 then 0xF000000000000000 else 0x80000000)"
definition CAUSE_ILLEGAL_INSTRUCTION :: "'w::len word" where "CAUSE_ILLEGAL_INSTRUCTION = 0x2"
definition CAUSE_LOAD_ACCESS :: "'w::len word" where "CAUSE_LOAD_ACCESS = 0x5"

record 'x pmpcfg_t =
  cfg :: 'x
  a0 :: 'x
  a1 :: 'x

text \<open>The control registers, the page tables and the global variable of the program.\<close>

record 'x core =
  satp :: 'x
  mstatus :: 'x
  pmpcfg0 :: 'x
  pmpaddr0 :: 'x
  pmpaddr1 :: 'x
  pmpaddr2 :: 'x
  l1pt :: "'x list"
  l2pt :: "'x list"
  l3pt :: "'x list"
  trap_expected :: bool

type_synonym 'w load = "'w word core \<Rightarrow> nat \<Rightarrow> nat \<Rightarrow> 'w word option"

section \<open>Traps, page table and addresses\<close>

text \<open>The handler; \<open>h\<close> is the first halfword of the instruction at \<open>epc\<close>.\<close>

definition handle_trap :: "u16 \<Rightarrow> 'w::len word \<Rightarrow> 'w word \<Rightarrow> 'w word core \<Rightarrow> nat + 'w word \<times> 'w word core" where
  "handle_trap h cause epc st =
     (if cause = CAUSE_ILLEGAL_INSTRUCTION then Inl 0
      else if \<not> trap_expected st \<or> cause \<noteq> CAUSE_LOAD_ACCESS then Inl 1
      else Inr (epc + ucast (insn_len h), st\<lparr>trap_expected := False\<rparr>))"

definition ppn :: "'w::len word \<Rightarrow> 'w word" where
  "ppn a = push_bit PTE_PPN_SHIFT (drop_bit RISCV_PGSHIFT a)"

text \<open>The arguments are the addresses of the arrays. With 32 bits the third table is the second.\<close>

definition init_pt :: "'w::len word \<Rightarrow> 'w word \<Rightarrow> 'w word \<Rightarrow> 'w word \<Rightarrow> 'w word core \<Rightarrow> 'w word core" where
  "init_pt scratch l1 l2 l3 st =
     (let leaf = ppn scratch OR PTE_A OR PTE_D OR PTE_V OR PTE_R OR PTE_W;
          st = st\<lparr>l1pt := (l1pt st)[0 := ppn l2 OR PTE_V]\<rparr>;
          st = (if LENGTH('w) = 64
                then st\<lparr>l3pt := (l3pt st)[SCRATCH div RISCV_PGSIZE := leaf], l2pt := (l2pt st)[0 := ppn l3 OR PTE_V]\<rparr>
                else st\<lparr>l2pt := (l2pt st)[SCRATCH div RISCV_PGSIZE := leaf]\<rparr>);
          vm_choice = (if LENGTH('w) = 64 then SATP_MODE_SV39 else SATP_MODE_SV32)
      in st\<lparr>satp := drop_bit RISCV_PGSHIFT l1 OR vm_choice * (SATP_MODE AND NOT (push_bit 1 SATP_MODE)),
            pmpcfg0 := push_bit 16 (PMP_NAPOT OR PMP_R), pmpaddr2 := -1\<rparr>)"

definition va2pa :: "'w::len word \<Rightarrow> nat \<Rightarrow> nat + 'w word" where
  "va2pa scratch va =
     (if va < SCRATCH \<or> va \<ge> SCRATCH + RISCV_PGSIZE then Inl 3 else Inr (of_nat (va - SCRATCH) + scratch))"

section \<open>The expected outcome of an access\<close>

text \<open>The loop over \<open>i = 1, 2, 4, ...\<close>, which the exponent counts.\<close>

function napot_loop :: "nat \<Rightarrow> 'w::len word \<Rightarrow> 'w word \<Rightarrow> 'w word \<times> 'w word" where
  "napot_loop k a rng =
     (let i = push_bit k 1 in
      if i \<noteq> 0
      then if a AND i = 0 then (a, rng) else napot_loop (Suc k) (a AND NOT i) (push_bit 1 rng)
      else (a, rng))"
  by pat_completeness auto
termination
  by (relation "measure (\<lambda>(k, a :: 'w::len word, r :: 'w word). LENGTH('w) - k)")
    (auto simp: push_bit_eq_mult not_le [symmetric])

declare napot_loop.simps [simp del]

function hits_loop :: "'w::len word \<Rightarrow> 'w word \<Rightarrow> 'w word \<Rightarrow> nat \<Rightarrow> nat \<Rightarrow> nat \<Rightarrow> nat" where
  "hits_loop lo hi addr sz i hits =
     (if i < sz
      then hits_loop lo hi addr sz (i + GRANULE)
        (if lo \<le> addr + of_nat i \<and> addr + of_nat i < hi then hits + GRANULE else hits)
      else hits)"
  by pat_completeness auto
termination by (relation "measure (\<lambda>(lo, hi, addr, sz, i, hits). sz - i)") (auto simp: GRANULE_def PMP_SHIFT_def)

declare hits_loop.simps [simp del]

definition pmp_ok :: "'w::len word \<Rightarrow> 'w word pmpcfg_t \<Rightarrow> nat \<Rightarrow> nat \<Rightarrow> nat + bool" where
  "pmp_ok scratch p addr sz =
     (if cfg p AND PMP_A = 0 then Inr True
      else
        let p = (if cfg p AND PMP_A \<noteq> PMP_TOR
                 then let (a, rng) = (if cfg p AND PMP_A = PMP_NAPOT then napot_loop 0 (a1 p) (push_bit 1 1) else (a1 p, 1))
                      in p\<lparr>a0 := a, a1 := a + rng\<rparr>
                 else p);
            p = p\<lparr>a0 := a0 p * of_nat GRANULE, a1 := a1 p * of_nat GRANULE\<rparr>
        in case va2pa scratch addr of
             Inl e \<Rightarrow> Inl e
           | Inr addr \<Rightarrow> let hits = hits_loop (a0 p) (a1 p) addr sz 0 0 in Inr (hits = 0 \<or> hits \<ge> sz))"

section \<open>The test\<close>

text \<open>
  The load runs with the privilege of the supervisor mode; when it traps, the handler skips it. The
  old value of the status register is restored. \<open>h\<close> is the halfword that the handler reads.
\<close>

definition test_one :: "u16 \<Rightarrow> 'w::len load \<Rightarrow> nat \<Rightarrow> nat \<Rightarrow> 'w word core \<Rightarrow> nat + 'w word core" where
  "test_one h ld addr sz st =
     (let old = mstatus st;
          new_mstatus = (old AND NOT MSTATUS_MPP) OR (MSTATUS_MPP AND drop_bit 1 MSTATUS_MPP) OR MSTATUS_MPRV;
          st = st\<lparr>mstatus := new_mstatus\<rparr>
      in case ld st addr sz of
           None \<Rightarrow> Inr (st\<lparr>mstatus := old\<rparr>)
         | Some cause \<Rightarrow>
             (case handle_trap h cause 0 st of Inl e \<Rightarrow> Inl e | Inr (pc, st) \<Rightarrow> Inr (st\<lparr>mstatus := old\<rparr>)))"

text \<open>The loop over the sizes, with the exponent of the size.\<close>

function test_all_sizes_loop ::
  "u16 \<Rightarrow> 'w::len load \<Rightarrow> 'w word \<Rightarrow> 'w word pmpcfg_t \<Rightarrow> nat \<Rightarrow> nat \<Rightarrow> 'w word core \<Rightarrow> nat + 'w word core" where
  "test_all_sizes_loop h ld scratch p addr k st =
     (let sz = 2 ^ k in
      if sz \<le> LENGTH('w) div 8
      then if addr AND (sz - 1) \<noteq> 0 then test_all_sizes_loop h ld scratch p addr (Suc k) st
           else case pmp_ok scratch p addr sz of
             Inl e \<Rightarrow> Inl e
           | Inr ok \<Rightarrow>
               (case test_one h ld addr sz (st\<lparr>trap_expected := \<not> ok\<rparr>) of
                  Inl e \<Rightarrow> Inl e
                | Inr st \<Rightarrow> if trap_expected st then Inl 2 else test_all_sizes_loop h ld scratch p addr (Suc k) st)
      else Inr st)"
  by pat_completeness auto
termination by (relation "measure (\<lambda>(h, ld :: 'w::len load, scratch, p, addr, k, st). LENGTH('w) div 8 + 1 - 2 ^ k)")
  (auto intro!: diff_less_mono2 simp: less_Suc_eq_le)

declare test_all_sizes_loop.simps [simp del]

definition test_all_sizes :: "u16 \<Rightarrow> 'w::len load \<Rightarrow> 'w word \<Rightarrow> 'w word pmpcfg_t \<Rightarrow> nat \<Rightarrow> 'w word core \<Rightarrow> nat + 'w word core" where
  "test_all_sizes h ld scratch p addr st = test_all_sizes_loop h ld scratch p addr 0 st"

text \<open>A loop \<open>for (i = lo; i < hi; i += GRANULE)\<close> whose body may leave the program.\<close>

function granules :: "(nat \<Rightarrow> 's \<Rightarrow> nat + 's) \<Rightarrow> nat \<Rightarrow> nat \<Rightarrow> 's \<Rightarrow> nat + 's" where
  "granules body i hi st =
     (if i < hi then (case body i st of Inl e \<Rightarrow> Inl e | Inr st \<Rightarrow> granules body (i + GRANULE) hi st) else Inr st)"
  by pat_completeness auto
termination by (relation "measure (\<lambda>(body, i, hi, st). hi - i)") (auto simp: GRANULE_def PMP_SHIFT_def)

declare granules.simps [simp del]

definition test_range_once :: "u16 \<Rightarrow> 'w::len load \<Rightarrow> 'w word \<Rightarrow> 'w word pmpcfg_t \<Rightarrow> nat \<Rightarrow> nat \<Rightarrow> 'w word core \<Rightarrow> nat + 'w word core" where
  "test_range_once h ld scratch p base rng = granules (test_all_sizes h ld scratch p) base (base + rng)"

definition set_pmp :: "'w::len word pmpcfg_t \<Rightarrow> 'w word core \<Rightarrow> 'w word core" where
  "set_pmp p st =
     (let cfg0 = pmpcfg0 st;
          st = st\<lparr>pmpcfg0 := cfg0 AND NOT 0xff00\<rparr>;
          st = st\<lparr>pmpaddr0 := a0 p\<rparr>;
          st = st\<lparr>pmpaddr1 := a1 p\<rparr>
      in st\<lparr>pmpcfg0 := (push_bit 8 (cfg p) AND 0xff00) OR (cfg0 AND NOT 0xff00)\<rparr>)"

definition set_pmp_range :: "'w::len word \<Rightarrow> nat \<Rightarrow> 'w word core \<Rightarrow> 'w word pmpcfg_t \<times> 'w word core" where
  "set_pmp_range base rng st =
     (let p = \<lparr>cfg = PMP_TOR OR PMP_R, a0 = drop_bit PMP_SHIFT base, a1 = drop_bit PMP_SHIFT (base + of_nat rng)\<rparr>
      in (p, set_pmp p st))"

definition set_pmp_napot :: "'w::len word \<Rightarrow> nat \<Rightarrow> 'w word core \<Rightarrow> 'w word pmpcfg_t \<times> 'w word core" where
  "set_pmp_napot base rng st =
     (let p = \<lparr>cfg = PMP_R OR (if rng > GRANULE then PMP_NAPOT else PMP_NA4), a0 = 0,
               a1 = drop_bit PMP_SHIFT (base + of_nat (rng div 2 - 1))\<rparr>
      in (p, set_pmp p st))"

definition test_range :: "u16 \<Rightarrow> 'w::len load \<Rightarrow> 'w word \<Rightarrow> nat \<Rightarrow> nat \<Rightarrow> 'w word core \<Rightarrow> nat + 'w word core" where
  "test_range h ld scratch addr rng st =
     (case va2pa scratch addr of
        Inl e \<Rightarrow> Inl e
      | Inr pa \<Rightarrow>
          let (p, st) = set_pmp_range pa rng st in
          case test_range_once h ld scratch p addr rng st of
            Inl e \<Rightarrow> Inl e
          | Inr st \<Rightarrow>
              if rng AND (rng - 1) = 0 \<and> addr AND (rng - 1) = 0
              then let (p, st) = set_pmp_napot pa rng st in test_range_once h ld scratch p addr rng st
              else Inr st)"

definition test_ranges :: "u16 \<Rightarrow> 'w::len load \<Rightarrow> 'w word \<Rightarrow> nat \<Rightarrow> nat \<Rightarrow> 'w word core \<Rightarrow> nat + 'w word core" where
  "test_ranges h ld scratch addr sz = granules (\<lambda>rng. test_range h ld scratch addr rng) GRANULE (Suc sz)"

definition exhaustive_test :: "u16 \<Rightarrow> 'w::len load \<Rightarrow> 'w word \<Rightarrow> nat \<Rightarrow> nat \<Rightarrow> 'w word core \<Rightarrow> nat + 'w word core" where
  "exhaustive_test h ld scratch addr sz =
     granules (\<lambda>base. test_ranges h ld scratch base (sz - (base - addr))) addr (addr + sz)"

text \<open>One call after the other, as long as the program is not left.\<close>

fun seq_all :: "('s \<Rightarrow> nat + 's) list \<Rightarrow> 's \<Rightarrow> nat + 's" where
  "seq_all [] st = Inr st"
| "seq_all (f # fs) st = (case f st of Inl e \<Rightarrow> Inl e | Inr st \<Rightarrow> seq_all fs st)"

definition pmp_main :: "u16 \<Rightarrow> 'w::len load \<Rightarrow> 'w word \<Rightarrow> 'w word \<Rightarrow> 'w word \<Rightarrow> 'w word \<Rightarrow> 'w word core \<Rightarrow> nat + 'w word core" where
  "pmp_main h ld scratch l1 l2 l3 st =
     (let st = init_pt scratch l1 l2 l3 st; max_exhaustive = 32 in
      seq_all
        [exhaustive_test h ld scratch SCRATCH max_exhaustive,
         exhaustive_test h ld scratch (SCRATCH + RISCV_PGSIZE - max_exhaustive) max_exhaustive,
         test_range h ld scratch SCRATCH RISCV_PGSIZE,
         test_range h ld scratch SCRATCH (RISCV_PGSIZE div 2),
         test_range h ld scratch (SCRATCH + RISCV_PGSIZE div 2) (RISCV_PGSIZE div 2)] st)"

section \<open>The regions of the architecture\<close>

text \<open>The number of trailing ones of a number.\<close>

function trail_ones :: "nat \<Rightarrow> nat" where
  "trail_ones n = (if odd n then Suc (trail_ones (n div 2)) else 0)"
  by pat_completeness auto
termination by (relation "measure id") (auto elim: oddE)

declare trail_ones.simps [simp del]

text \<open>The bytes that an entry matches, as the first one and the one behind the last: top of range, a
  granule, or a naturally aligned power of two whose size is coded in the trailing ones.\<close>

definition region :: "'w::len word pmpcfg_t \<Rightarrow> nat \<times> nat" where
  "region p =
     (if cfg p AND PMP_A = PMP_TOR then (4 * unat (a0 p), 4 * unat (a1 p))
      else if cfg p AND PMP_A = PMP_NAPOT
      then let n = trail_ones (unat (a1 p)); b = unat (a1 p) div 2 ^ (n + 1) * 2 ^ (n + 3) in (b, b + 2 ^ (n + 3))
      else (4 * unat (a1 p), 4 * unat (a1 p) + 4))"

text \<open>An access that matches some but not all bytes of a region fails.\<close>

definition straddles :: "nat \<times> nat \<Rightarrow> nat \<Rightarrow> nat \<Rightarrow> bool" where
  "straddles r x n \<longleftrightarrow> (\<exists>y \<in> {x..<x + n}. fst r \<le> y \<and> y < snd r) \<and> (\<exists>y \<in> {x..<x + n}. \<not> (fst r \<le> y \<and> y < snd r))"

lemmas pmp_consts = GRANULE_def PMP_SHIFT_def RISCV_PGSIZE_def RISCV_PGSHIFT_def SCRATCH_def

lemma trail_ones_bits: "(\<forall>k < trail_ones n. bit n k) \<and> \<not> bit n (trail_ones n)"
proof (induction n rule: trail_ones.induct)
  case (1 n)
  show ?case
  proof (cases "odd n")
    case True
    have "bit n k" if "k < Suc (trail_ones (n div 2))" for k
      using that 1 True by (cases k) (auto simp: bit_0 bit_Suc)
    with 1 True show ?thesis by (simp add: trail_ones.simps [of n] bit_Suc)
  next
    case False
    then show ?thesis by (simp add: trail_ones.simps [of n] bit_0)
  qed
qed

lemma trail_ones_shape: "trail_ones (m * 2 ^ Suc j + (2 ^ j - 1)) = j"
proof (induction j)
  case 0
  then show ?case by (simp add: trail_ones.simps)
next
  case (Suc j)
  obtain c where "(2 :: nat) ^ j = Suc c" using not0_implies_Suc [of "2 ^ j"] by auto
  then have "m * 2 ^ Suc (Suc j) + (2 ^ Suc j - 1) = 2 * (m * 2 ^ Suc j + (2 ^ j - 1)) + 1"
    by (simp add: algebra_simps)
  moreover have "trail_ones (2 * i + 1) = Suc (trail_ones i)" for i by (subst trail_ones.simps) simp
  ultimately show ?case using Suc by presburger
qed

text \<open>The loop clears the trailing ones and doubles the range for each of them.\<close>

lemma napot_loop_run:
  fixes a :: "'w::len word"
  assumes "\<And>j. j < n \<Longrightarrow> bit a j" "\<not> bit a n" "n < LENGTH('w)"
  shows "napot_loop 0 a r = (a AND NOT (mask n), push_bit n r)"
proof -
  have "napot_loop k (a AND NOT (mask k)) (push_bit k r) = (a AND NOT (mask n), push_bit n r)" if "k \<le> n" for k
    using that
  proof (induction "n - k" arbitrary: k)
    case 0
    then have "k = n" by simp
    moreover have "(a AND NOT (mask n)) AND push_bit n 1 = 0"
      using assms(2) by (intro bit_word_eqI) (auto simp: bit_simps)
    ultimately show ?case by (simp add: napot_loop.simps [of n] Let_def)
  next
    case (Suc d)
    then have k: "k < n" "k < LENGTH('w)" using assms(3) by auto
    have "bit ((a AND NOT (mask k)) AND push_bit k 1) k"
      using k assms(1) [of k] by (simp add: bit_simps)
    then have nz: "(a AND NOT (mask k)) AND push_bit k 1 \<noteq> 0" by auto
    have nz1: "push_bit k 1 \<noteq> (0 :: 'w word)" using k(2) by simp
    have "(a AND NOT (mask k)) AND NOT (push_bit k 1) = a AND NOT (mask (Suc k))"
      by (rule bit_word_eqI) (auto simp: bit_simps)
    moreover have "push_bit 1 (push_bit k r) = push_bit (Suc k) r" by simp
    ultimately show ?case
      using Suc.hyps(1) [of "Suc k"] Suc.hyps(2) k nz nz1 by (simp add: napot_loop.simps [of k] Let_def)
  qed
  from this [of 0] show ?thesis by simp
qed

lemma unat_and_not_mask: "unat ((a :: 'w::len word) AND NOT (mask n)) = unat a div 2 ^ n * 2 ^ n"
proof -
  have "a AND NOT (mask n) = push_bit n (drop_bit n a)"
    by (rule bit_word_eqI) (auto simp: bit_simps)
  then have "unat (a AND NOT (mask n)) = take_bit LENGTH('w) (push_bit n (drop_bit n (unat a)))"
    by (simp only: unsigned_push_bit_eq unsigned_drop_bit_eq take_bit_drop_bit) (simp add: take_bit_nat_eq_self)
  moreover have "unat a div 2 ^ n * 2 ^ n < 2 ^ LENGTH('w)"
    using div_times_less_eq_dividend [of "unat a" "2 ^ n"] unsigned_less [of a] by (rule order_le_less_trans)
  ultimately show ?thesis by (simp add: take_bit_nat_eq_self drop_bit_eq_div push_bit_eq_mult)
qed

lemma times4: "unat (x :: 'w::len word) * 4 = b \<Longrightarrow> b < 2 ^ LENGTH('w) \<Longrightarrow> unat (x * 4) = b"
  by (cases "LENGTH('w) \<le> 2") (auto simp: unat_word_ariths take_bit_nat_eq_self take_bit_eq_mod mod_mult_right_eq)

text \<open>The bounds that \<open>pmp_ok\<close> computes are those of the region, as long as they fit in a word.\<close>

lemma napot_bounds:
  fixes a :: "'w::len word"
  assumes "n = trail_ones (unat a)" "b = unat a div 2 ^ (n + 1) * 2 ^ (n + 3)" "b + 2 ^ (n + 3) < 2 ^ LENGTH('w)"
    "napot_loop 0 a (push_bit 1 1) = (a', r)"
  shows "unat (a' * 4) = b" "unat ((a' + r) * 4) = b + 2 ^ (n + 3)"
proof -
  have "(2 :: nat) ^ (n + 3) < 2 ^ LENGTH('w)" using assms(3) by (rule add_lessD1 [OF add.commute [THEN ord_eq_less_trans]])
  then have n: "n + 3 < LENGTH('w)" by (rule power_less_imp_less_exp [rotated]) simp
  have bits: "\<And>j. j < n \<Longrightarrow> bit a j" "\<not> bit a n"
    using trail_ones_bits [of "unat a"] n by (auto simp: assms(1) bit_unsigned_iff)
  then have "napot_loop 0 a (push_bit 1 1) = (a AND NOT (mask n), push_bit n (push_bit 1 1))"
    using n by (intro napot_loop_run) auto
  then have a': "a' = a AND NOT (mask n)" and r: "r = push_bit (Suc n) 1" using assms(4) by (auto simp: push_bit_eq_mult)
  have "even (unat a div 2 ^ n)"
    using trail_ones_bits [of "unat a"] by (simp add: bit_iff_odd assms(1))
  then have "unat a div 2 ^ n = 2 * (unat a div 2 ^ (n + 1))"
    by (metis add.commute div_mult2_eq dvd_mult_div_cancel plus_1_eq_Suc power_Suc2)
  then have ua: "unat a' * 4 = b" by (simp add: a' unat_and_not_mask assms(2) power_add)
  have "(2 :: nat) ^ Suc n < 2 ^ LENGTH('w)" using n by (intro power_strict_increasing) auto
  then have "unat r = 2 ^ Suc n"
    unfolding r unsigned_push_bit_eq by (simp add: take_bit_nat_eq_self push_bit_eq_mult)
  then have ur: "unat r * 4 = 2 ^ (n + 3)" by (simp add: power_add)
  show "unat (a' * 4) = b" using times4 [of a' b] ua assms(3) by simp
  have "unat (a' + r) = unat a' + unat r" using ua ur assms(3) by (simp add: unat_word_ariths)
  then show "unat ((a' + r) * 4) = b + 2 ^ (n + 3)" using times4 [of "a' + r" "b + 2 ^ (n + 3)"] ua ur assms(3) by simp
qed

lemma and_pred_power: "(n :: nat) AND (2 ^ k - 1) = n mod 2 ^ k"
  unfolding mask_eq_exp_minus_1 [symmetric] take_bit_eq_mask [symmetric] by (rule take_bit_eq_mod)

lemma power_of_two: "0 < (n :: nat) \<Longrightarrow> n AND (n - 1) = 0 \<Longrightarrow> \<exists>k. n = 2 ^ k"
proof (induction n rule: less_induct)
  case (less n)
  show ?case
  proof (cases "even n")
    case True
    then obtain m where m: "n = 2 * m" "0 < m" using less.prems by (auto elim: evenE)
    then obtain c where c: "m = Suc c" by (cases m) auto
    have "2 * (m AND (m - 1)) = 2 * m AND (2 * c + 1)"
      by (subst and_rec [of "2 * m"]) (simp add: c)
    with less.prems(2) have "m AND (m - 1) = 0" by (simp add: m c)
    with less.IH [of m] m obtain k where "m = 2 ^ k" by auto
    with m(1) show ?thesis by (metis power_Suc)
  next
    case False
    then obtain m where m: "n = 2 * m + 1" by (auto elim: oddE)
    have "(2 * m + 1) AND (2 * m) = 2 * m"
      by (subst and_rec) simp
    with less.prems(2) m have "n = 2 ^ 0" by simp
    then show ?thesis by blast
  qed
qed

lemma straddles_interval:
  assumes "lo < hi" "0 < n"
  shows "straddles (lo, hi) x n \<longleftrightarrow> x < hi \<and> lo < x + n \<and> (x < lo \<or> hi < x + n)"
proof
  assume "straddles (lo, hi) x n"
  then show "x < hi \<and> lo < x + n \<and> (x < lo \<or> hi < x + n)" by (auto simp: straddles_def)
next
  assume r: "x < hi \<and> lo < x + n \<and> (x < lo \<or> hi < x + n)"
  have "\<exists>y \<in> {x..<x + n}. lo \<le> y \<and> y < hi" using r assms by (intro bexI [of _ "max x lo"]) auto
  moreover have "\<exists>y \<in> {x..<x + n}. \<not> (lo \<le> y \<and> y < hi)"
  proof (cases "x < lo")
    case True
    with assms(2) show ?thesis by (intro bexI [of _ x]) auto
  next
    case False
    with r assms show ?thesis by (intro bexI [of _ hi]) auto
  qed
  ultimately show "straddles (lo, hi) x n" by (simp add: straddles_def)
qed

text \<open>An aligned access that is not longer than a granule is in one granule.\<close>

lemma granule_fits:
  assumes "(4 :: nat) = sz * d"
  shows "sz * q < 4 * n \<Longrightarrow> sz * q + sz \<le> 4 * n" "4 * m < sz * q + sz \<Longrightarrow> 4 * m \<le> sz * q"
proof -
  have p: "0 < sz" using assms by (cases sz) auto
  { assume "sz * q < 4 * n"
    then have "sz * q < sz * (d * n)" by (simp add: assms)
    then have "Suc q \<le> d * n" using p by simp
    then have "sz * Suc q \<le> sz * (d * n)" using p by (simp only: mult_le_cancel1) simp
    then show "sz * q + sz \<le> 4 * n" by (simp add: assms) }
  assume "4 * m < sz * q + sz"
  then have "sz * (d * m) < sz * Suc q" by (simp add: assms)
  then have "d * m < Suc q" by (simp only: mult_less_cancel1)
  then have "sz * (d * m) \<le> sz * q" by simp
  then show "4 * m \<le> sz * q" by (simp add: assms)
qed

lemma granule_not_straddled:
  assumes "(4 :: nat) = sz * d" "sz dvd x"
  shows "\<not> straddles (4 * m, 4 * n) x sz"
proof
  assume st: "straddles (4 * m, 4 * n) x sz"
  then have "m < n" "0 < sz" by (auto simp: straddles_def)
  moreover obtain q where "x = sz * q" using assms(2) by (auto simp: dvd_def)
  ultimately show False
    using st straddles_interval [of "4 * m" "4 * n" sz x] granule_fits [OF assms(1), of q] by fastforce
qed

lemma region_aligned: "\<exists>m n. region p = (4 * m, 4 * n)"
proof -
  have "4 dvd fst (region p)" "4 dvd snd (region p)" by (auto simp: region_def Let_def power_add)
  then show ?thesis by (metis dvd_def prod.collapse)
qed

text \<open>The sizes of the accesses, and the loop that counts hits for them.\<close>

lemma hits_loop_run:
  fixes addr :: "'w::len word"
  assumes "unat addr + 8 \<le> 2 ^ LENGTH('w)" "unat lo = 4 * m" "unat hi = 4 * n" "m < n" "sz \<in> {1, 2, 4, 8}" "unat addr mod sz = 0"
  shows "(hits_loop lo hi addr sz 0 0 = 0 \<or> sz \<le> hits_loop lo hi addr sz 0 0) \<longleftrightarrow> \<not> straddles (4 * m, 4 * n) (unat addr) sz"
proof -
  have 4: "unat (addr + 4) = unat addr + 4" using assms(1) by (simp add: unat_word_ariths take_bit_nat_eq_self)
  have cmp: "lo \<le> addr \<and> addr < hi \<longleftrightarrow> 4 * m \<le> unat addr \<and> unat addr < 4 * n"
    "lo \<le> addr + 4 \<and> addr + 4 < hi \<longleftrightarrow> 4 * m \<le> unat addr + 4 \<and> unat addr + 4 < 4 * n"
    by (simp_all add: word_le_nat_alt word_less_nat_alt assms(2,3) 4)
  define x where "x = unat addr"
  have small: "hits_loop lo hi addr sz 0 0 = (if 4 * m \<le> x \<and> x < 4 * n then 4 else 0)" if "sz \<in> {1, 2, 4}"
    using that cmp(1) by (auto simp: hits_loop.simps [of lo hi addr _ 0] hits_loop.simps [of lo hi addr _ 4] pmp_consts x_def)
  have big: "hits_loop lo hi addr 8 0 0 =
      (if 4 * m \<le> x \<and> x < 4 * n then 4 else 0) + (if 4 * m \<le> x + 4 \<and> x + 4 < 4 * n then 4 else 0)"
    using cmp by (simp add: hits_loop.simps [of lo hi addr _ 0] hits_loop.simps [of lo hi addr _ 4]
        hits_loop.simps [of lo hi addr _ 8] pmp_consts x_def)
  have r: "straddles (4 * m, 4 * n) x sz \<longleftrightarrow> x < 4 * n \<and> 4 * m < x + sz \<and> (x < 4 * m \<or> 4 * n < x + sz)"
    using assms(4,5) by (intro straddles_interval) auto
  have "sz \<in> {1, 2, 4} \<or> sz = 8" using assms(5) by auto
  then show ?thesis
  proof
    assume s: "sz \<in> {1, 2, 4}"
    obtain q where q: "x = sz * q" using assms(6) by (auto simp: x_def)
    obtain d where d: "4 = sz * d" using s by (auto intro: that [of 4] that [of 2] that [of 1])
    have "\<not> straddles (4 * m, 4 * n) x sz" using r s q d granule_fits [OF d, of q] by fastforce
    with small [OF s] s show ?thesis unfolding x_def by auto
  next
    assume s: "sz = 8"
    obtain q where q: "x = 4 * (2 * q)" using assms(6) by (auto simp: x_def s)
    with r assms(4) show ?thesis unfolding s big x_def [symmetric] by auto presburger+
  qed
qed

lemma pmp_modes [simp]: "(PMP_NAPOT :: 'w::len word) = PMP_A"
  by (simp add: PMP_NAPOT_def PMP_A_def)

text \<open>What \<open>pmp_ok\<close> computes, for an entry whose region fits in a word.\<close>

lemma pmp_ok_region:
  fixes p :: "'w::len word pmpcfg_t"
  assumes "cfg p AND PMP_A \<noteq> 0" "region p = (lo, hi)" "lo < hi" "hi < 2 ^ LENGTH('w)"
    and va: "va2pa scratch va = Inr pa" "unat pa + 8 \<le> 2 ^ LENGTH('w)" "sz \<in> {1, 2, 4, 8}" "unat pa mod sz = 0"
  shows "pmp_ok scratch p va sz = Inr (\<not> straddles (region p) (unat pa) sz)"
proof -
  define q where "q = (if cfg p AND PMP_A \<noteq> PMP_TOR
      then let (a, rng) = (if cfg p AND PMP_A = PMP_NAPOT then napot_loop 0 (a1 p) (push_bit 1 1) else (a1 p, 1))
           in p\<lparr>a0 := a, a1 := a + rng\<rparr> else p)"
  have q: "unat (a0 q * 4) = lo \<and> unat (a1 q * 4) = hi"
  proof -
    consider (tor) "cfg p AND PMP_A = PMP_TOR" | (napot) "cfg p AND PMP_A \<noteq> PMP_TOR" "cfg p AND PMP_A = PMP_NAPOT"
      | (na4) "cfg p AND PMP_A \<noteq> PMP_TOR" "cfg p AND PMP_A \<noteq> PMP_NAPOT" by blast
    then show ?thesis
    proof cases
      case tor
      with assms(2-4) times4 [of "a0 p" lo] times4 [of "a1 p" hi] show ?thesis by (auto simp: region_def q_def)
    next
      case napot
      obtain a r where ar: "napot_loop 0 (a1 p) (push_bit 1 1) = (a, r)" by fastforce
      with napot assms(2,4) napot_bounds [OF refl refl _ ar] show ?thesis
        by (auto simp: region_def q_def Let_def power_add)
    next
      case na4
      have "unat (a1 p + 1) * 4 = hi" using na4 assms(2,4) by (auto simp: region_def unat_word_ariths)
      with na4 assms(2-4) times4 [of "a1 p" lo] times4 [of "a1 p + 1" hi] show ?thesis by (auto simp: region_def q_def)
    qed
  qed
  have "4 dvd lo \<and> 4 dvd hi" using assms(2) by (auto simp: region_def Let_def power_add split: if_splits)
  then obtain m n where mn: "lo = 4 * m" "hi = 4 * n" by (auto simp: dvd_def)
  have "pmp_ok scratch p va sz =
      (let hits = hits_loop (a0 q * 4) (a1 q * 4) pa sz 0 0 in Inr (hits = 0 \<or> hits \<ge> sz))"
    using assms(1) va(1) unfolding pmp_ok_def q_def [symmetric] by (simp add: Let_def pmp_consts)
  with hits_loop_run [OF va(2), of "a0 q * 4" m "a1 q * 4" n sz] q mn va(3,4) assms(2,3) show ?thesis by (simp add: Let_def)
qed

section \<open>The entries that the test writes\<close>

text \<open>The three address modes of the test, each with the permission to read.\<close>

lemma entry_modes:
  assumes "32 \<le> LENGTH('w::len)"
  shows "(PMP_TOR OR PMP_R) AND PMP_A = (PMP_TOR :: 'w word)" "(PMP_R OR PMP_NA4) AND PMP_A = (PMP_NA4 :: 'w word)"
    "(PMP_R OR PMP_A) AND PMP_A = (PMP_A :: 'w word)"
    "PMP_TOR \<noteq> (0 :: 'w word)" "PMP_NA4 \<noteq> (0 :: 'w word)" "PMP_A \<noteq> (0 :: 'w word)"
    "PMP_NA4 \<noteq> (PMP_TOR :: 'w word)" "PMP_A \<noteq> (PMP_TOR :: 'w word)" "PMP_NA4 \<noteq> (PMP_A :: 'w word)"
    "CAUSE_LOAD_ACCESS \<noteq> (CAUSE_ILLEGAL_INSTRUCTION :: 'w word)"
proof -
  show "(PMP_TOR OR PMP_R) AND PMP_A = (PMP_TOR :: 'w word)" by (simp add: PMP_TOR_def PMP_R_def PMP_A_def)
  show "(PMP_R OR PMP_NA4) AND PMP_A = (PMP_NA4 :: 'w word)" by (simp add: PMP_NA4_def PMP_R_def PMP_A_def)
  show "(PMP_R OR PMP_A) AND PMP_A = (PMP_A :: 'w word)" by (simp add: PMP_R_def PMP_A_def)
  have "(2 :: nat) ^ 5 \<le> 2 ^ LENGTH('w)" using assms by (intro power_increasing) auto
  then have fit: "32 \<le> (2 :: nat) ^ LENGTH('w)" by simp
  have u: "unat (PMP_TOR :: 'w word) = 8" "unat (PMP_NA4 :: 'w word) = 16" "unat (PMP_A :: 'w word) = 24"
    "unat (CAUSE_LOAD_ACCESS :: 'w word) = 5" "unat (CAUSE_ILLEGAL_INSTRUCTION :: 'w word) = 2"
    using fit assms by (simp_all add: take_bit_nat_eq_self PMP_TOR_def PMP_NA4_def PMP_A_def CAUSE_LOAD_ACCESS_def CAUSE_ILLEGAL_INSTRUCTION_def)
  then show "PMP_TOR \<noteq> (0 :: 'w word)" "PMP_NA4 \<noteq> (0 :: 'w word)" "PMP_A \<noteq> (0 :: 'w word)"
    "PMP_NA4 \<noteq> (PMP_TOR :: 'w word)" "PMP_A \<noteq> (PMP_TOR :: 'w word)" "PMP_NA4 \<noteq> (PMP_A :: 'w word)"
    "CAUSE_LOAD_ACCESS \<noteq> (CAUSE_ILLEGAL_INSTRUCTION :: 'w word)" by force+
qed

lemma unat_plus_of_nat:
  "unat (b :: 'w::len word) + n < 2 ^ LENGTH('w) \<Longrightarrow> unat (b + of_nat n) = unat b + n"
  by (simp add: unat_word_ariths unsigned_of_nat take_bit_nat_eq_self)

lemma unat_drop_bit2: "unat (drop_bit 2 (b :: 'w::len word)) = unat b div 4"
  by (subst unsigned_drop_bit_eq) (simp add: drop_bit_eq_div take_bit_nat_eq_self)

lemma range_region:
  fixes base :: "'w::len word"
  assumes "32 \<le> LENGTH('w)" "4 dvd unat base" "4 dvd rng" "unat base + rng < 2 ^ LENGTH('w)" "set_pmp_range base rng st = (p, st')"
  shows "region p = (unat base, unat base + rng)" "cfg p AND PMP_A \<noteq> 0"
  using assms entry_modes [OF assms(1)]
  by (auto simp: set_pmp_range_def Let_def region_def PMP_SHIFT_def unat_drop_bit2 unat_plus_of_nat)

lemma napot_region:
  fixes base :: "'w::len word"
  assumes "32 \<le> LENGTH('w)" "4 \<le> rng" "rng = 2 ^ k" "rng dvd unat base" "unat base + rng < 2 ^ LENGTH('w)"
    "set_pmp_napot base rng st = (p, st')"
  shows "region p = (unat base, unat base + rng)" "cfg p AND PMP_A \<noteq> 0"
proof -
  have p: "p = \<lparr>cfg = PMP_R OR (if rng > 4 then PMP_A else PMP_NA4), a0 = 0, a1 = drop_bit 2 (base + of_nat (rng div 2 - 1))\<rparr>"
    using assms(6) by (auto simp: set_pmp_napot_def Let_def PMP_SHIFT_def GRANULE_def)
  then show "cfg p AND PMP_A \<noteq> 0" using entry_modes [OF assms(1)] by simp
  obtain c where c: "unat base = rng * c" using assms(4) by (auto simp: dvd_def)
  have a1: "unat (a1 p) = (unat base + (rng div 2 - 1)) div 4"
    using assms(5) by (simp add: p unat_drop_bit2 unat_plus_of_nat)
  show "region p = (unat base, unat base + rng)"
  proof (cases "rng = 4")
    case True
    with a1 c p entry_modes [OF assms(1)] show ?thesis by (simp add: region_def)
  next
    case False
    then have "2 < k" using assms(2,3) by (cases "k \<le> 2") (auto simp: le_Suc_eq numeral_2_eq_2)
    then obtain j where k: "k = j + 3" by (metis add.commute less_iff_Suc_add add_Suc_right numeral_3_eq_3 numeral_2_eq_2 add_Suc plus_nat.add_0)
    obtain d where d: "(2 :: nat) ^ j = Suc d" using not0_implies_Suc [of "2 ^ j"] by auto
    have "rng * c + (rng div 2 - 1) = 3 + 4 * (c * 2 ^ Suc j + (2 ^ j - 1))"
      using assms(3) k d by (simp add: power_add algebra_simps)
    then have "unat (a1 p) = c * 2 ^ Suc j + (2 ^ j - 1)" unfolding a1 c by simp
    moreover from this have "trail_ones (unat (a1 p)) = j" by (simp only: trail_ones_shape)
    moreover have "(c * 2 ^ Suc j + (2 ^ j - 1)) div 2 ^ Suc j = c"
      using div_less [of "2 ^ j - 1" "2 ^ Suc j :: nat"] d div_mult_self3 [of "2 ^ Suc j" c "2 ^ j - 1 :: nat"] by simp
    moreover have "cfg p AND PMP_A = PMP_A" "PMP_A \<noteq> (PMP_TOR :: 'w word)"
      using p False assms(2) entry_modes [OF assms(1)] by simp_all
    ultimately show ?thesis using assms(3) k c by (simp add: region_def Let_def power_add)
  qed
qed

section \<open>Running the test on a core\<close>

text \<open>The generic rule for the loops: an invariant that every round keeps.\<close>

lemma granules_run:
  assumes "\<And>i st. lo \<le> i \<Longrightarrow> i < hi \<Longrightarrow> 4 dvd i - lo \<Longrightarrow> P st \<Longrightarrow> \<exists>st'. body i st = Inr st' \<and> P st'" "P st"
  shows "\<exists>st'. granules body lo hi st = Inr st' \<and> P st'"
proof -
  have "\<exists>st'. granules body i hi st = Inr st' \<and> P st'" if "lo \<le> i" "4 dvd i - lo" "P st" for i st
    using that
  proof (induction "hi - i" arbitrary: i st rule: less_induct)
    case less
    show ?case
    proof (cases "i < hi")
      case True
      obtain st1 where 1: "body i st = Inr st1" "P st1" using assms(1) [OF less.prems(1) True less.prems(2,3)] by auto
      have "i + 4 - lo = (i - lo) + 4" using less.prems(1) by simp
      then have "4 dvd i + 4 - lo" using dvd_add [OF less.prems(2), of 4] by (simp only: dvd_refl)
      moreover have "granules body i hi st = granules body (i + 4) hi st1"
        using True 1(1) by (subst granules.simps) (simp add: GRANULE_def PMP_SHIFT_def)
      ultimately show ?thesis using less.hyps [of "i + 4" st1] less.prems(1) 1(2) True by simp
    next
      case False
      with less.prems(3) show ?thesis by (subst granules.simps) simp
    qed
  qed
  from this [of lo st] assms(2) show ?thesis by simp
qed

text \<open>The test entry \<open>p\<close> is written, the third entry grants reading everywhere, and the page table
  is the one of \<open>init_pt\<close>.\<close>

definition entry_written :: "'w::len word pmpcfg_t \<Rightarrow> 'w word core \<Rightarrow> bool" where
  "entry_written p st \<longleftrightarrow> pmpaddr0 st = a0 p \<and> pmpaddr1 st = a1 p \<and> pmpaddr2 st = -1 \<and>
     pmpcfg0 st = (push_bit 8 (cfg p) AND 0xff00) OR push_bit 16 (PMP_NAPOT OR PMP_R)"

definition page_mapped :: "'w::len word \<Rightarrow> 'w word \<Rightarrow> 'w word \<Rightarrow> 'w word \<Rightarrow> 'w word core \<Rightarrow> bool" where
  "page_mapped scratch l1 l2 l3 st \<longleftrightarrow>
     (let st' = init_pt scratch l1 l2 l3 st in
      satp st' = satp st \<and> l1pt st' = l1pt st \<and> l2pt st' = l2pt st \<and> l3pt st' = l3pt st)"

lemma page_mapped_fields [simp]:
  fixes st :: "'w::len word core"
  shows "page_mapped scratch l1 l2 l3 (st\<lparr>trap_expected := b\<rparr>) = page_mapped scratch l1 l2 l3 st"
    "page_mapped scratch l1 l2 l3 (st\<lparr>mstatus := w\<rparr>) = page_mapped scratch l1 l2 l3 st"
    "page_mapped scratch l1 l2 l3 (st\<lparr>pmpcfg0 := w\<rparr>) = page_mapped scratch l1 l2 l3 st"
    "page_mapped scratch l1 l2 l3 (st\<lparr>pmpaddr0 := w\<rparr>) = page_mapped scratch l1 l2 l3 st"
    "page_mapped scratch l1 l2 l3 (st\<lparr>pmpaddr1 := w\<rparr>) = page_mapped scratch l1 l2 l3 st"
  by (cases "LENGTH('w) = 64"; simp add: page_mapped_def init_pt_def Let_def)+

lemma page_mapped_init:
  fixes st :: "'w::len word core"
  shows "page_mapped scratch l1 l2 l3 (init_pt scratch l1 l2 l3 st)"
  by (cases "LENGTH('w) = 64"; simp add: page_mapped_def init_pt_def Let_def)

text \<open>Between two entries: the third entry grants reading everywhere.\<close>

definition test_ready :: "'w::len word core \<Rightarrow> bool" where
  "test_ready st \<longleftrightarrow> pmpaddr2 st = -1 \<and> pmpcfg0 st AND NOT 0xff00 = push_bit 16 (PMP_NAPOT OR PMP_R)"

lemma cfg_fields: "((x AND m) OR (c AND NOT m)) AND NOT m = c AND NOT (m :: 'w::len word)"
  by (rule bit_word_eqI) (auto simp: bit_simps)

lemma third_entry: "push_bit 16 (PMP_NAPOT OR PMP_R) AND NOT 0xff00 = (push_bit 16 (PMP_NAPOT OR PMP_R) :: 'w::len word)"
proof -
  have "(0x190000 :: 'w word) AND 0xff00 = 0" by simp
  then have "(0x190000 :: 'w word) AND NOT 0xff00 = 0x190000" by (simp add: bit_eq_iff bit_simps)
  then show ?thesis by (simp add: PMP_A_def PMP_R_def)
qed

lemma set_pmp_written: "test_ready st \<Longrightarrow> entry_written p (set_pmp p st)"
  by (simp add: test_ready_def entry_written_def set_pmp_def Let_def)

lemma written_ready:
  assumes "entry_written p st"
  shows "test_ready st"
proof -
  have "pmpcfg0 st = (push_bit 8 (cfg p) AND 0xff00) OR (push_bit 16 (PMP_NAPOT OR PMP_R) AND NOT 0xff00)"
    using assms unfolding entry_written_def third_entry by blast
  then have "pmpcfg0 st AND NOT 0xff00 = push_bit 16 (PMP_NAPOT OR PMP_R) AND NOT 0xff00" by (simp only: cfg_fields)
  then have "pmpcfg0 st AND NOT 0xff00 = push_bit 16 (PMP_NAPOT OR PMP_R)" by (simp only: third_entry)
  with assms show ?thesis unfolding test_ready_def entry_written_def by blast
qed

lemma init_ready: "test_ready (init_pt scratch l1 l2 l3 st)"
  using third_entry by (simp add: test_ready_def init_pt_def Let_def del: pmp_modes)

lemma entry_written_fields [simp]:
  "entry_written p (st\<lparr>trap_expected := b\<rparr>) = entry_written p st"
  "entry_written p (st\<lparr>mstatus := w\<rparr>) = entry_written p st"
  by (simp_all add: entry_written_def)

text \<open>
  What the architecture promises of the core, in supervisor mode with translation on: an aligned load
  of a readable page fails exactly when it matches some but not all bytes of the test entry.
\<close>

locale conforming_core =
  fixes ld :: "'w::len load" and scratch l1 l2 l3 :: "'w word"
  assumes xlen: "LENGTH('w) = 32 \<or> LENGTH('w) = 64"
    and aligned: "4096 dvd unat scratch" "unat scratch + 8192 \<le> 2 ^ LENGTH('w)"
    and load_rule: "page_mapped scratch l1 l2 l3 st \<Longrightarrow> entry_written p st \<Longrightarrow> mstatus st AND MSTATUS_MPRV = MSTATUS_MPRV \<Longrightarrow>
      cfg p \<in> {PMP_TOR OR PMP_R, PMP_R OR PMP_NAPOT, PMP_R OR PMP_NA4} \<Longrightarrow> va2pa scratch va = Inr pa \<Longrightarrow>
      sz \<in> {1, 2, 4, 8} \<Longrightarrow> sz \<le> LENGTH('w) div 8 \<Longrightarrow> sz dvd va \<Longrightarrow>
      ld st va sz = (if straddles (region p) (unat pa) sz then Some CAUSE_LOAD_ACCESS else None)"
begin

lemma xlen32: "32 \<le> LENGTH('w)" and fits: "unat scratch + 4100 \<le> 2 ^ LENGTH('w)"
  using xlen aligned(2) by auto

lemma unat_pa:
  assumes "SCRATCH \<le> va" "va < SCRATCH + RISCV_PGSIZE"
  shows "\<exists>pa. va2pa scratch va = Inr pa \<and> unat pa = unat scratch + (va - 4096)"
  using assms fits unat_plus_of_nat [of scratch "va - 4096"]
  by (auto simp: va2pa_def pmp_consts add.commute)

lemma pa_aligned: "sz \<in> {1, 2, 4, 8} \<Longrightarrow> sz dvd va \<Longrightarrow> 4096 \<le> va \<Longrightarrow> sz dvd unat scratch + (va - 4096)"
  using aligned(1) by (auto intro!: dvd_add dvd_diff_nat intro: dvd_trans [of _ 4096])

lemma test_one_run:
  assumes "page_mapped scratch l1 l2 l3 st" "entry_written p st"
    "cfg p \<in> {PMP_TOR OR PMP_R, PMP_R OR PMP_NAPOT, PMP_R OR PMP_NA4}" "va2pa scratch va = Inr pa"
    "sz \<in> {1, 2, 4, 8}" "sz \<le> LENGTH('w) div 8" "sz dvd va"
  shows "test_one h ld va sz (st\<lparr>trap_expected := straddles (region p) (unat pa) sz\<rparr>) = Inr (st\<lparr>trap_expected := False\<rparr>)"
proof -
  let ?st = "st\<lparr>trap_expected := straddles (region p) (unat pa) sz,
    mstatus := (mstatus st AND NOT MSTATUS_MPP) OR (MSTATUS_MPP AND drop_bit 1 MSTATUS_MPP) OR MSTATUS_MPRV\<rparr>"
  have "page_mapped scratch l1 l2 l3 ?st" "entry_written p ?st"
    using assms(1,2) by simp_all
  moreover have "(x OR y OR z) AND z = z" for x y z :: "'w word" by (rule bit_word_eqI) (auto simp: bit_simps)
  then have "mstatus ?st AND MSTATUS_MPRV = MSTATUS_MPRV" by simp
  ultimately have "ld ?st va sz = (if straddles (region p) (unat pa) sz then Some CAUSE_LOAD_ACCESS else None)"
    by (rule load_rule [OF _ _ _ assms(3-7)])
  then show ?thesis
    using entry_modes(10) [OF xlen32] by (simp add: test_one_def handle_trap_def Let_def)
qed

lemma test_all_sizes_run:
  assumes "cfg p \<in> {PMP_TOR OR PMP_R, PMP_R OR PMP_NAPOT, PMP_R OR PMP_NA4}" "cfg p AND PMP_A \<noteq> 0"
    "region p = (lo, hi)" "lo < hi" "hi < 2 ^ LENGTH('w)" "SCRATCH \<le> va" "va + 4 \<le> SCRATCH + RISCV_PGSIZE"
    and st: "page_mapped scratch l1 l2 l3 st \<and> entry_written p st"
  shows "\<exists>st'. test_all_sizes h ld scratch p va st = Inr st' \<and> page_mapped scratch l1 l2 l3 st' \<and> entry_written p st'"
proof -
  obtain pa where pa: "va2pa scratch va = Inr pa" "unat pa = unat scratch + (va - 4096)"
    using unat_pa assms(6,7) by (force simp: pmp_consts)
  have "\<exists>st'. test_all_sizes_loop h ld scratch p va k st = Inr st' \<and> page_mapped scratch l1 l2 l3 st' \<and> entry_written p st'"
    if "page_mapped scratch l1 l2 l3 st" "entry_written p st" for k st
    using that
  proof (induction "4 - k" arbitrary: k st rule: less_induct)
    case less
    show ?case
    proof (cases "2 ^ k \<le> LENGTH('w) div 8")
      case False
      with less.prems show ?thesis by (subst test_all_sizes_loop.simps) simp
    next
      case True
      then have "(2 :: nat) ^ k < 2 ^ 4" using xlen by auto
      then have k: "k < 4" by (rule power_less_imp_less_exp [rotated]) simp
      then have sz: "(2 :: nat) ^ k \<in> {1, 2, 4, 8}" by (auto simp: less_Suc_eq numeral_eq_Suc)
      have mod: "va AND (2 ^ k - 1) = va mod 2 ^ k" by (rule and_pred_power)
      show ?thesis
      proof (cases "va mod 2 ^ k = 0")
        case False
        then have "test_all_sizes_loop h ld scratch p va k st = test_all_sizes_loop h ld scratch p va (Suc k) st"
          using True mod by (subst test_all_sizes_loop.simps) (simp add: Let_def del: One_nat_def)
        with less k show ?thesis by simp
      next
        case va: True
        then have "2 ^ k dvd unat pa" using pa_aligned [OF sz] pa(2) assms(6) by (auto simp: pmp_consts)
        moreover have "unat pa + 8 \<le> 2 ^ LENGTH('w)" using pa(2) fits assms(6,7) by (simp add: pmp_consts)
        ultimately have ok: "pmp_ok scratch p va (2 ^ k) = Inr (\<not> straddles (region p) (unat pa) (2 ^ k))"
          using sz by (intro pmp_ok_region [OF assms(2-5) pa(1)]) auto
        have one: "test_one h ld va (2 ^ k) (st\<lparr>trap_expected := straddles (region p) (unat pa) (2 ^ k)\<rparr>) = Inr (st\<lparr>trap_expected := False\<rparr>)"
          using va by (intro test_one_run [OF less.prems assms(1) pa(1) sz True]) auto
        have "test_all_sizes_loop h ld scratch p va k st = test_all_sizes_loop h ld scratch p va (Suc k) (st\<lparr>trap_expected := False\<rparr>)"
          using True va mod ok one by (subst test_all_sizes_loop.simps) (simp add: Let_def del: One_nat_def)
        with less k show ?thesis by simp
      qed
    qed
  qed
  with st show ?thesis by (simp add: test_all_sizes_def)
qed

lemma test_range_once_run:
  assumes "cfg p \<in> {PMP_TOR OR PMP_R, PMP_R OR PMP_NAPOT, PMP_R OR PMP_NA4}" "cfg p AND PMP_A \<noteq> 0"
    "region p = (lo, hi)" "lo < hi" "hi < 2 ^ LENGTH('w)" "SCRATCH \<le> va" "va + rng \<le> SCRATCH + RISCV_PGSIZE" "4 dvd rng"
    and st: "page_mapped scratch l1 l2 l3 st" "test_ready st"
  shows "\<exists>st'. test_range_once h ld scratch p va rng (set_pmp p st) = Inr st' \<and> page_mapped scratch l1 l2 l3 st' \<and> test_ready st'"
proof -
  have "\<exists>st'. granules (test_all_sizes h ld scratch p) va (va + rng) (set_pmp p st) = Inr st' \<and>
      (page_mapped scratch l1 l2 l3 st' \<and> entry_written p st')"
  proof (rule granules_run)
    show "page_mapped scratch l1 l2 l3 (set_pmp p st) \<and> entry_written p (set_pmp p st)"
      using st set_pmp_written by (simp add: set_pmp_def Let_def)
    fix i st
    assume i: "va \<le> i" "i < va + rng" "4 dvd i - va" and P: "page_mapped scratch l1 l2 l3 st \<and> entry_written p st"
    obtain k n where kn: "i - va = 4 * k" "rng = 4 * n" using i(3) assms(8) by (auto simp: dvd_def)
    with i(1,2) have "4 * k < 4 * n" by linarith
    then have "i - va + 4 \<le> rng" unfolding kn by presburger
    with i(1) assms(6,7) have "SCRATCH \<le> i" "i + 4 \<le> SCRATCH + RISCV_PGSIZE" by linarith+
    then show "\<exists>st'. test_all_sizes h ld scratch p i st = Inr st' \<and> page_mapped scratch l1 l2 l3 st' \<and> entry_written p st'"
      using test_all_sizes_run [OF assms(1-5)] P by blast
  qed
  then show ?thesis using written_ready unfolding test_range_once_def by blast
qed

lemma test_range_run:
  assumes "SCRATCH \<le> va" "va + rng \<le> SCRATCH + RISCV_PGSIZE" "4 dvd va" "4 dvd rng" "0 < rng"
    and st: "page_mapped scratch l1 l2 l3 st \<and> test_ready st"
  shows "\<exists>st'. test_range h ld scratch va rng st = Inr st' \<and> page_mapped scratch l1 l2 l3 st' \<and> test_ready st'"
proof -
  obtain pa where pa: "va2pa scratch va = Inr pa" "unat pa = unat scratch + (va - 4096)"
    using unat_pa [of va] assms by (force simp: pmp_consts)
  have hi: "unat pa + rng < 2 ^ LENGTH('w)" using pa(2) fits assms(1,2) by (simp add: pmp_consts)
  have "4 dvd unat scratch" by (rule dvd_trans [OF _ aligned(1)]) simp
  then have d: "4 dvd unat pa" using pa(2) assms(1,3) by (auto simp: pmp_consts intro!: dvd_add dvd_diff_nat)
  define p where "p = fst (set_pmp_range pa rng st)"
  have p: "set_pmp_range pa rng st = (p, set_pmp p st)" "cfg p = PMP_TOR OR PMP_R"
    by (simp_all add: p_def set_pmp_range_def Let_def)
  obtain st1 where 1: "test_range_once h ld scratch p va rng (set_pmp p st) = Inr st1" "page_mapped scratch l1 l2 l3 st1" "test_ready st1"
    using test_range_once_run [of p "unat pa" "unat pa + rng" va rng st h] range_region [OF xlen32 d assms(4) hi p(1)] p(2) hi assms st by auto
  show ?thesis
  proof (cases "rng AND (rng - 1) = 0 \<and> va AND (rng - 1) = 0")
    case False
    then have "test_range h ld scratch va rng st = Inr st1"
      unfolding test_range_def using 1(1) p(1) pa(1) by (simp only: sum.case prod.case Let_def if_False)
    with 1(2,3) show ?thesis by blast
  next
    case True
    then obtain k where k: "rng = 2 ^ k" using power_of_two assms(5) by blast
    have "rng dvd va" using True unfolding k and_pred_power by auto
    moreover have "rng dvd 4096"
    proof -
      have "(2 :: nat) ^ k \<le> 2 ^ 12" using assms(1,2) k by (simp add: pmp_consts)
      then have "k \<le> 12" by (rule power_le_imp_le_exp [rotated]) simp
      then have "(2 :: nat) ^ k dvd 2 ^ 12" by (rule le_imp_power_dvd)
      then show ?thesis by (simp add: k)
    qed
    ultimately have "rng dvd unat pa"
      using pa(2) aligned(1) by (auto intro!: dvd_add dvd_diff_nat intro: dvd_trans)
    moreover have "4 \<le> rng" using assms(4,5) by (auto dest: dvd_imp_le)
    moreover define q where "q = fst (set_pmp_napot pa rng st1)"
    moreover have q: "set_pmp_napot pa rng st1 = (q, set_pmp q st1)" "cfg q \<in> {PMP_R OR PMP_NAPOT, PMP_R OR PMP_NA4}"
      by (simp_all add: q_def set_pmp_napot_def Let_def)
    ultimately have r: "region q = (unat pa, unat pa + rng)" "cfg q AND PMP_A \<noteq> 0"
      using napot_region [OF xlen32 _ k _ hi q(1)] by auto
    with test_range_once_run [of q "unat pa" "unat pa + rng" va rng st1 h] q(2) hi assms 1 obtain st2 where
      "test_range_once h ld scratch q va rng (set_pmp q st1) = Inr st2" "page_mapped scratch l1 l2 l3 st2" "test_ready st2"
      by auto
    moreover from this have "test_range h ld scratch va rng st = Inr st2"
      unfolding test_range_def using True 1(1) p(1) q(1) pa(1) by (simp only: sum.case prod.case Let_def simp_thms if_True)
    ultimately show ?thesis by blast
  qed
qed

lemma exhaustive_test_run:
  assumes "SCRATCH \<le> va" "va + n \<le> SCRATCH + RISCV_PGSIZE" "4 dvd va" "4 dvd n"
    and st: "page_mapped scratch l1 l2 l3 st \<and> test_ready st"
  shows "\<exists>st'. exhaustive_test h ld scratch va n st = Inr st' \<and> page_mapped scratch l1 l2 l3 st' \<and> test_ready st'"
  unfolding exhaustive_test_def
proof (rule granules_run [where P = "\<lambda>st. page_mapped scratch l1 l2 l3 st \<and> test_ready st", OF _ st])
  fix b st
  assume b: "va \<le> b" "b < va + n" "4 dvd b - va" and P: "page_mapped scratch l1 l2 l3 st \<and> test_ready st"
  have vb: "4 dvd b" using dvd_add [OF b(3) assms(3)] b(1) by simp
  show "\<exists>st'. test_ranges h ld scratch b (n - (b - va)) st = Inr st' \<and> page_mapped scratch l1 l2 l3 st' \<and> test_ready st'"
    unfolding test_ranges_def
  proof (rule granules_run [where P = "\<lambda>st. page_mapped scratch l1 l2 l3 st \<and> test_ready st", OF _ P])
    fix r st
    assume r: "GRANULE \<le> r" "r < Suc (n - (b - va))" "4 dvd r - GRANULE" and P: "page_mapped scratch l1 l2 l3 st \<and> test_ready st"
    obtain k where "r - 4 = 4 * k" using r(3) by (auto simp: pmp_consts)
    with r(1) have "r = 4 * Suc k" by (simp add: pmp_consts)
    then have "4 dvd r" by simp
    then show "\<exists>st'. test_range h ld scratch b r st = Inr st' \<and> page_mapped scratch l1 l2 l3 st' \<and> test_ready st'"
      using r b assms(1,2) vb P by (intro test_range_run) (auto simp: pmp_consts)
  qed
qed

lemma seq_all_run:
  assumes "\<And>f st. f \<in> set fs \<Longrightarrow> P st \<Longrightarrow> \<exists>st'. f st = Inr st' \<and> P st'" "P st"
  shows "\<exists>st'. seq_all fs st = Inr st' \<and> P st'"
  using assms
proof (induction fs arbitrary: st)
  case (Cons f fs)
  then obtain st1 where "f st = Inr st1" "P st1" by fastforce
  with Cons.IH [of st1] Cons.prems(1) show ?case by simp
qed simp

lemma main_passes: "\<exists>st'. pmp_main h ld scratch l1 l2 l3 st = Inr st'"
proof -
  have "\<exists>st'. pmp_main h ld scratch l1 l2 l3 st = Inr st' \<and> (page_mapped scratch l1 l2 l3 st' \<and> test_ready st')"
    unfolding pmp_main_def Let_def
    by (rule seq_all_run)
      (auto simp: page_mapped_init init_ready intro!: exhaustive_test_run test_range_run, auto simp: pmp_consts)
  then show ?thesis by blast
qed

end

section \<open>A core that follows the rule\<close>

text \<open>The load of a core with the test entry decoded from the registers.\<close>

definition rule_load :: "'w::len word \<Rightarrow> 'w load" where
  "rule_load scratch st va sz =
     (case va2pa scratch va of
        Inl e \<Rightarrow> None
      | Inr pa \<Rightarrow>
          let p = \<lparr>cfg = drop_bit 8 (pmpcfg0 st AND 0xff00), a0 = pmpaddr0 st, a1 = pmpaddr1 st\<rparr>
          in if straddles (region p) (unat pa) sz then Some CAUSE_LOAD_ACCESS else None)"

lemma cfg_decoded:
  fixes p :: "64 word pmpcfg_t"
  assumes "cfg p \<in> {PMP_TOR OR PMP_R, PMP_R OR PMP_NAPOT, PMP_R OR PMP_NA4}" "entry_written p st"
  shows "drop_bit 8 (pmpcfg0 st AND 0xff00) = cfg p"
proof -
  have "pmpcfg0 st AND 0xff00 = push_bit 8 (cfg p) AND 0xff00"
    using assms(2) third_entry [where 'w = 64]
    by (simp add: entry_written_def bit_eq_iff bit_simps) blast
  moreover have "push_bit 8 (cfg p) AND 0xff00 = push_bit 8 (cfg p)"
    using assms(1) by (auto simp: PMP_TOR_def PMP_R_def PMP_A_def PMP_NA4_def)
  moreover have "drop_bit 8 (push_bit 8 (cfg p)) = cfg p"
    using assms(1) by (auto simp: PMP_TOR_def PMP_R_def PMP_A_def PMP_NA4_def drop_bit_eq_div)
  ultimately show ?thesis by simp
qed

interpretation rv64: conforming_core "rule_load 0x80001000 :: 64 load" "0x80001000" "0x80002000" "0x80003000" "0x80004000"
proof
  show "4096 dvd unat (0x80001000 :: 64 word)" by simp
  fix st :: "64 word core" and p :: "64 word pmpcfg_t" and va sz pa
  assume p: "entry_written p st" "cfg p \<in> {PMP_TOR OR PMP_R, PMP_R OR PMP_NAPOT, PMP_R OR PMP_NA4}"
    and pa: "va2pa (0x80001000 :: 64 word) va = Inr pa"
  have "region \<lparr>cfg = drop_bit 8 (pmpcfg0 st AND 0xff00), a0 = pmpaddr0 st, a1 = pmpaddr1 st\<rparr> = region p"
    using p(1) unfolding cfg_decoded [OF p(2,1)] by (simp add: region_def entry_written_def)
  then show "rule_load 0x80001000 st va sz = (if straddles (region p) (unat pa) sz then Some CAUSE_LOAD_ACCESS else None)"
    by (simp only: rule_load_def pa sum.case Let_def)
qed simp_all

text \<open>On a 64-bit core that follows the rule the test passes.\<close>

lemma rv64_passes: "\<exists>st'. pmp_main h (rule_load 0x80001000) (0x80001000 :: 64 word) 0x80002000 0x80003000 0x80004000 st = Inr st'"
  by (rule rv64.main_passes)

text \<open>An aligned load of at most a granule lies inside of every region or outside of it.\<close>

lemma small_not_straddled:
  fixes scratch :: "'w::len word"
  assumes "4096 dvd unat scratch" "unat scratch + 8192 \<le> 2 ^ LENGTH('w)" "va2pa scratch va = Inr pa" "sz \<in> {1, 2, 4}" "sz dvd va"
  shows "\<not> straddles (region p) (unat pa) sz"
proof -
  have va: "4096 \<le> va" "va < 8192" "pa = scratch + of_nat (va - 4096)"
    using assms(3) by (simp_all add: va2pa_def pmp_consts add.commute split: if_splits)
  then have u: "unat pa = unat scratch + (va - 4096)"
    using assms(2) unat_plus_of_nat [of scratch "va - 4096"] by simp
  obtain d where d: "4 = sz * d" using assms(4) by (auto intro: that [of 4] that [of 2] that [of 1])
  have "sz dvd 4096" using assms(4) by auto
  then have "sz dvd unat pa" unfolding u using assms(1,5) by (intro dvd_add dvd_diff_nat) (auto intro: dvd_trans)
  then show ?thesis using region_aligned [of p] granule_not_straddled [OF d] by metis
qed

section \<open>Properties\<close>



end
