(* ===== verification/Hw_Pmp.thy ===== *)
theory Hw_Pmp
  imports App_Pmp
begin

text \<open>
  The memory protection of the processor, \<open>src/pmp/src/pmp.sv\<close> and \<open>pmp_entry.sv\<close>, and the
  translation of \<open>src/ptw.sv\<close>, as the memory management unit \<open>src/mmu.sv\<close> uses them for loads,
  under the test program of \<open>App_Pmp\<close>. Physical addresses are words of the length that
  \<open>riscv_pkg.sv\<close> fixes, 56 bits on a 64-bit core; an address register has two bits less. The walk of
  \<open>ptw.sv\<close> is that of Sv39 for all word lengths, entries of eight bytes in three levels, although
  \<open>riscv_pkg.sv\<close> selects Sv32 on a 32-bit core: the tables that the program builds there are not
  what the walk reads, and the memory management unit of the 32-bit core is not modelled. The
  32-bit core is configured without it.
\<close>

unbundle bit_operations_syntax

section \<open>The unit\<close>

datatype pmp_addr_mode_t = OFF | TOR | NA4 | NAPOT

record pmp_conf =
  locked :: bool
  addr_mode :: pmp_addr_mode_t
  access_type :: u8

definition ACCESS_READ :: u8 where "ACCESS_READ = 1"

definition conf_of_byte :: "u8 \<Rightarrow> pmp_conf" where
  "conf_of_byte c =
     \<lparr>locked = bit c 7,
      addr_mode = (if bit c 4 then if bit c 3 then NAPOT else NA4 else if bit c 3 then TOR else OFF),
      access_type = c AND 7\<rparr>"

text \<open>The counter of trailing zeros.\<close>

definition lzc :: "'p::len word \<Rightarrow> nat" where
  "lzc w = length (takeWhile (\<lambda>i. \<not> bit w i) [0..<LENGTH('p)])"

definition pmp_entry :: "'p::len word \<Rightarrow> 'p word \<Rightarrow> 'p word \<Rightarrow> pmp_addr_mode_t \<Rightarrow> bool" where
  "pmp_entry addr conf_addr conf_addr_prev md =
     (case md of
        TOR \<Rightarrow> push_bit 2 conf_addr_prev \<le> addr \<and> addr < push_bit 2 conf_addr
      | OFF \<Rightarrow> False
      | _ \<Rightarrow> let size = (if md = NA4 then 2 else lzc (NOT conf_addr) + 3);
                 msk = push_bit size (- 1);
                 base = push_bit 2 conf_addr AND msk
             in addr AND msk = base)"

text \<open>The first entry that applies and matches decides; without one, machine mode is allowed.\<close>

fun pmp_scan :: "bool \<Rightarrow> u8 \<Rightarrow> 'p::len word \<Rightarrow> 'p word \<Rightarrow> (pmp_conf \<times> 'p word) list \<Rightarrow> bool" where
  "pmp_scan m_mode access addr prev [] = m_mode"
| "pmp_scan m_mode access addr prev ((c, a) # es) =
     (if (\<not> m_mode \<or> locked c) \<and> pmp_entry addr a prev (addr_mode c) then access AND access_type c = access
      else pmp_scan m_mode access addr a es)"

definition pmp :: "bool \<Rightarrow> u8 \<Rightarrow> 'p::len word \<Rightarrow> (pmp_conf \<times> 'p word) list \<Rightarrow> bool" where
  "pmp m_mode access addr es = pmp_scan m_mode access addr 0 es"

section \<open>Loads\<close>

text \<open>The entries 0 to 2 from the registers that the program writes; \<open>rest\<close> are the others.\<close>

definition conf_addr :: "'w::len word \<Rightarrow> 'p::len word" where
  "conf_addr a = take_bit (LENGTH('p) - 2) (ucast a)"

definition conf_byte :: "nat \<Rightarrow> 'w::len word \<Rightarrow> pmp_conf" where
  "conf_byte i c = conf_of_byte (ucast (drop_bit (8 * i) c))"

definition pmp_entries :: "(pmp_conf \<times> 'p::len word) list \<Rightarrow> 'w::len word core \<Rightarrow> (pmp_conf \<times> 'p word) list" where
  "pmp_entries rest st =
     [(conf_byte 0 (pmpcfg0 st), conf_addr (pmpaddr0 st)), (conf_byte 1 (pmpcfg0 st), conf_addr (pmpaddr1 st)),
      (conf_byte 2 (pmpcfg0 st), conf_addr (pmpaddr2 st))] @ rest"

text \<open>
  Translation on the 64-bit core, \<open>src/ptw.sv\<close>: a table entry is eight bytes, with the valid, read,
  write, execute, user and accessed bits in its lowest seven and the page number from bit 10 on;
  \<open>vpn\<close> is an index of nine bits of the virtual address. The walk reads an entry from the physical
  address \<open>p\<close> with \<open>Suc n\<close> levels to go; every read is checked by the protection unit first.
  A table entry that points further at the last level is a page fault. The translation buffer only
  keeps results of the walk; the program flushes it whenever it writes an entry.
\<close>

datatype walk = PageFault | AccessFault | Leaf u64 nat

definition pte_ppn :: "u64 \<Rightarrow> 56 word" where
  "pte_ppn pte = ucast (take_bit 44 (drop_bit 10 pte))"

definition vpn :: "nat \<Rightarrow> nat \<Rightarrow> nat" where
  "vpn va i = va div 2 ^ (12 + 9 * i) mod 512"

fun ptw :: "(56 word \<Rightarrow> u64) \<Rightarrow> (56 word \<Rightarrow> bool) \<Rightarrow> bool \<Rightarrow> nat \<Rightarrow> nat \<Rightarrow> 56 word \<Rightarrow> walk" where
  "ptw rd allow mxr va 0 p = PageFault"
| "ptw rd allow mxr va (Suc n) p =
     (let pte = rd p in
      if \<not> allow p then AccessFault
      else if \<not> bit pte 0 \<or> \<not> bit pte 1 \<and> bit pte 2 then PageFault
      else if bit pte 1 \<or> bit pte 3
      then if bit pte 6 \<and> (bit pte 1 \<or> bit pte 3 \<and> mxr) \<and> take_bit (9 * n) (pte_ppn pte) = 0 then Leaf pte n else PageFault
      else ptw rd allow mxr va n (push_bit 12 (pte_ppn pte) OR of_nat (8 * vpn va (n - 1))))"

text \<open>Memory as the walk sees it: the tables of the program at their addresses, \<open>other\<close> elsewhere.\<close>

definition pte_load :: "(56 word \<Rightarrow> u64) \<Rightarrow> u64 \<Rightarrow> u64 \<Rightarrow> u64 \<Rightarrow> 64 word core \<Rightarrow> 56 word \<Rightarrow> u64" where
  "pte_load other l1 l2 l3 st p =
     (let page = p AND NOT 0xFFF; i = unat (p AND 0xFFF) div 8 in
      if page = ucast l1 then l1pt st ! i
      else if page = ucast l2 then l2pt st ! i
      else if page = ucast l3 then l3pt st ! i
      else other p)"

definition CAUSE_LOAD_PAGE_FAULT :: u64 where "CAUSE_LOAD_PAGE_FAULT = 13"

text \<open>
  An aligned load of the program, which runs in machine mode, on the 64-bit core with the memory
  management unit: with the modified privilege, another mode than the machine mode and the mode
  Sv39 in \<open>satp\<close> it is translated, and the physical address is checked with the modified
  privilege. The size of the access is not an input of the protection unit.
\<close>

definition mmu_load :: "(56 word \<Rightarrow> u64) \<Rightarrow> u64 \<Rightarrow> u64 \<Rightarrow> u64 \<Rightarrow> (pmp_conf \<times> 56 word) list \<Rightarrow> 64 load" where
  "mmu_load other l1 l2 l3 rest st va sz =
     (let es = pmp_entries rest st; mst = mstatus st;
          mprv = bit mst 17; mpp = take_bit 2 (drop_bit 11 mst); mxr = bit mst 19;
          m_mode = (\<not> mprv \<or> mpp = 3);
          checked = (\<lambda>pa. if pmp m_mode ACCESS_READ pa es then None else Some CAUSE_LOAD_ACCESS)
      in if mprv \<and> drop_bit 60 (satp st) = SATP_MODE_SV39 \<and> mpp \<noteq> 3
         then case ptw (pte_load other l1 l2 l3 st) (\<lambda>p. pmp False ACCESS_READ p es) mxr va 3
                (push_bit 12 (ucast (take_bit 44 (satp st))) OR of_nat (8 * vpn va 2)) of
                PageFault \<Rightarrow> Some CAUSE_LOAD_PAGE_FAULT
              | AccessFault \<Rightarrow> Some CAUSE_LOAD_ACCESS
              | Leaf pte n \<Rightarrow>
                  if mpp = 1 \<and> \<not> bit mst 18 \<and> bit pte 4 \<or> mpp = 0 \<and> \<not> bit pte 4 then Some CAUSE_LOAD_PAGE_FAULT
                  else checked (push_bit 12 (pte_ppn pte) OR of_nat (va mod 2 ^ (12 + 9 * n)))
         else checked (of_nat va))"

text \<open>Without the memory management unit, as \<open>ariane_pkg.sv\<close> configures it, loads raise no exception.\<close>

definition no_mmu_load :: "'w::len load" where
  "no_mmu_load st va sz = None"

section \<open>The entries of the test program\<close>

lemma lzc_all_ones: "lzc (- 0x40000000000000 :: 56 word) = 54"
  by code_simp

lemma last_entry_matches: "pmp_entry addr (0x3FFFFFFFFFFFFF :: 56 word) prev NAPOT"
proof -
  have z: "(2 :: 56 word) ^ 57 = 0" by (simp add: exp_eq_zero_iff)
  show ?thesis by (simp add: pmp_entry_def lzc_all_ones push_bit_eq_mult Let_def z del: power_numeral)
qed

lemma pmp_allows_reads:
  assumes "addr_mode c0 = OFF" "access_type c1 AND 1 = 1" "access_type c2 AND 1 = 1" "addr_mode c2 = NAPOT"
    and "\<And>prev. pmp_entry addr x2 prev NAPOT"
  shows "pmp False ACCESS_READ addr ([(c0, x0), (c1, x1), (c2, x2)] @ rest)"
proof -
  have "\<not> pmp_entry addr x0 0 OFF" by (simp add: pmp_entry_def)
  moreover have "1 AND access_type c1 = 1" "1 AND access_type c2 = 1" using assms(2,3) by (simp_all only: and.commute [of 1])
  ultimately show ?thesis
    using assms(1,4,5) by (cases "pmp_entry addr x1 x0 (addr_mode c1)") (simp_all add: pmp_def ACCESS_READ_def)
qed

text \<open>The configuration register under the test, by the mode of the test entry.\<close>

lemma written_config:
  fixes p :: "'w::len word pmpcfg_t"
  assumes "entry_written p st" "cfg p \<in> {PMP_TOR OR PMP_R, PMP_R OR PMP_NAPOT, PMP_R OR PMP_NA4}"
  shows "pmpcfg0 st \<in> {0x190900, 0x191900, 0x191100}" "pmpaddr2 st = - 1"
  using assms by (auto simp: entry_written_def PMP_TOR_def PMP_R_def PMP_A_def PMP_NA4_def)

lemma config_bytes:
  assumes "c \<in> {0x190900, 0x191900, 0x191100 :: 64 word}"
  shows "addr_mode (conf_byte 0 c) = OFF" "access_type (conf_byte 1 c) AND 1 = 1" "access_type (conf_byte 2 c) AND 1 = 1"
    "addr_mode (conf_byte 2 c) = NAPOT"
  using assms by (auto simp: conf_byte_def conf_of_byte_def drop_bit_eq_div)

lemma all_ones_addr: "conf_addr (- 1 :: 64 word) = (0x3FFFFFFFFFFFFF :: 56 word)"
  unfolding conf_addr_def by code_simp

lemma reads_permitted:
  assumes "entry_written p st" "cfg p \<in> {PMP_TOR OR PMP_R, PMP_R OR PMP_NAPOT, PMP_R OR PMP_NA4}"
  shows "pmp False ACCESS_READ pa (pmp_entries (rest :: (pmp_conf \<times> 56 word) list) (st :: 64 word core))"
  unfolding pmp_entries_def written_config(2) [OF assms] all_ones_addr
  by (rule pmp_allows_reads) (use config_bytes [OF written_config(1) [OF assms]] last_entry_matches in auto)

section \<open>The walk through the tables of the program\<close>

definition full_tables :: "64 word core \<Rightarrow> bool" where
  "full_tables st \<longleftrightarrow> length (l1pt st) = 512 \<and> length (l2pt st) = 512 \<and> length (l3pt st) = 512"

definition table_address :: "u64 \<Rightarrow> bool" where
  "table_address l \<longleftrightarrow> 4096 dvd unat l \<and> unat l < 2 ^ 56"

lemma table_address_bits:
  assumes "table_address l"
  shows "k < 12 \<Longrightarrow> \<not> bit l k" "56 \<le> k \<Longrightarrow> \<not> bit l k"
proof -
  have "take_bit 12 (unat l) = 0" using assms by (simp add: table_address_def take_bit_eq_mod mod_0_imp_dvd)
  from arg_cong [OF this, of "\<lambda>x. bit x k"] show "k < 12 \<Longrightarrow> \<not> bit l k" by (simp add: bit_simps)
  have "take_bit 56 (unat l) = unat l" using assms by (simp add: table_address_def take_bit_nat_eq_self)
  from arg_cong [OF this, of "\<lambda>x. bit x k"] show "56 \<le> k \<Longrightarrow> \<not> bit l k" by (auto simp: bit_simps)
qed

lemma ucast_table_address:
  assumes "table_address l" "table_address l'"
  shows "(ucast l :: 56 word) = ucast l' \<longleftrightarrow> l = l'"
proof
  assume eq: "(ucast l :: 56 word) = ucast l'"
  show "l = l'"
  proof (rule bit_word_eqI)
    fix k
    show "bit l k = bit l' k"
      using table_address_bits(2) [OF assms(1), of k] table_address_bits(2) [OF assms(2), of k]
        arg_cong [OF eq, of "\<lambda>w. bit w k"] by (cases "k < 56") (auto simp: bit_simps)
  qed
qed simp

lemma table_pointer:
  assumes "table_address l"
  shows "push_bit 12 (pte_ppn (ppn l OR PTE_V)) = ucast l"
    "push_bit 12 (ucast (take_bit 44 (drop_bit 12 l OR 0x8000000000000000))) = (ucast l :: 56 word)"
proof -
  have l: "bit l k \<Longrightarrow> 12 \<le> k \<and> k < 56" for k using table_address_bits [OF assms] by (meson not_le)
  show "push_bit 12 (pte_ppn (ppn l OR PTE_V)) = ucast l"
  proof (rule bit_word_eqI)
    fix k assume "k < LENGTH(56)"
    with l [of k] show "bit (push_bit 12 (pte_ppn (ppn l OR PTE_V))) k = bit (ucast l :: 56 word) k"
      by (cases "bit l k") (auto simp: bit_simps pte_ppn_def ppn_def PTE_V_def PTE_PPN_SHIFT_def RISCV_PGSHIFT_def bit_1_iff)
  qed
  show "push_bit 12 (ucast (take_bit 44 (drop_bit 12 l OR 0x8000000000000000))) = (ucast l :: 56 word)"
  proof (rule bit_word_eqI)
    fix k assume k: "k < LENGTH(56)"
    have "(0x8000000000000000 :: u64) = push_bit 63 1" by simp
    then have "\<not> bit (0x8000000000000000 :: u64) j" if "j < 44" for j
      using that by (simp only: bit_push_bit_iff bit_1_iff) simp
    with l [of k] k show "bit (push_bit 12 (ucast (take_bit 44 (drop_bit 12 l OR 0x8000000000000000))) :: 56 word) k = bit (ucast l :: 56 word) k"
      by (cases "bit l k") (auto simp: bit_simps)
  qed
qed

text \<open>The address of an entry of a table, and what is read there.\<close>

lemma page_of_entry:
  assumes "table_address l" "j < 512"
  shows "(ucast l OR of_nat (8 * j)) AND NOT 0xFFF = (ucast l :: 56 word)"
    "unat ((ucast l OR of_nat (8 * j)) AND 0xFFF :: 56 word) div 8 = j"
proof -
  let ?o = "of_nat (8 * j) :: 56 word"
  have m: "(0xFFF :: 56 word) = mask 12" by (simp add: mask_eq_exp_minus_1)
  have o: "take_bit 12 ?o = ?o"
    using assms(2) by (simp only: take_bit_of_nat) (simp add: take_bit_nat_eq_self del: of_nat_mult)
  have ob: "bit ?o k \<Longrightarrow> k < 12" for k using arg_cong [OF o, of "\<lambda>w. bit w k"] by (simp add: bit_simps)
  have lb: "bit l k \<Longrightarrow> 12 \<le> k" for k using table_address_bits(1) [OF assms(1)] by (meson not_le)
  show "(ucast l OR ?o) AND NOT 0xFFF = ucast l"
    unfolding m
  proof (rule bit_word_eqI)
    fix k assume "k < LENGTH(56)"
    with ob [of k] lb [of k] show "bit ((ucast l OR ?o) AND NOT (mask 12)) k = bit (ucast l :: 56 word) k"
      by (cases "bit l k"; cases "bit ?o k") (auto simp: bit_simps)
  qed
  have "(ucast l OR ?o) AND 0xFFF = ?o"
    unfolding m
  proof (rule bit_word_eqI)
    fix k assume "k < LENGTH(56)"
    with ob [of k] lb [of k] show "bit ((ucast l OR ?o) AND mask 12) k = bit ?o k"
      by (cases "bit l k"; cases "bit ?o k") (auto simp: bit_simps)
  qed
  moreover have "unat ?o = 8 * j" using assms(2) by (simp only: unat_of_nat) (simp add: take_bit_nat_eq_self)
  ultimately show "unat ((ucast l OR ?o) AND 0xFFF) div 8 = j" by simp
qed

text \<open>The walk for the page of the program ends at its leaf entry.\<close>

definition leaf_pte :: "u64 \<Rightarrow> u64" where
  "leaf_pte scratch = ppn scratch OR PTE_A OR PTE_D OR PTE_V OR PTE_R OR PTE_W"

lemma mapped_tables:
  fixes st :: "64 word core"
  assumes "page_mapped scratch l1 l2 l3 st" "full_tables st"
  shows "l1pt st ! 0 = ppn l2 OR PTE_V" "l2pt st ! 0 = ppn l3 OR PTE_V" "l3pt st ! 1 = leaf_pte scratch"
    "satp st = drop_bit 12 l1 OR 0x8000000000000000"
proof -
  have "(l1pt st)[0 := ppn l2 OR PTE_V] = l1pt st" "(l2pt st)[0 := ppn l3 OR PTE_V] = l2pt st"
    "(l3pt st)[1 := leaf_pte scratch] = l3pt st" and
    s: "drop_bit RISCV_PGSHIFT l1 OR SATP_MODE_SV39 * (SATP_MODE AND NOT (push_bit 1 SATP_MODE)) = satp st"
    using assms(1) by (simp_all add: page_mapped_def init_pt_def Let_def leaf_pte_def pmp_consts)
  then show "l1pt st ! 0 = ppn l2 OR PTE_V" "l2pt st ! 0 = ppn l3 OR PTE_V" "l3pt st ! 1 = leaf_pte scratch"
    using assms(2) by (metis full_tables_def nth_list_update_eq zero_less_numeral one_less_numeral_iff semiring_norm(76))+
  have "SATP_MODE_SV39 * (SATP_MODE AND NOT (push_bit 1 SATP_MODE)) = (0x8000000000000000 :: u64)"
    by (simp add: SATP_MODE_SV39_def SATP_MODE_def)
  with s show "satp st = drop_bit 12 l1 OR 0x8000000000000000" by (simp add: RISCV_PGSHIFT_def)
qed

lemma pointer_pte_bits: "bit (ppn l OR PTE_V :: u64) 0" "\<not> bit (ppn l OR PTE_V :: u64) 1" "\<not> bit (ppn l OR PTE_V :: u64) 2"
    "\<not> bit (ppn l OR PTE_V :: u64) 3"
  by (simp_all add: ppn_def PTE_V_def PTE_PPN_SHIFT_def bit_simps)

lemma leaf_pte_bits: "bit (leaf_pte s) 0" "bit (leaf_pte s) 1" "bit (leaf_pte s) 6" "\<not> bit (leaf_pte s) 4"
  by (simp_all add: leaf_pte_def ppn_def PTE_V_def PTE_R_def PTE_W_def PTE_A_def PTE_D_def PTE_PPN_SHIFT_def bit_simps bit_numeral_rec)

lemma page_indices:
  assumes "SCRATCH \<le> va" "va < SCRATCH + RISCV_PGSIZE"
  shows "vpn va 2 = 0" "vpn va 1 = 0" "vpn va 0 = 1"
  using assms by (simp_all add: vpn_def pmp_consts div_if)

lemma walk_reads:
  fixes st :: "64 word core"
  assumes "page_mapped scratch l1 l2 l3 st" "full_tables st" "table_address l1" "table_address l2" "table_address l3"
    "distinct [l1, l2, l3]"
  shows "pte_load other l1 l2 l3 st (ucast l1) = ppn l2 OR PTE_V" "pte_load other l1 l2 l3 st (ucast l2) = ppn l3 OR PTE_V"
    "pte_load other l1 l2 l3 st (ucast l3 OR 8) = leaf_pte scratch"
proof -
  note first = page_of_entry [of _ 0, simplified] and second = page_of_entry [of _ 1, simplified]
  have d: "l1 \<noteq> l2" "l1 \<noteq> l3" "l2 \<noteq> l3" using assms(6) by auto
  show "pte_load other l1 l2 l3 st (ucast l1) = ppn l2 OR PTE_V"
    using first [OF assms(3)] by (simp add: pte_load_def mapped_tables(1) [OF assms(1,2)])
  show "pte_load other l1 l2 l3 st (ucast l2) = ppn l3 OR PTE_V"
    using first [OF assms(4)] d ucast_table_address [OF assms(4,3)]
    by (simp add: pte_load_def mapped_tables(2) [OF assms(1,2)])
  show "pte_load other l1 l2 l3 st (ucast l3 OR 8) = leaf_pte scratch"
    using second [OF assms(5)] d ucast_table_address [OF assms(5,3)] ucast_table_address [OF assms(5,4)]
    by (simp add: pte_load_def mapped_tables(3) [OF assms(1,2), simplified])
qed

lemma ptw_leaf: "allow p \<Longrightarrow> rd p = leaf_pte s \<Longrightarrow> ptw rd allow mxr va 1 p = Leaf (leaf_pte s) 0"
  using leaf_pte_bits [of s] by (simp add: Let_def)

lemma ptw_pointer:
  assumes "k = Suc n" "allow p" "rd p = ppn l OR PTE_V" "table_address l"
  shows "ptw rd allow mxr va k p = ptw rd allow mxr va n (ucast l OR of_nat (8 * vpn va (n - 1)))"
  using assms(2,3) pointer_pte_bits [of l]
  unfolding assms(1) by (simp add: Let_def table_pointer(1) [OF assms(4)] del: One_nat_def)

lemma page_walk:
  fixes st :: "64 word core"
  assumes "page_mapped scratch l1 l2 l3 st" "full_tables st" "table_address l1" "table_address l2" "table_address l3"
    "distinct [l1, l2, l3]" "SCRATCH \<le> va" "va < SCRATCH + RISCV_PGSIZE" "\<And>p. allow p"
  shows "ptw (pte_load other l1 l2 l3 st) allow mxr va 3
      (push_bit 12 (ucast (take_bit 44 (satp st))) OR of_nat (8 * vpn va 2)) = Leaf (leaf_pte scratch) 0"
proof -
  note rd = walk_reads [OF assms(1-6), of other] and ix = page_indices [OF assms(7,8)]
  let ?w = "ptw (pte_load other l1 l2 l3 st) allow mxr va"
  have "?w 3 (ucast l1) = ?w 2 (ucast l2)"
    using ptw_pointer [of 3 2 allow "ucast l1" "pte_load other l1 l2 l3 st" l2 mxr va] assms(4,9) rd(1) ix by simp
  also have "\<dots> = ?w 1 (ucast l3 OR 8)"
    using ptw_pointer [of 2 1 allow "ucast l2" "pte_load other l1 l2 l3 st" l3 mxr va] assms(5,9) rd(2) ix by simp
  also have "\<dots> = Leaf (leaf_pte scratch) 0" by (rule ptw_leaf [of allow]) (rule assms(9), rule rd(3))
  finally show ?thesis
    unfolding mapped_tables(4) [OF assms(1,2)] table_pointer(2) [OF assms(3)] ix by simp
qed

lemma supervisor_loads:
  fixes mst :: u64
  assumes "mst AND 0x21800 = 0x20800"
  shows "bit mst 17" "take_bit 2 (drop_bit 11 mst) = 1"
proof -
  show "bit mst 17" using arg_cong [OF assms, of "\<lambda>w. bit w 17"] by (simp add: bit_and_iff)
  have "take_bit 2 (drop_bit 11 mst) = drop_bit 11 (mst AND 0x21800) AND (3 :: u64)"
    by (simp add: drop_bit_and and.assoc take_bit_eq_mask mask_numeral)
  with assms show "take_bit 2 (drop_bit 11 mst) = 1" by simp
qed

lemma mmu_load_permits:
  fixes st :: "64 word core"
  assumes "page_mapped scratch l1 l2 l3 st" "full_tables st" "entry_written p st"
    "cfg p \<in> {PMP_TOR OR PMP_R, PMP_R OR PMP_NAPOT, PMP_R OR PMP_NA4}" "mstatus st AND 0x21800 = 0x20800"
    "SCRATCH \<le> va" "va < SCRATCH + RISCV_PGSIZE"
    and l: "table_address l1" "table_address l2" "table_address l3" "distinct [l1, l2, l3]"
  shows "mmu_load other l1 l2 l3 rest st va sz = None"
proof -
  have allow: "pmp False ACCESS_READ pa (pmp_entries rest st)" for pa by (rule reads_permitted [OF assms(3,4)])
  have "drop_bit 60 (satp st) = SATP_MODE_SV39"
    by (simp add: mapped_tables(4) [OF assms(1,2)] SATP_MODE_SV39_def)
  with supervisor_loads [OF assms(5)] leaf_pte_bits(4) page_walk [OF assms(1,2) l assms(6,7), of "\<lambda>_. True"]
  show ?thesis by (simp add: mmu_load_def allow Let_def)
qed

section \<open>Loads that the entries never stop\<close>

text \<open>The loads of this processor under the entries and the page table of the test: none of them fails.\<close>

locale permitting_core =
  fixes ld :: "64 load" and scratch l1 l2 l3 :: u64
  assumes permits: "page_mapped scratch l1 l2 l3 st \<Longrightarrow> full_tables st \<Longrightarrow> entry_written p st \<Longrightarrow>
      cfg p \<in> {PMP_TOR OR PMP_R, PMP_R OR PMP_NAPOT, PMP_R OR PMP_NA4} \<Longrightarrow> mstatus st AND 0x21800 = 0x20800 \<Longrightarrow>
      SCRATCH \<le> va \<Longrightarrow> va < SCRATCH + RISCV_PGSIZE \<Longrightarrow> ld st va sz = None"
begin

lemma test_status: "(mst AND NOT MSTATUS_MPP OR MSTATUS_MPP AND drop_bit 1 MSTATUS_MPP OR MSTATUS_MPRV) AND 0x21800 = (0x20800 :: u64)"
proof -
  have absorb: "(x AND y) OR (y OR z) = y OR z" for x y z :: u64 by (rule bit_word_eqI) (auto simp: bit_simps)
  have "(mst AND NOT 0x1800 OR 0x800 OR 0x20000) AND 0x21800 = (mst AND 0x20000) OR (0x20000 OR 0x800 :: u64)"
    by (simp add: bit.conj_disj_distrib2 and.assoc)
  also have "\<dots> = 0x20000 OR 0x800" by (rule absorb)
  finally show ?thesis by (simp add: MSTATUS_MPP_def MSTATUS_MPRV_def)
qed

text \<open>A size at which the program expects no exception goes on to the next one; at a size where it
  expects one, the exception is missed.\<close>

lemma all_sizes_step:
  assumes st: "page_mapped scratch l1 l2 l3 st" "full_tables st" "entry_written p st"
    and "cfg p \<in> {PMP_TOR OR PMP_R, PMP_R OR PMP_NAPOT, PMP_R OR PMP_NA4}"
    and "k \<le> 3" "SCRATCH AND (2 ^ k - 1) = 0" "pmp_ok scratch p SCRATCH (2 ^ k) = Inr ok"
  shows "test_all_sizes_loop h ld scratch p SCRATCH k st =
    (if ok then test_all_sizes_loop h ld scratch p SCRATCH (Suc k) (st\<lparr>trap_expected := False\<rparr>) else Inl 2)"
proof -
  let ?st = "st\<lparr>trap_expected := \<not> ok,
    mstatus := (mstatus st AND NOT MSTATUS_MPP OR MSTATUS_MPP AND drop_bit 1 MSTATUS_MPP OR MSTATUS_MPRV)\<rparr>"
  have "ld ?st SCRATCH (2 ^ k) = None"
    using st(2) by (intro permits [OF _ _ _ assms(4)])
      (simp_all add: st full_tables_def test_status [unfolded One_nat_def] pmp_consts)
  then have "test_one h ld SCRATCH (2 ^ k) (st\<lparr>trap_expected := \<not> ok\<rparr>) = Inr (st\<lparr>trap_expected := \<not> ok\<rparr>)"
    by (simp add: test_one_def Let_def)
  moreover have "(2 :: nat) ^ k \<le> LENGTH(64) div 8" using power_increasing [OF assms(5), of "2 :: nat"] by simp
  ultimately show ?thesis using assms(6,7) by (subst test_all_sizes_loop.simps) (simp add: Let_def)
qed

lemma first_range_fails:
  assumes "4096 dvd unat scratch" "unat scratch + 8192 \<le> 2 ^ 64"
    and st: "page_mapped scratch l1 l2 l3 st" "full_tables st" "test_ready st"
    and p: "set_pmp_range scratch 4 st = (p, st1)"
  shows "test_all_sizes h ld scratch p SCRATCH st1 = Inl 2"
proof -
  have 4: "4 dvd unat scratch" using assms(1) by (rule dvd_trans [rotated]) simp
  have r: "region p = (unat scratch, unat scratch + 4)" "cfg p AND PMP_A \<noteq> 0"
    using range_region [OF _ 4 _ _ p] assms(2) by simp_all
  have c: "cfg p \<in> {PMP_TOR OR PMP_R, PMP_R OR PMP_NAPOT, PMP_R OR PMP_NA4}" and st1: "st1 = set_pmp p st"
    using p by (auto simp: set_pmp_range_def Let_def)
  have w: "page_mapped scratch l1 l2 l3 st1" "full_tables st1" "entry_written p st1"
    using set_pmp_written [OF st(3), of p] st(1,2) by (simp_all add: st1 full_tables_def set_pmp_def Let_def)
  have w': "page_mapped scratch l1 l2 l3 (st1\<lparr>trap_expected := b\<rparr>)" "full_tables (st1\<lparr>trap_expected := b\<rparr>)"
      "entry_written p (st1\<lparr>trap_expected := b\<rparr>)" for b
    using w by (simp_all add: full_tables_def)
  have pa: "va2pa scratch SCRATCH = Inr scratch" by (simp add: va2pa_def RISCV_PGSIZE_def)
  have ok: "pmp_ok scratch p SCRATCH sz = Inr (\<not> straddles (unat scratch, unat scratch + 4) (unat scratch) sz)" if "sz \<in> {1, 2, 4, 8}" for sz
  proof -
    have "sz dvd unat scratch" using that assms(1) by (auto intro: dvd_trans [of _ 4096])
    with pmp_ok_region [OF r(2,1) _ _ pa _ that] assms(2) r(1) show ?thesis by simp
  qed
  have s: "\<not> straddles (u, u + 4) u 1" "\<not> straddles (u, u + 4) u 2" "\<not> straddles (u, u + 4) u 4" for u
    by (auto simp: straddles_def)
  have s8: "straddles (u, u + 4) u 8" for u
    unfolding straddles_def by (intro conjI bexI [of _ u] bexI [of _ "u + 4"]) simp_all
  have al: "SCRATCH AND (2 ^ k - 1) = 0" if "k \<le> 3" for k
  proof -
    have "(2 :: nat) ^ k dvd 2 ^ 12" using that by (intro le_imp_power_dvd) simp
    then show ?thesis unfolding and_pred_power by (simp add: pmp_consts)
  qed
  note step = all_sizes_step [OF _ _ _ c, of _ _ _ h]
  have "test_all_sizes_loop h ld scratch p SCRATCH 0 st1 = test_all_sizes_loop h ld scratch p SCRATCH 1 (st1\<lparr>trap_expected := False\<rparr>)"
    using step [OF w, of 0 True] al [of 0] ok [of 1] s(1) by simp
  also have "\<dots> = test_all_sizes_loop h ld scratch p SCRATCH 2 (st1\<lparr>trap_expected := False\<rparr>)"
    using step [OF w', of 1 True False] al [of 1] ok [of 2] s(2) by (simp add: numeral_2_eq_2)
  also have "\<dots> = test_all_sizes_loop h ld scratch p SCRATCH 3 (st1\<lparr>trap_expected := False\<rparr>)"
    using step [OF w', of 2 True False] al [of 2] ok [of 4] s(3) by simp
  also have "\<dots> = Inl 2"
    using step [OF w', of 3 False False] al [of 3] ok [of 8] s8 by simp
  finally show ?thesis by (simp add: test_all_sizes_def)
qed

lemma fails_64:
  assumes "4096 dvd unat scratch" "unat scratch + 8192 \<le> 2 ^ 64" "full_tables st"
  shows "pmp_main h ld scratch l1 l2 l3 st = Inl 2"
proof -
  let ?st = "init_pt scratch l1 l2 l3 st"
  have full: "full_tables ?st" using assms(3) by (simp add: full_tables_def init_pt_def Let_def)
  obtain p st1 where p: "set_pmp_range scratch 4 ?st = (p, st1)" by fastforce
  have pa: "va2pa scratch SCRATCH = Inr scratch" by (simp add: va2pa_def RISCV_PGSIZE_def)
  have "test_range h ld scratch SCRATCH 4 ?st = Inl 2"
    using first_range_fails [OF assms(1,2) page_mapped_init full init_ready p, of h] p pa
    by (simp add: test_range_def test_range_once_def granules.simps [of _ SCRATCH])
  then have "test_ranges h ld scratch SCRATCH 32 ?st = Inl 2"
    by (simp add: test_ranges_def pmp_consts granules.simps [of _ 4])
  then have "exhaustive_test h ld scratch SCRATCH 32 ?st = Inl 2"
    by (simp add: exhaustive_test_def granules.simps [of _ SCRATCH])
  then show ?thesis by (simp add: pmp_main_def Let_def)
qed

end

text \<open>A core whose page tables lie at three different page aligned addresses, and a core without
  translation and protection.\<close>

lemma mmu_permitting_core:
  assumes "table_address l1" "table_address l2" "table_address l3" "distinct [l1, l2, l3]"
  shows "permitting_core (mmu_load other l1 l2 l3 rest) scratch l1 l2 l3"
  by (rule permitting_core.intro) (rule mmu_load_permits [OF _ _ _ _ _ _ _ assms])

interpretation nommu: permitting_core no_mmu_load scratch l1 l2 l3
  by unfold_locales (simp add: no_mmu_load_def)

interpretation mmu_sample: permitting_core "mmu_load other 0x80002000 0x80003000 0x80004000 rest" scratch "0x80002000" "0x80003000" "0x80004000"
  by (rule mmu_permitting_core) (simp_all add: table_address_def)

lemma no_mmu_passes_32:
  assumes "4096 dvd unat (scratch :: 32 word)" "unat scratch + 8192 \<le> 2 ^ 32"
  shows "\<exists>st'. pmp_main h no_mmu_load scratch l1 l2 l3 st = Inr st'"
proof (rule conforming_core.main_passes, rule conforming_core.intro)
  fix st :: "32 word core" and p va pa sz
  assume "va2pa scratch va = Inr pa" "sz \<in> {1, 2, 4, 8}" "sz \<le> LENGTH(32) div 8" "sz dvd va"
  then have "\<not> straddles (region p) (unat pa) sz" using assms by (intro small_not_straddled [of scratch]) auto
  then show "no_mmu_load st va sz = (if straddles (region p) (unat pa) sz then Some CAUSE_LOAD_ACCESS else None)"
    by (simp add: no_mmu_load_def)
qed (use assms in auto)

section \<open>Property\<close>

text \<open>C31. The memory protection test on this processor. As it is configured, on 32 bits and without
  memory management unit, no entry has any effect, and the test runs to its end for every page aligned
  scratch area. On 64 bits, where a load of eight bytes can cover four bytes of the test region, the
  test exits with code 2, a missed exception: without the memory management unit, and with it for all
  page tables at different page aligned addresses and all values of the remaining entries, because the
  unit looks only at the first address of an access, the walk through the tables of the program finds
  its page, and the last entry of the test lets every read pass.\<close>

theorem pmp_test_on_core:
  assumes "4096 dvd unat (s32 :: 32 word)" "unat s32 + 8192 \<le> 2 ^ 32" "4096 dvd unat (s64 :: 64 word)" "unat s64 + 8192 \<le> 2 ^ 64"
    and "table_address k1" "table_address k2" "table_address k3" "distinct [k1, k2, k3]" "full_tables st64"
  shows "(\<exists>st'. pmp_main h no_mmu_load s32 l1 l2 l3 st = Inr st') \<and>
    pmp_main h no_mmu_load s64 k1 k2 k3 st64 = Inl 2 \<and>
    pmp_main h (mmu_load other k1 k2 k3 rest) s64 k1 k2 k3 st64 = Inl 2"
  using no_mmu_passes_32 [OF assms(1,2)] nommu.fails_64 [OF assms(3,4,9)]
    permitting_core.fails_64 [OF mmu_permitting_core [OF assms(5-8)] assms(3,4,9)] by simp

theorem pmp_test_on_core_witness:
  "pmp_main 0 (mmu_load (\<lambda>_. 0) 0x80002000 0x80003000 0x80004000 []) (0x80001000 :: 64 word) 0x80002000 0x80003000 0x80004000
    \<lparr>satp = 0, mstatus = 0, pmpcfg0 = 0, pmpaddr0 = 0, pmpaddr1 = 0, pmpaddr2 = 0, l1pt = replicate 512 0,
     l2pt = replicate 512 0, l3pt = replicate 512 0, trap_expected = False\<rparr> = Inl 2"
  using pmp_test_on_core [of "0x80001000" "0x80001000" "0x80002000" "0x80003000" "0x80004000"
    "\<lparr>satp = 0, mstatus = 0, pmpcfg0 = 0, pmpaddr0 = 0, pmpaddr1 = 0, pmpaddr2 = 0, l1pt = replicate 512 0,
     l2pt = replicate 512 0, l3pt = replicate 512 0, trap_expected = False\<rparr>"]
  by (simp add: table_address_def full_tables_def)

end
