(* ===== verification/App_Perf.thy ===== *)
theory App_Perf
  imports App_Util "HOL-Library.Signed_Division"
begin

text \<open>
  The performance baseline of the Zephyr workspace, \<open>zephyr-docker/workspace/perf_baseline/src\<close>:
  the four functions of \<open>funclib.c\<close> and the recursive, indirect calls of \<open>testapp.c\<close>. The
  arithmetic on doubles is a parameter. A result is \<open>None\<close> when a loop never ends, and an error
  when the program leaves by \<open>exit\<close> or does what C leaves undefined.
\<close>

section \<open>Double precision numbers and errors\<close>

text \<open>\<open>flit n k\<close> is the literal \<open>n / 10 ^ k\<close>, \<open>fint\<close> the conversion from an integer and
  \<open>ftoint\<close> the conversion to an \<open>int\<close>, which is undefined out of range.\<close>

record 'd dfpu =
  fadd :: "'d \<Rightarrow> 'd \<Rightarrow> 'd"
  fsub :: "'d \<Rightarrow> 'd \<Rightarrow> 'd"
  fmul :: "'d \<Rightarrow> 'd \<Rightarrow> 'd"
  fdiv :: "'d \<Rightarrow> 'd \<Rightarrow> 'd"
  flt :: "'d \<Rightarrow> 'd \<Rightarrow> bool"
  flit :: "int \<Rightarrow> nat \<Rightarrow> 'd"
  fint :: "int \<Rightarrow> 'd"
  ftoint :: "'d \<Rightarrow> int option"

datatype perf_error = Overflow | Bad_Conversion | Null_Pointer | Exit int

type_synonym 'a perf = "(perf_error + 'a) option"

definition and_then :: "'a perf \<Rightarrow> ('a \<Rightarrow> 'b perf) \<Rightarrow> 'b perf" where
  "and_then x f = (case x of None \<Rightarrow> None | Some (Inl e) \<Rightarrow> Some (Inl e) | Some (Inr v) \<Rightarrow> f v)"

definition int32 :: "int \<Rightarrow> perf_error + int" where
  "int32 v = (if -2147483648 \<le> v \<and> v \<le> 2147483647 then Inr v else Inl Overflow)"

section \<open>\<open>funclib.c\<close>\<close>

text \<open>The loops take the number of rounds that are left.\<close>

fun func1_loop :: "'d dfpu \<Rightarrow> nat \<Rightarrow> int \<Rightarrow> 'd \<Rightarrow> int" where
  "func1_loop F 0 i val = i"
| "func1_loop F (Suc n) i val =
     (let val = fdiv F val (flit F 125 2) in
      if flt F val (flit F 10 1) then i else func1_loop F n (i + 1) (fadd F val (flit F 15 1)))"

definition func1 :: "'d dfpu \<Rightarrow> 'd \<Rightarrow> 'd perf" where
  "func1 F arg1 =
     (let val = arg1; min = flit F 100000 1; val = (if flt F val min then min else val)
      in Some (Inr (fint F (func1_loop F 1000 0 val))))"

fun func2_loop :: "'d dfpu \<Rightarrow> nat \<Rightarrow> int \<Rightarrow> 'd \<Rightarrow> int" where
  "func2_loop F 0 i val = i"
| "func2_loop F (Suc n) i val =
     (let val = fmul F val (flit F 125 2) in
      if flt F (flit F 100000 1) val then i else func2_loop F n (i + 1) (fsub F val (flit F 15 1)))"

definition func2 :: "'d dfpu \<Rightarrow> 'd \<Rightarrow> 'd perf" where
  "func2 F arg1 =
     (let val = arg1; max = flit F 100 1; val = (if flt F max val then max else val)
      in Some (Inr (fint F (func2_loop F 1000 0 val))))"

definition func3 :: "'d dfpu \<Rightarrow> 'd \<Rightarrow> 'd perf" where
  "func3 F arg1 = and_then (func1 F arg1) (func2 F)"

text \<open>One step of the Syracuse sequence; the product and the sum are computed on \<open>int\<close>.\<close>

definition syracuse :: "int \<Rightarrow> perf_error + int" where
  "syracuse val =
     (if val smod 2 \<noteq> 0
      then (case int32 (3 * val) of Inl e \<Rightarrow> Inl e | Inr v \<Rightarrow> int32 (v + 1))
      else Inr (val sdiv 2))"

partial_function (option) func4_loop :: "int \<Rightarrow> int \<Rightarrow> int perf" where
  "func4_loop val i =
     (if val \<noteq> 1
      then case syracuse val of
          Inl e \<Rightarrow> Some (Inl e)
        | Inr val \<Rightarrow> (case int32 (i + 1) of Inl e \<Rightarrow> Some (Inl e) | Inr i \<Rightarrow> func4_loop val i)
      else Some (Inr i))"

definition func4 :: "'d dfpu \<Rightarrow> 'd \<Rightarrow> 'd perf" where
  "func4 F arg =
     (case ftoint F arg of
        None \<Rightarrow> Some (Inl Bad_Conversion)
      | Some val \<Rightarrow> and_then (func4_loop val 0) (\<lambda>i. Some (Inr (fint F i))))"

section \<open>\<open>testapp.c\<close>\<close>

definition FUNCTION_NUMBER :: nat where "FUNCTION_NUMBER = 4"
definition MAX_DEPTH :: int where "MAX_DEPTH = 100"
definition MAX_CALLS :: int where "MAX_CALLS = 10000"

definition ftable :: "'d dfpu \<Rightarrow> ('d \<Rightarrow> 'd perf) list" where
  "ftable F = [func1 F, func2 F, func3 F, func4 F]"

text \<open>The heap is the number of blocks that \<open>malloc\<close> can still give.\<close>

fun main_func_loop :: "'d dfpu \<Rightarrow> 'd \<Rightarrow> nat \<Rightarrow> nat list \<Rightarrow> 'd \<Rightarrow> 'd perf" where
  "main_func_loop F value first_func_call [] buffer = Some (Inr buffer)"
| "main_func_loop F value first_func_call (i # is) buffer =
     (let cur_index = (first_func_call + i) mod FUNCTION_NUMBER; pfunc = ftable F ! cur_index in
      and_then (pfunc value) (\<lambda>r. main_func_loop F value first_func_call is (fadd F buffer r)))"

definition main_func :: "'d dfpu \<Rightarrow> 'd \<Rightarrow> nat \<Rightarrow> nat \<Rightarrow> ('d \<times> nat) perf" where
  "main_func F value first_func_call heap =
     (if heap = 0 then Some (Inl Null_Pointer)
      else let heap = heap - 1 in
        and_then (main_func_loop F value first_func_call [0..<FUNCTION_NUMBER] (flit F 0 1)) (\<lambda>res. Some (Inr (res, heap + 1))))"

text \<open>The recursion; the first argument is the number of levels below this one, \<open>depth - curdepth\<close>.\<close>

fun main_func_rec :: "nat \<Rightarrow> 'd dfpu \<Rightarrow> 'd \<Rightarrow> nat \<Rightarrow> nat \<Rightarrow> ('d \<times> nat) perf" where
  "main_func_rec below F value first_func_call heap =
     and_then
       (case below of
          0 \<Rightarrow> Some (Inr (flit F 0 1, heap))
        | Suc below \<Rightarrow>
            and_then (main_func_rec below F value ((first_func_call + 1) mod FUNCTION_NUMBER) heap)
              (\<lambda>(r, heap). Some (Inr (fadd F (flit F 0 1) r, heap))))
       (\<lambda>(buffer, heap). and_then (main_func F value first_func_call heap)
          (\<lambda>(tmp, heap). Some (Inr (fadd F buffer tmp, heap))))"

declare main_func_rec.simps [simp del]

fun calls :: "nat \<Rightarrow> nat \<Rightarrow> 'd dfpu \<Rightarrow> 'd \<Rightarrow> 'd \<Rightarrow> nat \<Rightarrow> ('d \<times> nat) perf" where
  "calls 0 below F value acc heap = Some (Inr (acc, heap))"
| "calls (Suc n) below F value acc heap =
     and_then (main_func_rec below F value 0 heap) (\<lambda>(r, heap). calls n below F value (fadd F acc r) heap)"

text \<open>The program with its arguments; the source sets depth 12, 50 calls and the seed 63728127.\<close>

definition testapp :: "int \<Rightarrow> int \<Rightarrow> int \<Rightarrow> 'd dfpu \<Rightarrow> nat \<Rightarrow> ('d \<times> nat) perf" where
  "testapp depth callsnb seed F heap =
     (if 1 > depth \<or> MAX_DEPTH < depth then Some (Inl (Exit 1))
      else if 1 > callsnb \<or> MAX_CALLS < callsnb then Some (Inl (Exit 1))
      else calls (nat callsnb) (nat (depth - 1)) F (fint F seed) (flit F 0 1) heap)"

definition testapp_main :: "'d dfpu \<Rightarrow> nat \<Rightarrow> ('d \<times> nat) perf" where
  "testapp_main F heap = testapp 12 50 63728127 F heap"

section \<open>The Syracuse sequence of the seed\<close>

text \<open>\<open>n\<close> steps at once, for evaluation.\<close>

fun syracuse_steps :: "nat \<Rightarrow> int \<Rightarrow> (perf_error + int) option" where
  "syracuse_steps 0 val = Some (Inr val)"
| "syracuse_steps (Suc n) val =
     (if val = 1 then None else case syracuse val of Inl e \<Rightarrow> Some (Inl e) | Inr v \<Rightarrow> syracuse_steps n v)"

lemma func4_loop_error:
  "syracuse_steps n val = Some (Inl e) \<Longrightarrow> 0 \<le> i \<Longrightarrow> i + int n \<le> 2147483647 \<Longrightarrow> func4_loop val i = Some (Inl e)"
proof (induction n arbitrary: val i)
  case (Suc n)
  then show ?case
    by (subst func4_loop.simps) (auto simp: int32_def split: if_splits sum.splits)
qed simp

lemma seed_overflows: "func4_loop 63728127 0 = Some (Inl Overflow)"
  by (rule func4_loop_error [of 13]) (code_simp, simp_all)

section \<open>The calls\<close>

lemma and_then_simps [simp]:
  "and_then None f = None" "and_then (Some (Inl e)) f = Some (Inl e)" "and_then (Some (Inr v)) f = f v"
  by (simp_all add: and_then_def)

text \<open>The first three functions always return, whatever the arithmetic does.\<close>

lemma functions_return: "\<exists>a b c. func1 F v = Some (Inr a) \<and> func2 F v = Some (Inr b) \<and> func3 F v = Some (Inr c)"
  by (simp add: func1_def func2_def func3_def Let_def)

lemma calls_in_any_order:
  obtains "(first_func_call + 0) mod 4 = 0" "(first_func_call + 1) mod 4 = 1" "(first_func_call + 2) mod 4 = 2" "(first_func_call + 3) mod 4 = (3 :: nat)"
  | "(first_func_call + 0) mod 4 = 1" "(first_func_call + 1) mod 4 = 2" "(first_func_call + 2) mod 4 = 3" "(first_func_call + 3) mod 4 = (0 :: nat)"
  | "(first_func_call + 0) mod 4 = 2" "(first_func_call + 1) mod 4 = 3" "(first_func_call + 2) mod 4 = 0" "(first_func_call + 3) mod 4 = (1 :: nat)"
  | "(first_func_call + 0) mod 4 = 3" "(first_func_call + 1) mod 4 = 0" "(first_func_call + 2) mod 4 = 1" "(first_func_call + 3) mod 4 = (2 :: nat)"
proof -
  have "first_func_call mod 4 = 0 \<or> first_func_call mod 4 = 1 \<or> first_func_call mod 4 = 2 \<or> first_func_call mod 4 = 3" by presburger
  then show thesis by (elim disjE) (rule that; presburger)+
qed

lemma main_func_loop_run:
  fixes F :: "'d::comm_monoid_add dfpu"
  assumes "fadd F = (+)" "func1 F v = Some (Inr a)" "func2 F v = Some (Inr b)" "func3 F v = Some (Inr c)" "func4 F v = Some (Inr d)"
  shows "main_func_loop F v f [0..<FUNCTION_NUMBER] 0 = Some (Inr (a + b + c + d))"
  by (rule calls_in_any_order [of f]) (simp_all add: FUNCTION_NUMBER_def upt_0_4 ftable_def assms ac_simps)

lemma main_func_loop_error:
  assumes "func1 F v = Some (Inr a)" "func2 F v = Some (Inr b)" "func3 F v = Some (Inr c)" "func4 F v = Some (Inl e)"
  shows "main_func_loop F v f [0..<FUNCTION_NUMBER] x = Some (Inl e)"
  by (rule calls_in_any_order [of f]) (simp_all add: FUNCTION_NUMBER_def upt_0_4 ftable_def assms)

lemma main_func_rec_run:
  fixes F :: "'d::comm_monoid_add dfpu"
  assumes "fadd F = (+)" "flit F 0 1 = 0" "0 < heap" "\<And>f. main_func_loop F v f [0..<FUNCTION_NUMBER] 0 = Some (Inr t)"
  shows "main_func_rec below F v f heap = Some (Inr (((+) t ^^ Suc below) 0, heap))"
proof (induction below arbitrary: f)
  case 0
  show ?case using assms by (subst main_func_rec.simps) (simp add: main_func_def Let_def)
next
  case (Suc below)
  define y where "y = ((+) t ^^ Suc below) 0"
  have "main_func_rec (Suc below) F v f heap = Some (Inr (y + t, heap))"
    using assms Suc [folded y_def] by (subst main_func_rec.simps) (simp add: main_func_def Let_def)
  then show ?case by (simp add: y_def add.commute [of _ t])
qed

lemma main_func_rec_error:
  assumes "0 < heap" "\<And>f x. main_func_loop F v f [0..<FUNCTION_NUMBER] x = Some (Inl e)"
  shows "main_func_rec below F v f heap = Some (Inl e)"
proof (induction below arbitrary: f)
  case 0
  show ?case using assms by (subst main_func_rec.simps) (simp add: main_func_def Let_def)
next
  case (Suc below)
  show ?case by (subst main_func_rec.simps) (simp add: Suc)
qed

lemma funpow_add_sum: "((+) t ^^ n) x = ((+) t ^^ n) 0 + (x :: 'd::comm_monoid_add)"
  by (induction n) (simp_all add: add.assoc)

lemma calls_run:
  fixes F :: "'d::comm_monoid_add dfpu"
  assumes "fadd F = (+)" "\<And>f. main_func_rec below F v f heap = Some (Inr (((+) t ^^ m) 0, heap))"
  shows "calls n below F v x heap = Some (Inr (((+) t ^^ (n * m)) x, heap))"
proof (induction n arbitrary: x)
  case (Suc n)
  have "((+) t ^^ (n * m)) (x + ((+) t ^^ m) 0) = ((+) t ^^ (m + n * m)) x"
    using funpow_add_sum [of m t x] by (metis add.commute comp_apply funpow_add)
  with Suc assms show ?case by simp
qed simp

text \<open>C32. The performance baseline, over arithmetic whose addition is exact and for every seed that the conversion
  between \<open>int\<close> and \<open>double\<close> keeps: when the Syracuse loop of the seed returns, the program adds the four function
  results once per level and call, in whatever order the indirect calls run, and gives back its heap; when the loop
  overflows, so does the program. The seed of the source overflows a 32-bit \<open>int\<close>.\<close>

theorem testapp_result:
  fixes F :: "'d::comm_monoid_add dfpu"
  assumes "fadd F = (+)" "flit F 0 1 = 0" "ftoint F (fint F seed) = Some seed" "0 < heap"
    "1 \<le> depth" "depth \<le> 100" "1 \<le> callsnb" "callsnb \<le> 10000"
  shows "\<exists>a b c. func1 F (fint F seed) = Some (Inr a) \<and> func2 F (fint F seed) = Some (Inr b) \<and> func3 F (fint F seed) = Some (Inr c) \<and>
    (\<forall>k. func4_loop seed 0 = Some (Inr k) \<longrightarrow>
      testapp depth callsnb seed F heap = Some (Inr (((+) (a + b + c + fint F k) ^^ (nat callsnb * nat depth)) 0, heap))) \<and>
    (func4_loop seed 0 = Some (Inl Overflow) \<longrightarrow> testapp depth callsnb seed F heap = Some (Inl Overflow)) \<and>
    func4_loop 63728127 0 = Some (Inl Overflow)"
proof -
  let ?v = "fint F seed"
  obtain a b c where abc: "func1 F ?v = Some (Inr a)" "func2 F ?v = Some (Inr b)" "func3 F ?v = Some (Inr c)"
    using functions_return [of F ?v] by blast
  have t: "testapp depth callsnb seed F heap = calls (nat callsnb) (nat (depth - 1)) F ?v 0 heap"
    using assms by (simp add: testapp_def MAX_DEPTH_def MAX_CALLS_def)
  have n: "Suc (nat (depth - 1)) = nat depth" "0 < nat callsnb" using assms by auto
  have "testapp depth callsnb seed F heap = Some (Inr (((+) (a + b + c + fint F k) ^^ (nat callsnb * nat depth)) 0, heap))"
    if "func4_loop seed 0 = Some (Inr k)" for k
  proof -
    have "func4 F ?v = Some (Inr (fint F k))" using that assms(3) by (simp add: func4_def)
    from main_func_rec_run [OF assms(1,2,4) main_func_loop_run [OF assms(1) abc this], of "nat (depth - 1)"]
    show ?thesis unfolding t n(1) by (intro calls_run assms(1))
  qed
  moreover have "testapp depth callsnb seed F heap = Some (Inl Overflow)" if "func4_loop seed 0 = Some (Inl Overflow)"
  proof -
    have "func4 F ?v = Some (Inl Overflow)" using that assms(3) by (simp add: func4_def)
    from main_func_rec_error [OF assms(4) main_func_loop_error [OF abc this]]
    show ?thesis unfolding t using n(2) by (cases "nat callsnb") auto
  qed
  ultimately show ?thesis using abc seed_overflows by blast
qed

text \<open>Whole numbers as doubles, with the seed of the source and with the seed 1.\<close>

definition whole :: "int dfpu" where
  "whole = \<lparr>fadd = (+), fsub = (-), fmul = (*), fdiv = (\<lambda>a b. a), flt = (<), flit = (\<lambda>n k. if n = 0 then 0 else n div 10 ^ k),
     fint = (\<lambda>i. i), ftoint = Some\<rparr>"

theorem testapp_result_witness:
  "testapp_main whole 1 = Some (Inl Overflow) \<and> (\<exists>r. testapp 2 3 1 whole 1 = Some (Inr (r, 1)))"
proof -
  have F: "fadd whole = (+)" "flit whole 0 1 = 0" "ftoint whole (fint whole i) = Some i" for i
    by (simp_all add: whole_def)
  have "testapp 12 50 63728127 whole 1 = Some (Inl Overflow)"
    using testapp_result [OF F(1,2) F(3) [of 63728127], of 1 12 50] seed_overflows by auto
  moreover have "func4_loop 1 0 = Some (Inr 0)" by (subst func4_loop.simps) simp
  then have "\<exists>r. testapp 2 3 1 whole 1 = Some (Inr (r, 1))"
    using testapp_result [OF F(1,2) F(3) [of 1], of 1 2 3] by auto
  ultimately show ?thesis by (simp add: testapp_main_def)
qed

end
