(* ===== verification/Ps7_Config.thy ===== *)
theory Ps7_Config
  imports Prelude App_Util
begin

text \<open>
  The initialisation of the processing system of the FPGA board,
  \<open>fpga/xilinx/xlnx_processing_system7/ip/ps7_init.c\<close>: the interpreter \<open>ps7_config\<close> of
  tables of register commands, with the macros of \<open>ps7_init.h\<close> that emit them. A word is a
  32-bit \<open>unsigned long\<close>; the registers are behind a port whose reads may change its
  state. Reading behind the end of a table gives \<open>None\<close>, and so does a delay that never ends.
\<close>

unbundle bit_operations_syntax

section \<open>Command tables\<close>

definition OPCODE_EXIT :: u32 where "OPCODE_EXIT = 0"
definition OPCODE_CLEAR :: u32 where "OPCODE_CLEAR = 1"
definition OPCODE_WRITE :: u32 where "OPCODE_WRITE = 2"
definition OPCODE_MASKWRITE :: u32 where "OPCODE_MASKWRITE = 3"
definition OPCODE_MASKPOLL :: u32 where "OPCODE_MASKPOLL = 4"
definition OPCODE_MASKDELAY :: u32 where "OPCODE_MASKDELAY = 5"

definition EMIT_EXIT :: "u32 list" where
  "EMIT_EXIT = [push_bit 4 OPCODE_EXIT OR 0]"
definition EMIT_CLEAR :: "u32 \<Rightarrow> u32 list" where
  "EMIT_CLEAR addr = [push_bit 4 OPCODE_CLEAR OR 1, addr]"
definition EMIT_WRITE :: "u32 \<Rightarrow> u32 \<Rightarrow> u32 list" where
  "EMIT_WRITE addr val = [push_bit 4 OPCODE_WRITE OR 2, addr, val]"
definition EMIT_MASKWRITE :: "u32 \<Rightarrow> u32 \<Rightarrow> u32 \<Rightarrow> u32 list" where
  "EMIT_MASKWRITE addr msk val = [push_bit 4 OPCODE_MASKWRITE OR 3, addr, msk, val]"
definition EMIT_MASKPOLL :: "u32 \<Rightarrow> u32 \<Rightarrow> u32 list" where
  "EMIT_MASKPOLL addr msk = [push_bit 4 OPCODE_MASKPOLL OR 2, addr, msk]"
definition EMIT_MASKDELAY :: "u32 \<Rightarrow> u32 \<Rightarrow> u32 list" where
  "EMIT_MASKDELAY addr msk = [push_bit 4 OPCODE_MASKDELAY OR 2, addr, msk]"

definition PS7_INIT_SUCCESS :: int where "PS7_INIT_SUCCESS = 0"
definition PS7_INIT_CORRUPT :: int where "PS7_INIT_CORRUPT = 1"
definition PS7_INIT_TIMEOUT :: int where "PS7_INIT_TIMEOUT = 2"
definition PS7_POLL_FAILED_DDR_INIT :: int where "PS7_POLL_FAILED_DDR_INIT = 3"
definition PS7_POLL_FAILED_DMA :: int where "PS7_POLL_FAILED_DMA = 4"
definition PS7_POLL_FAILED_PLL :: int where "PS7_POLL_FAILED_PLL = 5"

definition APU_FREQ :: u32 where "APU_FREQ = 666666687"
definition SCU_GLOBAL_TIMER_COUNT_L32 :: u32 where "SCU_GLOBAL_TIMER_COUNT_L32 = 0xF8F00200"
definition SCU_GLOBAL_TIMER_COUNT_U32 :: u32 where "SCU_GLOBAL_TIMER_COUNT_U32 = 0xF8F00204"
definition SCU_GLOBAL_TIMER_CONTROL :: u32 where "SCU_GLOBAL_TIMER_CONTROL = 0xF8F00208"
definition PS7_MASK_POLL_TIME :: nat where "PS7_MASK_POLL_TIME = 100000000"

definition getPS7MessageInfo :: "u32 \<Rightarrow> string" where
  "getPS7MessageInfo key =
     (if key = of_int PS7_INIT_SUCCESS then ''PS7 initialization successful''
      else if key = of_int PS7_INIT_CORRUPT then ''PS7 init Data Corrupted''
      else if key = of_int PS7_INIT_TIMEOUT then ''PS7 init mask poll timeout''
      else if key = of_int PS7_POLL_FAILED_DDR_INIT then ''Mask Poll failed for DDR Init''
      else if key = of_int PS7_POLL_FAILED_DMA then ''Mask Poll failed for PLL Init''
      else if key = of_int PS7_POLL_FAILED_PLL then ''Mask Poll failed for DMA done bit''
      else ''Undefined error status'')"

section \<open>Register accesses\<close>

record 's port =
  ld :: "u32 \<Rightarrow> 's \<Rightarrow> u32 \<times> 's"
  st :: "u32 \<Rightarrow> u32 \<Rightarrow> 's \<Rightarrow> 's"

definition ps7GetSiliconVersion :: "'s port \<Rightarrow> 's \<Rightarrow> u32 \<times> 's" where
  "ps7GetSiliconVersion b s = (let (v, s) = ld b 0xF8007080 s in (drop_bit 28 (v AND 0xF0000000), s))"

definition mask_write :: "'s port \<Rightarrow> u32 \<Rightarrow> u32 \<Rightarrow> u32 \<Rightarrow> 's \<Rightarrow> 's" where
  "mask_write b addr msk val s =
     (let (v, s) = ld b addr s in st b addr ((val AND msk) OR (v AND NOT msk)) s)"

definition mask_read :: "'s port \<Rightarrow> u32 \<Rightarrow> u32 \<Rightarrow> 's \<Rightarrow> u32 \<times> 's" where
  "mask_read b addr msk s = (let (v, s) = ld b addr s in (v AND msk, s))"

text \<open>The polling loop; the first argument is the number of failed reads that are still allowed.\<close>

fun poll_loop :: "nat \<Rightarrow> 's port \<Rightarrow> u32 \<Rightarrow> u32 \<Rightarrow> 's \<Rightarrow> bool \<times> 's" where
  "poll_loop n b addr msk s =
     (let (v, s) = ld b addr s in
      if v AND msk \<noteq> 0 then (True, s)
      else case n of 0 \<Rightarrow> (False, s) | Suc n \<Rightarrow> poll_loop n b addr msk s)"

declare poll_loop.simps [simp del]

definition mask_poll :: "'s port \<Rightarrow> u32 \<Rightarrow> u32 \<Rightarrow> 's \<Rightarrow> int \<times> 's" where
  "mask_poll b addr msk s =
     (let (ok, s) = poll_loop PS7_MASK_POLL_TIME b addr msk s in (if ok then 1 else -1, s))"

text \<open>The arithmetic is unsigned: the product wraps.\<close>

definition get_number_of_cycles_for_delay :: "u32 \<Rightarrow> u32" where
  "get_number_of_cycles_for_delay delay = APU_FREQ * delay div (2 * 1000)"

definition perf_disable_clock :: "'s port \<Rightarrow> 's \<Rightarrow> 's" where
  "perf_disable_clock b s = st b SCU_GLOBAL_TIMER_CONTROL 0 s"

definition perf_reset_clock :: "'s port \<Rightarrow> 's \<Rightarrow> 's" where
  "perf_reset_clock b s =
     (let s = perf_disable_clock b s; s = st b SCU_GLOBAL_TIMER_COUNT_L32 0 s
      in st b SCU_GLOBAL_TIMER_COUNT_U32 0 s)"

definition perf_start_clock :: "'s port \<Rightarrow> 's \<Rightarrow> 's" where
  "perf_start_clock b s = st b SCU_GLOBAL_TIMER_CONTROL (push_bit 0 1 OR push_bit 3 1 OR push_bit 8 0) s"

definition perf_reset_and_start_timer :: "'s port \<Rightarrow> 's \<Rightarrow> 's" where
  "perf_reset_and_start_timer b s = perf_start_clock b (perf_reset_clock b s)"

partial_function (option) delay_loop :: "'s port \<Rightarrow> u32 \<Rightarrow> u32 \<Rightarrow> 's \<Rightarrow> 's option" where
  "delay_loop b addr delay s =
     (case ld b addr s of (v, s) \<Rightarrow> if v < delay then delay_loop b addr delay s else Some s)"

definition mask_delay :: "'s port \<Rightarrow> u32 \<Rightarrow> u32 \<Rightarrow> 's \<Rightarrow> 's option" where
  "mask_delay b addr msk s =
     (let delay = get_number_of_cycles_for_delay msk; s = perf_reset_and_start_timer b s
      in delay_loop b addr delay s)"

section \<open>The interpreter\<close>

text \<open>One command: the new value of \<open>finish\<close>, negative while the loop goes on, and the state.\<close>

definition ps7_exec :: "'s port \<Rightarrow> u32 \<Rightarrow> u32 list \<Rightarrow> 's \<Rightarrow> (int \<times> 's) option" where
  "ps7_exec b opcode args s =
     (if opcode = OPCODE_EXIT then Some (PS7_INIT_SUCCESS, s)
      else if opcode = OPCODE_CLEAR then do { addr \<leftarrow> aget args 0; Some (-1, st b addr 0 s) }
      else if opcode = OPCODE_WRITE then do { addr \<leftarrow> aget args 0; val \<leftarrow> aget args 1; Some (-1, st b addr val s) }
      else if opcode = OPCODE_MASKWRITE
      then do { addr \<leftarrow> aget args 0; msk \<leftarrow> aget args 1; val \<leftarrow> aget args 2;
                let (v, s) = ld b addr s;
                Some (-1, st b addr ((val AND msk) OR (v AND NOT msk)) s) }
      else if opcode = OPCODE_MASKPOLL
      then do { addr \<leftarrow> aget args 0; msk \<leftarrow> aget args 1;
                let (ok, s) = poll_loop PS7_MASK_POLL_TIME b addr msk s;
                Some (if ok then -1 else PS7_INIT_TIMEOUT, s) }
      else if opcode = OPCODE_MASKDELAY
      then do { addr \<leftarrow> aget args 0; msk \<leftarrow> aget args 1; s \<leftarrow> mask_delay b addr msk s; Some (-1, s) }
      else Some (PS7_INIT_CORRUPT, s))"

fun fetch_args :: "u32 list \<Rightarrow> nat \<Rightarrow> nat list \<Rightarrow> u32 list \<Rightarrow> u32 list option" where
  "fetch_args tbl ptr [] args = Some args"
| "fetch_args tbl ptr (j # js) args =
     do { v \<leftarrow> aget tbl (ptr + (j + 1)); args \<leftarrow> aset args j v; fetch_args tbl ptr js args }"

text \<open>The array \<open>args\<close> keeps its content from one command to the next.\<close>

partial_function (option) ps7_loop :: "'s port \<Rightarrow> u32 list \<Rightarrow> nat \<Rightarrow> u32 list \<Rightarrow> 's \<Rightarrow> (int \<times> 's) option" where
  "ps7_loop b tbl ptr args s =
     do { w \<leftarrow> aget tbl ptr;
          let numargs = unat (w AND 0xF);
          let opcode = drop_bit 4 w;
          args \<leftarrow> fetch_args tbl ptr [0..<numargs] args;
          (finish, s) \<leftarrow> ps7_exec b opcode args s;
          if finish < 0 then ps7_loop b tbl (ptr + (numargs + 1)) args s else Some (finish, s) }"

text \<open>\<open>u\<close> is the unknown content of the local array.\<close>

definition ps7_config :: "u32 \<Rightarrow> 's port \<Rightarrow> u32 list \<Rightarrow> 's \<Rightarrow> (int \<times> 's) option" where
  "ps7_config u b ps7_config_init s = ps7_loop b ps7_config_init 0 (replicate 16 u) s"

section \<open>Commands\<close>

text \<open>The abstract view: a list of commands, performed one after the other until a poll fails.\<close>

datatype ps7_cmd = Clear u32 | Write u32 u32 | MaskWrite u32 u32 u32 | MaskPoll u32 u32 | MaskDelay u32 u32

fun emit :: "ps7_cmd \<Rightarrow> u32 list" where
  "emit (Clear a) = EMIT_CLEAR a"
| "emit (Write a v) = EMIT_WRITE a v"
| "emit (MaskWrite a m v) = EMIT_MASKWRITE a m v"
| "emit (MaskPoll a m) = EMIT_MASKPOLL a m"
| "emit (MaskDelay a m) = EMIT_MASKDELAY a m"

fun perform :: "'s port \<Rightarrow> ps7_cmd \<Rightarrow> 's \<Rightarrow> (bool \<times> 's) option" where
  "perform b (Clear a) s = Some (True, st b a 0 s)"
| "perform b (Write a v) s = Some (True, st b a v s)"
| "perform b (MaskWrite a m v) s = Some (True, mask_write b a m v s)"
| "perform b (MaskPoll a m) s = Some (poll_loop PS7_MASK_POLL_TIME b a m s)"
| "perform b (MaskDelay a m) s = map_option (Pair True) (mask_delay b a m s)"

fun perform_all :: "'s port \<Rightarrow> ps7_cmd list \<Rightarrow> 's \<Rightarrow> (int \<times> 's) option" where
  "perform_all b [] s = Some (PS7_INIT_SUCCESS, s)"
| "perform_all b (c # cs) s =
     do { (ok, s) \<leftarrow> perform b c s; if ok then perform_all b cs s else Some (PS7_INIT_TIMEOUT, s) }"

lemmas opcode_defs = OPCODE_EXIT_def OPCODE_CLEAR_def OPCODE_WRITE_def OPCODE_MASKWRITE_def OPCODE_MASKPOLL_def OPCODE_MASKDELAY_def
lemmas emit_defs = EMIT_EXIT_def EMIT_CLEAR_def EMIT_WRITE_def EMIT_MASKWRITE_def EMIT_MASKPOLL_def EMIT_MASKDELAY_def

lemma emit_words:
  "EMIT_EXIT = [0]" "EMIT_CLEAR a = [0x11, a]" "EMIT_WRITE a v = [0x22, a, v]" "EMIT_MASKWRITE a m v = [0x33, a, m, v]"
  "EMIT_MASKPOLL a m = [0x42, a, m]" "EMIT_MASKDELAY a m = [0x52, a, m]"
  by (simp_all add: emit_defs opcode_defs)

text \<open>The parts of an encoded command.\<close>

fun cmd_opcode :: "ps7_cmd \<Rightarrow> u32" where
  "cmd_opcode (Clear a) = OPCODE_CLEAR"
| "cmd_opcode (Write a v) = OPCODE_WRITE"
| "cmd_opcode (MaskWrite a m v) = OPCODE_MASKWRITE"
| "cmd_opcode (MaskPoll a m) = OPCODE_MASKPOLL"
| "cmd_opcode (MaskDelay a m) = OPCODE_MASKDELAY"

fun cmd_args :: "ps7_cmd \<Rightarrow> u32 list" where
  "cmd_args (Clear a) = [a]"
| "cmd_args (Write a v) = [a, v]"
| "cmd_args (MaskWrite a m v) = [a, m, v]"
| "cmd_args (MaskPoll a m) = [a, m]"
| "cmd_args (MaskDelay a m) = [a, m]"

lemma emit_parts:
  "\<exists>w. emit c = w # cmd_args c \<and> unat (w AND 0xF) = length (cmd_args c) \<and> drop_bit 4 w = cmd_opcode c"
  by (cases c) (simp_all add: emit_words opcode_defs drop_bit_eq_div)

lemma fetch_args_run:
  assumes "\<And>i. i < length as \<Longrightarrow> aget tbl (ptr + (i + 1)) = Some (as ! i)" "length as \<le> length args"
  shows "fetch_args tbl ptr [0..<length as] args = Some (as @ drop (length as) args)"
proof -
  have "fetch_args tbl ptr [k..<length as] xs = Some (take k xs @ drop k as @ drop (length as) xs)"
    if "k \<le> length as" "length xs = length args" for k xs
    using that
  proof (induction "length as - k" arbitrary: k xs)
    case (Suc d)
    then have k: "k < length as" "[k..<length as] = k # [Suc k..<length as]" by (auto simp: upt_conv_Cons)
    have "fetch_args tbl ptr [Suc k..<length as] (xs[k := as ! k]) =
        Some (take (Suc k) (xs[k := as ! k]) @ drop (Suc k) as @ drop (length as) (xs[k := as ! k]))"
      using Suc k by (intro Suc.hyps(1)) auto
    moreover have "take (Suc k) (xs[k := as ! k]) = take k xs @ [as ! k]"
      using k assms(2) Suc.prems by (simp add: take_Suc_conv_app_nth)
    ultimately show ?case using k assms Suc.prems by (simp add: k(2) Cons_nth_drop_Suc)
  qed simp
  from this [of 0 args] show ?thesis by simp
qed

lemma ps7_exec_perform:
  "ps7_exec b (cmd_opcode c) (cmd_args c @ xs) s =
    do { (ok, s) \<leftarrow> perform b c s; Some (if ok then -1 else PS7_INIT_TIMEOUT, s) }"
proof (cases c)
  case (MaskDelay a m)
  then show ?thesis by (cases "mask_delay b a m s") (simp_all add: ps7_exec_def opcode_defs)
qed (simp_all add: ps7_exec_def opcode_defs mask_write_def split: prod.splits)

lemma ps7_loop_cmd:
  assumes "tbl = pre @ emit c @ rest" "length args = 16"
  shows "\<exists>args'. length args' = 16 \<and> ps7_loop b tbl (length pre) args s =
    do { (ok, s) \<leftarrow> perform b c s;
         if ok then ps7_loop b tbl (length (pre @ emit c)) args' s else Some (PS7_INIT_TIMEOUT, s) }"
proof -
  obtain w where w: "emit c = w # cmd_args c" "unat (w AND 0xF) = length (cmd_args c)" "drop_bit 4 w = cmd_opcode c"
    using emit_parts by blast
  have "length (cmd_args c) \<le> 16" by (cases c) auto
  then have "fetch_args tbl (length pre) [0..<length (cmd_args c)] args = Some (cmd_args c @ drop (length (cmd_args c)) args)"
    using assms by (intro fetch_args_run) (auto simp: w(1) nth_append)
  moreover have "aget tbl (length pre) = Some w" by (simp add: assms(1) w(1))
  ultimately have "ps7_loop b tbl (length pre) args s =
    do { (ok, s) \<leftarrow> perform b c s;
         if ok then ps7_loop b tbl (length (pre @ emit c)) (cmd_args c @ drop (length (cmd_args c)) args) s else Some (PS7_INIT_TIMEOUT, s) }"
    by (subst ps7_loop.simps) (cases "perform b c s"; simp add: w ps7_exec_perform PS7_INIT_TIMEOUT_def Let_def split: prod.splits)
  moreover have "length (cmd_args c @ drop (length (cmd_args c)) args) = 16"
    using assms(2) \<open>length (cmd_args c) \<le> 16\<close> by simp
  ultimately show ?thesis by blast
qed

lemma ps7_loop_program:
  assumes "tbl = pre @ concat (map emit cs) @ EMIT_EXIT @ rest" "length args = 16"
  shows "ps7_loop b tbl (length pre) args s = perform_all b cs s"
  using assms
proof (induction cs arbitrary: pre args s)
  case Nil
  then have "aget tbl (length pre) = Some 0" by (simp add: emit_words)
  then show ?case by (subst ps7_loop.simps) (simp add: ps7_exec_def opcode_defs PS7_INIT_SUCCESS_def)
next
  case (Cons c cs)
  obtain args' where "length args' = 16" "ps7_loop b tbl (length pre) args s =
    do { (ok, s) \<leftarrow> perform b c s;
         if ok then ps7_loop b tbl (length (pre @ emit c)) args' s else Some (PS7_INIT_TIMEOUT, s) }"
    using ps7_loop_cmd [of tbl pre c "concat (map emit cs) @ EMIT_EXIT @ rest" args b s] Cons.prems by auto
  with Cons.IH [of "pre @ emit c" args'] Cons.prems(1) show ?case
    by (cases "perform b c s") (auto split: prod.splits)
qed

text \<open>C18. The interpreter of command tables, on every table that the macros can emit, with anything
  behind its end, and for every behaviour of the registers: it performs the commands in order,
  with their arguments decoded, and returns success; it stops with the timeout code at the first
  poll that fails, and returns if all its delays end.\<close>

theorem ps7_config_performs:
  "ps7_config u b (concat (map emit cs) @ EMIT_EXIT @ rest) s = perform_all b cs s"
  unfolding ps7_config_def using ps7_loop_program [of _ "[]" cs rest "replicate 16 u" b s] by simp

section \<open>Decoding a table\<close>

fun disasm :: "u32 list \<Rightarrow> ps7_cmd list option" where
  "disasm [w] = (if w = 0 then Some [] else None)"
| "disasm (w # a # ws) =
     (if w = 0x11 then map_option ((#) (Clear a)) (disasm ws)
      else case ws of
        v # ws \<Rightarrow>
          if w = 0x22 then map_option ((#) (Write a v)) (disasm ws)
          else if w = 0x42 then map_option ((#) (MaskPoll a v)) (disasm ws)
          else if w = 0x52 then map_option ((#) (MaskDelay a v)) (disasm ws)
          else (case ws of
            x # ws \<Rightarrow> if w = 0x33 then map_option ((#) (MaskWrite a v x)) (disasm ws) else None
          | [] \<Rightarrow> None)
      | [] \<Rightarrow> None)"
| "disasm [] = None"

lemma disasm_emit: "disasm ws = Some cs \<Longrightarrow> ws = concat (map emit cs) @ EMIT_EXIT"
proof (induction ws arbitrary: cs rule: disasm.induct)
  case (1 w)
  then show ?case by (simp add: emit_words split: if_splits)
next
  case (2 w a ws)
  then show ?case by (auto simp: emit_words split: if_splits list.splits)
qed simp

lemma ps7_config_disasm: "disasm tbl = Some cs \<Longrightarrow> ps7_config u b tbl s = perform_all b cs s"
  using disasm_emit [of tbl cs] ps7_loop_program [of tbl "[]" cs "[]" "replicate 16 u" b s] by (simp add: ps7_config_def)

text \<open>Without delays the interpreter always returns.\<close>

fun is_delay :: "ps7_cmd \<Rightarrow> bool" where
  "is_delay (MaskDelay a m) = True"
| "is_delay _ = False"

lemma perform_all_returns:
  assumes "\<forall>c \<in> set cs. \<not> is_delay c"
  shows "\<exists>r s'. perform_all b cs s = Some (r, s') \<and> (r = PS7_INIT_SUCCESS \<or> r = PS7_INIT_TIMEOUT)"
  using assms
proof (induction cs arbitrary: s)
  case (Cons c cs)
  obtain ok s1 where "perform b c s = Some (ok, s1)" using Cons.prems by (cases c) (auto intro: prod.exhaust)
  with Cons show ?case by auto
qed simp

end
