(* ===== verification/Ps7_Tables.thy ===== *)
theory Ps7_Tables
  imports Ps7_Config
begin

text \<open>
  The command tables of \<open>ps7_init.c\<close> for the three silicon versions and the functions that run
  them: \<open>ps7_init\<close>, \<open>ps7_post_config\<close> and \<open>ps7_debug\<close>. The theorem says what the
  tables do to the storage bits of the registers, and that they unlock the system-level control registers
  before every write to one of them and lock them at the end.
\<close>

unbundle bit_operations_syntax

section \<open>The tables\<close>

definition ps7_pll_init_data_3_0 :: "u32 list" where
  "ps7_pll_init_data_3_0 = concat [
     EMIT_WRITE 0xF8000008 0x0000DF0D,
     EMIT_MASKWRITE 0xF8000110 0x003FFFF0 0x000FA220,
     EMIT_MASKWRITE 0xF8000100 0x0007F000 0x00028000,
     EMIT_MASKWRITE 0xF8000100 0x00000010 0x00000010,
     EMIT_MASKWRITE 0xF8000100 0x00000001 0x00000001,
     EMIT_MASKWRITE 0xF8000100 0x00000001 0x00000000,
     EMIT_MASKPOLL 0xF800010C 0x00000001,
     EMIT_MASKWRITE 0xF8000100 0x00000010 0x00000000,
     EMIT_MASKWRITE 0xF8000120 0x1F003F30 0x1F000200,
     EMIT_MASKWRITE 0xF8000114 0x003FFFF0 0x0012C220,
     EMIT_MASKWRITE 0xF8000104 0x0007F000 0x00020000,
     EMIT_MASKWRITE 0xF8000104 0x00000010 0x00000010,
     EMIT_MASKWRITE 0xF8000104 0x00000001 0x00000001,
     EMIT_MASKWRITE 0xF8000104 0x00000001 0x00000000,
     EMIT_MASKPOLL 0xF800010C 0x00000002,
     EMIT_MASKWRITE 0xF8000104 0x00000010 0x00000000,
     EMIT_MASKWRITE 0xF8000124 0xFFF00003 0x0C200003,
     EMIT_MASKWRITE 0xF8000118 0x003FFFF0 0x000FA240,
     EMIT_MASKWRITE 0xF8000108 0x0007F000 0x00030000,
     EMIT_MASKWRITE 0xF8000108 0x00000010 0x00000010,
     EMIT_MASKWRITE 0xF8000108 0x00000001 0x00000001,
     EMIT_MASKWRITE 0xF8000108 0x00000001 0x00000000,
     EMIT_MASKPOLL 0xF800010C 0x00000004,
     EMIT_MASKWRITE 0xF8000108 0x00000010 0x00000000,
     EMIT_WRITE 0xF8000004 0x0000767B,
     EMIT_EXIT]"

definition ps7_clock_init_data_3_0 :: "u32 list" where
  "ps7_clock_init_data_3_0 = concat [
     EMIT_WRITE 0xF8000008 0x0000DF0D,
     EMIT_MASKWRITE 0xF8000128 0x03F03F01 0x00700F01,
     EMIT_MASKWRITE 0xF8000168 0x00003F31 0x00000801,
     EMIT_MASKWRITE 0xF8000170 0x03F03F30 0x00400800,
     EMIT_MASKWRITE 0xF80001C4 0x00000001 0x00000001,
     EMIT_MASKWRITE 0xF800012C 0x01FFCCCD 0x014C000D,
     EMIT_WRITE 0xF8000004 0x0000767B,
     EMIT_EXIT]"

definition ps7_ddr_init_data_3_0 :: "u32 list" where
  "ps7_ddr_init_data_3_0 = concat [
     EMIT_MASKWRITE 0xF8006000 0x0001FFFF 0x00000080,
     EMIT_MASKWRITE 0xF8006004 0x0007FFFF 0x00001082,
     EMIT_MASKWRITE 0xF8006008 0x03FFFFFF 0x03C0780F,
     EMIT_MASKWRITE 0xF800600C 0x03FFFFFF 0x02001001,
     EMIT_MASKWRITE 0xF8006010 0x03FFFFFF 0x00014001,
     EMIT_MASKWRITE 0xF8006014 0x001FFFFF 0x0004285B,
     EMIT_MASKWRITE 0xF8006018 0xF7FFFFFF 0x44E458D3,
     EMIT_MASKWRITE 0xF800601C 0xFFFFFFFF 0x7282BCE5,
     EMIT_MASKWRITE 0xF8006020 0x7FDFFFFC 0x270872D0,
     EMIT_MASKWRITE 0xF8006024 0x0FFFFFC3 0x00000000,
     EMIT_MASKWRITE 0xF8006028 0x00003FFF 0x00002007,
     EMIT_MASKWRITE 0xF800602C 0xFFFFFFFF 0x00000008,
     EMIT_MASKWRITE 0xF8006030 0xFFFFFFFF 0x00040B30,
     EMIT_MASKWRITE 0xF8006034 0x13FF3FFF 0x000116D4,
     EMIT_MASKWRITE 0xF8006038 0x00000003 0x00000000,
     EMIT_MASKWRITE 0xF800603C 0x000FFFFF 0x00000777,
     EMIT_MASKWRITE 0xF8006040 0xFFFFFFFF 0xFFF00000,
     EMIT_MASKWRITE 0xF8006044 0x0FFFFFFF 0x0F666666,
     EMIT_MASKWRITE 0xF8006048 0x0003F03F 0x0003C008,
     EMIT_MASKWRITE 0xF8006050 0xFF0F8FFF 0x77010800,
     EMIT_MASKWRITE 0xF8006058 0x00010000 0x00000000,
     EMIT_MASKWRITE 0xF800605C 0x0000FFFF 0x00005003,
     EMIT_MASKWRITE 0xF8006060 0x000017FF 0x0000003E,
     EMIT_MASKWRITE 0xF8006064 0x00021FE0 0x00020000,
     EMIT_MASKWRITE 0xF8006068 0x03FFFFFF 0x00284141,
     EMIT_MASKWRITE 0xF800606C 0x0000FFFF 0x00001610,
     EMIT_MASKWRITE 0xF8006078 0x03FFFFFF 0x00466111,
     EMIT_MASKWRITE 0xF800607C 0x000FFFFF 0x00032222,
     EMIT_MASKWRITE 0xF80060A4 0xFFFFFFFF 0x10200802,
     EMIT_MASKWRITE 0xF80060A8 0x0FFFFFFF 0x0690CB73,
     EMIT_MASKWRITE 0xF80060AC 0x000001FF 0x000001FE,
     EMIT_MASKWRITE 0xF80060B0 0x1FFFFFFF 0x1CFFFFFF,
     EMIT_MASKWRITE 0xF80060B4 0x00000200 0x00000200,
     EMIT_MASKWRITE 0xF80060B8 0x01FFFFFF 0x00200066,
     EMIT_MASKWRITE 0xF80060C4 0x00000003 0x00000000,
     EMIT_MASKWRITE 0xF80060C8 0x000000FF 0x00000000,
     EMIT_MASKWRITE 0xF80060DC 0x00000001 0x00000000,
     EMIT_MASKWRITE 0xF80060F0 0x0000FFFF 0x00000000,
     EMIT_MASKWRITE 0xF80060F4 0x0000000F 0x00000008,
     EMIT_MASKWRITE 0xF8006114 0x000000FF 0x00000000,
     EMIT_MASKWRITE 0xF8006118 0x7FFFFFCF 0x40000001,
     EMIT_MASKWRITE 0xF800611C 0x7FFFFFCF 0x40000001,
     EMIT_MASKWRITE 0xF8006120 0x7FFFFFCF 0x40000001,
     EMIT_MASKWRITE 0xF8006124 0x7FFFFFCF 0x40000001,
     EMIT_MASKWRITE 0xF800612C 0x000FFFFF 0x00027000,
     EMIT_MASKWRITE 0xF8006130 0x000FFFFF 0x00027000,
     EMIT_MASKWRITE 0xF8006134 0x000FFFFF 0x00026C00,
     EMIT_MASKWRITE 0xF8006138 0x000FFFFF 0x00028800,
     EMIT_MASKWRITE 0xF8006140 0x000FFFFF 0x00000035,
     EMIT_MASKWRITE 0xF8006144 0x000FFFFF 0x00000035,
     EMIT_MASKWRITE 0xF8006148 0x000FFFFF 0x00000035,
     EMIT_MASKWRITE 0xF800614C 0x000FFFFF 0x00000035,
     EMIT_MASKWRITE 0xF8006154 0x000FFFFF 0x0000007A,
     EMIT_MASKWRITE 0xF8006158 0x000FFFFF 0x0000007A,
     EMIT_MASKWRITE 0xF800615C 0x000FFFFF 0x0000007C,
     EMIT_MASKWRITE 0xF8006160 0x000FFFFF 0x00000073,
     EMIT_MASKWRITE 0xF8006168 0x001FFFFF 0x000000F1,
     EMIT_MASKWRITE 0xF800616C 0x001FFFFF 0x000000F1,
     EMIT_MASKWRITE 0xF8006170 0x001FFFFF 0x000000F0,
     EMIT_MASKWRITE 0xF8006174 0x001FFFFF 0x000000F7,
     EMIT_MASKWRITE 0xF800617C 0x000FFFFF 0x000000BA,
     EMIT_MASKWRITE 0xF8006180 0x000FFFFF 0x000000BA,
     EMIT_MASKWRITE 0xF8006184 0x000FFFFF 0x000000BC,
     EMIT_MASKWRITE 0xF8006188 0x000FFFFF 0x000000B3,
     EMIT_MASKWRITE 0xF8006190 0x6FFFFEFE 0x00040080,
     EMIT_MASKWRITE 0xF8006194 0x000FFFFF 0x0001FC82,
     EMIT_MASKWRITE 0xF8006204 0xFFFFFFFF 0x00000000,
     EMIT_MASKWRITE 0xF8006208 0x000703FF 0x000003FF,
     EMIT_MASKWRITE 0xF800620C 0x000703FF 0x000003FF,
     EMIT_MASKWRITE 0xF8006210 0x000703FF 0x000003FF,
     EMIT_MASKWRITE 0xF8006214 0x000703FF 0x000003FF,
     EMIT_MASKWRITE 0xF8006218 0x000F03FF 0x000003FF,
     EMIT_MASKWRITE 0xF800621C 0x000F03FF 0x000003FF,
     EMIT_MASKWRITE 0xF8006220 0x000F03FF 0x000003FF,
     EMIT_MASKWRITE 0xF8006224 0x000F03FF 0x000003FF,
     EMIT_MASKWRITE 0xF80062A8 0x00000FF5 0x00000000,
     EMIT_MASKWRITE 0xF80062AC 0xFFFFFFFF 0x00000000,
     EMIT_MASKWRITE 0xF80062B0 0x003FFFFF 0x00005125,
     EMIT_MASKWRITE 0xF80062B4 0x0003FFFF 0x000012A8,
     EMIT_MASKPOLL 0xF8000B74 0x00002000,
     EMIT_MASKWRITE 0xF8006000 0x0001FFFF 0x00000081,
     EMIT_MASKPOLL 0xF8006054 0x00000007,
     EMIT_EXIT]"

definition ps7_mio_init_data_3_0 :: "u32 list" where
  "ps7_mio_init_data_3_0 = concat [
     EMIT_WRITE 0xF8000008 0x0000DF0D,
     EMIT_MASKWRITE 0xF8000B40 0x00000FFF 0x00000600,
     EMIT_MASKWRITE 0xF8000B44 0x00000FFF 0x00000600,
     EMIT_MASKWRITE 0xF8000B48 0x00000FFF 0x00000672,
     EMIT_MASKWRITE 0xF8000B4C 0x00000FFF 0x00000672,
     EMIT_MASKWRITE 0xF8000B50 0x00000FFF 0x00000674,
     EMIT_MASKWRITE 0xF8000B54 0x00000FFF 0x00000674,
     EMIT_MASKWRITE 0xF8000B58 0x00000FFF 0x00000600,
     EMIT_MASKWRITE 0xF8000B5C 0xFFFFFFFF 0x0018C068,
     EMIT_MASKWRITE 0xF8000B60 0xFFFFFFFF 0x00F98068,
     EMIT_MASKWRITE 0xF8000B64 0xFFFFFFFF 0x00F98068,
     EMIT_MASKWRITE 0xF8000B68 0xFFFFFFFF 0x00F98068,
     EMIT_MASKWRITE 0xF8000B6C 0x00007FFF 0x00000260,
     EMIT_MASKWRITE 0xF8000B70 0x00000001 0x00000001,
     EMIT_MASKWRITE 0xF8000B70 0x00000021 0x00000020,
     EMIT_MASKWRITE 0xF8000B70 0x07FEFFFF 0x00000823,
     EMIT_WRITE 0xF8000004 0x0000767B,
     EMIT_EXIT]"

definition ps7_peripherals_init_data_3_0 :: "u32 list" where
  "ps7_peripherals_init_data_3_0 = concat [
     EMIT_WRITE 0xF8000008 0x0000DF0D,
     EMIT_MASKWRITE 0xF8000B48 0x00000180 0x00000180,
     EMIT_MASKWRITE 0xF8000B4C 0x00000180 0x00000180,
     EMIT_MASKWRITE 0xF8000B50 0x00000180 0x00000180,
     EMIT_MASKWRITE 0xF8000B54 0x00000180 0x00000180,
     EMIT_WRITE 0xF8000004 0x0000767B,
     EMIT_MASKWRITE 0xE000D000 0x00080000 0x00080000,
     EMIT_MASKWRITE 0xF8007000 0x20000000 0x00000000,
     EMIT_EXIT]"

definition ps7_post_config_3_0 :: "u32 list" where
  "ps7_post_config_3_0 = concat [
     EMIT_WRITE 0xF8000008 0x0000DF0D,
     EMIT_MASKWRITE 0xF8000900 0x0000000F 0x0000000F,
     EMIT_MASKWRITE 0xF8000240 0xFFFFFFFF 0x00000000,
     EMIT_WRITE 0xF8000004 0x0000767B,
     EMIT_EXIT]"

definition ps7_debug_3_0 :: "u32 list" where
  "ps7_debug_3_0 = concat [
     EMIT_WRITE 0xF8898FB0 0xC5ACCE55,
     EMIT_WRITE 0xF8899FB0 0xC5ACCE55,
     EMIT_WRITE 0xF8809FB0 0xC5ACCE55,
     EMIT_EXIT]"

definition ps7_pll_init_data_2_0 :: "u32 list" where
  "ps7_pll_init_data_2_0 = concat [
     EMIT_WRITE 0xF8000008 0x0000DF0D,
     EMIT_MASKWRITE 0xF8000110 0x003FFFF0 0x000FA220,
     EMIT_MASKWRITE 0xF8000100 0x0007F000 0x00028000,
     EMIT_MASKWRITE 0xF8000100 0x00000010 0x00000010,
     EMIT_MASKWRITE 0xF8000100 0x00000001 0x00000001,
     EMIT_MASKWRITE 0xF8000100 0x00000001 0x00000000,
     EMIT_MASKPOLL 0xF800010C 0x00000001,
     EMIT_MASKWRITE 0xF8000100 0x00000010 0x00000000,
     EMIT_MASKWRITE 0xF8000120 0x1F003F30 0x1F000200,
     EMIT_MASKWRITE 0xF8000114 0x003FFFF0 0x0012C220,
     EMIT_MASKWRITE 0xF8000104 0x0007F000 0x00020000,
     EMIT_MASKWRITE 0xF8000104 0x00000010 0x00000010,
     EMIT_MASKWRITE 0xF8000104 0x00000001 0x00000001,
     EMIT_MASKWRITE 0xF8000104 0x00000001 0x00000000,
     EMIT_MASKPOLL 0xF800010C 0x00000002,
     EMIT_MASKWRITE 0xF8000104 0x00000010 0x00000000,
     EMIT_MASKWRITE 0xF8000124 0xFFF00003 0x0C200003,
     EMIT_MASKWRITE 0xF8000118 0x003FFFF0 0x000FA240,
     EMIT_MASKWRITE 0xF8000108 0x0007F000 0x00030000,
     EMIT_MASKWRITE 0xF8000108 0x00000010 0x00000010,
     EMIT_MASKWRITE 0xF8000108 0x00000001 0x00000001,
     EMIT_MASKWRITE 0xF8000108 0x00000001 0x00000000,
     EMIT_MASKPOLL 0xF800010C 0x00000004,
     EMIT_MASKWRITE 0xF8000108 0x00000010 0x00000000,
     EMIT_WRITE 0xF8000004 0x0000767B,
     EMIT_EXIT]"

definition ps7_clock_init_data_2_0 :: "u32 list" where
  "ps7_clock_init_data_2_0 = concat [
     EMIT_WRITE 0xF8000008 0x0000DF0D,
     EMIT_MASKWRITE 0xF8000128 0x03F03F01 0x00700F01,
     EMIT_MASKWRITE 0xF8000168 0x00003F31 0x00000801,
     EMIT_MASKWRITE 0xF8000170 0x03F03F30 0x00400800,
     EMIT_MASKWRITE 0xF80001C4 0x00000001 0x00000001,
     EMIT_MASKWRITE 0xF800012C 0x01FFCCCD 0x014C000D,
     EMIT_WRITE 0xF8000004 0x0000767B,
     EMIT_EXIT]"

definition ps7_ddr_init_data_2_0 :: "u32 list" where
  "ps7_ddr_init_data_2_0 = concat [
     EMIT_MASKWRITE 0xF8006000 0x0001FFFF 0x00000080,
     EMIT_MASKWRITE 0xF8006004 0x1FFFFFFF 0x00081082,
     EMIT_MASKWRITE 0xF8006008 0x03FFFFFF 0x03C0780F,
     EMIT_MASKWRITE 0xF800600C 0x03FFFFFF 0x02001001,
     EMIT_MASKWRITE 0xF8006010 0x03FFFFFF 0x00014001,
     EMIT_MASKWRITE 0xF8006014 0x001FFFFF 0x0004285B,
     EMIT_MASKWRITE 0xF8006018 0xF7FFFFFF 0x44E458D3,
     EMIT_MASKWRITE 0xF800601C 0xFFFFFFFF 0x7282BCE5,
     EMIT_MASKWRITE 0xF8006020 0xFFFFFFFC 0x272872D0,
     EMIT_MASKWRITE 0xF8006024 0x0FFFFFFF 0x0000003C,
     EMIT_MASKWRITE 0xF8006028 0x00003FFF 0x00002007,
     EMIT_MASKWRITE 0xF800602C 0xFFFFFFFF 0x00000008,
     EMIT_MASKWRITE 0xF8006030 0xFFFFFFFF 0x00040B30,
     EMIT_MASKWRITE 0xF8006034 0x13FF3FFF 0x000116D4,
     EMIT_MASKWRITE 0xF8006038 0x00001FC3 0x00000000,
     EMIT_MASKWRITE 0xF800603C 0x000FFFFF 0x00000777,
     EMIT_MASKWRITE 0xF8006040 0xFFFFFFFF 0xFFF00000,
     EMIT_MASKWRITE 0xF8006044 0x0FFFFFFF 0x0F666666,
     EMIT_MASKWRITE 0xF8006048 0x3FFFFFFF 0x0003C248,
     EMIT_MASKWRITE 0xF8006050 0xFF0F8FFF 0x77010800,
     EMIT_MASKWRITE 0xF8006058 0x0001FFFF 0x00000101,
     EMIT_MASKWRITE 0xF800605C 0x0000FFFF 0x00005003,
     EMIT_MASKWRITE 0xF8006060 0x000017FF 0x0000003E,
     EMIT_MASKWRITE 0xF8006064 0x00021FE0 0x00020000,
     EMIT_MASKWRITE 0xF8006068 0x03FFFFFF 0x00284141,
     EMIT_MASKWRITE 0xF800606C 0x0000FFFF 0x00001610,
     EMIT_MASKWRITE 0xF8006078 0x03FFFFFF 0x00466111,
     EMIT_MASKWRITE 0xF800607C 0x000FFFFF 0x00032222,
     EMIT_MASKWRITE 0xF80060A0 0x00FFFFFF 0x00008000,
     EMIT_MASKWRITE 0xF80060A4 0xFFFFFFFF 0x10200802,
     EMIT_MASKWRITE 0xF80060A8 0x0FFFFFFF 0x0690CB73,
     EMIT_MASKWRITE 0xF80060AC 0x000001FF 0x000001FE,
     EMIT_MASKWRITE 0xF80060B0 0x1FFFFFFF 0x1CFFFFFF,
     EMIT_MASKWRITE 0xF80060B4 0x000007FF 0x00000200,
     EMIT_MASKWRITE 0xF80060B8 0x01FFFFFF 0x00200066,
     EMIT_MASKWRITE 0xF80060C4 0x00000003 0x00000000,
     EMIT_MASKWRITE 0xF80060C8 0x000000FF 0x00000000,
     EMIT_MASKWRITE 0xF80060DC 0x00000001 0x00000000,
     EMIT_MASKWRITE 0xF80060F0 0x0000FFFF 0x00000000,
     EMIT_MASKWRITE 0xF80060F4 0x0000000F 0x00000008,
     EMIT_MASKWRITE 0xF8006114 0x000000FF 0x00000000,
     EMIT_MASKWRITE 0xF8006118 0x7FFFFFFF 0x40000001,
     EMIT_MASKWRITE 0xF800611C 0x7FFFFFFF 0x40000001,
     EMIT_MASKWRITE 0xF8006120 0x7FFFFFFF 0x40000001,
     EMIT_MASKWRITE 0xF8006124 0x7FFFFFFF 0x40000001,
     EMIT_MASKWRITE 0xF800612C 0x000FFFFF 0x00027000,
     EMIT_MASKWRITE 0xF8006130 0x000FFFFF 0x00027000,
     EMIT_MASKWRITE 0xF8006134 0x000FFFFF 0x00026C00,
     EMIT_MASKWRITE 0xF8006138 0x000FFFFF 0x00028800,
     EMIT_MASKWRITE 0xF8006140 0x000FFFFF 0x00000035,
     EMIT_MASKWRITE 0xF8006144 0x000FFFFF 0x00000035,
     EMIT_MASKWRITE 0xF8006148 0x000FFFFF 0x00000035,
     EMIT_MASKWRITE 0xF800614C 0x000FFFFF 0x00000035,
     EMIT_MASKWRITE 0xF8006154 0x000FFFFF 0x0000007A,
     EMIT_MASKWRITE 0xF8006158 0x000FFFFF 0x0000007A,
     EMIT_MASKWRITE 0xF800615C 0x000FFFFF 0x0000007C,
     EMIT_MASKWRITE 0xF8006160 0x000FFFFF 0x00000073,
     EMIT_MASKWRITE 0xF8006168 0x001FFFFF 0x000000F1,
     EMIT_MASKWRITE 0xF800616C 0x001FFFFF 0x000000F1,
     EMIT_MASKWRITE 0xF8006170 0x001FFFFF 0x000000F0,
     EMIT_MASKWRITE 0xF8006174 0x001FFFFF 0x000000F7,
     EMIT_MASKWRITE 0xF800617C 0x000FFFFF 0x000000BA,
     EMIT_MASKWRITE 0xF8006180 0x000FFFFF 0x000000BA,
     EMIT_MASKWRITE 0xF8006184 0x000FFFFF 0x000000BC,
     EMIT_MASKWRITE 0xF8006188 0x000FFFFF 0x000000B3,
     EMIT_MASKWRITE 0xF8006190 0xFFFFFFFF 0x10040080,
     EMIT_MASKWRITE 0xF8006194 0x000FFFFF 0x0001FC82,
     EMIT_MASKWRITE 0xF8006204 0xFFFFFFFF 0x00000000,
     EMIT_MASKWRITE 0xF8006208 0x000F03FF 0x000803FF,
     EMIT_MASKWRITE 0xF800620C 0x000F03FF 0x000803FF,
     EMIT_MASKWRITE 0xF8006210 0x000F03FF 0x000803FF,
     EMIT_MASKWRITE 0xF8006214 0x000F03FF 0x000803FF,
     EMIT_MASKWRITE 0xF8006218 0x000F03FF 0x000003FF,
     EMIT_MASKWRITE 0xF800621C 0x000F03FF 0x000003FF,
     EMIT_MASKWRITE 0xF8006220 0x000F03FF 0x000003FF,
     EMIT_MASKWRITE 0xF8006224 0x000F03FF 0x000003FF,
     EMIT_MASKWRITE 0xF80062A8 0x00000FF7 0x00000000,
     EMIT_MASKWRITE 0xF80062AC 0xFFFFFFFF 0x00000000,
     EMIT_MASKWRITE 0xF80062B0 0x003FFFFF 0x00005125,
     EMIT_MASKWRITE 0xF80062B4 0x0003FFFF 0x000012A8,
     EMIT_MASKPOLL 0xF8000B74 0x00002000,
     EMIT_MASKWRITE 0xF8006000 0x0001FFFF 0x00000081,
     EMIT_MASKPOLL 0xF8006054 0x00000007,
     EMIT_EXIT]"

definition ps7_mio_init_data_2_0 :: "u32 list" where
  "ps7_mio_init_data_2_0 = concat [
     EMIT_WRITE 0xF8000008 0x0000DF0D,
     EMIT_MASKWRITE 0xF8000B40 0x00000FFF 0x00000600,
     EMIT_MASKWRITE 0xF8000B44 0x00000FFF 0x00000600,
     EMIT_MASKWRITE 0xF8000B48 0x00000FFF 0x00000672,
     EMIT_MASKWRITE 0xF8000B4C 0x00000FFF 0x00000672,
     EMIT_MASKWRITE 0xF8000B50 0x00000FFF 0x00000674,
     EMIT_MASKWRITE 0xF8000B54 0x00000FFF 0x00000674,
     EMIT_MASKWRITE 0xF8000B58 0x00000FFF 0x00000600,
     EMIT_MASKWRITE 0xF8000B5C 0xFFFFFFFF 0x0018C068,
     EMIT_MASKWRITE 0xF8000B60 0xFFFFFFFF 0x00F98068,
     EMIT_MASKWRITE 0xF8000B64 0xFFFFFFFF 0x00F98068,
     EMIT_MASKWRITE 0xF8000B68 0xFFFFFFFF 0x00F98068,
     EMIT_MASKWRITE 0xF8000B6C 0x00007FFF 0x00000260,
     EMIT_MASKWRITE 0xF8000B70 0x00000021 0x00000021,
     EMIT_MASKWRITE 0xF8000B70 0x00000021 0x00000020,
     EMIT_MASKWRITE 0xF8000B70 0x07FFFFFF 0x00000823,
     EMIT_WRITE 0xF8000004 0x0000767B,
     EMIT_EXIT]"

definition ps7_peripherals_init_data_2_0 :: "u32 list" where
  "ps7_peripherals_init_data_2_0 = concat [
     EMIT_WRITE 0xF8000008 0x0000DF0D,
     EMIT_MASKWRITE 0xF8000B48 0x00000180 0x00000180,
     EMIT_MASKWRITE 0xF8000B4C 0x00000180 0x00000180,
     EMIT_MASKWRITE 0xF8000B50 0x00000180 0x00000180,
     EMIT_MASKWRITE 0xF8000B54 0x00000180 0x00000180,
     EMIT_WRITE 0xF8000004 0x0000767B,
     EMIT_MASKWRITE 0xE000D000 0x00080000 0x00080000,
     EMIT_MASKWRITE 0xF8007000 0x20000000 0x00000000,
     EMIT_EXIT]"

definition ps7_post_config_2_0 :: "u32 list" where
  "ps7_post_config_2_0 = concat [
     EMIT_WRITE 0xF8000008 0x0000DF0D,
     EMIT_MASKWRITE 0xF8000900 0x0000000F 0x0000000F,
     EMIT_MASKWRITE 0xF8000240 0xFFFFFFFF 0x00000000,
     EMIT_WRITE 0xF8000004 0x0000767B,
     EMIT_EXIT]"

definition ps7_debug_2_0 :: "u32 list" where
  "ps7_debug_2_0 = concat [
     EMIT_WRITE 0xF8898FB0 0xC5ACCE55,
     EMIT_WRITE 0xF8899FB0 0xC5ACCE55,
     EMIT_WRITE 0xF8809FB0 0xC5ACCE55,
     EMIT_EXIT]"

definition ps7_pll_init_data_1_0 :: "u32 list" where
  "ps7_pll_init_data_1_0 = concat [
     EMIT_WRITE 0xF8000008 0x0000DF0D,
     EMIT_MASKWRITE 0xF8000110 0x003FFFF0 0x000FA220,
     EMIT_MASKWRITE 0xF8000100 0x0007F000 0x00028000,
     EMIT_MASKWRITE 0xF8000100 0x00000010 0x00000010,
     EMIT_MASKWRITE 0xF8000100 0x00000001 0x00000001,
     EMIT_MASKWRITE 0xF8000100 0x00000001 0x00000000,
     EMIT_MASKPOLL 0xF800010C 0x00000001,
     EMIT_MASKWRITE 0xF8000100 0x00000010 0x00000000,
     EMIT_MASKWRITE 0xF8000120 0x1F003F30 0x1F000200,
     EMIT_MASKWRITE 0xF8000114 0x003FFFF0 0x0012C220,
     EMIT_MASKWRITE 0xF8000104 0x0007F000 0x00020000,
     EMIT_MASKWRITE 0xF8000104 0x00000010 0x00000010,
     EMIT_MASKWRITE 0xF8000104 0x00000001 0x00000001,
     EMIT_MASKWRITE 0xF8000104 0x00000001 0x00000000,
     EMIT_MASKPOLL 0xF800010C 0x00000002,
     EMIT_MASKWRITE 0xF8000104 0x00000010 0x00000000,
     EMIT_MASKWRITE 0xF8000124 0xFFF00003 0x0C200003,
     EMIT_MASKWRITE 0xF8000118 0x003FFFF0 0x000FA240,
     EMIT_MASKWRITE 0xF8000108 0x0007F000 0x00030000,
     EMIT_MASKWRITE 0xF8000108 0x00000010 0x00000010,
     EMIT_MASKWRITE 0xF8000108 0x00000001 0x00000001,
     EMIT_MASKWRITE 0xF8000108 0x00000001 0x00000000,
     EMIT_MASKPOLL 0xF800010C 0x00000004,
     EMIT_MASKWRITE 0xF8000108 0x00000010 0x00000000,
     EMIT_WRITE 0xF8000004 0x0000767B,
     EMIT_EXIT]"

definition ps7_clock_init_data_1_0 :: "u32 list" where
  "ps7_clock_init_data_1_0 = concat [
     EMIT_WRITE 0xF8000008 0x0000DF0D,
     EMIT_MASKWRITE 0xF8000128 0x03F03F01 0x00700F01,
     EMIT_MASKWRITE 0xF8000168 0x00003F31 0x00000801,
     EMIT_MASKWRITE 0xF8000170 0x03F03F30 0x00400800,
     EMIT_MASKWRITE 0xF80001C4 0x00000001 0x00000001,
     EMIT_MASKWRITE 0xF800012C 0x01FFCCCD 0x014C000D,
     EMIT_WRITE 0xF8000004 0x0000767B,
     EMIT_EXIT]"

definition ps7_ddr_init_data_1_0 :: "u32 list" where
  "ps7_ddr_init_data_1_0 = concat [
     EMIT_MASKWRITE 0xF8006000 0x0001FFFF 0x00000080,
     EMIT_MASKWRITE 0xF8006004 0x1FFFFFFF 0x00081082,
     EMIT_MASKWRITE 0xF8006008 0x03FFFFFF 0x03C0780F,
     EMIT_MASKWRITE 0xF800600C 0x03FFFFFF 0x02001001,
     EMIT_MASKWRITE 0xF8006010 0x03FFFFFF 0x00014001,
     EMIT_MASKWRITE 0xF8006014 0x001FFFFF 0x0004285B,
     EMIT_MASKWRITE 0xF8006018 0xF7FFFFFF 0x44E458D3,
     EMIT_MASKWRITE 0xF800601C 0xFFFFFFFF 0x7282BCE5,
     EMIT_MASKWRITE 0xF8006020 0xFFFFFFFC 0x272872D0,
     EMIT_MASKWRITE 0xF8006024 0x0FFFFFFF 0x0000003C,
     EMIT_MASKWRITE 0xF8006028 0x00003FFF 0x00002007,
     EMIT_MASKWRITE 0xF800602C 0xFFFFFFFF 0x00000008,
     EMIT_MASKWRITE 0xF8006030 0xFFFFFFFF 0x00040B30,
     EMIT_MASKWRITE 0xF8006034 0x13FF3FFF 0x000116D4,
     EMIT_MASKWRITE 0xF8006038 0x00001FC3 0x00000000,
     EMIT_MASKWRITE 0xF800603C 0x000FFFFF 0x00000777,
     EMIT_MASKWRITE 0xF8006040 0xFFFFFFFF 0xFFF00000,
     EMIT_MASKWRITE 0xF8006044 0x0FFFFFFF 0x0F666666,
     EMIT_MASKWRITE 0xF8006048 0x3FFFFFFF 0x0003C248,
     EMIT_MASKWRITE 0xF8006050 0xFF0F8FFF 0x77010800,
     EMIT_MASKWRITE 0xF8006058 0x0001FFFF 0x00000101,
     EMIT_MASKWRITE 0xF800605C 0x0000FFFF 0x00005003,
     EMIT_MASKWRITE 0xF8006060 0x000017FF 0x0000003E,
     EMIT_MASKWRITE 0xF8006064 0x00021FE0 0x00020000,
     EMIT_MASKWRITE 0xF8006068 0x03FFFFFF 0x00284141,
     EMIT_MASKWRITE 0xF800606C 0x0000FFFF 0x00001610,
     EMIT_MASKWRITE 0xF80060A0 0x00FFFFFF 0x00008000,
     EMIT_MASKWRITE 0xF80060A4 0xFFFFFFFF 0x10200802,
     EMIT_MASKWRITE 0xF80060A8 0x0FFFFFFF 0x0690CB73,
     EMIT_MASKWRITE 0xF80060AC 0x000001FF 0x000001FE,
     EMIT_MASKWRITE 0xF80060B0 0x1FFFFFFF 0x1CFFFFFF,
     EMIT_MASKWRITE 0xF80060B4 0x000007FF 0x00000200,
     EMIT_MASKWRITE 0xF80060B8 0x01FFFFFF 0x00200066,
     EMIT_MASKWRITE 0xF80060C4 0x00000003 0x00000000,
     EMIT_MASKWRITE 0xF80060C8 0x000000FF 0x00000000,
     EMIT_MASKWRITE 0xF80060DC 0x00000001 0x00000000,
     EMIT_MASKWRITE 0xF80060F0 0x0000FFFF 0x00000000,
     EMIT_MASKWRITE 0xF80060F4 0x0000000F 0x00000008,
     EMIT_MASKWRITE 0xF8006114 0x000000FF 0x00000000,
     EMIT_MASKWRITE 0xF8006118 0x7FFFFFFF 0x40000001,
     EMIT_MASKWRITE 0xF800611C 0x7FFFFFFF 0x40000001,
     EMIT_MASKWRITE 0xF8006120 0x7FFFFFFF 0x40000001,
     EMIT_MASKWRITE 0xF8006124 0x7FFFFFFF 0x40000001,
     EMIT_MASKWRITE 0xF800612C 0x000FFFFF 0x00027000,
     EMIT_MASKWRITE 0xF8006130 0x000FFFFF 0x00027000,
     EMIT_MASKWRITE 0xF8006134 0x000FFFFF 0x00026C00,
     EMIT_MASKWRITE 0xF8006138 0x000FFFFF 0x00028800,
     EMIT_MASKWRITE 0xF8006140 0x000FFFFF 0x00000035,
     EMIT_MASKWRITE 0xF8006144 0x000FFFFF 0x00000035,
     EMIT_MASKWRITE 0xF8006148 0x000FFFFF 0x00000035,
     EMIT_MASKWRITE 0xF800614C 0x000FFFFF 0x00000035,
     EMIT_MASKWRITE 0xF8006154 0x000FFFFF 0x0000007A,
     EMIT_MASKWRITE 0xF8006158 0x000FFFFF 0x0000007A,
     EMIT_MASKWRITE 0xF800615C 0x000FFFFF 0x0000007C,
     EMIT_MASKWRITE 0xF8006160 0x000FFFFF 0x00000073,
     EMIT_MASKWRITE 0xF8006168 0x001FFFFF 0x000000F1,
     EMIT_MASKWRITE 0xF800616C 0x001FFFFF 0x000000F1,
     EMIT_MASKWRITE 0xF8006170 0x001FFFFF 0x000000F0,
     EMIT_MASKWRITE 0xF8006174 0x001FFFFF 0x000000F7,
     EMIT_MASKWRITE 0xF800617C 0x000FFFFF 0x000000BA,
     EMIT_MASKWRITE 0xF8006180 0x000FFFFF 0x000000BA,
     EMIT_MASKWRITE 0xF8006184 0x000FFFFF 0x000000BC,
     EMIT_MASKWRITE 0xF8006188 0x000FFFFF 0x000000B3,
     EMIT_MASKWRITE 0xF8006190 0xFFFFFFFF 0x10040080,
     EMIT_MASKWRITE 0xF8006194 0x000FFFFF 0x0001FC82,
     EMIT_MASKWRITE 0xF8006204 0xFFFFFFFF 0x00000000,
     EMIT_MASKWRITE 0xF8006208 0x000F03FF 0x000803FF,
     EMIT_MASKWRITE 0xF800620C 0x000F03FF 0x000803FF,
     EMIT_MASKWRITE 0xF8006210 0x000F03FF 0x000803FF,
     EMIT_MASKWRITE 0xF8006214 0x000F03FF 0x000803FF,
     EMIT_MASKWRITE 0xF8006218 0x000F03FF 0x000003FF,
     EMIT_MASKWRITE 0xF800621C 0x000F03FF 0x000003FF,
     EMIT_MASKWRITE 0xF8006220 0x000F03FF 0x000003FF,
     EMIT_MASKWRITE 0xF8006224 0x000F03FF 0x000003FF,
     EMIT_MASKWRITE 0xF80062A8 0x00000FF7 0x00000000,
     EMIT_MASKWRITE 0xF80062AC 0xFFFFFFFF 0x00000000,
     EMIT_MASKWRITE 0xF80062B0 0x003FFFFF 0x00005125,
     EMIT_MASKWRITE 0xF80062B4 0x0003FFFF 0x000012A8,
     EMIT_MASKPOLL 0xF8000B74 0x00002000,
     EMIT_MASKWRITE 0xF8006000 0x0001FFFF 0x00000081,
     EMIT_MASKPOLL 0xF8006054 0x00000007,
     EMIT_EXIT]"

definition ps7_mio_init_data_1_0 :: "u32 list" where
  "ps7_mio_init_data_1_0 = concat [
     EMIT_WRITE 0xF8000008 0x0000DF0D,
     EMIT_MASKWRITE 0xF8000B40 0x00000FFF 0x00000600,
     EMIT_MASKWRITE 0xF8000B44 0x00000FFF 0x00000600,
     EMIT_MASKWRITE 0xF8000B48 0x00000FFF 0x00000672,
     EMIT_MASKWRITE 0xF8000B4C 0x00000FFF 0x00000672,
     EMIT_MASKWRITE 0xF8000B50 0x00000FFF 0x00000674,
     EMIT_MASKWRITE 0xF8000B54 0x00000FFF 0x00000674,
     EMIT_MASKWRITE 0xF8000B58 0x00000FFF 0x00000600,
     EMIT_MASKWRITE 0xF8000B5C 0xFFFFFFFF 0x0018C068,
     EMIT_MASKWRITE 0xF8000B60 0xFFFFFFFF 0x00F98068,
     EMIT_MASKWRITE 0xF8000B64 0xFFFFFFFF 0x00F98068,
     EMIT_MASKWRITE 0xF8000B68 0xFFFFFFFF 0x00F98068,
     EMIT_MASKWRITE 0xF8000B6C 0x000073FF 0x00000260,
     EMIT_MASKWRITE 0xF8000B70 0x00000021 0x00000021,
     EMIT_MASKWRITE 0xF8000B70 0x00000021 0x00000020,
     EMIT_MASKWRITE 0xF8000B70 0x07FFFFFF 0x00000823,
     EMIT_WRITE 0xF8000004 0x0000767B,
     EMIT_EXIT]"

definition ps7_peripherals_init_data_1_0 :: "u32 list" where
  "ps7_peripherals_init_data_1_0 = concat [
     EMIT_WRITE 0xF8000008 0x0000DF0D,
     EMIT_MASKWRITE 0xF8000B48 0x00000180 0x00000180,
     EMIT_MASKWRITE 0xF8000B4C 0x00000180 0x00000180,
     EMIT_MASKWRITE 0xF8000B50 0x00000180 0x00000180,
     EMIT_MASKWRITE 0xF8000B54 0x00000180 0x00000180,
     EMIT_WRITE 0xF8000004 0x0000767B,
     EMIT_MASKWRITE 0xE000D000 0x00080000 0x00080000,
     EMIT_MASKWRITE 0xF8007000 0x20000000 0x00000000,
     EMIT_EXIT]"

definition ps7_post_config_1_0 :: "u32 list" where
  "ps7_post_config_1_0 = concat [
     EMIT_WRITE 0xF8000008 0x0000DF0D,
     EMIT_MASKWRITE 0xF8000900 0x0000000F 0x0000000F,
     EMIT_MASKWRITE 0xF8000240 0xFFFFFFFF 0x00000000,
     EMIT_WRITE 0xF8000004 0x0000767B,
     EMIT_EXIT]"

definition ps7_debug_1_0 :: "u32 list" where
  "ps7_debug_1_0 = concat [
     EMIT_WRITE 0xF8898FB0 0xC5ACCE55,
     EMIT_WRITE 0xF8899FB0 0xC5ACCE55,
     EMIT_WRITE 0xF8809FB0 0xC5ACCE55,
     EMIT_EXIT]"

section \<open>Running the tables\<close>

definition PCW_SILICON_VERSION_1 :: u32 where "PCW_SILICON_VERSION_1 = 0"
definition PCW_SILICON_VERSION_2 :: u32 where "PCW_SILICON_VERSION_2 = 1"

definition ps7_run1 :: "u32 \<Rightarrow> 's port \<Rightarrow> u32 list \<Rightarrow> 's \<Rightarrow> (int \<times> 's) option" where
  "ps7_run1 u b tbl s =
     do { (ret, s) \<leftarrow> ps7_config u b tbl s;
          if ret \<noteq> PS7_INIT_SUCCESS then Some (ret, s) else Some (PS7_INIT_SUCCESS, s) }"

definition ps7_post_config :: "u32 \<Rightarrow> 's port \<Rightarrow> 's \<Rightarrow> (int \<times> 's) option" where
  "ps7_post_config u b s =
     (let (si_ver, s) = ps7GetSiliconVersion b s in
      if si_ver = PCW_SILICON_VERSION_1 then ps7_run1 u b ps7_post_config_1_0 s
      else if si_ver = PCW_SILICON_VERSION_2 then ps7_run1 u b ps7_post_config_2_0 s
      else ps7_run1 u b ps7_post_config_3_0 s)"

definition ps7_debug :: "u32 \<Rightarrow> 's port \<Rightarrow> 's \<Rightarrow> (int \<times> 's) option" where
  "ps7_debug u b s =
     (let (si_ver, s) = ps7GetSiliconVersion b s in
      if si_ver = PCW_SILICON_VERSION_1 then ps7_run1 u b ps7_debug_1_0 s
      else if si_ver = PCW_SILICON_VERSION_2 then ps7_run1 u b ps7_debug_2_0 s
      else ps7_run1 u b ps7_debug_3_0 s)"

text \<open>The pointers to the tables of the version that was found.\<close>

record ps7_data =
  ps7_mio_init_data :: "u32 list"
  ps7_pll_init_data :: "u32 list"
  ps7_clock_init_data :: "u32 list"
  ps7_ddr_init_data :: "u32 list"
  ps7_peripherals_init_data :: "u32 list"

definition ps7_select :: "u32 \<Rightarrow> ps7_data" where
  "ps7_select si_ver =
     (if si_ver = PCW_SILICON_VERSION_1
      then \<lparr>ps7_mio_init_data = ps7_mio_init_data_1_0, ps7_pll_init_data = ps7_pll_init_data_1_0,
            ps7_clock_init_data = ps7_clock_init_data_1_0, ps7_ddr_init_data = ps7_ddr_init_data_1_0,
            ps7_peripherals_init_data = ps7_peripherals_init_data_1_0\<rparr>
      else if si_ver = PCW_SILICON_VERSION_2
      then \<lparr>ps7_mio_init_data = ps7_mio_init_data_2_0, ps7_pll_init_data = ps7_pll_init_data_2_0,
            ps7_clock_init_data = ps7_clock_init_data_2_0, ps7_ddr_init_data = ps7_ddr_init_data_2_0,
            ps7_peripherals_init_data = ps7_peripherals_init_data_2_0\<rparr>
      else \<lparr>ps7_mio_init_data = ps7_mio_init_data_3_0, ps7_pll_init_data = ps7_pll_init_data_3_0,
            ps7_clock_init_data = ps7_clock_init_data_3_0, ps7_ddr_init_data = ps7_ddr_init_data_3_0,
            ps7_peripherals_init_data = ps7_peripherals_init_data_3_0\<rparr>)"

definition ps7_init :: "u32 \<Rightarrow> 's port \<Rightarrow> 's \<Rightarrow> (int \<times> 's) option" where
  "ps7_init u b s =
     (let (si_ver, s) = ps7GetSiliconVersion b s; d = ps7_select si_ver in
      do { (ret, s) \<leftarrow> ps7_config u b (ps7_mio_init_data d) s;
           if ret \<noteq> PS7_INIT_SUCCESS then Some (ret, s)
           else do { (ret, s) \<leftarrow> ps7_config u b (ps7_pll_init_data d) s;
           if ret \<noteq> PS7_INIT_SUCCESS then Some (ret, s)
           else do { (ret, s) \<leftarrow> ps7_config u b (ps7_clock_init_data d) s;
           if ret \<noteq> PS7_INIT_SUCCESS then Some (ret, s)
           else do { (ret, s) \<leftarrow> ps7_config u b (ps7_ddr_init_data d) s;
           if ret \<noteq> PS7_INIT_SUCCESS then Some (ret, s)
           else do { (ret, s) \<leftarrow> ps7_config u b (ps7_peripherals_init_data d) s;
           if ret \<noteq> PS7_INIT_SUCCESS then Some (ret, s)
           else Some (PS7_INIT_SUCCESS, s) }}}}})"

section \<open>What the tables say\<close>

definition commands_of :: "u32 list \<Rightarrow> ps7_cmd list" where
  "commands_of tbl = (case disasm tbl of None \<Rightarrow> [] | Some cs \<Rightarrow> cs)"

definition decodes :: "u32 list \<Rightarrow> bool" where
  "decodes tbl \<longleftrightarrow> (case disasm tbl of None \<Rightarrow> False | Some cs \<Rightarrow> list_all (\<lambda>c. \<not> is_delay c) cs)"

definition ps7_commands :: "u32 \<Rightarrow> ps7_cmd list" where
  "ps7_commands si_ver = (let d = ps7_select si_ver in
     commands_of (ps7_mio_init_data d) @ commands_of (ps7_pll_init_data d) @ commands_of (ps7_clock_init_data d) @
     commands_of (ps7_ddr_init_data d) @ commands_of (ps7_peripherals_init_data d))"

lemma tables_1_decode:
  "decodes ps7_mio_init_data_1_0" "decodes ps7_pll_init_data_1_0" "decodes ps7_clock_init_data_1_0"
  "decodes ps7_ddr_init_data_1_0" "decodes ps7_peripherals_init_data_1_0" "decodes ps7_post_config_1_0" "decodes ps7_debug_1_0"
  by code_simp+

lemma tables_2_decode:
  "decodes ps7_mio_init_data_2_0" "decodes ps7_pll_init_data_2_0" "decodes ps7_clock_init_data_2_0"
  "decodes ps7_ddr_init_data_2_0" "decodes ps7_peripherals_init_data_2_0" "decodes ps7_post_config_2_0" "decodes ps7_debug_2_0"
  by code_simp+

lemma tables_3_decode:
  "decodes ps7_mio_init_data_3_0" "decodes ps7_pll_init_data_3_0" "decodes ps7_clock_init_data_3_0"
  "decodes ps7_ddr_init_data_3_0" "decodes ps7_peripherals_init_data_3_0" "decodes ps7_post_config_3_0" "decodes ps7_debug_3_0"
  by code_simp+

lemma ps7_select_decodes:
  "decodes (ps7_mio_init_data (ps7_select v))" "decodes (ps7_pll_init_data (ps7_select v))" "decodes (ps7_clock_init_data (ps7_select v))"
  "decodes (ps7_ddr_init_data (ps7_select v))" "decodes (ps7_peripherals_init_data (ps7_select v))"
  by (simp_all add: ps7_select_def tables_1_decode tables_2_decode tables_3_decode)

lemma ps7_config_decodes:
  assumes "decodes tbl"
  shows "ps7_config u b tbl s = perform_all b (commands_of tbl) s" "\<forall>c \<in> set (commands_of tbl). \<not> is_delay c"
  using assms ps7_config_disasm [of tbl _ u b s]
  by (auto simp: decodes_def commands_of_def list_all_iff split: option.splits)

lemma perform_all_append:
  "perform_all b (cs @ ds) s =
    do { (ret, s) \<leftarrow> perform_all b cs s; if ret \<noteq> PS7_INIT_SUCCESS then Some (ret, s) else perform_all b ds s }"
  by (induction cs arbitrary: s)
    (auto simp: PS7_INIT_SUCCESS_def PS7_INIT_TIMEOUT_def split: prod.splits intro!: Option.bind_cong)

lemma success_again:
  "do { (ret, s) \<leftarrow> x; if ret \<noteq> PS7_INIT_SUCCESS then Some (ret, s) else Some (PS7_INIT_SUCCESS, s) } = x"
  by (cases x) auto

lemma ps7_init_commands:
  "ps7_init u b s = (let (v, s) = ps7GetSiliconVersion b s in perform_all b (ps7_commands v) s)"
  unfolding ps7_init_def ps7_commands_def Let_def perform_all_append
  by (simp only: ps7_config_decodes(1) ps7_select_decodes success_again)

lemma ps7_commands_no_delay: "\<forall>c \<in> set (ps7_commands v). \<not> is_delay c"
  using ps7_config_decodes(2) [OF ps7_select_decodes(1) [of v]] ps7_config_decodes(2) [OF ps7_select_decodes(2) [of v]]
    ps7_config_decodes(2) [OF ps7_select_decodes(3) [of v]] ps7_config_decodes(2) [OF ps7_select_decodes(4) [of v]]
    ps7_config_decodes(2) [OF ps7_select_decodes(5) [of v]]
  by (auto simp: ps7_commands_def Let_def)

section \<open>Configuration registers\<close>

fun target :: "ps7_cmd \<Rightarrow> u32 option" where
  "target (Clear a) = Some a"
| "target (Write a v) = Some a"
| "target (MaskWrite a m v) = Some a"
| "target _ = None"

fun effect :: "ps7_cmd \<Rightarrow> (u32 \<Rightarrow> u32) \<Rightarrow> u32 \<Rightarrow> u32" where
  "effect (Clear a) R = R(a := 0)"
| "effect (Write a v) R = R(a := v)"
| "effect (MaskWrite a m v) R = R(a := (v AND m) OR (R a AND NOT m))"
| "effect _ R = R"

text \<open>Two register contents that are the same in the bits of a mask per register.\<close>

definition same_in :: "(u32 \<Rightarrow> u32) \<Rightarrow> (u32 \<Rightarrow> u32) \<Rightarrow> (u32 \<Rightarrow> u32) \<Rightarrow> bool" where
  "same_in config R S \<longleftrightarrow> (\<forall>a. R a AND config a = S a AND config a)"

lemma same_in_trans [trans]: "same_in config R S \<Longrightarrow> same_in config S T \<Longrightarrow> same_in config R T"
  by (simp add: same_in_def)

lemma same_in_effect:
  assumes "same_in config R S"
  shows "same_in config (effect c R) (effect c S)"
proof (cases c)
  case (MaskWrite a m v)
  have split: "((v AND m) OR (x AND NOT m)) AND k = (v AND m AND k) OR ((x AND k) AND NOT m)" for x k :: u32
    by (simp add: bit.conj_disj_distrib bit.conj_disj_distrib2 ac_simps)
  show ?thesis using assms by (auto simp: MaskWrite same_in_def split)
qed (use assms in \<open>auto simp: same_in_def\<close>)

lemma same_in_fold: "same_in config R S \<Longrightarrow> same_in config (fold effect cs R) (fold effect cs S)"
  by (induction cs arbitrary: R S) (auto intro: same_in_effect)

text \<open>
  The system-level control registers, from \<open>0xF8000000\<close> to \<open>0xF8000B74\<close>: writing \<open>0xDF0D\<close> to
  \<open>0xF8000008\<close> unlocks them, writing \<open>0x767B\<close> to \<open>0xF8000004\<close> locks them. These two
  registers hold nothing.
\<close>

definition SLCR_LOCK :: u32 where "SLCR_LOCK = 0xF8000004"
definition SLCR_UNLOCK :: u32 where "SLCR_UNLOCK = 0xF8000008"

definition in_slcr :: "u32 \<Rightarrow> bool" where
  "in_slcr a \<longleftrightarrow> 0xF8000000 \<le> a \<and> a \<le> 0xF8000B74"

text \<open>\<open>slcr_run\<close> follows the lock through a list of commands; it gives \<open>None\<close> for a write to one
  of the registers while they are locked and for any other use of the two key registers.\<close>

fun slcr_run :: "bool \<Rightarrow> ps7_cmd list \<Rightarrow> bool option" where
  "slcr_run locked [] = Some locked"
| "slcr_run locked (c # cs) =
     (if c = Write SLCR_UNLOCK 0xDF0D then slcr_run False cs
      else if c = Write SLCR_LOCK 0x767B then slcr_run True cs
      else case target c of
        None \<Rightarrow> slcr_run locked cs
      | Some a \<Rightarrow>
          if a = SLCR_LOCK \<or> a = SLCR_UNLOCK \<or> locked \<and> in_slcr a then None else slcr_run locked cs)"

text \<open>The registers that the tables of all versions write.\<close>

definition written :: "u32 set" where
  "written = {a. \<exists>v. \<exists>c \<in> set (ps7_commands v). target c = Some a}"

text \<open>
  The contract of the hardware. \<open>config a\<close> are the bits of the register \<open>a\<close> that are storage; the
  others, such as status bits, self-clearing and reserved bits, may do as they please, but they do
  not change the storage. A store to a control register is only promised to work while these are
  unlocked. A load changes neither the storage nor the lock.
\<close>

locale register_file =
  fixes b :: "'s port" and config :: "u32 \<Rightarrow> u32" and regs :: "'s \<Rightarrow> u32 \<Rightarrow> u32" and locked :: "'s \<Rightarrow> bool"
  assumes keys: "config SLCR_LOCK = 0" "config SLCR_UNLOCK = 0"
    and load: "ld b a s = (v, s') \<Longrightarrow>
      same_in config (regs s') (regs s) \<and> locked s' = locked s \<and> v AND config a = regs s a AND config a"
    and unlock: "s' = st b SLCR_UNLOCK 0xDF0D s \<Longrightarrow> same_in config (regs s') (regs s) \<and> \<not> locked s'"
    and lock: "s' = st b SLCR_LOCK 0x767B s \<Longrightarrow> same_in config (regs s') (regs s) \<and> locked s'"
    and store: "s' = st b a v s \<Longrightarrow> a \<in> written - {SLCR_LOCK, SLCR_UNLOCK} \<Longrightarrow> \<not> (locked s \<and> in_slcr a) \<Longrightarrow>
      same_in config (regs s') ((regs s)(a := v)) \<and> locked s' = locked s"
begin

lemma poll_keeps: "poll_loop n b a m s = (ok, s') \<Longrightarrow> same_in config (regs s') (regs s) \<and> locked s' = locked s"
proof (induction n arbitrary: s)
  case 0
  then show ?case using load by (subst (asm) poll_loop.simps) (auto split: prod.splits if_splits)
next
  case (Suc n)
  obtain v s1 where 1: "ld b a s = (v, s1)" by fastforce
  with Suc.prems have "s' = s1 \<or> poll_loop n b a m s1 = (ok, s')"
    by (subst (asm) poll_loop.simps) (auto split: if_splits)
  with Suc.IH load [OF 1] show ?case by (metis same_in_trans)
qed

text \<open>A command that writes a register other than the two key registers.\<close>

lemma perform_store:
  assumes "perform b c s = Some (ok, s')" "target c = Some a" "a \<in> written - {SLCR_LOCK, SLCR_UNLOCK}" "\<not> (locked s \<and> in_slcr a)"
  shows "same_in config (regs s') (effect c (regs s)) \<and> locked s' = locked s"
proof (cases c)
  case (MaskWrite a' m v)
  with assms have a: "a' = a" by simp
  obtain w s1 where 1: "ld b a s = (w, s1)" by (cases "ld b a s")
  let ?w = "(v AND m) OR (w AND NOT m)"
  have s': "s' = st b a ?w s1" using assms(1) 1 by (simp add: MaskWrite a mask_write_def)
  have l: "locked s1 = locked s" "same_in config (regs s1) (regs s)" "w AND config a = regs s a AND config a"
    using load [OF 1] by simp_all
  have "\<not> (locked s1 \<and> in_slcr a)" using assms(4) l(1) by simp
  from store [OF s' assms(3) this]
  have "same_in config (regs s') ((regs s1)(a := ?w))" "locked s' = locked s" using l(1) by simp_all
  moreover have "same_in config ((regs s1)(a := w)) (regs s)" using l(2,3) by (simp add: same_in_def)
  from same_in_effect [OF this, of c] have "same_in config ((regs s1)(a := ?w)) (effect c (regs s))"
    by (simp add: MaskWrite a)
  ultimately show ?thesis using same_in_trans by blast
qed (use assms store in auto)

lemma perform_effect:
  assumes "perform b c s = Some (ok, s')" "\<not> is_delay c" "\<And>a. target c = Some a \<Longrightarrow> a \<in> written"
    and run: "slcr_run (locked s) (c # cs) = Some l"
  shows "same_in config (regs s') (effect c (regs s)) \<and> slcr_run (locked s') cs = Some l"
proof (cases "target c")
  case None
  with assms poll_keeps show ?thesis by (cases c) auto
next
  case (Some a)
  have key: "same_in config R S \<Longrightarrow> same_in config R (S(k := v))" if "k = SLCR_LOCK \<or> k = SLCR_UNLOCK" for R S k v
    using that keys by (auto simp: same_in_def)
  consider "c = Write SLCR_UNLOCK 0xDF0D" | "c = Write SLCR_LOCK 0x767B" "c \<noteq> Write SLCR_UNLOCK 0xDF0D"
    | "c \<noteq> Write SLCR_LOCK 0x767B" "c \<noteq> Write SLCR_UNLOCK 0xDF0D" by blast
  then show ?thesis
  proof cases
    case 1
    then show ?thesis using assms(1) run unlock [of s' s] key by auto
  next
    case 2
    then show ?thesis using assms(1) run lock [of s' s] key by (auto simp: SLCR_LOCK_def SLCR_UNLOCK_def)
  next
    case 3
    with run Some show ?thesis using perform_store [OF assms(1) Some] assms(3) by (auto split: if_splits)
  qed
qed

lemma perform_all_effect:
  assumes "perform_all b cs s = Some (PS7_INIT_SUCCESS, s')" "\<forall>c \<in> set cs. \<not> is_delay c"
    "\<forall>c \<in> set cs. \<forall>a. target c = Some a \<longrightarrow> a \<in> written" "slcr_run (locked s) cs = Some l"
  shows "same_in config (regs s') (fold effect cs (regs s)) \<and> locked s' = l"
  using assms
proof (induction cs arbitrary: s)
  case (Cons c cs)
  obtain ok s1 where 1: "perform b c s = Some (ok, s1)"
    using Cons.prems(1) by (auto simp: Option.bind_eq_Some_conv)
  have ok: ok "perform_all b cs s1 = Some (PS7_INIT_SUCCESS, s')"
    using Cons.prems(1) 1 by (auto simp: PS7_INIT_SUCCESS_def PS7_INIT_TIMEOUT_def split: if_splits)
  have s1: "same_in config (regs s1) (effect c (regs s))" "slcr_run (locked s1) cs = Some l"
    using perform_effect [OF 1 _ _ Cons.prems(4)] Cons.prems(2,3) by auto
  have "same_in config (regs s') (fold effect cs (regs s1)) \<and> locked s' = l"
    using Cons.IH [OF ok(2) _ _ s1(2)] Cons.prems(2,3) by simp
  with same_in_fold [OF s1(1)] show ?case by (simp, metis same_in_trans)
qed (simp add: same_in_def)

end

definition slcr_ok :: "ps7_cmd list \<Rightarrow> bool" where
  "slcr_ok cs \<longleftrightarrow> take 1 cs = [Write SLCR_UNLOCK 0xDF0D] \<and> slcr_run True cs = Some True"

lemma slcr_ok_run: "slcr_ok cs \<Longrightarrow> slcr_run l cs = Some True"
  by (cases cs) (auto simp: slcr_ok_def)

lemma slcr_ok_tables: "slcr_ok (ps7_commands 0)" "slcr_ok (ps7_commands 1)" "slcr_ok (ps7_commands 2)"
  by code_simp+

lemma slcr_run_commands: "slcr_run l (ps7_commands v) = Some True"
proof (cases "v = 0 \<or> v = 1")
  case True
  then show ?thesis using slcr_ok_tables slcr_ok_run by metis
next
  case False
  then have "ps7_commands v = ps7_commands 2"
    by (simp add: ps7_commands_def ps7_select_def PCW_SILICON_VERSION_1_def PCW_SILICON_VERSION_2_def)
  with slcr_ok_tables(3) slcr_ok_run show ?thesis by metis
qed

section \<open>A register file\<close>

text \<open>
  Storage with the lock: stores to locked control registers are ignored, the two key registers read
  as zero and the polled status registers read as ones.
\<close>

definition status_regs :: "u32 list" where
  "status_regs = [0xF800010C, 0xF8000B74, 0xF8006054]"

type_synonym slcr_state = "(u32 \<Rightarrow> u32) \<times> bool"

definition store_port :: "slcr_state port" where
  "store_port =
    \<lparr>ld = (\<lambda>a (R, l). (if a \<in> set status_regs then -1 else if a = SLCR_LOCK \<or> a = SLCR_UNLOCK then 0 else R a, (R, l))),
     st = (\<lambda>a v (R, l).
       if a = SLCR_UNLOCK then (R, l \<and> v \<noteq> 0xDF0D)
       else if a = SLCR_LOCK then (R, l \<or> v = 0x767B)
       else if l \<and> in_slcr a then (R, l)
       else (R(a := v), l))\<rparr>"

definition storage_bits :: "u32 \<Rightarrow> u32" where
  "storage_bits a = (if a \<in> set status_regs \<or> a = SLCR_LOCK \<or> a = SLCR_UNLOCK then 0 else -1)"

interpretation storage: register_file store_port storage_bits fst snd
  by unfold_locales (auto simp: store_port_def storage_bits_def same_in_def SLCR_LOCK_def SLCR_UNLOCK_def split: if_splits)

lemma store_port_polls: "a \<in> set status_regs \<Longrightarrow> m \<noteq> 0 \<Longrightarrow> poll_loop n store_port a m s = (True, s)"
  by (subst poll_loop.simps) (simp add: store_port_def split: prod.splits)

definition polls_status :: "ps7_cmd \<Rightarrow> bool" where
  "polls_status c = (case c of MaskPoll a m \<Rightarrow> a \<in> set status_regs \<and> m \<noteq> 0 | MaskDelay a m \<Rightarrow> False | _ \<Rightarrow> True)"

lemma store_port_succeeds: "\<forall>c \<in> set cs. polls_status c \<Longrightarrow> \<exists>s'. perform_all store_port cs s = Some (PS7_INIT_SUCCESS, s')"
proof (induction cs arbitrary: s)
  case (Cons c cs)
  obtain s1 where "perform store_port c s = Some (True, s1)"
    using Cons.prems store_port_polls by (cases c) (auto simp: polls_status_def)
  with Cons show ?case by simp
qed simp

lemma polled_registers: "list_all polls_status (ps7_commands 0)"
  by code_simp

section \<open>Properties\<close>

lemma ps7_init_returns:
  assumes "ps7GetSiliconVersion b s = (v, s1)"
  shows "\<exists>r s'. ps7_init u b s = Some (r, s') \<and> perform_all b (ps7_commands v) s1 = Some (r, s') \<and>
    (r = PS7_INIT_SUCCESS \<or> r = PS7_INIT_TIMEOUT)"
proof -
  have "ps7_init u b s = perform_all b (ps7_commands v) s1"
    unfolding ps7_init_commands assms by simp
  with perform_all_returns [OF ps7_commands_no_delay [of v], of b s1] show ?thesis by metis
qed

text \<open>C20. The initialisation of the processing system, for every silicon version and on every port with
  the following behaviour. Some bits of the registers, \<open>config\<close>, are storage: a load gives them
  and a store to a register that the tables write sets them; all other bits may do as they
  please, but do not change the storage. Writing the unlock key and the lock key to the two key
  registers, which hold nothing, unlocks and locks the system-level control registers; nothing is
  assumed of stores to these registers while they are locked. Then, whether they are locked at the start
  or not, the initialisation returns, with success or with a timeout but never with the code for
  corrupted tables; on success all storage bits hold exactly the effect of the commands of the tables of
  this version in order, and the control registers are locked again; the commands write the control
  registers only while these are unlocked, and use the key registers only with their keys.\<close>

theorem ps7_init_configures:
  assumes keys: "config SLCR_LOCK = 0" "config SLCR_UNLOCK = 0"
    and load: "\<And>a s v s'. ld b a s = (v, s') \<Longrightarrow>
      same_in config (regs s') (regs s) \<and> locked s' = locked s \<and> v AND config a = regs s a AND config a"
    and unlock: "\<And>s s'. s' = st b SLCR_UNLOCK 0xDF0D s \<Longrightarrow> same_in config (regs s') (regs s) \<and> \<not> locked s'"
    and lock: "\<And>s s'. s' = st b SLCR_LOCK 0x767B s \<Longrightarrow> same_in config (regs s') (regs s) \<and> locked s'"
    and store: "\<And>a v s s'. s' = st b a v s \<Longrightarrow> a \<in> written - {SLCR_LOCK, SLCR_UNLOCK} \<Longrightarrow> \<not> (locked s \<and> in_slcr a) \<Longrightarrow>
      same_in config (regs s') ((regs s)(a := v)) \<and> locked s' = locked s"
  shows "\<exists>r s'. ps7_init u b s = Some (r, s') \<and>
    (r = PS7_INIT_SUCCESS \<and> locked s' \<and>
       same_in config (regs s') (fold effect (ps7_commands (fst (ps7GetSiliconVersion b s))) (regs s))
     \<or> r = PS7_INIT_TIMEOUT) \<and>
    slcr_run (locked s) (ps7_commands (fst (ps7GetSiliconVersion b s))) = Some True"
proof -
  have rf: "register_file b config regs locked"
    by unfold_locales (fact keys, fact keys, fact load, fact unlock, fact lock, fact store)
  obtain v s1 where v: "ps7GetSiliconVersion b s = (v, s1)" by (cases "ps7GetSiliconVersion b s")
  obtain w s2 where "ld b 0xF8007080 s = (w, s2)" by (cases "ld b 0xF8007080 s")
  with v load have r1: "same_in config (regs s1) (regs s)" by (simp add: ps7GetSiliconVersion_def)
  obtain r s' where run: "ps7_init u b s = Some (r, s')" "perform_all b (ps7_commands v) s1 = Some (r, s')"
    "r = PS7_INIT_SUCCESS \<or> r = PS7_INIT_TIMEOUT"
    using ps7_init_returns [OF v, of u] by metis
  have "\<forall>c \<in> set (ps7_commands v). \<forall>a. target c = Some a \<longrightarrow> a \<in> written" by (auto simp: written_def)
  then have "same_in config (regs s') (fold effect (ps7_commands v) (regs s1)) \<and> locked s'" if "r = PS7_INIT_SUCCESS"
    using register_file.perform_all_effect [OF rf run(2) [unfolded that] ps7_commands_no_delay _ slcr_run_commands] by simp
  with run(1,3) slcr_run_commands [of _ v] same_in_fold [OF r1] show ?thesis
    unfolding v fst_conv by (metis same_in_trans)
qed

theorem ps7_init_configures_witness:
  "\<exists>R. ps7_init 0 store_port (\<lambda>_. 0, True) = Some (PS7_INIT_SUCCESS, (R, True)) \<and>
    same_in storage_bits R (fold effect (ps7_commands 0) (\<lambda>_. 0))"
proof -
  let ?z = "(\<lambda>_ :: u32. 0 :: u32, True)"
  have v: "ps7GetSiliconVersion store_port ?z = (0, ?z)"
    by (simp add: ps7GetSiliconVersion_def store_port_def status_regs_def)
  have "\<exists>r s'. ps7_init 0 store_port ?z = Some (r, s') \<and>
    (r = PS7_INIT_SUCCESS \<and> snd s' \<and>
       same_in storage_bits (fst s') (fold effect (ps7_commands (fst (ps7GetSiliconVersion store_port ?z))) (fst ?z))
     \<or> r = PS7_INIT_TIMEOUT) \<and>
    slcr_run (snd ?z) (ps7_commands (fst (ps7GetSiliconVersion store_port ?z))) = Some True"
    by (rule ps7_init_configures [where config = storage_bits and b = store_port and regs = fst and locked = snd and s = ?z and u = 0])
      (fact storage.keys, fact storage.keys, erule storage.load, erule storage.unlock, erule storage.lock, erule (2) storage.store)
  then obtain r s' where rs: "ps7_init 0 store_port ?z = Some (r, s')"
    "r = PS7_INIT_SUCCESS \<and> snd s' \<and> same_in storage_bits (fst s') (fold effect (ps7_commands 0) (\<lambda>_. 0)) \<or> r = PS7_INIT_TIMEOUT"
    unfolding v fst_conv by (elim exE conjE) metis
  obtain s2 where "perform_all store_port (ps7_commands 0) ?z = Some (PS7_INIT_SUCCESS, s2)"
    using store_port_succeeds [of "ps7_commands 0" ?z] polled_registers unfolding list_all_iff by metis
  then have "r = PS7_INIT_SUCCESS"
    using ps7_init_returns [OF v, of 0] rs(1) by (metis option.inject prod.inject)
  with rs show ?thesis unfolding PS7_INIT_SUCCESS_def PS7_INIT_TIMEOUT_def by (cases s') simp
qed

end
