(* ===== verification/Spec2Isabelle.thy ===== *)
theory Spec2Isabelle
  imports Prelude Rv_Insn Ripe_Attack Boot_Theorems Boot_Piton Bsp_Board Bsp_Trap App_Barrier App_Qsort App_Rsort App_Kernels App_Towers App_Mm App_Mains App_Data App_Hello App_Dhrystone App_Pmp Hw_Pmp App_Perf Ps7_Tables
begin

text \<open>
  Verification of the C software of the CVA6 soft-core repository: the RIPE attack suite that the
  core is tested with, the two boot ROMs, the board support package (BSP), the benchmark programs,
  and the initialisation of the processing system of the FPGA board. Each theory below
  models one component; paths are relative to \<open>src\<close>.

  \<^bold>\<open>The parts and how they interact.\<close> \<open>ps7_init\<close> configures clocks, memory controller and pins of
  the board. The boot ROM initialises the serial console, reads a partition table and an
  image from an SD card over SPI (OpenPiton: from memory-mapped blocks), and jumps to it.
  Programs are linked with the BSP: its C library ends in \<open>syscalls.c\<close>, which uses the
  serial driver, which registers interrupt handlers with the interrupt controller driver. The benchmarks
  run on the BSP and share \<open>util.h\<close>. RIPE runs on Zephyr: it builds a payload
  with a shellcode, overflows a buffer and checks whether control was diverted; the performance baseline
  beside it exercises the same stack and heap protections with ordinary calls.

  \<^bold>\<open>Conventions.\<close> Machine integers are words where wrap-around matters, with \<open>+\<close> and shifts as the
  code has them; otherwise numbers with explicit range checks. Registers, memory-mapped devices and
  cards are behind a bus or port: a pair of load and store functions on a device state, which the
  functions take as an argument. Fallible code returns an option or a sum: an error code of the source
  is a value, \<open>None\<close> stands for code that never returns or for an access outside of an array.
  Loops that may run forever are partial functions, and the theorems say that they return. Locales
  state what the code relies on; every locale is interpreted, on the model of the
  component that provides it or on an executable device model.

  \<^bold>\<open>Shared theories.\<close>
  \<^item> \<^emph>\<open>Prelude\<close>: machine integers, byte order, lemmas on words and lists.
  \<^item> \<^emph>\<open>Flat_Memory\<close>: byte-addressed memory; locale \<open>byte_memory\<close>.
  \<^item> \<^emph>\<open>Rv_Insn\<close>: decoding and execution of \<open>lui\<close>, \<open>addi\<close> and \<open>jalr\<close> as the simulator does it
    (\<open>tb/riscv-isa-sim/riscv\<close>).

  \<^bold>\<open>RIPE\<close> (\<open>zephyr-docker/workspace/ripe/src/ripe_attack_generator.c\<close> and its headers).
  \<^item> \<^emph>\<open>Ripe_Params\<close>: the attack forms and \<open>is_attack_possible\<close>; its cascade of early returns is
    equivalent to a table of rules.
  \<^item> \<^emph>\<open>Ripe_Shellcode\<close>: the generator works on strings of hexadecimal and binary digits; for
    every address the bytes it produces decode to instructions that jump there.
  \<^item> \<^emph>\<open>Ripe_Payload\<close>: \<open>build_payload\<close> and \<open>homebrew_memcpy\<close>; layout of the payload, equality with
    \<open>memcpy\<close>, the size check that wraps.
  \<^item> \<^emph>\<open>Ripe_Attack\<close>: \<open>perform_attack\<close> and \<open>try_attack\<close> on flat memory; a direct overflow of a
    stack buffer ends in a jump through the overwritten pointer.

  \<^bold>\<open>Boot ROMs\<close> (\<open>fpga/src/bootrom/src\<close>, \<open>openpiton/bootrom/linux/src\<close>).
  \<^item> \<^emph>\<open>Boot_Uart\<close>, \<^emph>\<open>Boot_Spi\<close>: console and SPI driver, with the locales \<open>uart_port\<close> and \<open>spi_port\<close>.
    The waits are unbounded in the code; the locales give a measure of how long a device stays busy.
  \<^item> \<^emph>\<open>Boot_Card\<close>, \<^emph>\<open>Boot_Sd\<close>, \<^emph>\<open>Boot_Gpt\<close>: the protocol of the card as the locale \<open>sd_card\<close>, the
    card driver with its checksums, the partition loader and \<open>main\<close>.
  \<^item> \<^emph>\<open>Boot_Sim\<close>: an executable platform that satisfies the contracts.
  \<^item> \<^emph>\<open>Boot_Theorems\<close>: the loader ends, copies the whole image to memory and jumps to it; the
    driver refines the abstract card; corrupted blocks are detected; numbers are printed in decimal.
  \<^item> \<^emph>\<open>Boot_Piton\<close>: the OpenPiton variant.

  \<^bold>\<open>Board support package\<close> (\<open>sw/bsp\<close>).
  \<^item> \<^emph>\<open>Bsp_Plic\<close>: \<open>plic.h\<close> over the register decoder \<open>plic_regmap.sv\<close> of the hardware; locale \<open>plic_port\<close>.
  \<^item> \<^emph>\<open>Bsp_Uart\<close>: \<open>uart.c\<close>, polled and by interrupts; locale \<open>board\<close>, with a sublocale that gives the
    contract of the console. The contract is that of \<open>apb_uart.vhd\<close>: the status bit only promises room for
    one byte, the transmitter interrupt room for 16 bytes once the FIFO is enabled, and changing the enable bit drops what
    has not been sent.
  \<^item> \<^emph>\<open>Bsp_Syscalls\<close>: \<open>syscalls.c\<close> and \<open>riscv_hal_stubs.c\<close>; what \<open>sbrk\<close> does to the break, and the
    error numbers of the calls that fail.
  \<^item> \<^emph>\<open>Bsp_Board\<close>: a board that keeps the contract, and the theorems: everything handed to the
    driver is sent in order (by interrupts, once \<open>UART_init\<close> has enabled the FIFO), received bytes are stored in
    order, the divisor is right. Refilling by interrupts while the FIFO is disabled loses bytes.
  \<^item> \<^emph>\<open>Bsp_Trap\<close>: the assembly of \<open>handlers.S\<close>, \<open>vectors.S\<close> and \<open>crt0.S\<close> as lists of instructions with an
    interpreter, and the trap entry of \<open>csr_regfile.sv\<close>; locale \<open>calling_convention\<close>, interpreted on the system
    calls. A trap restores all registers and resumes at the right place; which interrupts reach which
    handler; the calls that the start-up code makes, in order and with their arguments, and the state in which
    \<open>main\<close> starts, whether or not the calls return.

  \<^bold>\<open>Benchmarks\<close> (\<open>sw/app\<close>, \<open>zephyr-docker/workspace/perf_baseline\<close>).
  \<^item> \<^emph>\<open>App_Util\<close>: \<open>verify\<close>, \<open>lfsr\<close>, \<open>setStats\<close>. \<^emph>\<open>App_Barrier\<close>: the thread barrier as a step relation of
    interleaved threads; safety, the range of the counter and absence of deadlock by rule induction.
  \<^item> \<^emph>\<open>App_Qsort\<close>, \<^emph>\<open>App_Rsort\<close>: both sort, end, and stay inside of their arrays; quicksort's stack of 50
    entries suffices for all arrays of fewer than \<open>11 * 2 ^ 24\<close> elements.
  \<^item> \<^emph>\<open>App_Kernels\<close>: median, multiplication, vector additions, matrix and sparse products; the
    parallel ones for every interleaving. \<^emph>\<open>App_Mm\<close>: the blocked product equals the plain one over exact arithmetic.
  \<^item> \<^emph>\<open>App_Mains\<close>: the entry functions, from the warm-up run over the measured run to the comparison; locale
    \<open>result_kernel\<close>, interpreted on four kernels. The exit code is the first difference between what the
    kernel computes and the reference data, for the multi-core addition in every schedule; the driver of the
    blocked product passes its check. \<^emph>\<open>App_Data\<close>: the data of four programs, on which they return 0.
  \<^item> \<^emph>\<open>App_Hello\<close>: the demonstration program over the serial driver; locale \<open>draining_board\<close>.
  \<^item> \<^emph>\<open>App_Towers\<close>: the linked lists refine pegs; locale \<open>peg_machine\<close>; all moves are legal and
    there are \<open>2 ^ n - 1\<close> of them, when the counter of moves, a 32-bit \<open>int\<close>, can hold that many; otherwise it overflows.
  \<^item> \<^emph>\<open>App_Dhrystone\<close>: the benchmark ends with the values that it prints as the expected ones.
  \<^item> \<^emph>\<open>App_Pmp\<close>: the test of the memory protection, for both word lengths; locale \<open>conforming_core\<close>
    is the rule of the architecture, and the test passes on every core that follows it.
    \<^emph>\<open>Hw_Pmp\<close>: the protection unit and the page-table walk of the processor (\<open>src/pmp\<close>, \<open>src/ptw.sv\<close>,
    \<open>src/mmu.sv\<close>); locale \<open>permitting_core\<close>. The test passes on the 32-bit core without the memory management
    unit, its configuration, and fails on the 64-bit core with and without it.
  \<^item> \<^emph>\<open>App_Perf\<close>: the Zephyr performance baseline and the overflow of its seed.

  \<^bold>\<open>Processing system\<close> (\<open>fpga/xilinx/xlnx_processing_system7/ip/ps7_init.c\<close>).
  \<^item> \<^emph>\<open>Ps7_Config\<close>: the interpreter of command tables refines a list of commands, for every behaviour
    of the registers; its polls are bounded by \<open>PS7_MASK_POLL_TIME\<close> as in the source.
  \<^item> \<^emph>\<open>Ps7_Tables\<close>: the 21 tables and the entry points; locale \<open>register_file\<close>; the tables decode, contain
    no delay, and write the control registers only while these are unlocked. The contract of the hardware is about the
    storage bits of the registers and the lock; the two key registers hold nothing.

  \<^bold>\<open>Not modelled.\<close> The texts that programs
  print besides those of the console; the processor and the peripherals themselves (hardware
  descriptions, apart from the interrupt controller's registers, the trap entry and the memory protection and Sv39 translation of loads; a 32-bit core with the
  memory management unit is left out); the vendored simulator and its
  floating point library, the test bench in C++, the debug module; what the Zephyr build generates; images,
  and the data sets of the sorting programs, of \<open>mt-matmul\<close> and of \<open>spmv\<close> (the theorems hold for all data). Double precision arithmetic is a parameter: the theorems on
  numeric kernels hold for every arithmetic or, where they say so, for an exact one. Memory is sequentially consistent.
  The other copies of \<open>ps7_init.c\<close> (\<open>ps7_init_gpl.c\<close> and those under \<open>xlnx_processing_system7.srcs\<close>)
  repeat the modelled file.
\<close>

end
